(* ===== verification/Prelude.thy ===== *)
theory Prelude
  imports Main "HOL-Library.Word"
begin

text \<open>
  Shared vocabulary of the development.

  \<^item> Machine integers: the type synonyms \<open>u8\<close> to \<open>u128\<close>, and Rust's saturating
    operations on words with the lemmas that read them as natural numbers.
  \<^item> Fallible operations on a mutable receiver: a Rust method
    \<open>fn f(&mut self, ..) -> Result<T, E>\<close> is a function from the state to a pair of
    the state it leaves behind and a value of \<open>'e + 'a\<close>. The state is returned on the
    error path too, because the source may have written to it before it failed. The
    combinator \<open>and_then\<close> is the \<open>?\<close> operator on such pairs.
  \<^item> Lemmas on lists that are updated by index.
\<close>

section \<open>Machine integers\<close>

type_synonym u8 = "8 word"
type_synonym u16 = "16 word"
type_synonym u32 = "32 word"
type_synonym u64 = "64 word"
type_synonym u128 = "128 word"

type_synonym ProcessId = u64

named_theorems sat_arith \<open>saturating word operations read as naturals\<close>
named_theorems op_defs \<open>definitions of the small operations of a component\<close>

definition max_word_of :: "'a::len word" where
  "max_word_of = - 1"

definition saturating_add :: "'a::len word \<Rightarrow> 'a word \<Rightarrow> 'a word" where
  "saturating_add a b = (if unat a + unat b < 2 ^ LENGTH('a) then a + b else max_word_of)"

definition saturating_sub :: "'a::len word \<Rightarrow> 'a word \<Rightarrow> 'a word" where
  "saturating_sub a b = (if b \<le> a then a - b else 0)"

definition saturating_mul :: "'a::len word \<Rightarrow> 'a word \<Rightarrow> 'a word" where
  "saturating_mul a b = (if unat a * unat b < 2 ^ LENGTH('a) then a * b else max_word_of)"

lemma unat_max_word_of: "unat (max_word_of :: 'a::len word) = 2 ^ LENGTH('a) - 1"
proof -
  have "unat (max_word_of :: 'a word) = nat (uint (- 1 :: 'a word))"
    by (simp add: max_word_of_def)
  also have "\<dots> = nat (2 ^ LENGTH('a) - 1)"
    by (simp add: uint_word_ariths(4) zmod_minus1)
  also have "\<dots> = 2 ^ LENGTH('a) - 1"
    by (simp add: nat_diff_distrib nat_power_eq)
  finally show ?thesis .
qed

lemma le_max_word_of [simp]: "x \<le> (max_word_of :: 'a::len word)"
  by (simp add: max_word_of_def)

lemma unat_saturating_add [sat_arith]:
  "unat (saturating_add a b :: 'a::len word) = min (unat a + unat b) (2 ^ LENGTH('a) - 1)"
proof (cases "unat a + unat b < 2 ^ LENGTH('a)")
  case True
  then show ?thesis
    by (auto simp: saturating_add_def unat_word_ariths min_def)
next
  case False
  then show ?thesis
    by (auto simp: saturating_add_def unat_max_word_of min_def)
qed

lemma unat_saturating_sub [sat_arith]:
  "unat (saturating_sub a b :: 'a::len word) = unat a - unat b"
  by (auto simp: saturating_sub_def unat_sub word_le_nat_alt)

lemma unat_saturating_mul [sat_arith]:
  "unat (saturating_mul a b :: 'a::len word) = min (unat a * unat b) (2 ^ LENGTH('a) - 1)"
proof (cases "unat a * unat b < 2 ^ LENGTH('a)")
  case True
  then show ?thesis
    by (auto simp: saturating_mul_def unat_word_ariths min_def)
next
  case False
  then have "2 ^ LENGTH('a) - 1 \<le> unat a * unat b" by simp
  with False show ?thesis
    by (simp add: saturating_mul_def unat_max_word_of min_absorb2)
qed

text \<open>Executable forms that compare binary integers.\<close>

lemma saturating_add_code [code]:
  "saturating_add a b = (if uint a + uint b < 2 ^ LENGTH('a) then a + b else (max_word_of :: 'a::len word))"
proof -
  have "unat a + unat b < 2 ^ LENGTH('a) \<longleftrightarrow> int (unat a + unat b) < int (2 ^ LENGTH('a))"
    by (simp only: of_nat_less_iff)
  then show ?thesis by (simp add: saturating_add_def)
qed

lemma saturating_mul_code [code]:
  "saturating_mul a b = (if uint a * uint b < 2 ^ LENGTH('a) then a * b else (max_word_of :: 'a::len word))"
proof -
  have "unat a * unat b < 2 ^ LENGTH('a) \<longleftrightarrow> int (unat a * unat b) < int (2 ^ LENGTH('a))"
    by (simp only: of_nat_less_iff)
  then show ?thesis by (simp add: saturating_mul_def)
qed

lemma saturating_add_ge: "a \<le> saturating_add a b"
proof -
  have "unat a < 2 ^ LENGTH('a)" by simp
  then have "unat a \<le> 2 ^ LENGTH('a) - 1" by linarith
  then show ?thesis
    by (simp add: word_le_nat_alt unat_saturating_add)
qed

lemma word_of_nat_unat: "word_of_nat (unat x) = x"
  by simp

lemma unat_inj:
  fixes x y :: "'a::len word"
  assumes "unat x = unat y"
  shows "x = y"
proof -
  have "(word_of_nat (unat x) :: 'a word) = word_of_nat (unat y)" using assms by (rule arg_cong)
  then show ?thesis by simp
qed

text \<open>A counter that is not yet saturated counts.\<close>

lemma unat_saturating_inc:
  fixes x :: "'a::len word"
  assumes "x \<noteq> max_word_of"
  shows "unat (saturating_add x 1) = unat x + 1"
proof -
  have "unat x \<noteq> unat (max_word_of :: 'a word)" using assms unat_inj by blast
  then have "unat x \<noteq> 2 ^ LENGTH('a) - 1" by (simp add: unat_max_word_of)
  moreover have "unat x < 2 ^ LENGTH('a)" by simp
  ultimately have "unat x + 1 \<le> 2 ^ LENGTH('a) - 1" by linarith
  then show ?thesis by (simp add: unat_saturating_add)
qed

section \<open>Fallible operations on a mutable state\<close>

type_synonym ('s, 'e, 'a) op_result = "'s \<times> ('e + 'a)"

definition and_then ::
  "('s, 'e, 'a) op_result \<Rightarrow> ('s \<Rightarrow> 'a \<Rightarrow> ('s, 'e, 'b) op_result) \<Rightarrow> ('s, 'e, 'b) op_result" where
  "and_then r k = (case r of (s, Inl e) \<Rightarrow> (s, Inl e) | (s, Inr x) \<Rightarrow> k s x)"

abbreviation ok_unit :: "'e + unit" where
  "ok_unit \<equiv> Inr ()"

lemma and_then_Inl [simp]: "and_then (s, Inl e) k = (s, Inl e)"
  by (simp add: and_then_def)

lemma and_then_Inr [simp]: "and_then (s, Inr x) k = k s x"
  by (simp add: and_then_def)

lemma and_then_eq_Inr:
  "and_then r k = (s', Inr y) \<longleftrightarrow> (\<exists>s x. r = (s, Inr x) \<and> k s x = (s', Inr y))"
  by (cases r; cases "snd r") (auto simp: and_then_def)

lemma and_then_eq_Inl:
  "and_then r k = (s', Inl e) \<longleftrightarrow>
     r = (s', Inl e) \<or> (\<exists>s x. r = (s, Inr x) \<and> k s x = (s', Inl e))"
  by (cases r; cases "snd r") (auto simp: and_then_def)

lemma and_then_split:
  "P (and_then r k) \<longleftrightarrow>
     (\<forall>s e. r = (s, Inl e) \<longrightarrow> P (s, Inl e)) \<and> (\<forall>s x. r = (s, Inr x) \<longrightarrow> P (k s x))"
  by (cases r; cases "snd r") (auto simp: and_then_def)

text \<open>A state property kept by both halves is kept by the sequence.\<close>

lemma fst_and_then:
  assumes "Q (fst r)" and "\<And>s x. r = (s, Inr x) \<Longrightarrow> Q s \<Longrightarrow> Q (fst (k s x))"
  shows "Q (fst (and_then r k))"
  using assms by (cases r; cases "snd r") (auto simp: and_then_def)

definition ok_or :: "'e \<Rightarrow> 'a option \<Rightarrow> 'e + 'a" where
  "ok_or e x = (case x of None \<Rightarrow> Inl e | Some a \<Rightarrow> Inr a)"

lemma ok_or_simps [simp]: "ok_or e None = Inl e" "ok_or e (Some a) = Inr a"
  by (simp_all add: ok_or_def)

lemma ok_or_eq_Inr [simp]: "ok_or e x = Inr a \<longleftrightarrow> x = Some a"
  by (simp add: ok_or_def split: option.splits)

lemma ok_or_eq_Inl [simp]: "ok_or e x = Inl e' \<longleftrightarrow> x = None \<and> e' = e"
  by (auto simp: ok_or_def split: option.splits)

section \<open>Lists updated by index\<close>

lemma nth_update_split:
  "i < length xs \<Longrightarrow> xs[i := v] ! j = (if i = j then v else xs ! j)"
  by (simp add: nth_list_update)

lemma map_filter_eq_Nil_iff: "List.map_filter f xs = [] \<longleftrightarrow> (\<forall>x \<in> set xs. f x = None)"
  by (induction xs) (auto simp: List.map_filter_def)

lemma map_filter_append:
  "List.map_filter f (xs @ ys) = List.map_filter f xs @ List.map_filter f ys"
  by (simp add: List.map_filter_def)

lemma map_filter_cong_set:
  "(\<And>x. x \<in> set xs \<Longrightarrow> f x = g x) \<Longrightarrow> List.map_filter f xs = List.map_filter g xs"
  by (induction xs) (auto split: option.splits)

lemma set_map_filter: "set (List.map_filter f xs) = {y. \<exists>x \<in> set xs. f x = Some y}"
  by (induction xs) (auto split: option.splits)

end
