(* ===== verification/Slot_Table.thy ===== *)
theory Slot_Table
  imports Prelude
begin

text \<open>
  Fixed-capacity slot tables. Almost every table of the kernel is a Rust array
  \<open>[Option<T>; MAX]\<close> that is searched from index 0 upwards: for the first entry that
  satisfies a predicate (\<open>find_slot\<close>), for the first free index (\<open>free_slot\<close>), or
  to clear every entry that satisfies a predicate (\<open>clear_slots\<close>). A table is a list
  of options here and \<open>MAX\<close> is its length, which no operation changes.

  The interface \<open>keyed_table\<close> states what a component relies on when it keys such a
  table by an identifier: lookups after an insertion and a deletion, on an invariant that
  both keep. Its lemmas are proved once and used through the interpretations of the
  components.
\<close>

section \<open>Searching and clearing\<close>

type_synonym 'a slots = "'a option list"

fun find_slot :: "('a \<Rightarrow> bool) \<Rightarrow> 'a slots \<Rightarrow> nat option" where
  "find_slot P [] = None"
| "find_slot P (x # xs) =
     (case x of
        Some a \<Rightarrow> if P a then Some 0 else map_option Suc (find_slot P xs)
      | None \<Rightarrow> map_option Suc (find_slot P xs))"

fun free_slot :: "'a slots \<Rightarrow> nat option" where
  "free_slot [] = None"
| "free_slot (x # xs) = (if x = None then Some 0 else map_option Suc (free_slot xs))"

definition clear_slots :: "('a \<Rightarrow> bool) \<Rightarrow> 'a slots \<Rightarrow> 'a slots" where
  "clear_slots P xs =
     map (\<lambda>x. case x of Some a \<Rightarrow> if P a then None else Some a | None \<Rightarrow> None) xs"

definition slot_values :: "'a slots \<Rightarrow> 'a list" where
  "slot_values xs = List.map_filter id xs"

definition occupied :: "'a slots \<Rightarrow> nat" where
  "occupied xs = length (slot_values xs)"

lemma slot_values_simps [simp]:
  "slot_values [] = []"
  "slot_values (None # xs) = slot_values xs"
  "slot_values (Some a # xs) = a # slot_values xs"
  "slot_values (xs @ ys) = slot_values xs @ slot_values ys"
  "slot_values (replicate n None) = []"
  by (simp_all add: slot_values_def map_filter_append map_filter_eq_Nil_iff)

lemma set_slot_values [simp]: "a \<in> set (slot_values xs) \<longleftrightarrow> Some a \<in> set xs"
  by (auto simp: slot_values_def set_map_filter)

lemma find_slot_SomeD:
  assumes "find_slot P xs = Some i"
  shows "i < length xs" and "\<exists>a. xs ! i = Some a \<and> P a"
    and "\<And>j a. j < i \<Longrightarrow> xs ! j = Some a \<Longrightarrow> \<not> P a"
proof -
  have "i < length xs \<and> (\<exists>a. xs ! i = Some a \<and> P a) \<and>
      (\<forall>j < i. \<forall>a. xs ! j = Some a \<longrightarrow> \<not> P a)"
    using assms
    by (induction xs arbitrary: i) (auto simp: nth_Cons split: option.splits if_splits nat.splits)
  then show "i < length xs" and "\<exists>a. xs ! i = Some a \<and> P a"
    and "\<And>j a. j < i \<Longrightarrow> xs ! j = Some a \<Longrightarrow> \<not> P a" by auto
qed

lemma find_slot_None_iff: "find_slot P xs = None \<longleftrightarrow> (\<forall>a. Some a \<in> set xs \<longrightarrow> \<not> P a)"
  by (induction xs) (auto split: option.splits)

lemma find_slot_SomeE:
  assumes "find_slot P xs = Some i"
  obtains a where "i < length xs" "xs ! i = Some a" "P a"
  using find_slot_SomeD [OF assms] by blast

lemma find_slot_split:
  assumes "find_slot P xs = Some i"
  obtains ys a zs where "xs = ys @ Some a # zs" "length ys = i" "P a" "filter P (slot_values ys) = []"
proof -
  from assms obtain a where a: "i < length xs" "xs ! i = Some a" "P a" by (rule find_slot_SomeE)
  have "\<not> P b" if b: "Some b \<in> set (take i xs)" for b
  proof -
    from b obtain j where "j < i" "xs ! j = Some b" by (auto simp: in_set_conv_nth)
    then show ?thesis by (rule find_slot_SomeD(3) [OF assms])
  qed
  then have "filter P (slot_values (take i xs)) = []" by (simp add: filter_empty_conv)
  moreover have "xs = take i xs @ Some a # drop (Suc i) xs"
    using id_take_nth_drop [OF a(1)] a(2) by simp
  ultimately show thesis using a by (intro that [of "take i xs" a "drop (Suc i) xs"]) simp_all
qed

lemma free_slot_SomeD:
  assumes "free_slot xs = Some i"
  shows "i < length xs" and "xs ! i = None" and "\<And>j. j < i \<Longrightarrow> xs ! j \<noteq> None"
proof -
  have "i < length xs \<and> xs ! i = None \<and> (\<forall>j < i. xs ! j \<noteq> None)"
    using assms by (induction xs arbitrary: i) (auto simp: nth_Cons split: if_splits nat.splits)
  then show "i < length xs" and "xs ! i = None" and "\<And>j. j < i \<Longrightarrow> xs ! j \<noteq> None" by auto
qed

lemma free_slot_None_iff: "free_slot xs = None \<longleftrightarrow> None \<notin> set xs"
  by (induction xs) auto

lemma free_slot_full_append: "None \<notin> set xs \<Longrightarrow> free_slot (xs @ None # ys) = Some (length xs)"
  by (induction xs) (auto simp: eq_commute [of None])

lemma free_slot_replicate [simp]: "free_slot (replicate n None) = (if n = 0 then None else Some 0)"
  by (cases n) auto

lemma length_clear_slots [simp]: "length (clear_slots P xs) = length xs"
  by (simp add: clear_slots_def)

lemma nth_clear_slots:
  "i < length xs \<Longrightarrow> clear_slots P xs ! i = Some a \<longleftrightarrow> xs ! i = Some a \<and> \<not> P a"
  by (auto simp: clear_slots_def split: option.splits)

lemma Some_in_clear_slots [simp]:
  "Some a \<in> set (clear_slots P xs) \<longleftrightarrow> Some a \<in> set xs \<and> \<not> P a"
  by (induction xs) (auto simp: clear_slots_def split: option.splits if_splits)

lemma slot_values_clear: "slot_values (clear_slots P xs) = filter (\<lambda>a. \<not> P a) (slot_values xs)"
  by (induction xs) (auto simp: clear_slots_def slot_values_def split: option.splits)

lemma clear_slots_noop: "(\<And>a. Some a \<in> set xs \<Longrightarrow> \<not> P a) \<Longrightarrow> clear_slots P xs = xs"
  by (induction xs) (auto simp: clear_slots_def split: option.splits)

lemma Some_in_set_update:
  "i < length xs \<Longrightarrow>
     Some a \<in> set (xs[i := v]) \<longleftrightarrow> v = Some a \<or> (\<exists>j < length xs. j \<noteq> i \<and> xs ! j = Some a)"
  by (auto simp: in_set_conv_nth nth_list_update)

lemma Some_in_set_insert:
  "free_slot xs = Some i \<Longrightarrow> Some a \<in> set (xs[i := Some b]) \<longleftrightarrow> a = b \<or> Some a \<in> set xs"
  using free_slot_SomeD(1,2) [of xs i]
  by (auto simp: in_set_conv_nth nth_list_update) (metis option.distinct(1))

lemma occupied_le: "occupied xs \<le> length xs"
  by (induction xs) (auto simp: occupied_def slot_values_def split: option.splits)

lemma occupied_full_iff: "occupied xs = length xs \<longleftrightarrow> None \<notin> set xs"
proof (induction xs)
  case Nil
  then show ?case by (simp add: occupied_def)
next
  case (Cons x xs)
  then show ?case
    using occupied_le [of xs] by (cases x) (auto simp: occupied_def)
qed

lemma occupied_update:
  "i < length xs \<Longrightarrow>
     occupied (xs[i := v]) + (if xs ! i = None then 0 else 1) =
     occupied xs + (if v = None then 0 else 1)"
proof (induction xs arbitrary: i)
  case Nil
  then show ?case by simp
next
  case (Cons x xs)
  then show ?case
    by (cases i; cases x; cases v) (auto simp: occupied_def)
qed

section \<open>Tables keyed by an identifier\<close>

definition unique_keys :: "('a \<Rightarrow> 'k) \<Rightarrow> 'a slots \<Rightarrow> bool" where
  "unique_keys key xs \<longleftrightarrow>
     (\<forall>i < length xs. \<forall>j < length xs. \<forall>a b.
        xs ! i = Some a \<longrightarrow> xs ! j = Some b \<longrightarrow> key a = key b \<longrightarrow> i = j)"

definition slot_lookup :: "('a \<Rightarrow> 'k) \<Rightarrow> 'a slots \<Rightarrow> 'k \<Rightarrow> 'a option" where
  "slot_lookup key xs k =
     (case find_slot (\<lambda>a. key a = k) xs of Some i \<Rightarrow> xs ! i | None \<Rightarrow> None)"

lemma unique_keysD:
  "unique_keys key xs \<Longrightarrow> i < length xs \<Longrightarrow> j < length xs \<Longrightarrow>
     xs ! i = Some a \<Longrightarrow> xs ! j = Some b \<Longrightarrow> key a = key b \<Longrightarrow> i = j"
  by (simp add: unique_keys_def)

lemma unique_keys_values_eq:
  assumes "unique_keys key xs" "Some a \<in> set xs" "Some b \<in> set xs" "key a = key b"
  shows "a = b"
proof -
  from assms(2,3) obtain i j where ij: "i < length xs" "xs ! i = Some a" "j < length xs" "xs ! j = Some b"
    by (auto simp: in_set_conv_nth)
  with assms(1,4) have "i = j" by (auto dest: unique_keysD)
  with ij show ?thesis by simp
qed

lemma unique_keys_Cons:
  "unique_keys key (x # xs) \<longleftrightarrow>
     unique_keys key xs \<and> (\<forall>a b. x = Some a \<longrightarrow> Some b \<in> set xs \<longrightarrow> key b \<noteq> key a)"
    (is "?l \<longleftrightarrow> ?r")
proof
  assume l: ?l
  show ?r
  proof (intro conjI allI impI)
    show "unique_keys key xs"
      unfolding unique_keys_def using unique_keysD [OF l, of "Suc _" "Suc _"] by simp
    fix a b assume "x = Some a" "Some b \<in> set xs"
    then show "key b \<noteq> key a"
      using unique_keysD [OF l, of 0 "Suc _" a b] by (auto simp: in_set_conv_nth)
  qed
next
  assume r: ?r
  show ?l unfolding unique_keys_def
  proof (intro allI impI)
    fix i j a b
    assume "i < length (x # xs)" "j < length (x # xs)" "(x # xs) ! i = Some a"
      "(x # xs) ! j = Some b" "key a = key b"
    with r show "i = j"
      by (cases i; cases j) (force simp: in_set_conv_nth dest: unique_keysD)+
  qed
qed

lemma unique_keys_code [code]: "unique_keys key xs \<longleftrightarrow> distinct (map key (slot_values xs))"
proof (induction xs)
  case (Cons x xs)
  show ?case
  proof (cases x)
    case (Some a)
    have "(\<forall>b. Some b \<in> set xs \<longrightarrow> key b \<noteq> key a) \<longleftrightarrow> key a \<notin> key ` set (slot_values xs)"
      unfolding image_iff Bex_def set_slot_values by (simp add: eq_commute)
    with Cons Some show ?thesis by (simp add: unique_keys_Cons conj_commute)
  qed (use Cons in \<open>simp add: unique_keys_Cons\<close>)
qed (simp add: unique_keys_def)

lemma unique_keys_replicate [simp]: "unique_keys key (replicate n None)"
  by (simp add: unique_keys_def)

lemma unique_keys_clear [intro]: "unique_keys key xs \<Longrightarrow> unique_keys key (clear_slots P xs)"
  unfolding unique_keys_def by (simp add: nth_clear_slots)

lemma unique_keys_update_None [intro]: "unique_keys key xs \<Longrightarrow> unique_keys key (xs[i := None])"
  by (cases "i < length xs") (auto simp: unique_keys_def nth_list_update list_update_beyond)

lemma unique_keys_update_fresh:
  assumes u: "unique_keys key xs"
    and fresh: "\<And>j b. j < length xs \<Longrightarrow> j \<noteq> i \<Longrightarrow> xs ! j = Some b \<Longrightarrow> key b \<noteq> key a"
  shows "unique_keys key (xs[i := Some a])"
proof (cases "i < length xs")
  case True
  show ?thesis
    unfolding unique_keys_def
  proof (intro allI impI)
    fix p q c d
    assume "p < length (xs[i := Some a])" "q < length (xs[i := Some a])"
      and c: "xs[i := Some a] ! p = Some c" and d: "xs[i := Some a] ! q = Some d"
      and "key c = key d"
    then show "p = q"
      using True u fresh [of p c] fresh [of q d]
      by (cases "p = i"; cases "q = i") (auto dest: unique_keysD)
  qed
next
  case False
  with u show ?thesis by (simp add: list_update_beyond)
qed

lemma unique_keys_update_same:
  assumes "unique_keys key xs" "i < length xs" "xs ! i = Some b" "key a = key b"
  shows "unique_keys key (xs[i := Some a])"
  using assms by (intro unique_keys_update_fresh) (auto dest: unique_keysD)

lemma slot_lookup_SomeE:
  assumes "slot_lookup key xs k = Some a"
  obtains i where "find_slot (\<lambda>a. key a = k) xs = Some i" "i < length xs" "xs ! i = Some a"
    "key a = k"
proof -
  from assms obtain i where f: "find_slot (\<lambda>a. key a = k) xs = Some i" and a: "xs ! i = Some a"
    by (auto simp: slot_lookup_def split: option.splits)
  with find_slot_SomeD(1,2) [OF f] that show ?thesis by auto
qed

lemma slot_lookup_in_set: "slot_lookup key xs k = Some a \<Longrightarrow> Some a \<in> set xs \<and> key a = k"
  by (erule slot_lookup_SomeE) (metis nth_mem)

lemma slot_lookup_None_iff: "slot_lookup key xs k = None \<longleftrightarrow> (\<forall>a. Some a \<in> set xs \<longrightarrow> key a \<noteq> k)"
proof (cases "find_slot (\<lambda>a. key a = k) xs")
  case None
  then show ?thesis
    by (simp add: slot_lookup_def) (simp add: find_slot_None_iff)
next
  case (Some i)
  then obtain a where "i < length xs" "xs ! i = Some a" "key a = k"
    by (rule find_slot_SomeE)
  with Some show ?thesis
    by (auto simp: slot_lookup_def) (metis nth_mem)
qed

lemma slot_lookup_None_memD: "slot_lookup key xs k = None \<Longrightarrow> Some a \<in> set xs \<Longrightarrow> key a \<noteq> k"
  by (simp add: slot_lookup_None_iff)

lemma slot_lookup_eq_Some_iff:
  assumes "unique_keys key xs"
  shows "slot_lookup key xs k = Some a \<longleftrightarrow> Some a \<in> set xs \<and> key a = k"
proof
  assume "slot_lookup key xs k = Some a"
  then show "Some a \<in> set xs \<and> key a = k" by (rule slot_lookup_in_set)
next
  assume a: "Some a \<in> set xs \<and> key a = k"
  then obtain b where b: "slot_lookup key xs k = Some b"
    using slot_lookup_None_iff [of key xs k] by auto
  from slot_lookup_in_set [OF b] a have "a = b"
    by (intro unique_keys_values_eq [OF assms]) auto
  with b show "slot_lookup key xs k = Some a" by simp
qed

lemma slot_lookup_replicate [simp]: "slot_lookup key (replicate n None) k = None"
  by (simp add: slot_lookup_None_iff)

text \<open>
  A table with unique keys denotes the map whose graph is the set of its entries; the
  following rule reduces an equation between maps to one between entry sets.
\<close>

lemma slot_lookup_eqI:
  assumes u: "unique_keys key ys"
    and m: "\<And>k c. m k = Some c \<longleftrightarrow> Some c \<in> set ys \<and> key c = k"
  shows "slot_lookup key ys = m"
proof
  fix k
  have "slot_lookup key ys k = Some c \<longleftrightarrow> m k = Some c" for c
    using slot_lookup_eq_Some_iff [OF u] m by blast
  then show "slot_lookup key ys k = m k"
    by (cases "m k"; cases "slot_lookup key ys k") auto
qed

lemma slot_lookup_insert:
  assumes u: "unique_keys key xs" and f: "free_slot xs = Some i"
    and fresh: "slot_lookup key xs (key a) = None"
  shows "slot_lookup key (xs[i := Some a]) = (slot_lookup key xs)(key a \<mapsto> a)"
    and "unique_keys key (xs[i := Some a])"
proof -
  show u': "unique_keys key (xs[i := Some a])"
    using u
  proof (rule unique_keys_update_fresh)
    fix j b
    assume "j < length xs" "xs ! j = Some b"
    then have "Some b \<in> set xs" by (metis nth_mem)
    with fresh show "key b \<noteq> key a" by (rule slot_lookup_None_memD)
  qed
  show "slot_lookup key (xs[i := Some a]) = (slot_lookup key xs)(key a \<mapsto> a)"
  proof (rule slot_lookup_eqI [OF u'])
    fix k c
    show "((slot_lookup key xs)(key a \<mapsto> a)) k = Some c \<longleftrightarrow>
        Some c \<in> set (xs[i := Some a]) \<and> key c = k"
      using fresh
      by (auto simp: Some_in_set_insert [OF f] slot_lookup_eq_Some_iff [OF u] slot_lookup_None_iff)
  qed
qed

lemma other_slot_iff:
  assumes u: "unique_keys key xs" and i: "i < length xs" "xs ! i = Some b"
  shows "(\<exists>j < length xs. j \<noteq> i \<and> xs ! j = Some c) \<longleftrightarrow> Some c \<in> set xs \<and> key c \<noteq> key b"
proof
  assume "\<exists>j < length xs. j \<noteq> i \<and> xs ! j = Some c"
  then show "Some c \<in> set xs \<and> key c \<noteq> key b"
    using u i by (metis nth_mem unique_keysD)
next
  assume c: "Some c \<in> set xs \<and> key c \<noteq> key b"
  then obtain j where "j < length xs" "xs ! j = Some c" by (auto simp: in_set_conv_nth)
  moreover from this c i have "j \<noteq> i" by auto
  ultimately show "\<exists>j < length xs. j \<noteq> i \<and> xs ! j = Some c" by blast
qed

lemma Some_in_replaced:
  assumes "unique_keys key xs" "i < length xs" "xs ! i = Some b"
  shows "Some c \<in> set (xs[i := v]) \<longleftrightarrow> v = Some c \<or> (Some c \<in> set xs \<and> key c \<noteq> key b)"
  using other_slot_iff [OF assms] assms(2) by (simp add: Some_in_set_update)

lemma slot_lookup_replace:
  assumes u: "unique_keys key xs" and i: "i < length xs" "xs ! i = Some b" and k: "key a = key b"
  shows "slot_lookup key (xs[i := Some a]) = (slot_lookup key xs)(key a \<mapsto> a)"
proof (rule slot_lookup_eqI)
  show "unique_keys key (xs[i := Some a])"
    using assms by (rule unique_keys_update_same)
  fix k' c
  show "((slot_lookup key xs)(key a \<mapsto> a)) k' = Some c \<longleftrightarrow>
      Some c \<in> set (xs[i := Some a]) \<and> key c = k'"
    using k by (auto simp: Some_in_replaced [OF u i] slot_lookup_eq_Some_iff [OF u])
qed

lemma slot_lookup_update_None:
  assumes u: "unique_keys key xs" and i: "i < length xs" "xs ! i = Some b"
  shows "slot_lookup key (xs[i := None]) = (slot_lookup key xs)(key b := None)"
proof (rule slot_lookup_eqI)
  show "unique_keys key (xs[i := None])"
    using u by (rule unique_keys_update_None)
  fix k c
  show "((slot_lookup key xs)(key b := None)) k = Some c \<longleftrightarrow>
      Some c \<in> set (xs[i := None]) \<and> key c = k"
    by (auto simp: Some_in_replaced [OF u i] slot_lookup_eq_Some_iff [OF u])
qed

lemma slot_lookup_clear:
  assumes u: "unique_keys key xs"
  shows "slot_lookup key (clear_slots P xs) =
     (\<lambda>k. case slot_lookup key xs k of Some a \<Rightarrow> if P a then None else Some a | None \<Rightarrow> None)"
proof (rule slot_lookup_eqI)
  show "unique_keys key (clear_slots P xs)"
    using u by (rule unique_keys_clear)
  fix k c
  show "(case slot_lookup key xs k of Some a \<Rightarrow> if P a then None else Some a | None \<Rightarrow> None) = Some c
      \<longleftrightarrow> Some c \<in> set (clear_slots P xs) \<and> key c = k"
    using slot_lookup_eq_Some_iff [OF u, of k c]
    by (cases "slot_lookup key xs k") auto
qed

section \<open>The interface of a keyed table\<close>

text \<open>
  A sequence of registrations and removals, run against a table (\<open>None\<close> when a
  registration is refused) and against the map it stands for.
\<close>

datatype ('k, 'a) table_op = Put 'k 'a | Drop 'k

fun table_op_key :: "('k, 'a) table_op \<Rightarrow> 'k" where
  "table_op_key (Put k a) = k"
| "table_op_key (Drop k) = k"

fun run_table ::
  "('s \<Rightarrow> 'k \<Rightarrow> 'a \<Rightarrow> 's option) \<Rightarrow> ('s \<Rightarrow> 'k \<Rightarrow> 's) \<Rightarrow> 's \<Rightarrow> ('k, 'a) table_op list \<Rightarrow> 's option"
where
  "run_table put drp s [] = Some s"
| "run_table put drp s (Put k a # ops) =
     (case put s k a of None \<Rightarrow> None | Some s' \<Rightarrow> run_table put drp s' ops)"
| "run_table put drp s (Drop k # ops) = run_table put drp (drp s k) ops"

fun run_map :: "('k \<Rightarrow> 'a \<Rightarrow> 'v) \<Rightarrow> ('k \<rightharpoonup> 'v) \<Rightarrow> ('k, 'a) table_op list \<Rightarrow> ('k \<rightharpoonup> 'v)" where
  "run_map mk m [] = m"
| "run_map mk m (Put k a # ops) = run_map mk (m(k \<mapsto> mk k a)) ops"
| "run_map mk m (Drop k # ops) = run_map mk (m(k := None)) ops"

lemma run_map_frame: "k \<notin> table_op_key ` set ops \<Longrightarrow> run_map mk m ops k = m k"
  by (induction mk m ops rule: run_map.induct) auto

locale keyed_table =
  fixes lookup :: "'s \<Rightarrow> 'k \<Rightarrow> 'v option"
    and put :: "'s \<Rightarrow> 'k \<Rightarrow> 'a \<Rightarrow> 's option"
    and drp :: "'s \<Rightarrow> 'k \<Rightarrow> 's"
    and mk :: "'k \<Rightarrow> 'a \<Rightarrow> 'v"
    and invar :: "'s \<Rightarrow> bool"
  assumes lookup_put: "invar s \<Longrightarrow> put s k a = Some s' \<Longrightarrow> lookup s' = (lookup s)(k \<mapsto> mk k a)"
    and invar_put: "invar s \<Longrightarrow> put s k a = Some s' \<Longrightarrow> invar s'"
    and lookup_drop: "invar s \<Longrightarrow> lookup (drp s k) = (lookup s)(k := None)"
    and invar_drop: "invar s \<Longrightarrow> invar (drp s k)"
begin

lemma run_refines_map:
  assumes "invar s" and "run_table put drp s ops = Some s'"
  shows "invar s' \<and> lookup s' = run_map mk (lookup s) ops"
  using assms
proof (induction ops arbitrary: s)
  case Nil
  then show ?case by simp
next
  case (Cons op ops)
  show ?case
  proof (cases op)
    case (Put k a)
    with Cons.prems obtain t where t: "put s k a = Some t" "run_table put drp t ops = Some s'"
      by (auto split: option.splits)
    note lookup_put [OF Cons.prems(1) t(1)]
    with Cons.IH [OF invar_put [OF Cons.prems(1) t(1)] t(2)] Put show ?thesis
      by (simp del: fun_upd_apply)
  next
    case (Drop k)
    note lookup_drop [OF Cons.prems(1), of k]
    with Cons.IH [OF invar_drop [OF Cons.prems(1)], of k] Cons.prems(2) Drop show ?thesis
      by (simp del: fun_upd_apply)
  qed
qed

lemma run_frame:
  assumes "invar s" and "run_table put drp s ops = Some s'" and "k \<notin> table_op_key ` set ops"
  shows "lookup s' k = lookup s k"
  using run_refines_map [OF assms(1,2)] run_map_frame [OF assms(3)] by simp

lemma run_last_put:
  assumes "invar s" and "run_table put drp s (ops @ Put k a # ops') = Some s'"
    and "k \<notin> table_op_key ` set ops'"
  shows "lookup s' k = Some (mk k a)"
proof -
  have "run_map mk m (ops @ Put k a # ops') k = Some (mk k a)" for m
    using assms(3) by (induction mk m ops rule: run_map.induct) (simp_all add: run_map_frame)
  then show ?thesis using run_refines_map [OF assms(1,2)] by simp
qed

lemma run_last_drop:
  assumes "invar s" and "run_table put drp s (ops @ Drop k # ops') = Some s'"
    and "k \<notin> table_op_key ` set ops'"
  shows "lookup s' k = None"
proof -
  have "run_map mk m (ops @ Drop k # ops') k = None" for m
    using assms(3) by (induction mk m ops rule: run_map.induct) (simp_all add: run_map_frame)
  then show ?thesis using run_refines_map [OF assms(1,2)] by simp
qed

end

end
