(* ===== verification/Security_Labels.thy ===== *)
theory Security_Labels
  imports Prelude
begin

text \<open>
  The vocabulary of the security broker (\<open>src/subkernel/mod.rs\<close>, first half): security
  labels and the dominance test, capability objects, capability rights as a 16-bit mask,
  the coarse capability set as a 32-bit mask, credentials and task domains.

  The lemmas read the masks as sets of bits: a right is contained when its bit is set, a
  mask contains another when its bits do. Dominance of labels and containment of masks
  are partial orders, which the theorems on delegation rest on.
\<close>

unbundle bit_operations_syntax

section \<open>Labels\<close>

datatype SecurityLevel = LevelPublic | LevelInternal | LevelConfidential | LevelSystem

fun level_as_u8 :: "SecurityLevel \<Rightarrow> u8" where
  "level_as_u8 LevelPublic = 0"
| "level_as_u8 LevelInternal = 1"
| "level_as_u8 LevelConfidential = 2"
| "level_as_u8 LevelSystem = 3"

record SecurityLabel =
  lbl_level :: SecurityLevel
  lbl_categories :: u32

definition label_public :: SecurityLabel where
  "label_public = \<lparr>lbl_level = LevelPublic, lbl_categories = 0\<rparr>"

definition label_internal :: SecurityLabel where
  "label_internal = \<lparr>lbl_level = LevelInternal, lbl_categories = 0\<rparr>"

definition label_confidential :: SecurityLabel where
  "label_confidential = \<lparr>lbl_level = LevelConfidential, lbl_categories = 0\<rparr>"

definition label_system :: SecurityLabel where
  "label_system = \<lparr>lbl_level = LevelSystem, lbl_categories = max_word_of\<rparr>"

definition dominates :: "SecurityLabel \<Rightarrow> SecurityLabel \<Rightarrow> bool" where
  "dominates self other \<longleftrightarrow>
     level_as_u8 (lbl_level other) \<le> level_as_u8 (lbl_level self) \<and>
     (lbl_categories self AND lbl_categories other) = lbl_categories other"

datatype SecurityClass = ClassPublic | ClassInternal | ClassConfidential | ClassSystem

fun as_label :: "SecurityClass \<Rightarrow> SecurityLabel" where
  "as_label ClassPublic = label_public"
| "as_label ClassInternal = label_internal"
| "as_label ClassConfidential = label_confidential"
| "as_label ClassSystem = label_system"

datatype IsolationLevel = IsoNone | IsoProcess | IsoVirtualMachine

section \<open>Capability objects and rights\<close>

type_synonym CapabilityId = u64

datatype CapabilityObject =
    IpcEndpoint ProcessId
  | IrqLine u16
  | DmaRegion u64 u64
  | PciDevice u64
  | MmioRegion u64 u64
  | VramRegion u64 u64
  | Framebuffer u64 u64
  | HotplugController u64
  | BlockDeviceRegistry
  | DisplayRegistry
  | FsObject u64
  | ServiceControl
  | ModuleLoad
  | ProcessHandle ProcessId
  | MemoryObject u64

datatype CapabilityRight =
    RightRead | RightWrite | RightSend | RightReceive | RightControl | RightTransfer | RightRevoke

fun right_flag :: "CapabilityRight \<Rightarrow> u16" where
  "right_flag RightRead = 1"
| "right_flag RightWrite = 2"
| "right_flag RightSend = 4"
| "right_flag RightReceive = 8"
| "right_flag RightControl = 16"
| "right_flag RightTransfer = 32"
| "right_flag RightRevoke = 64"

record CapabilityRights =
  rights_flags :: u16

definition rights_new :: "u16 \<Rightarrow> CapabilityRights" where
  "rights_new f = \<lparr>rights_flags = f\<rparr>"

definition rights_none :: CapabilityRights where
  "rights_none = rights_new 0"

definition rights_all :: CapabilityRights where
  "rights_all = rights_new (right_flag RightRead OR right_flag RightWrite OR right_flag RightSend
     OR right_flag RightReceive OR right_flag RightControl OR right_flag RightTransfer
     OR right_flag RightRevoke)"

definition rights_io :: CapabilityRights where
  "rights_io = rights_new (right_flag RightRead OR right_flag RightWrite
     OR right_flag RightControl OR right_flag RightTransfer OR right_flag RightRevoke)"

definition rights_ipc_endpoint :: CapabilityRights where
  "rights_ipc_endpoint = rights_new (right_flag RightSend OR right_flag RightReceive
     OR right_flag RightTransfer OR right_flag RightRevoke)"

definition rights_service_control :: CapabilityRights where
  "rights_service_control = rights_new (right_flag RightControl OR right_flag RightTransfer
     OR right_flag RightRevoke)"

definition rights_memory :: CapabilityRights where
  "rights_memory = rights_new (right_flag RightRead OR right_flag RightWrite
     OR right_flag RightControl OR right_flag RightTransfer OR right_flag RightRevoke)"

definition rights_process_control :: CapabilityRights where
  "rights_process_control = rights_new (right_flag RightControl OR right_flag RightTransfer
     OR right_flag RightRevoke)"

definition rights_with :: "CapabilityRights \<Rightarrow> CapabilityRight \<Rightarrow> CapabilityRights" where
  "rights_with self r = self\<lparr>rights_flags := rights_flags self OR right_flag r\<rparr>"

definition rights_without :: "CapabilityRights \<Rightarrow> CapabilityRight \<Rightarrow> CapabilityRights" where
  "rights_without self r = self\<lparr>rights_flags := rights_flags self AND NOT (right_flag r)\<rparr>"

definition rights_contains :: "CapabilityRights \<Rightarrow> CapabilityRight \<Rightarrow> bool" where
  "rights_contains self r \<longleftrightarrow> (rights_flags self AND right_flag r) \<noteq> 0"

definition rights_contains_all :: "CapabilityRights \<Rightarrow> CapabilityRights \<Rightarrow> bool" where
  "rights_contains_all self requested \<longleftrightarrow>
     (rights_flags self AND rights_flags requested) = rights_flags requested"

definition inherited_child :: "CapabilityRights \<Rightarrow> CapabilityRights" where
  "inherited_child self = rights_without self RightRevoke"

record CapabilityRecord =
  cap_id :: CapabilityId
  cap_owner :: ProcessId
  cap_object :: CapabilityObject
  cap_rights :: CapabilityRights
  cap_parent :: "CapabilityId option"

section \<open>The coarse capability set\<close>

record CapabilitySet =
  capset_flags :: u32

definition CAP_IPC :: u32 where "CAP_IPC = 1"
definition CAP_SPAWN :: u32 where "CAP_SPAWN = 2"
definition CAP_KERNEL :: u32 where "CAP_KERNEL = 4"
definition CAP_IO :: u32 where "CAP_IO = 8"

definition capset_new :: "u32 \<Rightarrow> CapabilitySet" where
  "capset_new f = \<lparr>capset_flags = f\<rparr>"

definition capset_none :: CapabilitySet where
  "capset_none = capset_new 0"

definition capset_full :: CapabilitySet where
  "capset_full = capset_new (CAP_IPC OR CAP_SPAWN OR CAP_KERNEL OR CAP_IO)"

definition capset_ipc :: CapabilitySet where
  "capset_ipc = capset_new CAP_IPC"

definition capset_ipc_io :: CapabilitySet where
  "capset_ipc_io = capset_new (CAP_IPC OR CAP_IO)"

definition allows_ipc :: "CapabilitySet \<Rightarrow> bool" where
  "allows_ipc self \<longleftrightarrow> (capset_flags self AND CAP_IPC) \<noteq> 0"

definition allows_spawn :: "CapabilitySet \<Rightarrow> bool" where
  "allows_spawn self \<longleftrightarrow> (capset_flags self AND CAP_SPAWN) \<noteq> 0"

definition allows_kernel_access :: "CapabilitySet \<Rightarrow> bool" where
  "allows_kernel_access self \<longleftrightarrow> (capset_flags self AND CAP_KERNEL) \<noteq> 0"

definition allows_io :: "CapabilitySet \<Rightarrow> bool" where
  "allows_io self \<longleftrightarrow> (capset_flags self AND CAP_IO) \<noteq> 0"

definition capset_contains :: "CapabilitySet \<Rightarrow> CapabilitySet \<Rightarrow> bool" where
  "capset_contains self requested \<longleftrightarrow>
     (capset_flags self AND capset_flags requested) = capset_flags requested"

section \<open>Credentials and task domains\<close>

definition MAX_SUPPLEMENTARY_GROUPS :: nat where
  "MAX_SUPPLEMENTARY_GROUPS = 16"

record Credentials =
  cr_label :: SecurityLabel
  cr_capabilities :: CapabilitySet
  cr_isolation :: IsolationLevel
  cr_uid :: u16
  cr_euid :: u16
  cr_gid :: u16
  cr_egid :: u16
  cr_supplementary_groups :: "u16 list"
  cr_supplementary_group_count :: nat

definition with_unix_credentials ::
  "SecurityLabel \<Rightarrow> CapabilitySet \<Rightarrow> IsolationLevel \<Rightarrow> u16 \<Rightarrow> u16 \<Rightarrow> u16 \<Rightarrow> u16 \<Rightarrow> u16 list \<Rightarrow> nat \<Rightarrow>
     Credentials" where
  "with_unix_credentials label caps isol uid euid gid egid groups count =
     \<lparr>cr_label = label, cr_capabilities = caps, cr_isolation = isol, cr_uid = uid, cr_euid = euid,
      cr_gid = gid, cr_egid = egid, cr_supplementary_groups = groups,
      cr_supplementary_group_count = count\<rparr>"

definition credentials_new :: "SecurityLabel \<Rightarrow> CapabilitySet \<Rightarrow> IsolationLevel \<Rightarrow> Credentials" where
  "credentials_new label caps isol =
     (let uid = (case lbl_level label of LevelSystem \<Rightarrow> 0 | _ \<Rightarrow> 1000)
      in with_unix_credentials label caps isol uid uid uid uid
           (replicate MAX_SUPPLEMENTARY_GROUPS 0) 0)"

definition credentials_system :: Credentials where
  "credentials_system = with_unix_credentials label_system capset_full IsoProcess 0 0 0 0
     (replicate MAX_SUPPLEMENTARY_GROUPS 0) 0"

definition credentials_user :: Credentials where
  "credentials_user = with_unix_credentials label_internal capset_ipc IsoNone 1000 1000 1000 1000
     (replicate MAX_SUPPLEMENTARY_GROUPS 0) 0"

record TaskDomain =
  dom_pid :: ProcessId
  dom_label :: SecurityLabel
  dom_capabilities :: CapabilitySet
  dom_isolation :: IsolationLevel
  dom_uid :: u16
  dom_euid :: u16
  dom_gid :: u16
  dom_egid :: u16
  dom_supplementary_groups :: "u16 list"
  dom_supplementary_group_count :: nat
  dom_quarantine_events :: u32

definition from_credentials :: "ProcessId \<Rightarrow> Credentials \<Rightarrow> TaskDomain" where
  "from_credentials pid creds =
     \<lparr>dom_pid = pid, dom_label = cr_label creds, dom_capabilities = cr_capabilities creds,
      dom_isolation = cr_isolation creds, dom_uid = cr_uid creds, dom_euid = cr_euid creds,
      dom_gid = cr_gid creds, dom_egid = cr_egid creds,
      dom_supplementary_groups = cr_supplementary_groups creds,
      dom_supplementary_group_count = cr_supplementary_group_count creds,
      dom_quarantine_events = 0\<rparr>"

definition can_transmit :: "TaskDomain \<Rightarrow> SecurityClass \<Rightarrow> bool" where
  "can_transmit self class \<longleftrightarrow>
     allows_ipc (dom_capabilities self) \<and> dominates (dom_label self) (as_label class)"

definition can_receive :: "TaskDomain \<Rightarrow> SecurityClass \<Rightarrow> bool" where
  "can_receive self class \<longleftrightarrow> dominates (dom_label self) (as_label class)"

definition has_system_privilege :: "TaskDomain \<Rightarrow> bool" where
  "has_system_privilege self \<longleftrightarrow>
     lbl_level (dom_label self) = LevelSystem \<or> allows_kernel_access (dom_capabilities self)"

definition can_delegate :: "TaskDomain \<Rightarrow> Credentials \<Rightarrow> bool" where
  "can_delegate self requested \<longleftrightarrow>
     dominates (dom_label self) (cr_label requested) \<and>
     capset_contains (dom_capabilities self) (cr_capabilities requested)"

record DeviceSecurity =
  ds_class :: SecurityClass
  ds_requires_kernel_mode :: bool

datatype IsolationError = UnknownTask | PolicyViolation | CapabilityMissing | CapabilityTableFull

section \<open>Masks as sets of bits\<close>

lemma mask_contained_iff:
  fixes a b :: "'a::len word"
  shows "a AND b = b \<longleftrightarrow> (\<forall>n. bit b n \<longrightarrow> bit a n)"
proof
  assume "a AND b = b"
  then show "\<forall>n. bit b n \<longrightarrow> bit a n" by (metis bit_and_iff)
next
  assume "\<forall>n. bit b n \<longrightarrow> bit a n"
  then show "a AND b = b" by (auto intro: bit_eqI simp: bit_and_iff)
qed

fun right_index :: "CapabilityRight \<Rightarrow> nat" where
  "right_index RightRead = 0"
| "right_index RightWrite = 1"
| "right_index RightSend = 2"
| "right_index RightReceive = 3"
| "right_index RightControl = 4"
| "right_index RightTransfer = 5"
| "right_index RightRevoke = 6"

lemma right_flag_bit: "right_flag r = push_bit (right_index r) 1"
  by (cases r) simp_all

lemma bit_right_flag: "bit (right_flag r) n \<longleftrightarrow> n = right_index r"
proof -
  have "right_index r < 16" by (cases r) simp_all
  then show ?thesis by (auto simp: right_flag_bit bit_exp_iff)
qed

lemma rights_contains_iff: "rights_contains R r \<longleftrightarrow> bit (rights_flags R) (right_index r)"
  by (simp add: rights_contains_def right_flag_bit bit_iff_and_push_bit_not_eq_0)

lemma right_index_inj: "right_index r = right_index r' \<longleftrightarrow> r = r'"
  by (cases r; cases r') simp_all

lemma rights_contains_with:
  "rights_contains (rights_with R r) r' \<longleftrightarrow> r' = r \<or> rights_contains R r'"
  by (auto simp: rights_contains_iff rights_with_def bit_or_iff bit_right_flag right_index_inj)

lemma rights_contains_without:
  "rights_contains (rights_without R r) r' \<longleftrightarrow> r' \<noteq> r \<and> rights_contains R r'"
  by (auto simp: rights_contains_iff rights_without_def bit_and_iff bit_not_iff bit_right_flag
      right_index_inj dest: bit_imp_le_length)

lemma rights_contains_inherited_child:
  "rights_contains (inherited_child R) r \<longleftrightarrow> r \<noteq> RightRevoke \<and> rights_contains R r"
  by (simp add: inherited_child_def rights_contains_without)

lemma rights_contains_all_mono:
  "rights_contains_all R Q \<Longrightarrow> rights_contains Q r \<Longrightarrow> rights_contains R r"
  by (auto simp: rights_contains_all_def rights_contains_iff mask_contained_iff)

section \<open>Dominance and delegation are partial orders\<close>

lemma dominates_iff:
  "dominates a b \<longleftrightarrow>
     level_as_u8 (lbl_level b) \<le> level_as_u8 (lbl_level a) \<and>
     (\<forall>n. bit (lbl_categories b) n \<longrightarrow> bit (lbl_categories a) n)"
  by (simp add: dominates_def mask_contained_iff)

lemma level_as_u8_inj: "level_as_u8 a = level_as_u8 b \<longleftrightarrow> a = b"
  by (cases a; cases b) simp_all

lemma level_as_u8_le_System: "level_as_u8 l \<le> level_as_u8 LevelSystem"
  by (cases l) simp_all

lemma dominates_refl [simp, intro]: "dominates a a"
  by (simp add: dominates_iff)

lemma dominates_trans: "dominates a b \<Longrightarrow> dominates b c \<Longrightarrow> dominates a c"
  by (auto simp: dominates_iff)

lemma dominates_antisym:
  assumes "dominates a b" "dominates b a"
  shows "a = b"
proof -
  have "level_as_u8 (lbl_level a) = level_as_u8 (lbl_level b)"
    using assms by (auto simp: dominates_iff)
  moreover have "lbl_categories a = lbl_categories b"
    using assms by (auto simp: dominates_iff bit_eq_iff)
  ultimately show ?thesis by (simp add: level_as_u8_inj)
qed

lemma dominates_system [simp]: "dominates label_system l"
  using level_as_u8_le_System [of "lbl_level l"]
  by (auto simp: dominates_iff label_system_def max_word_of_def dest: bit_imp_le_length)

lemma dominates_not_system:
  "dominates a b \<Longrightarrow> lbl_level a \<noteq> LevelSystem \<Longrightarrow> lbl_level b \<noteq> LevelSystem"
  by (cases "lbl_level a"; cases "lbl_level b") (auto simp: dominates_def word_le_nat_alt)

lemma capset_contains_iff:
  "capset_contains a b \<longleftrightarrow> (\<forall>n. bit (capset_flags b) n \<longrightarrow> bit (capset_flags a) n)"
  by (simp add: capset_contains_def mask_contained_iff)

lemma capset_contains_refl [simp, intro]: "capset_contains a a"
  by (simp add: capset_contains_iff)

lemma capset_contains_trans: "capset_contains a b \<Longrightarrow> capset_contains b c \<Longrightarrow> capset_contains a c"
  by (simp add: capset_contains_iff)

lemma allows_kernel_access_iff: "allows_kernel_access c \<longleftrightarrow> bit (capset_flags c) 2"
  by (simp add: allows_kernel_access_def CAP_KERNEL_def bit_iff_and_push_bit_not_eq_0)

lemma allows_spawn_iff: "allows_spawn c \<longleftrightarrow> bit (capset_flags c) 1"
  by (simp add: allows_spawn_def CAP_SPAWN_def bit_iff_and_push_bit_not_eq_0)

lemma capset_contains_kernel:
  "capset_contains a b \<Longrightarrow> allows_kernel_access b \<Longrightarrow> allows_kernel_access a"
  by (simp add: capset_contains_iff allows_kernel_access_iff)

lemma from_credentials_simps [simp]:
  "dom_pid (from_credentials p c) = p"
  "dom_label (from_credentials p c) = cr_label c"
  "dom_capabilities (from_credentials p c) = cr_capabilities c"
  "dom_isolation (from_credentials p c) = cr_isolation c"
  "dom_quarantine_events (from_credentials p c) = 0"
  by (simp_all add: from_credentials_def)

end
