(* ===== verification/Memory_Types.thy ===== *)
theory Memory_Types
  imports Prelude
begin

text \<open>
  Protections and allocation kinds of \<open>src/src/kernel/memory.rs\<close>, which the security broker, the
  page tables and the kernel heap share.
\<close>

unbundle bit_operations_syntax

datatype AllocationKind = AkHeap | AkMapping

record MemoryProtection =
  prot_read :: bool
  prot_write :: bool
  prot_execute :: bool

definition protection_new :: "bool \<Rightarrow> bool \<Rightarrow> bool \<Rightarrow> MemoryProtection" where
  "protection_new r w x = \<lparr>prot_read = r, prot_write = w, prot_execute = x\<rparr>"

definition read_only :: MemoryProtection where "read_only = protection_new True False False"
definition read_write :: MemoryProtection where "read_write = protection_new True True False"
definition read_exec :: MemoryProtection where "read_exec = protection_new True False True"

definition PROT_READ :: u32 where "PROT_READ = 0x1"
definition PROT_WRITE :: u32 where "PROT_WRITE = 0x2"
definition PROT_EXECUTE :: u32 where "PROT_EXECUTE = 0x4"

definition protection_from_bits :: "u32 \<Rightarrow> MemoryProtection" where
  "protection_from_bits bits =
     protection_new (bits AND PROT_READ \<noteq> 0) (bits AND PROT_WRITE \<noteq> 0) (bits AND PROT_EXECUTE \<noteq> 0)"

definition protection_bits :: "MemoryProtection \<Rightarrow> u32" where
  "protection_bits self =
     (of_bool (prot_read self) * PROT_READ) OR (of_bool (prot_write self) * PROT_WRITE) OR
     (of_bool (prot_execute self) * PROT_EXECUTE)"

lemma protection_from_bits_bits [simp]: "protection_from_bits (protection_bits p) = p"
  by (cases p; cases "prot_read p"; cases "prot_write p"; cases "prot_execute p")
    (simp_all add: protection_from_bits_def protection_bits_def protection_new_def PROT_READ_def PROT_WRITE_def PROT_EXECUTE_def)

end
