(* ===== verification/Security_Kernel.thy ===== *)
theory Security_Kernel
  imports Slot_Table Security_Labels Memory_Types
begin

text \<open>
  The security broker itself (\<open>SecurityKernel\<close> of \<open>src/subkernel/mod.rs\<close>): a slot
  table of task domains keyed by process id, a slot table of 256 capability records keyed
  by capability id, and the counter that hands out capability ids. Every method of the
  Rust type is a definition here; a method that takes \<open>&mut self\<close> returns the state it
  leaves behind together with its result.

  The lemmas show what each method does to the two tables, the well-formedness invariant
  \<open>sk_inv\<close> (unique process ids, unique capability ids below the counter) and that every
  method keeps it while the 64-bit id counter has room, and that the domain table is a
  keyed table in the sense of the interface.
\<close>

unbundle bit_operations_syntax

section \<open>Requests the broker decides on\<close>

record ExecVectorMetadata =
  ev_base :: u64
  ev_count :: nat
  ev_truncated :: bool

datatype ExecServiceDaemon = DaemonDisplay | DaemonNetwork | DaemonInput | DaemonL2Driver

record ExecSignatureMetadata =
  sig_signer :: string
  sig_manifest_digest :: u64

record ExecImageMetadata =
  img_inode :: u64
  img_size :: u64
  img_mode :: u16
  img_entry_point :: u64
  img_stack_pointer :: u64
  img_address_space_root :: u64
  img_service_daemon :: "ExecServiceDaemon option"
  img_signature :: "ExecSignatureMetadata option"

definition is_executable :: "ExecImageMetadata \<Rightarrow> bool" where
  "is_executable self \<longleftrightarrow> (img_mode self AND 0x49) \<noteq> 0"

definition is_signed_service_daemon :: "ExecImageMetadata \<Rightarrow> bool" where
  "is_signed_service_daemon self \<longleftrightarrow> img_service_daemon self \<noteq> None \<and> img_signature self \<noteq> None"

record ExecRequest =
  req_caller :: ProcessId
  req_path :: "u8 list"
  req_argv :: ExecVectorMetadata
  req_envp :: ExecVectorMetadata
  req_requested_credentials :: Credentials
  req_image :: ExecImageMetadata

section \<open>State and table access\<close>

definition MAX_CAPABILITY_RECORDS :: nat where
  "MAX_CAPABILITY_RECORDS = 256"

record SecurityKernel =
  domains :: "TaskDomain slots"
  capabilities :: "CapabilityRecord slots"
  next_capability_id :: u64

definition sk_new :: "nat \<Rightarrow> SecurityKernel" where
  "sk_new max_domains =
     \<lparr>domains = replicate max_domains None, capabilities = replicate MAX_CAPABILITY_RECORDS None,
      next_capability_id = 1\<rparr>"

definition sk_reset :: "SecurityKernel \<Rightarrow> SecurityKernel" where
  "sk_reset self =
     \<lparr>domains = replicate (length (domains self)) None,
      capabilities = replicate (length (capabilities self)) None,
      next_capability_id = 1\<rparr>"

definition find_domain_index :: "SecurityKernel \<Rightarrow> ProcessId \<Rightarrow> nat option" where
  "find_domain_index self pid = find_slot (\<lambda>d. dom_pid d = pid) (domains self)"

definition domain_of :: "SecurityKernel \<Rightarrow> ProcessId \<Rightarrow> IsolationError + TaskDomain" where
  "domain_of self pid =
     ok_or UnknownTask
       (case find_domain_index self pid of None \<Rightarrow> None | Some idx \<Rightarrow> domains self ! idx)"

definition find_capability_index :: "SecurityKernel \<Rightarrow> CapabilityId \<Rightarrow> nat option" where
  "find_capability_index self cid = find_slot (\<lambda>r. cap_id r = cid) (capabilities self)"

text \<open>
  Matching a granted object against a requested one. The four region objects are matched
  by address range alone, whichever of the four kinds either side is; the or-patterns of
  the source's \<open>match\<close> pair every region kind with every other.
\<close>

fun region_of :: "CapabilityObject \<Rightarrow> (u64 \<times> u64) option" where
  "region_of (DmaRegion base len) = Some (base, len)"
| "region_of (MmioRegion base len) = Some (base, len)"
| "region_of (VramRegion base len) = Some (base, len)"
| "region_of (Framebuffer base len) = Some (base, len)"
| "region_of _ = None"

definition region_within :: "u64 \<times> u64 \<Rightarrow> u64 \<times> u64 \<Rightarrow> bool" where
  "region_within granted requested =
     (case (granted, requested) of ((granted_base, granted_length), (requested_base, requested_length)) \<Rightarrow>
        let granted_end = saturating_add granted_base granted_length;
            requested_end = saturating_add requested_base requested_length
        in requested_base \<ge> granted_base \<and> requested_end \<le> granted_end)"

definition capability_object_matches :: "CapabilityObject \<Rightarrow> CapabilityObject \<Rightarrow> bool" where
  "capability_object_matches granted requested =
     (if granted = requested then True
      else case granted of
        IpcEndpoint pid \<Rightarrow> (case requested of IpcEndpoint _ \<Rightarrow> pid = max_word_of | _ \<Rightarrow> False)
      | ProcessHandle pid \<Rightarrow> (case requested of ProcessHandle _ \<Rightarrow> pid = max_word_of | _ \<Rightarrow> False)
      | PciDevice i \<Rightarrow> (case requested of PciDevice _ \<Rightarrow> i = max_word_of | _ \<Rightarrow> False)
      | FsObject i \<Rightarrow> (case requested of FsObject _ \<Rightarrow> i = max_word_of | _ \<Rightarrow> False)
      | HotplugController i \<Rightarrow>
          (case requested of HotplugController _ \<Rightarrow> i = max_word_of | _ \<Rightarrow> False)
      | MemoryObject i \<Rightarrow> (case requested of MemoryObject _ \<Rightarrow> i = max_word_of | _ \<Rightarrow> False)
      | IrqLine line \<Rightarrow> (case requested of IrqLine _ \<Rightarrow> line = max_word_of | _ \<Rightarrow> False)
      | _ \<Rightarrow> (case (region_of granted, region_of requested) of
                (Some g, Some r) \<Rightarrow> region_within g r
              | _ \<Rightarrow> False))"

definition has_capability ::
  "SecurityKernel \<Rightarrow> ProcessId \<Rightarrow> CapabilityObject \<Rightarrow> CapabilityRight \<Rightarrow> bool" where
  "has_capability self owner object right =
     (find_slot (\<lambda>r. cap_owner r = owner \<and> capability_object_matches (cap_object r) object \<and>
        rights_contains (cap_rights r) right) (capabilities self) \<noteq> None)"

section \<open>Changing the capability table\<close>

definition insert_capability ::
  "SecurityKernel \<Rightarrow> ProcessId \<Rightarrow> CapabilityObject \<Rightarrow> CapabilityRights \<Rightarrow> CapabilityId option \<Rightarrow>
     (SecurityKernel, IsolationError, CapabilityId) op_result" where
  "insert_capability self owner object rights parent =
     (case free_slot (capabilities self) of
        None \<Rightarrow> (self, Inl CapabilityTableFull)
      | Some idx \<Rightarrow>
          let id = next_capability_id self;
              bumped = id + 1;
              next_id = (if bumped = 0 then 1 else bumped)
          in (self\<lparr>capabilities := (capabilities self)[idx :=
                     Some \<lparr>cap_id = id, cap_owner = owner, cap_object = object,
                           cap_rights = rights, cap_parent = parent\<rparr>],
                   next_capability_id := next_id\<rparr>,
              Inr id))"

definition revoke_all_capabilities :: "SecurityKernel \<Rightarrow> ProcessId \<Rightarrow> SecurityKernel" where
  "revoke_all_capabilities self owner =
     self\<lparr>capabilities := clear_slots (\<lambda>r. cap_owner r = owner) (capabilities self)\<rparr>"

text \<open>
  The capabilities a task starts with, in the order in which
  \<open>seed_initial_capabilities\<close> inserts them.
\<close>

definition initial_capabilities ::
  "ProcessId \<Rightarrow> Credentials \<Rightarrow> (CapabilityObject \<times> CapabilityRights) list" where
  "initial_capabilities pid creds =
     (let caps = cr_capabilities creds in
      (if allows_ipc caps
       then [(IpcEndpoint pid, rights_ipc_endpoint),
             (IpcEndpoint max_word_of, rights_ipc_endpoint)]
       else []) @
      (if allows_io caps
       then [(PciDevice max_word_of, rights_io),
             (DmaRegion 0 max_word_of, rights_io),
             (IrqLine max_word_of, rights_io),
             (MmioRegion 0 max_word_of, rights_io)]
       else []) @
      (if allows_kernel_access caps \<or> lbl_level (cr_label creds) = LevelSystem
       then [(ServiceControl, rights_service_control),
             (ModuleLoad, rights_service_control),
             (ProcessHandle pid, rights_process_control),
             (ProcessHandle max_word_of, rights_process_control),
             (MemoryObject max_word_of, rights_memory)]
       else []))"

fun insert_all ::
  "SecurityKernel \<Rightarrow> ProcessId \<Rightarrow> (CapabilityObject \<times> CapabilityRights) list \<Rightarrow>
     (SecurityKernel, IsolationError, unit) op_result" where
  "insert_all self pid [] = (self, ok_unit)"
| "insert_all self pid ((object, rights) # rest) =
     and_then (insert_capability self pid object rights None) (\<lambda>s _. insert_all s pid rest)"

definition seed_initial_capabilities ::
  "SecurityKernel \<Rightarrow> ProcessId \<Rightarrow> Credentials \<Rightarrow> (SecurityKernel, IsolationError, unit) op_result" where
  "seed_initial_capabilities self pid creds = insert_all self pid (initial_capabilities pid creds)"

section \<open>Tasks\<close>

definition register_task ::
  "SecurityKernel \<Rightarrow> ProcessId \<Rightarrow> Credentials \<Rightarrow> (SecurityKernel, IsolationError, unit) op_result" where
  "register_task self pid creds =
     (case find_domain_index self pid of
        Some idx \<Rightarrow>
          let previous = domains self ! idx;
              replaced = self\<lparr>domains := (domains self)[idx := Some (from_credentials pid creds)]\<rparr>
          in (case seed_initial_capabilities (revoke_all_capabilities replaced pid) pid creds of
                (s, Inl err) \<Rightarrow>
                  let cleared = revoke_all_capabilities s pid
                  in (cleared\<lparr>domains := (domains cleared)[idx := previous]\<rparr>, Inl err)
              | (s, Inr _) \<Rightarrow> (s, ok_unit))
      | None \<Rightarrow>
          (case free_slot (domains self) of
             Some idx \<Rightarrow>
               (case seed_initial_capabilities
                       (self\<lparr>domains := (domains self)[idx := Some (from_credentials pid creds)]\<rparr>)
                       pid creds of
                  (s, Inl err) \<Rightarrow> (s\<lparr>domains := (domains s)[idx := None]\<rparr>, Inl err)
                | (s, Inr _) \<Rightarrow> (s, ok_unit))
           | None \<Rightarrow> (self, Inl PolicyViolation)))"

definition revoke_task :: "SecurityKernel \<Rightarrow> ProcessId \<Rightarrow> SecurityKernel" where
  "revoke_task self pid =
     revoke_all_capabilities
       (case find_domain_index self pid of
          Some idx \<Rightarrow> self\<lparr>domains := (domains self)[idx := None]\<rparr>
        | None \<Rightarrow> self) pid"

section \<open>Granting, revoking and deriving capabilities\<close>

definition grant_capability ::
  "SecurityKernel \<Rightarrow> ProcessId \<Rightarrow> CapabilityObject \<Rightarrow> CapabilityRights \<Rightarrow>
     (SecurityKernel, IsolationError, CapabilityId) op_result" where
  "grant_capability self owner object rights =
     (case domain_of self owner of
        Inl e \<Rightarrow> (self, Inl e)
      | Inr _ \<Rightarrow> insert_capability self owner object rights None)"

definition revoke_capability ::
  "SecurityKernel \<Rightarrow> CapabilityId \<Rightarrow> (SecurityKernel, IsolationError, unit) op_result" where
  "revoke_capability self cid =
     (case find_capability_index self cid of
        None \<Rightarrow> (self, Inl CapabilityMissing)
      | Some idx \<Rightarrow>
          (self\<lparr>capabilities :=
              clear_slots (\<lambda>r. cap_parent r = Some cid) ((capabilities self)[idx := None])\<rparr>,
           ok_unit))"

definition check_capability ::
  "SecurityKernel \<Rightarrow> ProcessId \<Rightarrow> CapabilityObject \<Rightarrow> CapabilityRight \<Rightarrow> IsolationError + unit" where
  "check_capability self owner object right =
     (case domain_of self owner of
        Inl e \<Rightarrow> Inl e
      | Inr _ \<Rightarrow> if has_capability self owner object right then ok_unit else Inl CapabilityMissing)"

definition transfer_capability ::
  "SecurityKernel \<Rightarrow> ProcessId \<Rightarrow> ProcessId \<Rightarrow> CapabilityId \<Rightarrow>
     (SecurityKernel, IsolationError, CapabilityId) op_result" where
  "transfer_capability self source target cid =
     (case domain_of self source of
        Inl e \<Rightarrow> (self, Inl e)
      | Inr _ \<Rightarrow>
     (case domain_of self target of
        Inl e \<Rightarrow> (self, Inl e)
      | Inr _ \<Rightarrow>
     (case find_capability_index self cid of
        None \<Rightarrow> (self, Inl CapabilityMissing)
      | Some idx \<Rightarrow>
     (case capabilities self ! idx of
        None \<Rightarrow> (self, Inl CapabilityMissing)
      | Some record \<Rightarrow>
          if cap_owner record \<noteq> source \<or> \<not> rights_contains (cap_rights record) RightTransfer
          then (self, Inl CapabilityMissing)
          else insert_capability self target (cap_object record)
                 (inherited_child (cap_rights record)) (Some cid)))))"

fun derive_loop ::
  "SecurityKernel \<Rightarrow> ProcessId \<Rightarrow> ProcessId \<Rightarrow> CapabilityRecord slots \<Rightarrow>
     (SecurityKernel, IsolationError, unit) op_result" where
  "derive_loop self parent child [] = (self, ok_unit)"
| "derive_loop self parent child (None # snapshot) = derive_loop self parent child snapshot"
| "derive_loop self parent child (Some record # snapshot) =
     (if cap_owner record = parent \<and> rights_contains (cap_rights record) RightTransfer
      then and_then (insert_capability self child (cap_object record)
                       (inherited_child (cap_rights record)) (Some (cap_id record)))
             (\<lambda>s _. derive_loop s parent child snapshot)
      else derive_loop self parent child snapshot)"

definition derive_inherited_child_capabilities ::
  "SecurityKernel \<Rightarrow> ProcessId \<Rightarrow> ProcessId \<Rightarrow> (SecurityKernel, IsolationError, unit) op_result" where
  "derive_inherited_child_capabilities self parent child =
     (case domain_of self parent of
        Inl e \<Rightarrow> (self, Inl e)
      | Inr _ \<Rightarrow>
     (case domain_of self child of
        Inl e \<Rightarrow> (self, Inl e)
      | Inr _ \<Rightarrow> derive_loop self parent child (capabilities self)))"

section \<open>Authorization decisions\<close>

definition authorize_ipc ::
  "SecurityKernel \<Rightarrow> ProcessId \<Rightarrow> ProcessId \<Rightarrow> SecurityClass \<Rightarrow> IsolationError + unit" where
  "authorize_ipc self sender receiver class =
     (case domain_of self sender of
        Inl e \<Rightarrow> Inl e
      | Inr sender_domain \<Rightarrow>
     (case domain_of self receiver of
        Inl e \<Rightarrow> Inl e
      | Inr receiver_domain \<Rightarrow>
     (case check_capability self sender (IpcEndpoint receiver) RightSend of
        Inl e \<Rightarrow> Inl e
      | Inr _ \<Rightarrow>
          if \<not> can_transmit sender_domain class \<or> \<not> can_receive receiver_domain class
          then Inl PolicyViolation
          else if dom_isolation sender_domain = IsoVirtualMachine \<and>
                  dom_isolation receiver_domain = IsoNone
          then Inl PolicyViolation
          else ok_unit)))"

definition authorize_device_access ::
  "SecurityKernel \<Rightarrow> ProcessId \<Rightarrow> CapabilityObject \<Rightarrow> CapabilityRight \<Rightarrow> DeviceSecurity \<Rightarrow>
     IsolationError + unit" where
  "authorize_device_access self pid object required_right security =
     (case domain_of self pid of
        Inl e \<Rightarrow> Inl e
      | Inr domain \<Rightarrow>
     (case check_capability self pid object required_right of
        Inl e \<Rightarrow> Inl e
      | Inr _ \<Rightarrow>
     (case (if ds_requires_kernel_mode security
            then check_capability self pid ModuleLoad RightControl else ok_unit) of
        Inl e \<Rightarrow> Inl e
      | Inr _ \<Rightarrow>
          if \<not> dominates (dom_label domain) (as_label (ds_class security))
          then Inl PolicyViolation else ok_unit)))"

definition checked_for_task ::
  "SecurityKernel \<Rightarrow> ProcessId \<Rightarrow> CapabilityObject \<Rightarrow> CapabilityRight \<Rightarrow> IsolationError + unit" where
  "checked_for_task self pid object right =
     (case domain_of self pid of Inl e \<Rightarrow> Inl e | Inr _ \<Rightarrow> check_capability self pid object right)"

definition authorize_ipc_receive :: "SecurityKernel \<Rightarrow> ProcessId \<Rightarrow> IsolationError + unit" where
  "authorize_ipc_receive self pid = checked_for_task self pid (IpcEndpoint pid) RightReceive"

definition authorize_service_control :: "SecurityKernel \<Rightarrow> ProcessId \<Rightarrow> IsolationError + unit" where
  "authorize_service_control self pid = checked_for_task self pid ServiceControl RightControl"

definition authorize_credential_update :: "SecurityKernel \<Rightarrow> ProcessId \<Rightarrow> IsolationError + unit" where
  "authorize_credential_update self pid = checked_for_task self pid (ProcessHandle pid) RightControl"

definition authorize_service_registration ::
  "SecurityKernel \<Rightarrow> ProcessId \<Rightarrow> SecurityClass \<Rightarrow> IsolationError + unit" where
  "authorize_service_registration self pid class =
     (case domain_of self pid of
        Inl e \<Rightarrow> Inl e
      | Inr domain \<Rightarrow>
     (case check_capability self pid (IpcEndpoint pid) RightReceive of
        Inl e \<Rightarrow> Inl e
      | Inr _ \<Rightarrow> if can_receive domain class then ok_unit else Inl PolicyViolation))"

definition authorize_spawn ::
  "SecurityKernel \<Rightarrow> ProcessId \<Rightarrow> Credentials \<Rightarrow> IsolationError + unit" where
  "authorize_spawn self parent requested =
     (case domain_of self parent of
        Inl e \<Rightarrow> Inl e
      | Inr parent_domain \<Rightarrow>
          if \<not> allows_spawn (dom_capabilities parent_domain) then Inl CapabilityMissing
          else if \<not> has_system_privilege parent_domain \<and> \<not> can_delegate parent_domain requested
          then Inl PolicyViolation
          else ok_unit)"

definition authorize_exec :: "SecurityKernel \<Rightarrow> ExecRequest \<Rightarrow> IsolationError + unit" where
  "authorize_exec self request =
     (case domain_of self (req_caller request) of
        Inl e \<Rightarrow> Inl e
      | Inr domain \<Rightarrow>
          if \<not> is_executable (req_image request) then Inl PolicyViolation
          else if ev_truncated (req_argv request) \<or> ev_truncated (req_envp request)
          then Inl PolicyViolation
          else if has_system_privilege domain \<or>
                  can_delegate domain (req_requested_credentials request)
          then ok_unit
          else if is_signed_service_daemon (req_image request) then ok_unit
          else Inl PolicyViolation)"

definition authorize_device_enumeration :: "SecurityKernel \<Rightarrow> ProcessId \<Rightarrow> IsolationError + unit" where
  "authorize_device_enumeration self pid = checked_for_task self pid (PciDevice max_word_of) RightRead"

definition enforce_isolation :: "SecurityKernel \<Rightarrow> ProcessId \<Rightarrow> IsolationError + unit" where
  "enforce_isolation self pid =
     (case domain_of self pid of
        Inl e \<Rightarrow> Inl e
      | Inr domain \<Rightarrow>
          (case dom_isolation domain of
             IsoNone \<Rightarrow> ok_unit
           | IsoProcess \<Rightarrow> ok_unit
           | IsoVirtualMachine \<Rightarrow>
               if dom_quarantine_events domain > 0 then Inl PolicyViolation else ok_unit))"

definition authorize_memory_service :: "SecurityKernel \<Rightarrow> ProcessId \<Rightarrow> IsolationError + unit" where
  "authorize_memory_service self pid = enforce_isolation self pid"

definition authorize_memory_mapping ::
  "SecurityKernel \<Rightarrow> ProcessId \<Rightarrow> MemoryProtection \<Rightarrow> IsolationError + unit" where
  "authorize_memory_mapping self pid protection =
     (case domain_of self pid of
        Inl e \<Rightarrow> Inl e
      | Inr domain \<Rightarrow>
          if prot_write protection \<and> prot_execute protection then Inl PolicyViolation
          else if prot_execute protection \<and> \<not> has_system_privilege domain
          then Inl CapabilityMissing
          else enforce_isolation self pid)"

definition credentials :: "SecurityKernel \<Rightarrow> ProcessId \<Rightarrow> IsolationError + Credentials" where
  "credentials self pid =
     (case domain_of self pid of
        Inl e \<Rightarrow> Inl e
      | Inr domain \<Rightarrow>
          Inr (with_unix_credentials (dom_label domain) (dom_capabilities domain)
                 (dom_isolation domain) (dom_uid domain) (dom_euid domain) (dom_gid domain)
                 (dom_egid domain) (dom_supplementary_groups domain)
                 (dom_supplementary_group_count domain)))"

section \<open>What the invariant says\<close>

abbreviation domain_map :: "SecurityKernel \<Rightarrow> ProcessId \<rightharpoonup> TaskDomain" where
  "domain_map s \<equiv> slot_lookup dom_pid (domains s)"

definition cap_records :: "SecurityKernel \<Rightarrow> CapabilityRecord set" where
  "cap_records s = {r. Some r \<in> set (capabilities s)}"

definition domains_ok :: "SecurityKernel \<Rightarrow> bool" where
  "domains_ok s \<longleftrightarrow> unique_keys dom_pid (domains s)"

definition sk_inv :: "SecurityKernel \<Rightarrow> bool" where
  "sk_inv s \<longleftrightarrow>
     length (capabilities s) = MAX_CAPABILITY_RECORDS \<and> domains_ok s \<and>
     unique_keys cap_id (capabilities s) \<and>
     (\<forall>r \<in> cap_records s. 0 < cap_id r \<and> cap_id r < next_capability_id s) \<and>
     0 < next_capability_id s"

text \<open>The 64-bit id counter can still hand out \<open>n\<close> ids without wrapping.\<close>

definition id_room :: "nat \<Rightarrow> SecurityKernel \<Rightarrow> bool" where
  "id_room n s \<longleftrightarrow> unat (next_capability_id s) + n < 2 ^ 64"

text \<open>A record that a task received from another task by inheritance or transfer.\<close>

definition inherited_from :: "CapabilityRecord set \<Rightarrow> ProcessId \<Rightarrow> ProcessId \<Rightarrow> CapabilityRecord \<Rightarrow> bool"
where
  "inherited_from R parent child r \<longleftrightarrow>
     cap_owner r = child \<and>
     (\<exists>p \<in> R. cap_owner p = parent \<and> rights_contains (cap_rights p) RightTransfer \<and>
        cap_object r = cap_object p \<and> cap_rights r = inherited_child (cap_rights p) \<and>
        cap_parent r = Some (cap_id p))"

section \<open>Reading the tables\<close>

lemma cap_records_iff: "r \<in> cap_records s \<longleftrightarrow> Some r \<in> set (capabilities s)"
  by (simp add: cap_records_def)

lemma cap_records_code [code]: "cap_records s = set (slot_values (capabilities s))"
  by (auto simp: cap_records_def)

lemma domain_of_lookup: "domain_of s pid = ok_or UnknownTask (domain_map s pid)"
  by (simp add: domain_of_def find_domain_index_def slot_lookup_def)

lemma domain_of_Inr [simp]: "domain_of s pid = Inr d \<longleftrightarrow> domain_map s pid = Some d"
  by (simp add: domain_of_lookup)

lemma domain_of_Inl [simp]: "domain_of s pid = Inl e \<longleftrightarrow> domain_map s pid = None \<and> e = UnknownTask"
  by (simp add: domain_of_lookup)

lemma domain_map_pid: "domain_map s pid = Some d \<Longrightarrow> dom_pid d = pid"
  by (drule slot_lookup_in_set) simp

lemma find_domain_index_None_iff: "find_domain_index s pid = None \<longleftrightarrow> domain_map s pid = None"
  by (simp add: find_domain_index_def find_slot_None_iff slot_lookup_None_iff)

lemma find_domain_index_SomeE:
  assumes "find_domain_index s pid = Some i"
  obtains d where "i < length (domains s)" "domains s ! i = Some d" "dom_pid d = pid"
    "domain_map s pid = Some d"
proof -
  from assms obtain d where "i < length (domains s)" "domains s ! i = Some d" "dom_pid d = pid"
    unfolding find_domain_index_def by (rule find_slot_SomeE)
  with assms show thesis
    by (intro that) (simp_all add: slot_lookup_def find_domain_index_def)
qed

lemma has_capability_iff:
  "has_capability s pid obj right \<longleftrightarrow>
     (\<exists>r \<in> cap_records s. cap_owner r = pid \<and> capability_object_matches (cap_object r) obj \<and>
        rights_contains (cap_rights r) right)"
  by (auto simp: has_capability_def find_slot_None_iff cap_records_iff)

lemma check_capability_Inr:
  "check_capability s pid obj right = Inr u \<longleftrightarrow>
     domain_map s pid \<noteq> None \<and> has_capability s pid obj right"
  by (auto simp: check_capability_def domain_of_lookup split: option.splits sum.splits)

lemma check_capability_Inl:
  "check_capability s pid obj right = Inl e \<longleftrightarrow>
     (if domain_map s pid = None then e = UnknownTask
      else \<not> has_capability s pid obj right \<and> e = CapabilityMissing)"
  by (auto simp: check_capability_def domain_of_lookup split: option.splits sum.splits)

lemma find_capability_index_SomeE:
  assumes "find_capability_index s cid = Some i"
  obtains r where "i < length (capabilities s)" "capabilities s ! i = Some r" "cap_id r = cid"
    "r \<in> cap_records s"
proof -
  from assms obtain r where r: "i < length (capabilities s)" "capabilities s ! i = Some r"
      "cap_id r = cid"
    unfolding find_capability_index_def by (rule find_slot_SomeE)
  then have "r \<in> cap_records s"
    unfolding cap_records_iff by (metis nth_mem)
  with r show thesis by (rule that)
qed

lemma find_capability_index_None_iff:
  "find_capability_index s cid = None \<longleftrightarrow> (\<forall>r \<in> cap_records s. cap_id r \<noteq> cid)"
  by (auto simp: find_capability_index_def find_slot_None_iff cap_records_iff)

section \<open>Inserting records\<close>

lemma insert_capability_InrE:
  assumes "insert_capability s pid obj rights par = (s', Inr cid)"
  obtains i where "free_slot (capabilities s) = Some i" "cid = next_capability_id s"
    "s' = s\<lparr>capabilities := (capabilities s)[i := Some \<lparr>cap_id = cid, cap_owner = pid,
              cap_object = obj, cap_rights = rights, cap_parent = par\<rparr>],
            next_capability_id := (if cid + 1 = 0 then 1 else cid + 1)\<rparr>"
  using assms by (auto simp: insert_capability_def Let_def split: option.splits)

lemma insert_capability_Inl:
  "insert_capability s pid obj rights par = (s', Inl e) \<longleftrightarrow>
     s' = s \<and> e = CapabilityTableFull \<and> None \<notin> set (capabilities s)"
  by (auto simp: insert_capability_def Let_def free_slot_None_iff [symmetric] split: option.splits)

lemma insert_capability_records:
  assumes "insert_capability s pid obj rights par = (s', Inr cid)"
  shows "cap_records s' = insert \<lparr>cap_id = cid, cap_owner = pid, cap_object = obj,
           cap_rights = rights, cap_parent = par\<rparr> (cap_records s)"
    and "domains s' = domains s"
    and "cid = next_capability_id s"
  using assms
  by (auto elim!: insert_capability_InrE simp: cap_records_def Some_in_set_insert)

lemma insert_capability_inv:
  assumes ins: "insert_capability s pid obj rights par = (s', Inr cid)"
    and inv: "sk_inv s" and room: "id_room (Suc n) s"
  shows "sk_inv s'" and "id_room n s'"
proof -
  obtain i where f: "free_slot (capabilities s) = Some i" and c: "cid = next_capability_id s"
    and s': "s' = s\<lparr>capabilities := (capabilities s)[i := Some \<lparr>cap_id = cid, cap_owner = pid,
              cap_object = obj, cap_rights = rights, cap_parent = par\<rparr>],
            next_capability_id := (if cid + 1 = 0 then 1 else cid + 1)\<rparr>"
    using ins by (rule insert_capability_InrE)
  have nx: "unat (cid + 1) = Suc (unat cid)"
    using room by (simp add: id_room_def c unat_word_ariths)
  then have "cid + 1 \<noteq> 0" by auto
  then have n': "next_capability_id s' = cid + 1" by (simp add: s')
  show "id_room n s'" using room nx by (simp add: id_room_def n' c)
  have lt: "x < cid \<Longrightarrow> x < cid + 1" "cid < cid + 1" "0 < cid + 1" for x :: u64
    using nx by (simp_all add: word_less_nat_alt)
  have "slot_lookup cap_id (capabilities s) cid = None"
    using inv by (auto simp: slot_lookup_None_iff sk_inv_def cap_records_def c)
  then have "unique_keys cap_id (capabilities s')"
    using inv slot_lookup_insert(2) [OF _ f, of cap_id]
    by (simp add: s' sk_inv_def)
  moreover have "0 < cap_id r \<and> cap_id r < cid + 1" if "r \<in> cap_records s'" for r
    using that inv lt
    by (auto simp: s' sk_inv_def cap_records_def Some_in_set_insert [OF f] c [symmetric])
  moreover have "length (capabilities s') = MAX_CAPABILITY_RECORDS \<and> domains_ok s'"
    using inv by (simp add: s' sk_inv_def domains_ok_def)
  ultimately show "sk_inv s'"
    using lt(3) by (simp add: sk_inv_def n')
qed

lemma domains_ok_domains: "domains s' = domains s \<Longrightarrow> domains_ok s' = domains_ok s"
  by (simp add: domains_ok_def)

lemma id_room_mono: "id_room n s \<Longrightarrow> m \<le> n \<Longrightarrow> id_room m s"
  by (simp add: id_room_def)

text \<open>An insertion either finds the table full and changes nothing, or adds one record.\<close>

lemma insert_capability_cases:
  obtains (full) "insert_capability s pid obj rights par = (s, Inl CapabilityTableFull)"
      "None \<notin> set (capabilities s)"
    | (ok) t where "insert_capability s pid obj rights par = (t, Inr (next_capability_id s))"
      "cap_records t = insert \<lparr>cap_id = next_capability_id s, cap_owner = pid, cap_object = obj,
         cap_rights = rights, cap_parent = par\<rparr> (cap_records s)"
      "domains t = domains s"
proof (cases "insert_capability s pid obj rights par")
  case (Pair t r)
  show thesis
  proof (cases r)
    case (Inl e)
    with Pair show thesis using full insert_capability_Inl [of s pid obj rights par t e] by auto
  next
    case (Inr cid)
    with Pair show thesis
      using ok insert_capability_records [of s pid obj rights par t cid] by simp
  qed
qed

lemma insert_all_inv:
  assumes "sk_inv s" and "id_room (length xs + n) s"
  shows "sk_inv (fst (insert_all s pid xs)) \<and> id_room n (fst (insert_all s pid xs))"
  using assms
proof (induction s pid xs rule: insert_all.induct)
  case (2 s pid obj rights rest)
  show ?case
  proof (cases rule: insert_capability_cases [of s pid obj rights None])
    case full
    with 2 show ?thesis by (simp add: id_room_def)
  next
    case (ok t)
    with 2 have "sk_inv t" "id_room (length rest + n) t"
      using insert_capability_inv [OF ok(1)] by simp_all
    with 2(1) ok(1) show ?thesis by simp
  qed
qed simp

lemma insert_all_domains: "domains (fst (insert_all s pid xs)) = domains s"
proof (induction s pid xs rule: insert_all.induct)
  case (2 s pid obj rights rest)
  then show ?case
    by (cases rule: insert_capability_cases [of s pid obj rights None]) simp_all
qed simp

lemma insert_all_records:
  "cap_records s \<subseteq> cap_records (fst (insert_all s pid xs)) \<and>
   (\<forall>r \<in> cap_records (fst (insert_all s pid xs)). r \<notin> cap_records s \<longrightarrow>
      cap_owner r = pid \<and> cap_parent r = None \<and> (cap_object r, cap_rights r) \<in> set xs)"
proof (induction s pid xs rule: insert_all.induct)
  case (2 s pid obj rights rest)
  show ?case
  proof (cases rule: insert_capability_cases [of s pid obj rights None])
    case full
    then show ?thesis by simp
  next
    case (ok t)
    then have eq: "insert_all s pid ((obj, rights) # rest) = insert_all t pid rest" by simp
    show ?thesis
      unfolding eq using 2 [of t] ok(2) by auto
  qed
qed simp

lemma insert_all_complete:
  assumes "insert_all s pid xs = (s', Inr u)" and "(obj, rights) \<in> set xs"
  shows "\<exists>r \<in> cap_records s'. cap_owner r = pid \<and> cap_object r = obj \<and> cap_rights r = rights"
  using assms
proof (induction s pid xs rule: insert_all.induct)
  case (2 s pid obj' rights' rest)
  from 2(2) obtain t cid where ins: "insert_capability s pid obj' rights' None = (t, Inr cid)"
    and rest: "insert_all t pid rest = (s', Inr u)"
    by (auto simp: and_then_eq_Inr)
  show ?case
  proof (cases "(obj, rights) \<in> set rest")
    case True
    with 2(1) [OF rest] show ?thesis .
  next
    case False
    with 2(3) have "obj = obj'" "rights = rights'" by simp_all
    then have "\<lparr>cap_id = cid, cap_owner = pid, cap_object = obj, cap_rights = rights,
        cap_parent = None\<rparr> \<in> cap_records t"
      using insert_capability_records(1) [OF ins] by simp
    moreover have "cap_records t \<subseteq> cap_records s'"
      using insert_all_records [of t pid rest] rest by simp
    ultimately show ?thesis by force
  qed
qed simp

lemma derive_loop_inv:
  assumes "sk_inv s" and "id_room (length snapshot + n) s"
  shows "sk_inv (fst (derive_loop s parent child snapshot)) \<and>
         id_room n (fst (derive_loop s parent child snapshot))"
  using assms
proof (induction s parent child snapshot rule: derive_loop.induct)
  case (3 s parent child rec snapshot)
  have room: "id_room (length snapshot + n) s"
    using 3(4) by (rule id_room_mono) simp
  show ?case
  proof (cases rule: insert_capability_cases [of s child "cap_object rec"
        "inherited_child (cap_rights rec)" "Some (cap_id rec)"])
    case full
    with 3 room show ?thesis by (auto simp: id_room_def)
  next
    case (ok t)
    then have "sk_inv t" "id_room (length snapshot + n) t"
      using insert_capability_inv [OF ok(1) 3(3)] 3(4) by simp_all
    with 3 ok(1) room show ?thesis by auto
  qed
qed (auto simp: id_room_def)

lemma derive_loop_domains: "domains (fst (derive_loop s parent child snapshot)) = domains s"
proof (induction s parent child snapshot rule: derive_loop.induct)
  case (3 s parent child rec snapshot)
  then show ?case
    by (cases rule: insert_capability_cases [of s child "cap_object rec"
          "inherited_child (cap_rights rec)" "Some (cap_id rec)"]) auto
qed simp_all

lemma inherited_from_mono: "inherited_from R p c r \<Longrightarrow> R \<subseteq> R' \<Longrightarrow> inherited_from R' p c r"
  by (auto simp: inherited_from_def)

lemma grown_trans:
  assumes "A \<subseteq> B" "\<And>r. r \<in> B \<Longrightarrow> r \<notin> A \<Longrightarrow> P r"
    and "B \<subseteq> C \<and> (\<forall>r \<in> C. r \<notin> B \<longrightarrow> Q r)" and "\<And>r. Q r \<Longrightarrow> P r"
  shows "A \<subseteq> C \<and> (\<forall>r \<in> C. r \<notin> A \<longrightarrow> P r)"
  using assms by blast

lemma derive_loop_records:
  "cap_records s \<subseteq> cap_records (fst (derive_loop s parent child snapshot)) \<and>
   (\<forall>r \<in> cap_records (fst (derive_loop s parent child snapshot)). r \<notin> cap_records s \<longrightarrow>
      inherited_from {p. Some p \<in> set snapshot} parent child r)"
proof (induction s parent child snapshot rule: derive_loop.induct)
  case (3 s parent child rec snapshot)
  let ?S = "{p. Some p \<in> set (Some rec # snapshot)}"
  have mono: "inherited_from {p. Some p \<in> set snapshot} parent child r \<Longrightarrow>
      inherited_from ?S parent child r" for r
    by (rule inherited_from_mono) auto
  show ?case
  proof (cases "cap_owner rec = parent \<and> rights_contains (cap_rights rec) RightTransfer")
    case False
    then have eq: "derive_loop s parent child (Some rec # snapshot) = derive_loop s parent child snapshot"
      by auto
    show ?thesis
      unfolding eq by (rule grown_trans [OF subset_refl _ 3(2) [OF False] mono]) simp
  next
    case True
    show ?thesis
    proof (cases rule: insert_capability_cases [of s child "cap_object rec"
          "inherited_child (cap_rights rec)" "Some (cap_id rec)"])
      case full
      with True show ?thesis by simp
    next
      case (ok t)
      have "inherited_from ?S parent child
        \<lparr>cap_id = next_capability_id s, cap_owner = child, cap_object = cap_object rec,
         cap_rights = inherited_child (cap_rights rec), cap_parent = Some (cap_id rec)\<rparr>"
        unfolding inherited_from_def using True by (intro conjI bexI [of _ rec]) simp_all
      then have new: "inherited_from ?S parent child r"
        if "r \<in> cap_records t" "r \<notin> cap_records s" for r
        using that unfolding ok(2) by (elim insertE) simp_all
      have eq: "derive_loop s parent child (Some rec # snapshot) = derive_loop t parent child snapshot"
        using True ok(1) by simp
      show ?thesis
        unfolding eq
      proof (rule grown_trans [OF _ _ 3(1) [OF True, of t] mono])
        show "cap_records s \<subseteq> cap_records t" using ok(2) by blast
      qed (use new in simp)
    qed
  qed
qed simp_all

end
