(* ===== verification/Security_Policy.thy ===== *)
theory Security_Policy
  imports Security_Kernel
begin

text \<open>
  The security theorems about the broker of \<open>Security_Kernel\<close>: its methods as the labels of a
  step relation, the invariant over every reachable state, the exact conditions under which
  each request is authorized, and how authority can move between tasks.

  The domain table is shown to be a keyed table (interpretation \<open>sk\<close>), so that any sequence
  of registrations and revocations is described by a map from process ids to domains.
\<close>

section \<open>Methods as steps\<close>

datatype sk_op =
    OpRegister ProcessId Credentials
  | OpRevokeTask ProcessId
  | OpGrant ProcessId CapabilityObject CapabilityRights
  | OpRevokeCapability CapabilityId
  | OpTransfer ProcessId ProcessId CapabilityId
  | OpDerive ProcessId ProcessId
  | OpRevokeAll ProcessId
  | OpReset

fun sk_exec :: "SecurityKernel \<Rightarrow> sk_op \<Rightarrow> SecurityKernel" where
  "sk_exec s (OpRegister pid creds) = fst (register_task s pid creds)"
| "sk_exec s (OpRevokeTask pid) = revoke_task s pid"
| "sk_exec s (OpGrant pid obj rights) = fst (grant_capability s pid obj rights)"
| "sk_exec s (OpRevokeCapability cid) = fst (revoke_capability s cid)"
| "sk_exec s (OpTransfer source target cid) = fst (transfer_capability s source target cid)"
| "sk_exec s (OpDerive parent child) = fst (derive_inherited_child_capabilities s parent child)"
| "sk_exec s (OpRevokeAll pid) = revoke_all_capabilities s pid"
| "sk_exec s OpReset = sk_reset s"

text \<open>
  Every state the broker can be in. One method call hands out at most
  \<^const>\<open>MAX_CAPABILITY_RECORDS\<close> ids, so the guard only excludes the state, after about
  \<open>2^64\<close> insertions, in which the counter wraps and ids are handed out again.
\<close>

inductive sk_reachable :: "nat \<Rightarrow> SecurityKernel \<Rightarrow> bool" for max_domains where
  start: "sk_reachable max_domains (sk_new max_domains)"
| step: "sk_reachable max_domains s \<Longrightarrow> id_room MAX_CAPABILITY_RECORDS s \<Longrightarrow>
    sk_reachable max_domains (sk_exec s op)"

text \<open>
  The steps by which authority only moves: everything except registration, which seeds a
  task from its credentials, explicit grants, and the reset.
\<close>

fun moves_only :: "sk_op \<Rightarrow> bool" where
  "moves_only (OpRegister _ _) = False"
| "moves_only (OpGrant _ _ _) = False"
| "moves_only OpReset = False"
| "moves_only _ = True"

definition caps_owned :: "SecurityKernel \<Rightarrow> bool" where
  "caps_owned s \<longleftrightarrow> (\<forall>r \<in> cap_records s. domain_map s (cap_owner r) \<noteq> None)"

text \<open>
  A chain of spawns: each new task was authorized by \<open>authorize_spawn\<close> on behalf of the task
  before it and then registered with the credentials that were authorized.
\<close>

inductive spawned :: "SecurityKernel \<Rightarrow> ProcessId \<Rightarrow> SecurityKernel \<Rightarrow> ProcessId \<Rightarrow> bool"
  for s0 p0 where
  itself: "spawned s0 p0 s0 p0"
| spawn: "spawned s0 p0 s p \<Longrightarrow> authorize_spawn s p creds = Inr () \<Longrightarrow>
    register_task s child creds = (s', Inr ()) \<Longrightarrow> spawned s0 p0 s' child"

inductive_cases spawnedE: "spawned s0 p0 s p"

text \<open>Registration as the partial update of a keyed table.\<close>

definition put_task :: "SecurityKernel \<Rightarrow> ProcessId \<Rightarrow> Credentials \<Rightarrow> SecurityKernel option" where
  "put_task s pid creds =
     (case register_task s pid creds of (s', Inr _) \<Rightarrow> Some s' | (s', Inl _) \<Rightarrow> None)"

text \<open>A concrete broker with two user tasks, for the examples below.\<close>

definition demo_kernel :: SecurityKernel where
  "demo_kernel =
     sk_exec (sk_exec (sk_new 3) (OpRegister 7 credentials_user)) (OpRegister 8 credentials_user)"

section \<open>Effect of the methods on the two tables\<close>

lemma cap_records_update_domains [simp]: "cap_records (s\<lparr>domains := ds\<rparr>) = cap_records s"
  by (simp add: cap_records_def)

lemma cap_records_revoke_all [simp]:
  "cap_records (revoke_all_capabilities s pid) = {r \<in> cap_records s. cap_owner r \<noteq> pid}"
  by (simp add: revoke_all_capabilities_def cap_records_def)

lemma domains_revoke_all [simp]: "domains (revoke_all_capabilities s pid) = domains s"
  by (simp add: revoke_all_capabilities_def)

lemma initial_capabilities_bound: "length (initial_capabilities pid creds) \<le> 11"
  by (simp add: initial_capabilities_def Let_def)

lemma seed_domains [simp]: "domains (fst (seed_initial_capabilities s pid creds)) = domains s"
  by (simp add: seed_initial_capabilities_def insert_all_domains)

lemma seed_domainsD: "seed_initial_capabilities s pid creds = (s', r) \<Longrightarrow> domains s' = domains s"
  using seed_domains [of s pid creds] by simp

lemma seed_others:
  "{r \<in> cap_records (fst (seed_initial_capabilities s pid creds)). cap_owner r \<noteq> pid} =
   {r \<in> cap_records s. cap_owner r \<noteq> pid}"
  using insert_all_records [of s pid "initial_capabilities pid creds"]
  unfolding seed_initial_capabilities_def by blast

text \<open>
  Registration writes one slot, the task's old one or else the first free one; a failed
  registration leaves the domain table as it was.
\<close>

lemma register_task_failed:
  assumes "register_task s pid creds = (s', Inl e)"
  shows "domains s' = domains s"
proof (cases "find_domain_index s pid")
  case (Some i)
  then obtain d where i: "i < length (domains s)" "domains s ! i = Some d"
    by (rule find_domain_index_SomeE)
  with assms Some show ?thesis
    by (auto simp: register_task_def Let_def list_update_same_conv dest!: seed_domainsD
        split: prod.splits sum.splits)
next
  case None
  then show ?thesis
  proof (cases "free_slot (domains s)")
    case (Some i)
    then have "(domains s)[i := None] = domains s"
      using free_slot_SomeD(1,2) [OF Some] by (simp add: list_update_same_conv)
    with assms None Some show ?thesis
      by (auto simp: register_task_def dest!: seed_domainsD split: prod.splits sum.splits)
  qed (use assms None in \<open>simp add: register_task_def\<close>)
qed

lemma register_task_okE:
  assumes "register_task s pid creds = (s', Inr u)"
  obtains (known) i where "find_domain_index s pid = Some i"
      "domains s' = (domains s)[i := Some (from_credentials pid creds)]"
      "seed_initial_capabilities
         (revoke_all_capabilities (s\<lparr>domains := domains s'\<rparr>) pid) pid creds = (s', ok_unit)"
    | (fresh) i where "find_domain_index s pid = None" "free_slot (domains s) = Some i"
      "domains s' = (domains s)[i := Some (from_credentials pid creds)]"
      "seed_initial_capabilities (s\<lparr>domains := domains s'\<rparr>) pid creds = (s', ok_unit)"
proof (cases "find_domain_index s pid")
  case (Some i)
  let ?s1 = "revoke_all_capabilities
               (s\<lparr>domains := (domains s)[i := Some (from_credentials pid creds)]\<rparr>) pid"
  have seed: "seed_initial_capabilities ?s1 pid creds = (s', ok_unit)"
    using assms Some by (auto simp: register_task_def Let_def split: prod.splits sum.splits)
  then have "domains s' = (domains s)[i := Some (from_credentials pid creds)]"
    by (auto dest: seed_domainsD)
  with Some seed show thesis by (intro known) simp_all
next
  case None
  with assms obtain i where f: "free_slot (domains s) = Some i"
    by (auto simp: register_task_def split: option.splits)
  let ?s1 = "s\<lparr>domains := (domains s)[i := Some (from_credentials pid creds)]\<rparr>"
  have seed: "seed_initial_capabilities ?s1 pid creds = (s', ok_unit)"
    using assms None f by (auto simp: register_task_def split: prod.splits sum.splits)
  then have "domains s' = (domains s)[i := Some (from_credentials pid creds)]"
    by (auto dest: seed_domainsD)
  with None f seed show thesis by (intro fresh) simp_all
qed

lemma register_task_map:
  assumes ok: "domains_ok s" and reg: "register_task s pid creds = (s', Inr u)"
  shows "domains_ok s'" and "domain_map s' = (domain_map s)(pid \<mapsto> from_credentials pid creds)"
proof -
  have "domains_ok s' \<and> domain_map s' = (domain_map s)(pid \<mapsto> from_credentials pid creds)"
    using reg
  proof (cases rule: register_task_okE)
    case (known i)
    from known(1) obtain d where "i < length (domains s)" "domains s ! i = Some d" "dom_pid d = pid"
      by (rule find_domain_index_SomeE)
    with known(2) ok show ?thesis
      using slot_lookup_replace [of dom_pid "domains s" i d "from_credentials pid creds"]
        unique_keys_update_same [of dom_pid "domains s" i d "from_credentials pid creds"]
      by (simp add: domains_ok_def)
  next
    case (fresh i)
    then show ?thesis
      using slot_lookup_insert [of dom_pid "domains s" i "from_credentials pid creds"] ok
      by (simp add: domains_ok_def find_domain_index_None_iff)
  qed
  then show "domains_ok s'" and "domain_map s' = (domain_map s)(pid \<mapsto> from_credentials pid creds)"
    by simp_all
qed

lemma domains_ok_register: "domains_ok s \<Longrightarrow> domains_ok (fst (register_task s pid creds))"
  using register_task_map(1) [of s pid creds] domains_ok_domains [OF register_task_failed]
  by (cases "register_task s pid creds"; cases "snd (register_task s pid creds)") auto

lemma revoke_task_map:
  assumes "domains_ok s"
  shows "domains_ok (revoke_task s pid)" and "domain_map (revoke_task s pid) = (domain_map s)(pid := None)"
proof -
  have "domains_ok (revoke_task s pid) \<and>
      domain_map (revoke_task s pid) = (domain_map s)(pid := None)"
  proof (cases "find_domain_index s pid")
    case None
    then have "domain_map s pid = None" by (simp add: find_domain_index_None_iff)
    with None show ?thesis
      using assms by (simp add: revoke_task_def domains_ok_def fun_upd_idem)
  next
    case (Some i)
    then obtain d where "i < length (domains s)" "domains s ! i = Some d" "dom_pid d = pid"
      by (rule find_domain_index_SomeE)
    then show ?thesis
      using assms Some slot_lookup_update_None [of dom_pid "domains s" i d]
        unique_keys_update_None [of dom_pid "domains s" i]
      by (simp add: revoke_task_def domains_ok_def)
  qed
  then show "domains_ok (revoke_task s pid)"
    and "domain_map (revoke_task s pid) = (domain_map s)(pid := None)" by simp_all
qed

lemma cap_records_revoke_task [simp]:
  "cap_records (revoke_task s pid) = {r \<in> cap_records s. cap_owner r \<noteq> pid}"
  by (simp add: revoke_task_def split: option.split)

text \<open>The domain table keeps the contract of a keyed table.\<close>

lemma put_task_Some: "put_task s pid creds = Some s' \<longleftrightarrow> register_task s pid creds = (s', Inr ())"
  by (auto simp: put_task_def split: prod.splits sum.splits)

interpretation sk: keyed_table domain_map put_task revoke_task from_credentials domains_ok
  by (unfold_locales; (simp only: put_task_Some)?; (rule register_task_map revoke_task_map; assumption))

section \<open>The invariant over all reachable states\<close>

lemma sk_inv_update_domains: "sk_inv s \<Longrightarrow> unique_keys dom_pid ds \<Longrightarrow> sk_inv (s\<lparr>domains := ds\<rparr>)"
  by (simp add: sk_inv_def domains_ok_def cap_records_def)

lemma sk_inv_capabilities:
  assumes "sk_inv s" and "domains s' = domains s" "next_capability_id s' = next_capability_id s"
    and "length (capabilities s') = length (capabilities s)" "unique_keys cap_id (capabilities s')"
    and "cap_records s' \<subseteq> cap_records s"
  shows "sk_inv s'"
  using assms by (auto simp: sk_inv_def domains_ok_def cap_records_def)

lemma sk_inv_revoke_all: "sk_inv s \<Longrightarrow> sk_inv (revoke_all_capabilities s pid)"
  by (rule sk_inv_capabilities)
    (auto simp: revoke_all_capabilities_def cap_records_def sk_inv_def)

lemma id_room_revoke_all [simp]: "id_room n (revoke_all_capabilities s pid) = id_room n s"
  by (simp add: id_room_def revoke_all_capabilities_def)

lemma sk_inv_seed:
  assumes "sk_inv s" "id_room MAX_CAPABILITY_RECORDS s"
  shows "sk_inv (fst (seed_initial_capabilities s pid creds))"
proof -
  have "id_room (length (initial_capabilities pid creds) + 0) s"
    using initial_capabilities_bound [of pid creds]
    by (intro id_room_mono [OF assms(2)]) (simp add: MAX_CAPABILITY_RECORDS_def)
  then show ?thesis
    using insert_all_inv [OF assms(1), of "initial_capabilities pid creds" 0 pid]
    by (simp add: seed_initial_capabilities_def)
qed

lemma register_task_sequel:
  assumes "register_task s pid creds = (s', r)"
  obtains (rejected) "s' = s"
    | (seeded) ds t where "s' = t\<lparr>domains := domains s'\<rparr>"
      "unique_keys dom_pid (domains s) \<longrightarrow> unique_keys dom_pid ds"
      "t = fst (seed_initial_capabilities (s\<lparr>domains := ds\<rparr>) pid creds) \<or>
     t = fst (seed_initial_capabilities (revoke_all_capabilities (s\<lparr>domains := ds\<rparr>) pid) pid creds) \<or>
     t = revoke_all_capabilities
           (fst (seed_initial_capabilities (revoke_all_capabilities (s\<lparr>domains := ds\<rparr>) pid) pid creds)) pid"
proof (cases "find_domain_index s pid")
  case (Some i)
  then obtain d where i: "i < length (domains s)" "domains s ! i = Some d" "dom_pid d = pid"
    by (rule find_domain_index_SomeE)
  let ?ds = "(domains s)[i := Some (from_credentials pid creds)]"
  have u: "unique_keys dom_pid (domains s) \<longrightarrow> unique_keys dom_pid ?ds"
    using i by (auto intro: unique_keys_update_same)
  obtain t r2 where seed: "seed_initial_capabilities
      (revoke_all_capabilities (s\<lparr>domains := ?ds\<rparr>) pid) pid creds = (t, r2)" by fastforce
  show thesis
  proof (cases r2)
    case (Inl e)
    with assms Some seed have "s' = (revoke_all_capabilities t pid)\<lparr>domains := domains s'\<rparr>"
      by (auto simp: register_task_def Let_def)
    then show thesis using u seed by (intro seeded) auto
  next
    case (Inr v)
    with assms Some seed have "s' = t\<lparr>domains := domains s'\<rparr>"
      by (auto simp: register_task_def Let_def)
    then show thesis using u seed by (intro seeded) auto
  qed
next
  case None
  show thesis
  proof (cases "free_slot (domains s)")
    case None
    with \<open>find_domain_index s pid = None\<close> assms show thesis
      by (intro rejected) (simp add: register_task_def)
  next
    case (Some i)
    let ?ds = "(domains s)[i := Some (from_credentials pid creds)]"
    have u: "unique_keys dom_pid (domains s) \<longrightarrow> unique_keys dom_pid ?ds"
      using slot_lookup_insert(2) [of dom_pid "domains s" i "from_credentials pid creds"] Some None
      by (simp add: find_domain_index_None_iff)
    obtain t r2 where seed: "seed_initial_capabilities (s\<lparr>domains := ?ds\<rparr>) pid creds = (t, r2)"
      by fastforce
    with assms Some None have "s' = t\<lparr>domains := domains s'\<rparr>"
      by (cases r2) (auto simp: register_task_def)
    then show thesis using u seed by (intro seeded) auto
  qed
qed

lemma sk_inv_register:
  assumes inv: "sk_inv s" and room: "id_room MAX_CAPABILITY_RECORDS s"
  shows "sk_inv (fst (register_task s pid creds))"
proof -
  obtain s' r where reg: "register_task s pid creds = (s', r)" by fastforce
  have dok: "unique_keys dom_pid (domains s')"
    using domains_ok_register [of s pid creds] inv reg by (simp add: sk_inv_def domains_ok_def)
  from reg have "sk_inv s'"
  proof (cases rule: register_task_sequel)
    case rejected
    with inv show ?thesis by simp
  next
    case (seeded ds t)
    have "unique_keys dom_pid ds" using seeded(2) inv by (simp add: sk_inv_def domains_ok_def)
    then have "sk_inv (s\<lparr>domains := ds\<rparr>)" "id_room MAX_CAPABILITY_RECORDS (s\<lparr>domains := ds\<rparr>)"
      using inv room by (simp_all add: sk_inv_update_domains id_room_def)
    then have "sk_inv t"
      using seeded(3) sk_inv_seed sk_inv_revoke_all id_room_revoke_all by metis
    then show ?thesis using seeded(1) dok sk_inv_update_domains by metis
  qed
  with reg show ?thesis by simp
qed

lemma sk_inv_insert:
  assumes "sk_inv s" "id_room MAX_CAPABILITY_RECORDS s"
  shows "sk_inv (fst (insert_capability s pid obj rights par))"
proof (cases rule: insert_capability_cases [of s pid obj rights par])
  case (ok t)
  have "id_room (Suc 0) s"
    using assms(2) by (rule id_room_mono) (simp add: MAX_CAPABILITY_RECORDS_def)
  with ok(1) assms(1) show ?thesis by (simp add: insert_capability_inv(1))
qed (use assms in simp)

lemma revoke_capability_records:
  assumes inv: "sk_inv s" and rev: "revoke_capability s cid = (s', Inr u)"
  shows "cap_records s' = {r \<in> cap_records s. cap_id r \<noteq> cid \<and> cap_parent r \<noteq> Some cid}"
    and "domains s' = domains s" and "sk_inv s'"
proof -
  from rev obtain i where f: "find_capability_index s cid = Some i"
    and s': "s' = s\<lparr>capabilities :=
      clear_slots (\<lambda>r. cap_parent r = Some cid) ((capabilities s)[i := None])\<rparr>"
    by (auto simp: revoke_capability_def split: option.splits)
  from f obtain b where i: "i < length (capabilities s)" "capabilities s ! i = Some b" "cap_id b = cid"
    by (rule find_capability_index_SomeE)
  have u: "unique_keys cap_id (capabilities s)" using inv by (simp add: sk_inv_def)
  show rec: "cap_records s' = {r \<in> cap_records s. cap_id r \<noteq> cid \<and> cap_parent r \<noteq> Some cid}"
    using Some_in_replaced [OF u i(1,2), of _ None] i(3) by (simp add: s' cap_records_def)
  show "domains s' = domains s" by (simp add: s')
  show "sk_inv s'"
  proof (rule sk_inv_capabilities [OF inv])
    show "unique_keys cap_id (capabilities s')"
      using u by (simp add: s' unique_keys_clear unique_keys_update_None)
  qed (use rec in \<open>auto simp: s'\<close>)
qed

lemma transfer_capability_fst:
  "fst (transfer_capability s source target cid) = s \<or>
   (\<exists>obj rights par. fst (transfer_capability s source target cid) =
      fst (insert_capability s target obj rights par))"
  by (auto simp: transfer_capability_def split: sum.splits option.splits)

lemma sk_exec_inv:
  assumes inv: "sk_inv s" and room: "id_room MAX_CAPABILITY_RECORDS s"
  shows "sk_inv (sk_exec s op)"
proof (cases op)
  case (OpRegister pid creds)
  with sk_inv_register [OF assms] show ?thesis by simp
next
  case (OpRevokeTask pid)
  have "unique_keys dom_pid (domains (revoke_task s pid))"
    using revoke_task_map(1) [of s pid] inv by (simp add: sk_inv_def domains_ok_def)
  then have "sk_inv (revoke_all_capabilities (s\<lparr>domains := domains (revoke_task s pid)\<rparr>) pid)"
    using inv by (intro sk_inv_revoke_all sk_inv_update_domains)
  moreover have "revoke_all_capabilities (s\<lparr>domains := domains (revoke_task s pid)\<rparr>) pid = revoke_task s pid"
    by (auto simp: revoke_task_def revoke_all_capabilities_def split: option.split)
  ultimately show ?thesis using OpRevokeTask by simp
next
  case (OpGrant pid obj rights)
  with sk_inv_insert [OF assms] inv show ?thesis
    by (auto simp: grant_capability_def split: sum.splits)
next
  case (OpRevokeCapability cid)
  with inv show ?thesis
    using revoke_capability_records(3) [OF inv, of cid]
    by (cases "find_capability_index s cid") (auto simp: revoke_capability_def)
next
  case (OpTransfer source target cid)
  with sk_inv_insert [OF assms] inv transfer_capability_fst [of s source target cid] show ?thesis
    by auto
next
  case (OpDerive parent child)
  have "id_room (length (capabilities s) + 0) s" using inv room by (simp add: sk_inv_def)
  with derive_loop_inv [OF inv this] inv OpDerive show ?thesis
    by (auto simp: derive_inherited_child_capabilities_def split: sum.splits)
next
  case (OpRevokeAll pid)
  with sk_inv_revoke_all [OF inv] show ?thesis by simp
next
  case OpReset
  with inv show ?thesis by (auto simp: sk_reset_def sk_inv_def domains_ok_def cap_records_def)
qed

lemma sk_exec_length_domains: "length (domains (sk_exec s op)) = length (domains s)"
proof (cases op)
  case (OpRegister pid creds)
  show ?thesis
  proof (cases "snd (register_task s pid creds)")
    case (Inl e)
    then show ?thesis
      using OpRegister register_task_failed [of s pid creds] by (metis prod.collapse sk_exec.simps(1))
  next
    case (Inr u)
    then have "register_task s pid creds = (fst (register_task s pid creds), Inr u)"
      by (metis prod.collapse)
    then show ?thesis
      unfolding OpRegister sk_exec.simps by (cases rule: register_task_okE) simp_all
  qed
next
  case (OpTransfer source target cid)
  have "domains (fst (insert_capability s target obj rights par)) = domains s" for obj rights par
    by (cases rule: insert_capability_cases [of s target obj rights par]) simp_all
  with OpTransfer transfer_capability_fst [of s source target cid] show ?thesis by auto
next
  case (OpGrant pid obj rights)
  then show ?thesis
    by (cases rule: insert_capability_cases [of s pid obj rights None])
      (auto simp: grant_capability_def split: sum.splits)
qed (auto simp: revoke_task_def revoke_capability_def derive_inherited_child_capabilities_def
      derive_loop_domains sk_reset_def split: option.splits sum.splits)

lemma reachable_inv: "sk_reachable n s \<Longrightarrow> sk_inv s"
proof (induction rule: sk_reachable.induct)
  case start
  then show ?case by (simp add: sk_new_def sk_inv_def domains_ok_def cap_records_def MAX_CAPABILITY_RECORDS_def)
qed (rule sk_exec_inv)

text \<open>
  (C20) Whatever sequence of broker methods has run since \<open>new()\<close>, successful or not, the
  broker is well formed as long as the id counter has not wrapped: at most one domain per
  process id, at most one record per capability id, no record carries id zero or an id the
  counter has not handed out yet, and both tables keep their size.
\<close>

theorem sk_reachable_inv:
  assumes "sk_reachable n s"
  shows "sk_inv s \<and> length (domains s) = n"
  using assms
proof induction
  case start
  then show ?case by (simp add: sk_new_def sk_inv_def domains_ok_def cap_records_def MAX_CAPABILITY_RECORDS_def)
next
  case (step s op)
  then show ?case by (simp add: sk_exec_inv sk_exec_length_domains)
qed

theorem sk_reachable_inv_witness:
  "sk_inv (sk_exec (sk_new 2) (OpRegister 7 credentials_user)) \<and>
   length (domains (sk_exec (sk_new 2) (OpRegister 7 credentials_user))) = 2"
proof (rule sk_reachable_inv)
  show "sk_reachable 2 (sk_exec (sk_new 2) (OpRegister 7 credentials_user))"
    by (intro sk_reachable.intros) (simp add: id_room_def sk_new_def MAX_CAPABILITY_RECORDS_def)
qed

section \<open>When a request is authorized\<close>

lemma matches_IpcEndpoint:
  "capability_object_matches g (IpcEndpoint p) \<longleftrightarrow> g = IpcEndpoint p \<or> g = IpcEndpoint max_word_of"
  by (cases g) (auto simp: capability_object_matches_def)

lemma sum_unit_Inr: "(case x of Inl e \<Rightarrow> Inl e | Inr _ \<Rightarrow> y) = Inr () \<longleftrightarrow> (\<exists>v. x = Inr v) \<and> y = Inr ()"
  by (cases x) auto

text \<open>
  (C23) A message of class \<open>c\<close> from \<open>a\<close> to \<open>b\<close> is authorized exactly when both tasks are
  registered, \<open>a\<close> holds a record with the send right for the endpoint of \<open>b\<close> or for the
  wildcard endpoint, the credentials of \<open>a\<close> allow IPC, the labels of both tasks dominate the
  label of the class, and the message does not leave a virtual machine for an unisolated task.
\<close>

theorem authorize_ipc_iff:
  "authorize_ipc s a b c = Inr () \<longleftrightarrow>
     (\<exists>da db. domain_map s a = Some da \<and> domain_map s b = Some db \<and>
        (\<exists>r \<in> cap_records s. cap_owner r = a \<and> rights_contains (cap_rights r) RightSend \<and>
           (cap_object r = IpcEndpoint b \<or> cap_object r = IpcEndpoint max_word_of)) \<and>
        allows_ipc (dom_capabilities da) \<and>
        dominates (dom_label da) (as_label c) \<and> dominates (dom_label db) (as_label c) \<and>
        \<not> (dom_isolation da = IsoVirtualMachine \<and> dom_isolation db = IsoNone))"
proof -
  have cap: "has_capability s a (IpcEndpoint b) RightSend \<longleftrightarrow>
      (\<exists>r \<in> cap_records s. cap_owner r = a \<and> rights_contains (cap_rights r) RightSend \<and>
         (cap_object r = IpcEndpoint b \<or> cap_object r = IpcEndpoint max_word_of))"
    unfolding has_capability_iff matches_IpcEndpoint by (rule bex_cong) auto
  show ?thesis
  proof (cases "domain_map s a")
    case None
    then show ?thesis by (simp add: authorize_ipc_def domain_of_lookup)
  next
    case (Some da)
    show ?thesis
    proof (cases "domain_map s b")
      case None
      with Some show ?thesis by (simp add: authorize_ipc_def domain_of_lookup)
    next
      case (Some db)
      with \<open>domain_map s a = Some da\<close> show ?thesis
        by (simp add: authorize_ipc_def domain_of_lookup sum_unit_Inr check_capability_Inr cap
            can_transmit_def can_receive_def) blast
    qed
  qed
qed

section \<open>How authority moves\<close>

lemma moves_only_domains:
  assumes "moves_only op" "domains_ok s"
  shows "domains_ok (sk_exec s op)"
    and "domain_map (sk_exec s op) q \<noteq> None \<Longrightarrow> domain_map s q \<noteq> None"
proof -
  have "domains_ok (sk_exec s op) \<and> (domain_map (sk_exec s op) q \<noteq> None \<longrightarrow> domain_map s q \<noteq> None)"
  proof (cases "\<exists>pid. op = OpRevokeTask pid")
    case True
    with assms(2) show ?thesis by (auto simp: revoke_task_map split: if_splits)
  next
    case False
    have ins: "domains (fst (insert_capability s target obj rights par)) = domains s"
      for target obj rights par
      by (cases rule: insert_capability_cases [of s target obj rights par]) simp_all
    have "domains (sk_exec s op) = domains s"
      using assms(1) False ins
      by (cases op) (auto simp: revoke_capability_def derive_inherited_child_capabilities_def
          derive_loop_domains transfer_capability_def split: option.splits sum.splits)
    with assms(2) show ?thesis by (simp add: domains_ok_def)
  qed
  then show "domains_ok (sk_exec s op)"
    and "domain_map (sk_exec s op) q \<noteq> None \<Longrightarrow> domain_map s q \<noteq> None" by simp_all
qed

lemma transfer_capability_cases:
  obtains (refused) e where "transfer_capability s source target cid = (s, Inl e)"
    | (passed) t rec where "transfer_capability s source target cid = (t, Inr (next_capability_id s))"
      "rec \<in> cap_records s" "cap_id rec = cid" "cap_owner rec = source"
      "rights_contains (cap_rights rec) RightTransfer"
      "domain_map s source \<noteq> None" "domain_map s target \<noteq> None"
      "domains t = domains s"
      "cap_records t = insert \<lparr>cap_id = next_capability_id s, cap_owner = target,
         cap_object = cap_object rec, cap_rights = inherited_child (cap_rights rec),
         cap_parent = Some cid\<rparr> (cap_records s)"
proof -
  consider "domain_map s source = None \<or> domain_map s target = None \<or> find_capability_index s cid = None"
    | i where "domain_map s source \<noteq> None" "domain_map s target \<noteq> None"
      "find_capability_index s cid = Some i" by blast
  then show thesis
  proof cases
    case 1
    then have "\<exists>e. transfer_capability s source target cid = (s, Inl e)"
      by (cases "domain_map s source"; cases "domain_map s target")
        (auto simp: transfer_capability_def domain_of_lookup)
    then show thesis using refused by blast
  next
    case (2 i)
    from 2(3) obtain rec where rec: "capabilities s ! i = Some rec" "cap_id rec = cid" "rec \<in> cap_records s"
      by (rule find_capability_index_SomeE)
    have eq: "transfer_capability s source target cid =
        (if cap_owner rec \<noteq> source \<or> \<not> rights_contains (cap_rights rec) RightTransfer
         then (s, Inl CapabilityMissing)
         else insert_capability s target (cap_object rec) (inherited_child (cap_rights rec)) (Some cid))"
      using 2 rec by (auto simp: transfer_capability_def domain_of_lookup)
    show thesis
    proof (cases "cap_owner rec \<noteq> source \<or> \<not> rights_contains (cap_rights rec) RightTransfer")
      case True
      then show thesis using eq by (intro refused) simp
    next
      case False
      then have eq': "transfer_capability s source target cid =
          insert_capability s target (cap_object rec) (inherited_child (cap_rights rec)) (Some cid)"
        using eq by simp
      show thesis
      proof (cases rule: insert_capability_cases [of s target "cap_object rec"
            "inherited_child (cap_rights rec)" "Some cid"])
        case full
        then show thesis using eq' by (intro refused) simp
      next
        case (ok t)
        then show thesis using eq' False 2 rec by (intro passed) simp_all
      qed
    qed
  qed
qed

lemma moves_only_records:
  assumes "moves_only op" and "r \<in> cap_records (sk_exec s op)"
  shows "r \<in> cap_records s \<or>
    (\<exists>p \<in> cap_records s. domain_map s (cap_owner p) \<noteq> None \<and> cap_object r = cap_object p \<and>
       cap_rights r = inherited_child (cap_rights p))"
proof (cases op)
  case (OpTransfer source target cid)
  show ?thesis
  proof (cases rule: transfer_capability_cases [of s source target cid])
    case (refused e)
    with assms OpTransfer show ?thesis by simp
  next
    case (passed t rec)
    from assms(2) have "r \<in> cap_records t" by (simp add: OpTransfer passed(1))
    then show ?thesis
      unfolding passed(9) using passed(2,4,6) by (elim insertE) auto
  qed
next
  case (OpDerive parent child)
  have "r \<in> cap_records s \<or> domain_map s parent \<noteq> None \<and> inherited_from (cap_records s) parent child r"
    using assms(2) derive_loop_records [of s parent child "capabilities s"]
    by (simp add: OpDerive derive_inherited_child_capabilities_def cap_records_def domain_of_lookup
        split: sum.splits option.splits) meson
  then show ?thesis by (auto simp: inherited_from_def)
next
  case (OpRevokeCapability cid)
  with assms(2) show ?thesis
    by (auto simp: revoke_capability_def cap_records_def split: option.splits dest: set_update_subset_insert [THEN subsetD])
qed (use assms in auto)

lemma moves_only_authority:
  assumes "list_all moves_only ops" "domains_ok s" "domain_map (foldl sk_exec s ops) p \<noteq> None"
    and "has_capability (foldl sk_exec s ops) p obj right"
  shows "\<exists>q. domain_map s q \<noteq> None \<and> has_capability s q obj right"
  using assms
proof (induction ops arbitrary: p rule: rev_induct)
  case (snoc op ops)
  let ?s = "foldl sk_exec s ops"
  have ops: "list_all moves_only ops" and op: "moves_only op" using snoc.prems(1) by simp_all
  have ok: "domains_ok ?s" using ops snoc.prems(2) by (induction ops rule: rev_induct) (auto dest: moves_only_domains(1))
  obtain r where r: "r \<in> cap_records (sk_exec ?s op)" "cap_owner r = p"
      "capability_object_matches (cap_object r) obj" "rights_contains (cap_rights r) right"
    using snoc.prems(4) by (auto simp: has_capability_iff)
  have "domain_map ?s p \<noteq> None" using moves_only_domains(2) [OF op ok, of p] snoc.prems(3) by simp
  then obtain q where "q \<in> cap_records ?s" "domain_map ?s (cap_owner q) \<noteq> None" "cap_object q = cap_object r"
      "rights_contains (cap_rights q) right"
    using moves_only_records [OF op r(1)] r(2,4) by (auto simp: rights_contains_inherited_child)
  with r(3) have "domain_map ?s (cap_owner q) \<noteq> None" "has_capability ?s (cap_owner q) obj right"
    unfolding has_capability_iff by auto
  then show ?case by (rule snoc.IH [OF ops snoc.prems(2)])
qed auto

lemma moves_only_revoke_right:
  assumes "list_all moves_only ops" and "has_capability (foldl sk_exec s ops) p obj RightRevoke"
  shows "has_capability s p obj RightRevoke"
  using assms
proof (induction ops rule: rev_induct)
  case (snoc op ops)
  then obtain r where r: "r \<in> cap_records (sk_exec (foldl sk_exec s ops) op)" "cap_owner r = p"
      "capability_object_matches (cap_object r) obj" "rights_contains (cap_rights r) RightRevoke"
    by (auto simp: has_capability_iff)
  have "moves_only op" using snoc by simp
  from moves_only_records [OF this r(1)] have "r \<in> cap_records (foldl sk_exec s ops)"
    using r(4) by (auto simp: rights_contains_inherited_child)
  with r snoc show ?case unfolding has_capability_iff by auto
qed simp

lemma moves_only_registered:
  assumes "list_all moves_only ops" "domains_ok s" "domain_map (foldl sk_exec s ops) q \<noteq> None"
  shows "domain_map s q \<noteq> None"
proof -
  have "domains_ok (foldl sk_exec s ops) \<and> (domain_map (foldl sk_exec s ops) q \<noteq> None \<longrightarrow> domain_map s q \<noteq> None)"
    using assms(1,2) by (induction ops rule: rev_induct) (auto dest: moves_only_domains)
  with assms(3) show ?thesis by simp
qed

text \<open>
  (C1) Confinement: from any reachable state of the broker, transferring, deriving and revoking, in any
  order and number, never create authority. If afterwards some task passes the check for an object and
  a right, then some task passed that very check before. Records that a failed registration
  left without a registered owner are of no use to anybody.
\<close>

theorem authority_confined:
  assumes "sk_reachable n s" and "list_all moves_only ops"
    and "check_capability (foldl sk_exec s ops) p obj right = Inr ()"
  shows "\<exists>q. check_capability s q obj right = Inr ()"
proof -
  have "domains_ok s" using reachable_inv [OF assms(1)] by (simp add: sk_inv_def)
  from moves_only_authority [OF assms(2) this, of p obj right] assms(3)
  show ?thesis by (auto simp: check_capability_Inr)
qed

text \<open>
  (C37) The right to revoke is never handed on: from any reachable state, after any transfers,
  derivations and revocations a task that passes the check for the revoke right on an object passed
  it before, itself.
\<close>

theorem revoke_right_not_delegated:
  assumes reach: "sk_reachable n s" and moves: "list_all moves_only ops"
    and "check_capability (foldl sk_exec s ops) p obj RightRevoke = Inr ()"
  shows "check_capability s p obj RightRevoke = Inr ()"
proof -
  have "domains_ok s" using reachable_inv [OF reach] by (simp add: sk_inv_def)
  then show ?thesis
    using moves_only_revoke_right [OF moves] moves_only_registered [OF moves, of s p] assms(3)
    by (auto simp: check_capability_Inr)
qed

lemma demo_kernel_reachable: "sk_reachable 3 demo_kernel"
proof -
  have "next_capability_id (sk_exec (sk_new 3) (OpRegister 7 credentials_user)) = 3" by code_simp
  then have "id_room MAX_CAPABILITY_RECORDS (sk_exec (sk_new 3) (OpRegister 7 credentials_user))"
    by (simp only: id_room_def) (simp add: MAX_CAPABILITY_RECORDS_def)
  moreover have "id_room MAX_CAPABILITY_RECORDS (sk_new 3)" by (simp add: id_room_def sk_new_def MAX_CAPABILITY_RECORDS_def)
  ultimately show ?thesis unfolding demo_kernel_def by (intro sk_reachable.intros)
qed

theorem authority_confined_witness:
  "\<exists>q. check_capability demo_kernel q (IpcEndpoint 5) RightSend = Inr ()"
proof (rule authority_confined)
  show "sk_reachable 3 demo_kernel" by (rule demo_kernel_reachable)
  show "list_all moves_only [OpTransfer 7 8 2, OpRevokeTask 7]" by code_simp
  show "check_capability (foldl sk_exec demo_kernel [OpTransfer 7 8 2, OpRevokeTask 7]) 8
      (IpcEndpoint 5) RightSend = Inr ()" by code_simp
qed

theorem revoke_right_not_delegated_witness:
  "check_capability demo_kernel 8 (IpcEndpoint 5) RightRevoke = Inr ()"
proof (rule revoke_right_not_delegated)
  show "sk_reachable 3 demo_kernel" by (rule demo_kernel_reachable)
  show "list_all moves_only [OpTransfer 7 8 2, OpRevokeTask 7]" by code_simp
  show "check_capability (foldl sk_exec demo_kernel [OpTransfer 7 8 2, OpRevokeTask 7]) 8
      (IpcEndpoint 5) RightRevoke = Inr ()" by code_simp
qed

text \<open>
  (C36) A successful transfer needs a record of the source with the transfer right and two
  registered tasks, and adds exactly one record: the same object, owned by the target, linked
  to its parent, with the parent's rights minus the right to revoke. A refused transfer changes
  nothing.
\<close>

theorem transfer_capability_exact:
  "case transfer_capability s source target cid of
     (s', Inl e) \<Rightarrow> s' = s
   | (s', Inr new) \<Rightarrow>
       domain_map s source \<noteq> None \<and> domain_map s target \<noteq> None \<and> domains s' = domains s \<and>
       new = next_capability_id s \<and>
       (\<exists>p c. p \<in> cap_records s \<and> cap_id p = cid \<and> cap_owner p = source \<and>
          rights_contains (cap_rights p) RightTransfer \<and>
          cap_records s' = insert c (cap_records s) \<and>
          cap_id c = new \<and> cap_owner c = target \<and> cap_object c = cap_object p \<and>
          cap_parent c = Some cid \<and>
          (\<forall>r. rights_contains (cap_rights c) r \<longleftrightarrow> r \<noteq> RightRevoke \<and> rights_contains (cap_rights p) r))"
proof (cases rule: transfer_capability_cases [of s source target cid])
  case (refused e)
  then show ?thesis by simp
next
  case (passed t rec)
  let ?c = "\<lparr>cap_id = next_capability_id s, cap_owner = target, cap_object = cap_object rec,
    cap_rights = inherited_child (cap_rights rec), cap_parent = Some cid\<rparr>"
  have "cap_id ?c = next_capability_id s \<and> cap_owner ?c = target \<and> cap_object ?c = cap_object rec \<and>
      cap_parent ?c = Some cid \<and>
      (\<forall>r. rights_contains (cap_rights ?c) r \<longleftrightarrow> r \<noteq> RightRevoke \<and> rights_contains (cap_rights rec) r)"
    by (simp add: rights_contains_inherited_child)
  with passed show ?thesis
    by (simp only: passed(1) prod.case sum.case) (intro conjI exI [of _ rec] exI [of _ ?c]; simp)
qed

text \<open>
  Revoking a capability removes the record with that id and the records derived from it in
  one step, and nothing else; it is refused, without effect, exactly when no record has the id.
\<close>

theorem revoke_capability_exact:
  assumes "sk_inv s"
  shows "case revoke_capability s cid of
     (s', Inl e) \<Rightarrow> s' = s \<and> e = CapabilityMissing \<and> (\<forall>r \<in> cap_records s. cap_id r \<noteq> cid)
   | (s', Inr _) \<Rightarrow>
       (\<exists>r \<in> cap_records s. cap_id r = cid) \<and> domains s' = domains s \<and>
       cap_records s' = {r \<in> cap_records s. cap_id r \<noteq> cid \<and> cap_parent r \<noteq> Some cid}"
proof (cases "find_capability_index s cid")
  case None
  then have "revoke_capability s cid = (s, Inl CapabilityMissing)"
    by (simp add: revoke_capability_def)
  with None show ?thesis by (simp add: find_capability_index_None_iff)
next
  case (Some i)
  then obtain s' where rev: "revoke_capability s cid = (s', Inr ())"
    by (simp add: revoke_capability_def)
  from Some have "\<exists>r \<in> cap_records s. cap_id r = cid"
    using find_capability_index_None_iff [of s cid] by auto
  with revoke_capability_records [OF assms rev] show ?thesis by (simp add: rev)
qed

theorem revoke_capability_exact_witness:
  "sk_inv demo_kernel \<and>
   cap_records (fst (revoke_capability demo_kernel 2)) =
     {r \<in> cap_records demo_kernel. cap_id r \<noteq> 2 \<and> cap_parent r \<noteq> Some 2}"
proof -
  have inv: "sk_inv demo_kernel" by code_simp
  have "snd (revoke_capability demo_kernel 2) = Inr ()" by code_simp
  then have "revoke_capability demo_kernel 2 = (fst (revoke_capability demo_kernel 2), Inr ())"
    by (metis prod.collapse)
  with inv revoke_capability_exact [OF inv, of 2] show ?thesis by (auto split: prod.splits)
qed

text \<open>
  (C24) Revoking a task takes every authority from it and from nobody else: afterwards each check
  on its behalf, and the lookup of its credentials, fails with \<open>UnknownTask\<close>, while every check
  for another task has the answer it had before.
\<close>

theorem revoke_task_isolates:
  assumes "domains_ok s"
  shows "check_capability (revoke_task s pid) pid obj right = Inl UnknownTask \<and>
    credentials (revoke_task s pid) pid = Inl UnknownTask \<and>
    (\<forall>q. q \<noteq> pid \<longrightarrow>
       check_capability (revoke_task s pid) q obj right = check_capability s q obj right \<and>
       credentials (revoke_task s pid) q = credentials s q)"
proof -
  have caps: "has_capability (revoke_task s pid) q obj right = has_capability s q obj right"
    if "q \<noteq> pid" for q
    unfolding has_capability_iff cap_records_revoke_task using that by blast
  show ?thesis
  proof (intro conjI allI impI)
    fix q assume "q \<noteq> pid"
    then show "check_capability (revoke_task s pid) q obj right = check_capability s q obj right"
        "credentials (revoke_task s pid) q = credentials s q"
      by (simp_all add: check_capability_def credentials_def domain_of_lookup
          revoke_task_map(2) [OF assms] caps)
  qed (simp_all add: check_capability_def credentials_def domain_of_lookup revoke_task_map(2) [OF assms])
qed

theorem revoke_task_isolates_witness:
  "check_capability (revoke_task demo_kernel 7) 7 (IpcEndpoint 8) RightSend = Inl UnknownTask \<and>
   check_capability (revoke_task demo_kernel 7) 8 (IpcEndpoint 7) RightSend = Inr ()"
proof -
  have "domains_ok demo_kernel" by code_simp
  from revoke_task_isolates [OF this, of 7 "IpcEndpoint 8" RightSend]
    revoke_task_isolates [OF this, of 7 "IpcEndpoint 7" RightSend]
  have "check_capability (revoke_task demo_kernel 7) 7 (IpcEndpoint 8) RightSend = Inl UnknownTask"
    "check_capability (revoke_task demo_kernel 7) 8 (IpcEndpoint 7) RightSend =
     check_capability demo_kernel 8 (IpcEndpoint 7) RightSend" by simp_all
  moreover have "check_capability demo_kernel 8 (IpcEndpoint 7) RightSend = Inr ()" by code_simp
  ultimately show ?thesis by simp
qed

section \<open>Spawning and inheritance\<close>

text \<open>
  (C21) No escalation by spawning: starting from a task without system privilege, every task
  reached by a chain of authorized spawns, of any length, is registered without system privilege,
  with a label the first task's label dominates and a capability set it contains.
\<close>

theorem spawn_chain_no_escalation:
  assumes "spawned s p s' q" and "domains_ok s" and "domain_map s p = Some d"
    and "\<not> has_system_privilege d"
  shows "domains_ok s' \<and> (\<exists>d'. domain_map s' q = Some d' \<and> \<not> has_system_privilege d' \<and>
    dominates (dom_label d) (dom_label d') \<and> capset_contains (dom_capabilities d) (dom_capabilities d'))"
  using assms
proof (induction rule: spawned.induct)
  case (spawn s1 q creds child s2)
  then obtain d1 where d1: "domain_map s1 q = Some d1" "\<not> has_system_privilege d1"
      "dominates (dom_label d) (dom_label d1)" "capset_contains (dom_capabilities d) (dom_capabilities d1)"
    and ok: "domains_ok s1" by auto
  have del: "dominates (dom_label d1) (cr_label creds)" "capset_contains (dom_capabilities d1) (cr_capabilities creds)"
    using spawn(2) d1 by (auto simp: authorize_spawn_def domain_of_lookup can_delegate_def split: if_splits)
  have "\<not> has_system_privilege (from_credentials child creds)"
    using d1(2) del dominates_not_system capset_contains_kernel by (auto simp: has_system_privilege_def)
  then show ?case
    using register_task_map [OF ok spawn(3)] d1 del dominates_trans capset_contains_trans by auto
qed auto

theorem spawn_chain_no_escalation_witness:
  "domains_ok (fst (register_task (sk_exec (sk_new 2) (OpRegister 7
     (credentials_user\<lparr>cr_capabilities := \<lparr>capset_flags = 3\<rparr>\<rparr>))) 9 credentials_user)) \<and>
   (\<exists>d'. domain_map (fst (register_task (sk_exec (sk_new 2) (OpRegister 7
     (credentials_user\<lparr>cr_capabilities := \<lparr>capset_flags = 3\<rparr>\<rparr>))) 9 credentials_user)) 9 = Some d' \<and>
     \<not> has_system_privilege d' \<and> dominates label_internal (dom_label d') \<and>
     capset_contains \<lparr>capset_flags = 3\<rparr> (dom_capabilities d'))"
proof -
  let ?c = "credentials_user\<lparr>cr_capabilities := \<lparr>capset_flags = 3\<rparr>\<rparr>"
  let ?s = "sk_exec (sk_new 2) (OpRegister 7 ?c)"
  let ?s' = "fst (register_task ?s 9 credentials_user)"
  have auth: "authorize_spawn ?s 7 credentials_user = Inr ()" by code_simp
  have "snd (register_task ?s 9 credentials_user) = Inr ()" by code_simp
  then have "register_task ?s 9 credentials_user = (?s', Inr ())" by (metis prod.collapse)
  from spawned.spawn [OF spawned.itself auth this] have chain: "spawned ?s 7 ?s' 9" .
  have ok: "domains_ok ?s" by code_simp
  have d: "domain_map ?s 7 = Some (from_credentials 7 ?c)" by code_simp
  have np: "\<not> has_system_privilege (from_credentials 7 ?c)" by code_simp
  have eq: "dom_label (from_credentials 7 ?c) = label_internal"
    "dom_capabilities (from_credentials 7 ?c) = \<lparr>capset_flags = 3\<rparr>" by code_simp+
  from spawn_chain_no_escalation [OF chain ok d np] show ?thesis unfolding eq .
qed

lemma credentials_from: "domain_map s pid = Some (from_credentials pid c) \<Longrightarrow> credentials s pid = Inr c"
  by (simp add: credentials_def domain_of_lookup from_credentials_def with_unix_credentials_def)

text \<open>
  Registration and revocation as a map: after any run of registrations that succeeded and
  revocations, from any well-formed broker, the credentials a task reports are exactly those of
  the last registration under its process id.
\<close>

theorem credentials_last_registered:
  assumes "domains_ok s" and "run_table put_task revoke_task s (ops @ Put pid creds # ops') = Some s'"
    and "pid \<notin> table_op_key ` set ops'"
  shows "credentials s' pid = Inr creds"
  by (rule credentials_from) (rule sk.run_last_put [OF assms])

theorem credentials_last_registered_witness:
  "credentials (the (run_table put_task revoke_task (sk_new 2)
     [Put 7 credentials_user, Drop 7, Put 7 credentials_system, Put 8 credentials_user, Drop 8])) 7 =
   Inr credentials_system"
proof (rule credentials_last_registered)
  show "domains_ok (sk_new 2)" by code_simp
  show "run_table put_task revoke_task (sk_new 2)
     ([Put 7 credentials_user, Drop 7] @ Put 7 credentials_system # [Put 8 credentials_user, Drop 8]) =
    Some (the (run_table put_task revoke_task (sk_new 2)
     [Put 7 credentials_user, Drop 7, Put 7 credentials_system, Put 8 credentials_user, Drop 8]))"
    by code_simp
  show "(7::u64) \<notin> table_op_key ` set [Put 8 credentials_user, Drop 8]" by code_simp
qed

lemma derive_loop_complete:
  assumes "derive_loop s parent child snapshot = (s', Inr u)" and "Some p \<in> set snapshot"
    and "cap_owner p = parent" "rights_contains (cap_rights p) RightTransfer"
  shows "\<exists>r \<in> cap_records s'. cap_owner r = child \<and> cap_object r = cap_object p \<and>
    cap_rights r = inherited_child (cap_rights p) \<and> cap_parent r = Some (cap_id p)"
  using assms
proof (induction s parent child snapshot rule: derive_loop.induct)
  case (3 s parent child rec snapshot)
  show ?case
  proof (cases "Some p \<in> set snapshot")
    case True
    show ?thesis
    proof (cases "cap_owner rec = parent \<and> rights_contains (cap_rights rec) RightTransfer")
      case T: True
      with 3(3) obtain t where "derive_loop t parent child snapshot = (s', Inr u)"
        by (auto simp: and_then_eq_Inr)
      from 3(1) [OF T this True] 3(5,6) show ?thesis by blast
    next
      case F: False
      with 3(3) have "derive_loop s parent child snapshot = (s', Inr u)" by auto
      from 3(2) [OF F this True] 3(5,6) show ?thesis by blast
    qed
  next
    case False
    with 3(4) have [simp]: "rec = p" by simp
    from 3(3,5,6) obtain t cid where ins: "insert_capability s child (cap_object p)
        (inherited_child (cap_rights p)) (Some (cap_id p)) = (t, Inr cid)"
      and rest: "derive_loop t parent child snapshot = (s', Inr u)"
      by (auto simp: and_then_eq_Inr)
    let ?r = "\<lparr>cap_id = cid, cap_owner = child, cap_object = cap_object p,
      cap_rights = inherited_child (cap_rights p), cap_parent = Some (cap_id p)\<rparr>"
    have "?r \<in> cap_records s'"
      using insert_capability_records(1) [OF ins] derive_loop_records [of t parent child snapshot] rest
      by auto
    then show ?thesis by (rule bexI [rotated]) simp
  qed
qed auto

text \<open>
  A successful derivation gives the child, for every record of the parent that carries the
  transfer right, a record of the same object without the revoke right and linked to its parent;
  it removes no record, and every record it adds is one of these.
\<close>

theorem derive_inherited_exact:
  assumes "derive_inherited_child_capabilities s parent child = (s', Inr ())"
  shows "domains s' = domains s \<and> cap_records s \<subseteq> cap_records s' \<and>
    (\<forall>r \<in> cap_records s' - cap_records s. inherited_from (cap_records s) parent child r) \<and>
    (\<forall>p \<in> cap_records s. cap_owner p = parent \<and> rights_contains (cap_rights p) RightTransfer \<longrightarrow>
       (\<exists>r \<in> cap_records s'. cap_owner r = child \<and> cap_object r = cap_object p \<and>
          cap_rights r = inherited_child (cap_rights p) \<and> cap_parent r = Some (cap_id p)))"
proof -
  have loop: "derive_loop s parent child (capabilities s) = (s', Inr ())"
    using assms by (auto simp: derive_inherited_child_capabilities_def split: sum.splits)
  have rec: "{p. Some p \<in> set (capabilities s)} = cap_records s" by (simp add: cap_records_def)
  show ?thesis
  proof (intro conjI ballI impI)
    show "domains s' = domains s"
      using derive_loop_domains [of s parent child "capabilities s"] loop by simp
    show "cap_records s \<subseteq> cap_records s'"
      using derive_loop_records [of s parent child "capabilities s"] loop by simp
    show "inherited_from (cap_records s) parent child r" if "r \<in> cap_records s' - cap_records s" for r
      using derive_loop_records [of s parent child "capabilities s"] loop that by (simp add: rec)
  qed (rule derive_loop_complete [OF loop]; simp add: cap_records_iff)
qed

theorem derive_inherited_exact_witness:
  "\<exists>s'. derive_inherited_child_capabilities demo_kernel 7 8 = (s', Inr ()) \<and>
     cap_records demo_kernel \<subseteq> cap_records s'"
proof -
  have "snd (derive_inherited_child_capabilities demo_kernel 7 8) = Inr ()" by code_simp
  then have "derive_inherited_child_capabilities demo_kernel 7 8 =
      (fst (derive_inherited_child_capabilities demo_kernel 7 8), Inr ())" by (metis prod.collapse)
  with derive_inherited_exact [OF this] show ?thesis by metis
qed

section \<open>Object matching\<close>

lemma region_within_trans: "region_within a b \<Longrightarrow> region_within b c \<Longrightarrow> region_within a c"
  by (cases a; cases b; cases c) (auto simp: region_within_def Let_def)

lemma matches_region:
  "region_of g \<noteq> None \<Longrightarrow> capability_object_matches g r \<longleftrightarrow>
     g = r \<or> (case region_of r of Some x \<Rightarrow> region_within (the (region_of g)) x | None \<Rightarrow> False)"
  by (cases g; cases r) (auto simp: capability_object_matches_def)

lemma matches_region_of: "capability_object_matches g r \<Longrightarrow> region_of g = None \<longleftrightarrow> region_of r = None"
  by (cases g; cases r) (auto simp: capability_object_matches_def split: if_splits)

lemma matches_wildcard:
  "region_of a = None \<Longrightarrow> capability_object_matches a b \<Longrightarrow> a \<noteq> b \<Longrightarrow>
     (\<exists>p. a = IpcEndpoint max_word_of \<and> b = IpcEndpoint p) \<or>
     (\<exists>p. a = ProcessHandle max_word_of \<and> b = ProcessHandle p) \<or>
     (\<exists>i. a = PciDevice max_word_of \<and> b = PciDevice i) \<or>
     (\<exists>i. a = FsObject max_word_of \<and> b = FsObject i) \<or>
     (\<exists>i. a = HotplugController max_word_of \<and> b = HotplugController i) \<or>
     (\<exists>i. a = MemoryObject max_word_of \<and> b = MemoryObject i) \<or>
     (\<exists>i. a = IrqLine max_word_of \<and> b = IrqLine i)"
  by (cases a; cases b) (simp_all add: capability_object_matches_def)

lemma matches_wildcard_trans:
  assumes "region_of a = None" "capability_object_matches a b" "capability_object_matches b c"
  shows "capability_object_matches a c"
proof (cases "a = b \<or> b = c")
  case False
  then have bc: "b \<noteq> c" by simp
  have "region_of b = None" using assms(1) matches_region_of [OF assms(2)] by simp
  from matches_wildcard [OF this assms(3) bc] show ?thesis
    using matches_wildcard [OF assms(1,2)] False
    by (elim disjE exE) (simp_all add: capability_object_matches_def)
qed (use assms in auto)

lemma matches_region_trans:
  assumes a: "region_of a = Some ra" and ab: "capability_object_matches a b"
    and bc: "capability_object_matches b c"
  shows "capability_object_matches a c"
proof -
  obtain rb rc where b: "region_of b = Some rb" and c: "region_of c = Some rc"
    using a matches_region_of [OF ab] matches_region_of [OF bc] by (metis not_None_eq)
  have "a = b \<or> region_within ra rb" using a b ab by (simp add: matches_region)
  moreover have "b = c \<or> region_within rb rc" using b c bc by (simp add: matches_region)
  ultimately have "a = c \<or> region_within ra rc"
    using a b c region_within_trans by fastforce
  then show ?thesis using a c by (simp add: matches_region)
qed

text \<open>
  Matching is reflexive and transitive, wildcards and address ranges included, so an object
  reached by narrowing a granted object twice could have been reached from it at once.
\<close>

theorem capability_object_matches_preorder:
  "capability_object_matches a a \<and>
   (capability_object_matches a b \<longrightarrow> capability_object_matches b c \<longrightarrow> capability_object_matches a c)"
proof (intro conjI impI)
  show "capability_object_matches a a" by (simp add: capability_object_matches_def)
  assume ab: "capability_object_matches a b" and bc: "capability_object_matches b c"
  show "capability_object_matches a c"
  proof (cases "region_of a")
    case None
    then show ?thesis using ab bc by (rule matches_wildcard_trans)
  next
    case (Some ra)
    then show ?thesis using ab bc matches_region_trans by blast
  qed
qed

theorem capability_object_matches_preorder_witness:
  "capability_object_matches (DmaRegion 0 4096) (MmioRegion 16 32) \<and>
   capability_object_matches (MmioRegion 16 32) (Framebuffer 20 4) \<and>
   capability_object_matches (DmaRegion 0 4096) (Framebuffer 20 4)"
proof -
  have "capability_object_matches (DmaRegion 0 4096) (MmioRegion 16 32)"
    "capability_object_matches (MmioRegion 16 32) (Framebuffer 20 4)"
    by (simp_all add: capability_object_matches_def region_within_def saturating_add_def)
  with capability_object_matches_preorder [of "DmaRegion 0 4096" "MmioRegion 16 32" "Framebuffer 20 4"]
  show ?thesis by simp
qed

section \<open>Records belong to registered tasks\<close>

lemma caps_owned_same:
  "caps_owned s \<Longrightarrow> cap_records s' \<subseteq> cap_records s \<Longrightarrow> domains s' = domains s \<Longrightarrow> caps_owned s'"
  by (auto simp: caps_owned_def)

lemma caps_owned_insert:
  assumes "caps_owned s" "domain_map s pid \<noteq> None"
  shows "caps_owned (fst (insert_capability s pid obj rights par))"
  using assms
  by (cases rule: insert_capability_cases [of s pid obj rights par]) (simp_all add: caps_owned_def)

lemma register_task_records:
  assumes "register_task s pid creds = (s', Inr u)"
  shows "r \<in> cap_records s' \<Longrightarrow> r \<in> cap_records s \<or> cap_owner r = pid"
  using assms
proof (cases rule: register_task_okE)
  case (known i)
  then show "r \<in> cap_records s' \<Longrightarrow> r \<in> cap_records s \<or> cap_owner r = pid"
    using seed_others [of "revoke_all_capabilities (s\<lparr>domains := domains s'\<rparr>) pid" pid creds] by auto
next
  case (fresh i)
  then show "r \<in> cap_records s' \<Longrightarrow> r \<in> cap_records s \<or> cap_owner r = pid"
    using seed_others [of "s\<lparr>domains := domains s'\<rparr>" pid creds] by auto
qed

text \<open>
  No record is left without an owner: every method keeps each capability record owned by a
  registered task, with a registration required to succeed.
\<close>

theorem caps_owned_step:
  assumes ok: "domains_ok s" and own: "caps_owned s"
    and reg: "\<And>pid creds. op = OpRegister pid creds \<Longrightarrow> snd (register_task s pid creds) = Inr ()"
  shows "caps_owned (sk_exec s op)"
proof (cases op)
  case (OpRegister pid creds)
  then obtain s' where s': "register_task s pid creds = (s', Inr ())"
    using reg by (metis prod.collapse)
  have "domain_map s' (cap_owner r) \<noteq> None" if "r \<in> cap_records s'" for r
    using register_task_records [OF s' that] own
    by (auto simp: register_task_map(2) [OF ok s'] caps_owned_def)
  with s' OpRegister show ?thesis by (simp add: caps_owned_def)
next
  case (OpRevokeTask pid)
  with own show ?thesis by (simp add: caps_owned_def revoke_task_map(2) [OF ok])
next
  case (OpGrant pid obj rights)
  with caps_owned_insert [OF own, of pid obj rights None] own show ?thesis
    by (cases "domain_map s pid") (simp_all add: grant_capability_def domain_of_lookup)
next
  case (OpRevokeCapability cid)
  have "cap_records (sk_exec s op) \<subseteq> cap_records s \<and> domains (sk_exec s op) = domains s"
    by (auto simp: OpRevokeCapability revoke_capability_def cap_records_def split: option.splits
        dest: set_update_subset_insert [THEN subsetD])
  with caps_owned_same [OF own] show ?thesis by blast
next
  case (OpTransfer source target cid)
  show ?thesis
  proof (cases rule: transfer_capability_cases [of s source target cid])
    case (passed t rec)
    then show ?thesis using own by (simp add: OpTransfer caps_owned_def)
  qed (use own OpTransfer in simp)
next
  case (OpDerive parent child)
  show ?thesis
  proof (cases "domain_map s child")
    case (Some d)
    let ?t = "fst (derive_loop s parent child (capabilities s))"
    have "domain_map ?t (cap_owner r) \<noteq> None" if "r \<in> cap_records ?t" for r
      using derive_loop_records [of s parent child "capabilities s"] that own Some
      by (cases "r \<in> cap_records s")
        (auto simp: derive_loop_domains caps_owned_def inherited_from_def)
    then have "caps_owned ?t" by (simp add: caps_owned_def)
    then show ?thesis
      using own by (simp add: OpDerive derive_inherited_child_capabilities_def split: sum.splits)
  qed (use own OpDerive in
      \<open>simp add: derive_inherited_child_capabilities_def domain_of_lookup split: sum.splits\<close>)
next
  case (OpRevokeAll pid)
  with caps_owned_same [OF own, of "revoke_all_capabilities s pid"] show ?thesis by auto
next
  case OpReset
  then show ?thesis by (simp add: sk_reset_def caps_owned_def cap_records_def)
qed

theorem caps_owned_step_witness: "caps_owned (sk_exec demo_kernel (OpRegister 9 credentials_system))"
proof (rule caps_owned_step)
  show "domains_ok demo_kernel" by code_simp
  show "caps_owned demo_kernel" by code_simp
  have ok: "snd (register_task demo_kernel 9 credentials_system) = Inr ()" by code_simp
  show "snd (register_task demo_kernel pid creds) = Inr ()"
    if "OpRegister 9 credentials_system = OpRegister pid creds" for pid creds
    using that ok by simp
qed

text \<open>
  The success hypothesis is needed. With one free record left, registering a new task that needs
  two seed records fails after the first: its domain slot is cleared again but the record stays,
  owned by a process id that is not registered.
\<close>

theorem failed_registration_leaves_record:
  assumes "domain_map s pid = None" "free_slot (domains s) = Some j"
    and "allows_ipc (cr_capabilities creds)"
    and "capabilities s = xs @ [None]" "None \<notin> set xs"
  shows "snd (register_task s pid creds) = Inl CapabilityTableFull \<and>
    domain_map (fst (register_task s pid creds)) pid = None \<and>
    (\<exists>r \<in> cap_records (fst (register_task s pid creds)). cap_owner r = pid)"
proof -
  have new: "find_domain_index s pid = None" using assms(1) by (simp add: find_domain_index_None_iff)
  let ?r = "\<lparr>cap_id = next_capability_id s, cap_owner = pid, cap_object = IpcEndpoint pid,
    cap_rights = rights_ipc_endpoint, cap_parent = None\<rparr>"
  let ?s1 = "s\<lparr>domains := (domains s)[j := Some (from_credentials pid creds)]\<rparr>"
  obtain t where ins: "insert_capability ?s1 pid (IpcEndpoint pid) rights_ipc_endpoint None =
      (t, Inr (next_capability_id s))" and t: "capabilities t = xs @ [Some ?r]"
    using assms(4,5) by (simp add: insert_capability_def free_slot_full_append Let_def)
  have "None \<notin> set (capabilities t)" using t assms(5) by simp
  then have "insert_capability t pid obj rights par = (t, Inl CapabilityTableFull)" for obj rights par
    by (simp add: insert_capability_Inl)
  then have "seed_initial_capabilities ?s1 pid creds = (t, Inl CapabilityTableFull)"
    using assms(3) ins by (simp add: seed_initial_capabilities_def initial_capabilities_def Let_def)
  then have reg: "register_task s pid creds = (t\<lparr>domains := (domains t)[j := None]\<rparr>, Inl CapabilityTableFull)"
    using new assms(2) by (simp add: register_task_def)
  have "domains (fst (register_task s pid creds)) = domains s"
    using register_task_failed [OF reg] reg by simp
  moreover have "?r \<in> cap_records (fst (register_task s pid creds))"
    using reg t by (simp add: cap_records_def)
  moreover have "cap_owner ?r = pid" by simp
  ultimately show ?thesis using assms(1) reg by (metis snd_conv)
qed

text \<open>
  Revocation reaches one generation: a capability transferred twice survives, in the hands of
  the third task, the revocation of the first.
\<close>

theorem revocation_not_transitive:
  "check_capability
     (foldl sk_exec (sk_exec (sk_new 3) (OpRegister 7 credentials_system))
        [OpRegister 8 (credentials_user\<lparr>cr_capabilities := capset_none\<rparr>),
         OpRegister 9 (credentials_user\<lparr>cr_capabilities := capset_none\<rparr>),
         OpTransfer 7 8 11, OpTransfer 8 9 12, OpRevokeCapability 11])
     9 (MemoryObject 0) RightWrite = Inr ()"
  by code_simp

end
