(* ===== verification/Ring_Queue.thy ===== *)
theory Ring_Queue
  imports Slot_Table
begin

text \<open>
  Ring buffers over a fixed array of options, and the queue they implement.

  The kernel has four rings: the message queue of a process, the ready queue of the MTSS
  core, the run queue of the MTSS scheduler and its event ring. They share the index
  arithmetic proved here for an array \<open>buf\<close>, a head index \<open>h\<close> and a number \<open>n\<close> of
  queued elements: \<open>ring_ok\<close> says that exactly the \<open>n\<close> slots from the head on are
  occupied, \<open>ring_contents\<close> reads them in order.

  The interface \<open>bounded_queue\<close> is the contract of a bounded first-in first-out queue;
  \<open>rollback_queue\<close> adds the removal of the newest element.
\<close>

section \<open>Index arithmetic\<close>

lemma ring_mod:
  fixes a b N :: nat
  assumes "a < N" "b < N"
  shows "(a + b) mod N = (if a + b < N then a + b else a + b - N)"
  using assms by (simp add: le_mod_geq)

lemma ring_index_inj:
  fixes h :: nat
  assumes "(h + i) mod N = (h + j) mod N" "i < N" "j < N"
  shows "i = j"
proof -
  have h: "h mod N < N" using assms(2) by simp
  have "(h mod N + i) mod N = (h mod N + j) mod N"
    using assms(1) by (simp add: mod_add_left_eq)
  then show ?thesis
    using h assms(2,3) by (simp add: ring_mod split: if_splits)
qed

definition ring_at :: "'a slots \<Rightarrow> nat \<Rightarrow> nat \<Rightarrow> 'a option" where
  "ring_at buf h i = buf ! ((h + i) mod length buf)"

definition ring_ok :: "'a slots \<Rightarrow> nat \<Rightarrow> nat \<Rightarrow> bool" where
  "ring_ok buf h n \<longleftrightarrow>
     n \<le> length buf \<and> (buf \<noteq> [] \<longrightarrow> h < length buf) \<and>
     (\<forall>i < length buf. ring_at buf h i \<noteq> None \<longleftrightarrow> i < n)"

definition ring_contents :: "'a slots \<Rightarrow> nat \<Rightarrow> nat \<Rightarrow> 'a list" where
  "ring_contents buf h n = map (\<lambda>i. the (ring_at buf h i)) [0..<n]"

lemma length_ring_contents [simp]: "length (ring_contents buf h n) = n"
  by (simp add: ring_contents_def)

lemma ring_contents_0 [simp]: "ring_contents buf h 0 = []"
  by (simp add: ring_contents_def)

lemma ring_okD:
  assumes "ring_ok buf h n"
  shows "n \<le> length buf" and "buf \<noteq> [] \<Longrightarrow> h < length buf"
    and "i < length buf \<Longrightarrow> ring_at buf h i \<noteq> None \<longleftrightarrow> i < n"
  using assms by (auto simp: ring_ok_def)

lemma ring_at_update:
  assumes "i < length buf" "j < length buf"
  shows "ring_at (buf[(h + i) mod length buf := v]) h j = (if i = j then v else ring_at buf h j)"
proof -
  have "(h + i) mod length buf = (h + j) mod length buf \<longleftrightarrow> i = j"
    using assms ring_index_inj by blast
  moreover have "(h + i) mod length buf < length buf"
    using assms(1) by (intro mod_less_divisor) linarith
  ultimately show ?thesis
    by (simp add: ring_at_def nth_list_update)
qed

lemma ring_at_shift: "ring_at buf (Suc h mod length buf) i = ring_at buf h (Suc i)"
  by (simp add: ring_at_def mod_add_left_eq)

lemma ring_at_wrap:
  assumes "h < length buf"
  shows "ring_at buf h (length buf) = ring_at buf h 0"
  using assms by (simp add: ring_at_def)

lemma ring_ok_replicate [simp]: "ring_ok (replicate n None) 0 0"
  by (auto simp: ring_ok_def ring_at_def)

section \<open>Writing at the tail, reading at the head, undoing a write\<close>

lemma ring_push:
  assumes ok: "ring_ok buf h n" and n: "n < length buf"
  shows "ring_ok (buf[(h + n) mod length buf := Some x]) h (Suc n)"
    and "ring_contents (buf[(h + n) mod length buf := Some x]) h (Suc n) = ring_contents buf h n @ [x]"
proof -
  let ?buf = "buf[(h + n) mod length buf := Some x]"
  have upd: "ring_at ?buf h j = (if n = j then Some x else ring_at buf h j)" if "j < length buf" for j
    using n that by (rule ring_at_update)
  show "ring_ok ?buf h (Suc n)"
    using ok n by (auto simp: ring_ok_def upd less_Suc_eq)
  have "map (\<lambda>i. the (ring_at ?buf h i)) [0..<n] = map (\<lambda>i. the (ring_at buf h i)) [0..<n]"
    using n by (auto simp: upd)
  then show "ring_contents ?buf h (Suc n) = ring_contents buf h n @ [x]"
    using n by (simp add: ring_contents_def upd)
qed

lemma ring_head:
  assumes ok: "ring_ok buf h n" and n: "0 < n"
  shows "buf ! h = Some (hd (ring_contents buf h n))"
proof -
  have "0 < length buf" "h < length buf" using ring_okD(1,2) [OF ok] n by fastforce+
  moreover from this have "ring_at buf h 0 \<noteq> None" using ring_okD(3) [OF ok, of 0] n by simp
  moreover have "ring_at buf h 0 = buf ! h" using calculation(2) by (simp add: ring_at_def)
  ultimately show ?thesis
    using n by (auto simp: ring_contents_def hd_map upt_conv_Cons)
qed

lemma ring_pop:
  assumes ok: "ring_ok buf h n" and n: "0 < n"
  shows "ring_ok (buf[h := None]) (Suc h mod length buf) (n - 1)"
    and "ring_contents (buf[h := None]) (Suc h mod length buf) (n - 1) = tl (ring_contents buf h n)"
proof -
  have len: "0 < length buf" "h < length buf" using ring_okD(1,2) [OF ok] n by fastforce+
  let ?buf = "buf[h := None]"
  have upd: "ring_at ?buf h j = (if j = 0 then None else ring_at buf h j)" if "j < length buf" for j
    using ring_at_update [of 0 buf j h None] len that by auto
  have shift: "ring_at ?buf (Suc h mod length buf) i =
      (if Suc i < length buf then ring_at buf h (Suc i) else None)" if "i < length buf" for i
  proof (cases "Suc i < length buf")
    case True
    then show ?thesis using ring_at_shift [of ?buf h i] by (simp add: upd)
  next
    case False
    with that have "Suc i = length buf" by simp
    then show ?thesis
      using ring_at_shift [of ?buf h i] ring_at_wrap [of h ?buf] len upd [of 0] by simp
  qed
  show "ring_ok ?buf (Suc h mod length buf) (n - 1)"
    using ok n len by (auto simp: ring_ok_def shift)
  have "map (\<lambda>i. the (ring_at ?buf (Suc h mod length buf) i)) [0..<n - 1] =
      map (\<lambda>i. the (ring_at buf h (Suc i))) [0..<n - 1]"
    using ring_okD(1) [OF ok] by (auto simp: shift)
  also have "\<dots> = tl (map (\<lambda>i. the (ring_at buf h i)) [0..<n])"
    using n by (cases n) (simp_all add: map_upt_Suc del: upt_Suc)
  finally show "ring_contents ?buf (Suc h mod length buf) (n - 1) = tl (ring_contents buf h n)"
    by (simp add: ring_contents_def)
qed

lemma ring_last:
  assumes ok: "ring_ok buf h n" and n: "0 < n"
  shows "buf ! ((h + (n - 1)) mod length buf) = Some (last (ring_contents buf h n))"
proof -
  have "n - 1 < length buf" using ring_okD(1) [OF ok] n by simp
  then have "ring_at buf h (n - 1) \<noteq> None" using ring_okD(3) [OF ok, of "n - 1"] n by simp
  then show ?thesis
    using n by (auto simp: ring_contents_def ring_at_def last_map)
qed

lemma ring_unpush:
  assumes ok: "ring_ok buf h n" and n: "0 < n"
  shows "ring_ok (buf[(h + (n - 1)) mod length buf := None]) h (n - 1)"
    and "ring_contents (buf[(h + (n - 1)) mod length buf := None]) h (n - 1) =
         butlast (ring_contents buf h n)"
proof -
  have n': "n - 1 < length buf" using ring_okD(1) [OF ok] n by simp
  let ?buf = "buf[(h + (n - 1)) mod length buf := None]"
  have upd: "ring_at ?buf h j = (if n - 1 = j then None else ring_at buf h j)" if "j < length buf" for j
    using n' that by (rule ring_at_update)
  show "ring_ok ?buf h (n - 1)"
    unfolding ring_ok_def
  proof (intro conjI allI impI)
    fix i assume "i < length ?buf"
    then show "ring_at ?buf h i \<noteq> None \<longleftrightarrow> i < n - 1"
      using ring_okD(3) [OF ok, of i] upd [of i] by auto
  qed (use ring_okD(1,2) [OF ok] in auto)
  have "map (\<lambda>i. the (ring_at ?buf h i)) [0..<n - 1] = map (\<lambda>i. the (ring_at buf h i)) [0..<n - 1]"
  proof (rule map_cong [OF refl])
    fix i assume "i \<in> set [0..<n - 1]"
    then show "the (ring_at ?buf h i) = the (ring_at buf h i)" using n' upd [of i] by simp
  qed
  also have "\<dots> = butlast (map (\<lambda>i. the (ring_at buf h i)) [0..<n])"
    using n by (cases n) (simp_all add: map_butlast)
  finally show "ring_contents ?buf h (n - 1) = butlast (ring_contents buf h n)"
    by (simp add: ring_contents_def)
qed

text \<open>The tail index that the code keeps beside the head and the length.\<close>

lemma ring_tail_step:
  fixes h n N :: nat
  shows "((h + n) mod N + 1) mod N = (h + Suc n) mod N"
  by (simp add: mod_Suc_eq)

lemma ring_tail_pop:
  fixes h n N :: nat
  assumes "0 < n"
  shows "(Suc h mod N + (n - 1)) mod N = (h + n) mod N"
  using assms by (cases n) (simp_all add: mod_add_left_eq)

lemma ring_tail_back:
  fixes h n N :: nat
  assumes "0 < n" "0 < N"
  shows "((h + n) mod N + N - 1) mod N = (h + (n - 1)) mod N"
proof -
  obtain m where m: "n = Suc m" using assms(1) by (cases n) auto
  have "((h + n) mod N + N - 1) mod N = ((h + n) mod N + (N - 1)) mod N"
    using assms(2) by simp
  also have "\<dots> = (h + n + (N - 1)) mod N" by (rule mod_add_left_eq)
  also have "h + n + (N - 1) = (h + m) + N" using m assms(2) by simp
  finally show ?thesis using m by simp
qed

section \<open>The interface of a bounded queue\<close>

datatype 'a queue_op = Push 'a | Pop

text \<open>
  The reference behaviour on lists. A step yields the next queue and what the operation
  returned: whether a push was accepted, and the element a pop returned. The operations of an
  implementation return the queue they leave behind on failure too, and a run continues from it.
\<close>

datatype 'a queue_out = Pushed bool | Popped "'a option"

fun list_queue_step :: "nat \<Rightarrow> 'a list \<Rightarrow> 'a queue_op \<Rightarrow> 'a list \<times> 'a queue_out" where
  "list_queue_step c xs (Push x) =
     (if length xs < c then (xs @ [x], Pushed True) else (xs, Pushed False))"
| "list_queue_step c [] Pop = ([], Popped None)"
| "list_queue_step c (x # xs) Pop = (xs, Popped (Some x))"

fun run_list_queue :: "nat \<Rightarrow> 'a list \<Rightarrow> 'a queue_op list \<Rightarrow> 'a list \<times> 'a queue_out list" where
  "run_list_queue c xs [] = (xs, [])"
| "run_list_queue c xs (op # ops) =
     (case list_queue_step c xs op of (ys, r) \<Rightarrow>
        case run_list_queue c ys ops of (zs, rs) \<Rightarrow> (zs, r # rs))"

definition queue_step ::
  "('q \<Rightarrow> 'a \<Rightarrow> ('q, 'e, unit) op_result) \<Rightarrow> ('q \<Rightarrow> 'q \<times> 'a option) \<Rightarrow> 'q \<Rightarrow> 'a queue_op \<Rightarrow>
     'q \<times> 'a queue_out" where
  "queue_step push pop q op =
     (case op of
        Push x \<Rightarrow> (case push q x of (q', r) \<Rightarrow> (q', Pushed (\<not> isl r)))
      | Pop \<Rightarrow> (case pop q of (q', r) \<Rightarrow> (q', Popped r)))"

fun run_queue_ops ::
  "('q \<Rightarrow> 'a \<Rightarrow> ('q, 'e, unit) op_result) \<Rightarrow> ('q \<Rightarrow> 'q \<times> 'a option) \<Rightarrow> 'q \<Rightarrow> 'a queue_op list \<Rightarrow>
     'q \<times> 'a queue_out list" where
  "run_queue_ops push pop q [] = (q, [])"
| "run_queue_ops push pop q (op # ops) =
     (case queue_step push pop q op of (q', r) \<Rightarrow>
        case run_queue_ops push pop q' ops of (q'', rs) \<Rightarrow> (q'', r # rs))"

locale bounded_queue =
  fixes push :: "'q \<Rightarrow> 'a \<Rightarrow> ('q, 'e, unit) op_result"
    and pop :: "'q \<Rightarrow> 'q \<times> 'a option"
    and contents :: "'q \<Rightarrow> 'a list"
    and cap :: "'q \<Rightarrow> nat"
    and invar :: "'q \<Rightarrow> bool"
  assumes push_full: "invar q \<Longrightarrow> cap q \<le> length (contents q) \<Longrightarrow> \<exists>e. push q x = (q, Inl e)"
    and push_room: "invar q \<Longrightarrow> length (contents q) < cap q \<Longrightarrow>
      \<exists>q'. push q x = (q', Inr ()) \<and> invar q' \<and> contents q' = contents q @ [x] \<and> cap q' = cap q"
    and pop_empty: "invar q \<Longrightarrow> contents q = [] \<Longrightarrow> pop q = (q, None)"
    and pop_cons: "invar q \<Longrightarrow> contents q = x # xs \<Longrightarrow>
      \<exists>q'. pop q = (q', Some x) \<and> invar q' \<and> contents q' = xs \<and> cap q' = cap q"
begin

lemma step_refines:
  assumes "invar q" and "queue_step push pop q op = (q', r)"
  shows "invar q' \<and> cap q' = cap q \<and> list_queue_step (cap q) (contents q) op = (contents q', r)"
proof (cases op)
  case (Push x)
  show ?thesis
  proof (cases "length (contents q) < cap q")
    case True
    from push_room [OF assms(1) this, of x] assms(2) Push True show ?thesis
      by (auto simp: queue_step_def)
  next
    case False
    then show ?thesis
      using push_full [OF assms(1), of x] assms Push by (auto simp: queue_step_def)
  qed
next
  case Pop
  show ?thesis
  proof (cases "contents q")
    case Nil
    then show ?thesis using pop_empty [OF assms(1)] assms Pop by (auto simp: queue_step_def)
  next
    case (Cons x xs)
    from pop_cons [OF assms(1) this] assms(2) Pop Cons show ?thesis
      by (auto simp: queue_step_def)
  qed
qed

lemma run_refines:
  assumes "invar q" and "run_queue_ops push pop q ops = (q', rs)"
  shows "invar q' \<and> cap q' = cap q \<and> run_list_queue (cap q) (contents q) ops = (contents q', rs)"
  using assms
proof (induction ops arbitrary: q rs)
  case Nil
  then show ?case by simp
next
  case (Cons op ops)
  obtain q1 r1 where s: "queue_step push pop q op = (q1, r1)" by fastforce
  obtain q2 rs1 where t: "run_queue_ops push pop q1 ops = (q2, rs1)" by fastforce
  from Cons.prems(2) s t have eqs: "q' = q2" "rs = r1 # rs1" by auto
  from step_refines [OF Cons.prems(1) s]
  have st: "invar q1" "cap q1 = cap q" "list_queue_step (cap q) (contents q) op = (contents q1, r1)"
    by auto
  from Cons.IH [OF st(1)] t st eqs show ?case by simp
qed

end

locale rollback_queue = bounded_queue push pop contents cap invar
  for push :: "'q \<Rightarrow> 'a \<Rightarrow> ('q, 'e, unit) op_result" and pop :: "'q \<Rightarrow> 'q \<times> 'a option"
    and contents :: "'q \<Rightarrow> 'a list" and cap :: "'q \<Rightarrow> nat" and invar :: "'q \<Rightarrow> bool" +
  fixes rollback :: "'q \<Rightarrow> 'q \<times> 'a option"
  assumes rollback_snoc: "invar q \<Longrightarrow> contents q = xs @ [x] \<Longrightarrow>
      \<exists>q'. rollback q = (q', Some x) \<and> invar q' \<and> contents q' = xs \<and> cap q' = cap q"
begin

lemma push_rollback:
  assumes "invar q" and "push q x = (q', Inr ())"
  shows "\<exists>q''. rollback q' = (q'', Some x) \<and> invar q'' \<and> contents q'' = contents q"
proof -
  have "length (contents q) < cap q"
    using push_full [OF assms(1), of x] assms(2) by (cases "length (contents q) < cap q") auto
  from push_room [OF assms(1) this, of x] assms(2)
  have "invar q'" "contents q' = contents q @ [x]" by auto
  from rollback_snoc [OF this] show ?thesis by auto
qed

end

end
