(* ===== verification/Message_Queue.thy ===== *)
theory Message_Queue
  imports Ring_Queue Security_Labels
begin

text \<open>
  Inter-process messages (\<open>src/kernel/ipc.rs\<close>): the fixed 64-byte payload and the ring of
  messages each process owns. \<open>N\<close> of the source is the length of the buffer.

  The lemmas show that the ring is a bounded first-in first-out queue whose newest element can
  be taken back (interpretation \<open>mq\<close> of the queue interface), and that a payload carries the
  first 64 bytes of the slice it was made from.
\<close>

section \<open>Payloads and messages\<close>

definition PAYLOAD_BYTES :: nat where
  "PAYLOAD_BYTES = 64"

record MessagePayload =
  mp_security_class :: SecurityClass
  mp_data :: "u8 list"
  mp_length :: nat

definition payload_empty :: "SecurityClass \<Rightarrow> MessagePayload" where
  "payload_empty class =
     \<lparr>mp_security_class = class, mp_data = replicate PAYLOAD_BYTES 0, mp_length = 0\<rparr>"

text \<open>The copy loop of \<open>from_slice\<close>: the array so far, the index, the bytes still to copy.\<close>

fun copy_payload :: "u8 list \<Rightarrow> nat \<Rightarrow> u8 list \<Rightarrow> u8 list \<times> nat" where
  "copy_payload data idx [] = (data, idx)"
| "copy_payload data idx (b # bs) =
     (if idx < length data then copy_payload (data[idx := b]) (idx + 1) bs else (data, idx))"

definition from_slice :: "SecurityClass \<Rightarrow> u8 list \<Rightarrow> MessagePayload" where
  "from_slice class bytes =
     (let payload = payload_empty class;
          (data, idx) = copy_payload (mp_data payload) 0 bytes
      in payload\<lparr>mp_data := data, mp_length := idx\<rparr>)"

record Message =
  msg_sender :: ProcessId
  msg_receiver :: ProcessId
  msg_sequence :: u64
  msg_payload :: MessagePayload

section \<open>The ring\<close>

datatype MessageQueueError = MqFull

record MessageQueue =
  mq_buffer :: "Message slots"
  mq_head :: nat
  mq_tail :: nat
  mq_len :: nat

definition mq_new :: "nat \<Rightarrow> MessageQueue" where
  "mq_new n = \<lparr>mq_buffer = replicate n None, mq_head = 0, mq_tail = 0, mq_len = 0\<rparr>"

definition mq_capacity :: "MessageQueue \<Rightarrow> nat" where
  "mq_capacity self = length (mq_buffer self)"

definition mq_is_full :: "MessageQueue \<Rightarrow> bool" where
  "mq_is_full self \<longleftrightarrow> mq_len self = mq_capacity self"

definition mq_push :: "MessageQueue \<Rightarrow> Message \<Rightarrow> (MessageQueue, MessageQueueError, unit) op_result" where
  "mq_push self message =
     (if mq_is_full self then (self, Inl MqFull)
      else (self\<lparr>mq_buffer := (mq_buffer self)[mq_tail self := Some message],
                 mq_tail := (mq_tail self + 1) mod mq_capacity self,
                 mq_len := mq_len self + 1\<rparr>, ok_unit))"

definition mq_pop :: "MessageQueue \<Rightarrow> MessageQueue \<times> Message option" where
  "mq_pop self =
     (if mq_len self = 0 then (self, None)
      else let message = mq_buffer self ! mq_head self
           in (self\<lparr>mq_buffer := (mq_buffer self)[mq_head self := None],
                    mq_head := (mq_head self + 1) mod mq_capacity self,
                    mq_len := mq_len self - 1\<rparr>, message))"

definition mq_rollback_last_push :: "MessageQueue \<Rightarrow> MessageQueue \<times> Message option" where
  "mq_rollback_last_push self =
     (if mq_len self = 0 then (self, None)
      else let tail = (mq_tail self + mq_capacity self - 1) mod mq_capacity self;
               message = mq_buffer self ! tail
           in (self\<lparr>mq_buffer := (mq_buffer self)[tail := None],
                    mq_tail := tail, mq_len := mq_len self - 1\<rparr>, message))"

definition mq_clear :: "MessageQueue \<Rightarrow> MessageQueue" where
  "mq_clear self =
     \<lparr>mq_buffer = replicate (mq_capacity self) None, mq_head = 0, mq_tail = 0, mq_len = 0\<rparr>"

section \<open>Abstraction and interface\<close>

definition mq_ok :: "MessageQueue \<Rightarrow> bool" where
  "mq_ok q \<longleftrightarrow>
     ring_ok (mq_buffer q) (mq_head q) (mq_len q) \<and>
     mq_tail q = (mq_head q + mq_len q) mod mq_capacity q"

definition mq_contents :: "MessageQueue \<Rightarrow> Message list" where
  "mq_contents q = ring_contents (mq_buffer q) (mq_head q) (mq_len q)"

text \<open>A message for the examples.\<close>

definition demo_message :: "u64 \<Rightarrow> Message" where
  "demo_message seq = \<lparr>msg_sender = 1, msg_receiver = 2, msg_sequence = seq,
     msg_payload = payload_empty ClassPublic\<rparr>"

lemma mq_okD:
  assumes "mq_ok q"
  shows "ring_ok (mq_buffer q) (mq_head q) (mq_len q)" "mq_len q \<le> mq_capacity q"
    and "mq_tail q = (mq_head q + mq_len q) mod mq_capacity q"
    and "mq_len q \<noteq> 0 \<Longrightarrow> mq_head q < mq_capacity q"
    and "length (mq_contents q) = mq_len q"
  using assms ring_okD(1,2) [of "mq_buffer q" "mq_head q" "mq_len q"]
  by (cases "mq_buffer q = []"; simp add: mq_ok_def mq_capacity_def mq_contents_def)+

lemma mq_push_room:
  assumes ok: "mq_ok q" and room: "mq_len q < mq_capacity q"
  obtains q' where "mq_push q x = (q', ok_unit)" "mq_ok q'" "mq_contents q' = mq_contents q @ [x]"
    "mq_capacity q' = mq_capacity q"
proof -
  let ?q = "q\<lparr>mq_buffer := (mq_buffer q)[mq_tail q := Some x],
              mq_tail := (mq_tail q + 1) mod mq_capacity q, mq_len := mq_len q + 1\<rparr>"
  have push: "mq_push q x = (?q, ok_unit)"
    using room by (simp add: mq_push_def mq_is_full_def)
  note r = ring_push [OF mq_okD(1) [OF ok], of x]
  have "mq_ok ?q"
    using r(1) room mq_okD(3) [OF ok] by (simp add: mq_ok_def mq_capacity_def mod_Suc_eq)
  moreover have "mq_contents ?q = mq_contents q @ [x]"
    using r(2) room mq_okD(3) [OF ok] by (simp add: mq_contents_def mq_capacity_def)
  moreover have "mq_capacity ?q = mq_capacity q" by (simp add: mq_capacity_def)
  ultimately show thesis using push by (intro that [of ?q])
qed

lemma mq_pop_nonempty:
  assumes ok: "mq_ok q" and n: "mq_len q \<noteq> 0"
  obtains q' where "mq_pop q = (q', Some (hd (mq_contents q)))" "mq_ok q'"
    "mq_contents q' = tl (mq_contents q)" "mq_capacity q' = mq_capacity q"
proof -
  let ?q = "q\<lparr>mq_buffer := (mq_buffer q)[mq_head q := None],
              mq_head := (mq_head q + 1) mod mq_capacity q, mq_len := mq_len q - 1\<rparr>"
  have pos: "0 < mq_len q" using n by simp
  note head = ring_head [OF mq_okD(1) [OF ok] pos]
  note r = ring_pop [OF mq_okD(1) [OF ok] pos]
  have pop: "mq_pop q = (?q, Some (hd (mq_contents q)))"
    using n head by (simp add: mq_pop_def Let_def mq_contents_def)
  have "mq_ok ?q"
    using r(1) mq_okD(3) [OF ok] ring_tail_pop [OF pos, of "mq_head q" "mq_capacity q"]
    by (simp add: mq_ok_def mq_capacity_def)
  moreover have "mq_contents ?q = tl (mq_contents q)"
    using r(2) by (simp add: mq_contents_def mq_capacity_def)
  moreover have "mq_capacity ?q = mq_capacity q" by (simp add: mq_capacity_def)
  ultimately show thesis using pop by (intro that [of ?q])
qed

lemma mq_rollback_nonempty:
  assumes ok: "mq_ok q" and n: "mq_len q \<noteq> 0"
  obtains q' where "mq_rollback_last_push q = (q', Some (last (mq_contents q)))" "mq_ok q'"
    "mq_contents q' = butlast (mq_contents q)" "mq_capacity q' = mq_capacity q"
proof -
  have pos: "0 < mq_len q" using n by simp
  then have cap: "0 < mq_capacity q" using mq_okD(2) [OF ok] by simp
  let ?t = "(mq_head q + (mq_len q - 1)) mod mq_capacity q"
  have tail: "(mq_tail q + mq_capacity q - 1) mod mq_capacity q = ?t"
    using ring_tail_back [OF pos cap] mq_okD(3) [OF ok] by simp
  let ?q = "q\<lparr>mq_buffer := (mq_buffer q)[?t := None], mq_tail := ?t, mq_len := mq_len q - 1\<rparr>"
  have rb: "mq_rollback_last_push q = (?q, Some (last (mq_contents q)))"
    using n tail ring_last [OF mq_okD(1) [OF ok] pos]
    by (simp add: mq_rollback_last_push_def Let_def mq_contents_def mq_capacity_def)
  note r = ring_unpush [OF mq_okD(1) [OF ok] pos]
  have "mq_ok ?q" using r(1) by (simp add: mq_ok_def mq_capacity_def)
  moreover have "mq_contents ?q = butlast (mq_contents q)"
    using r(2) by (simp add: mq_contents_def mq_capacity_def)
  moreover have "mq_capacity ?q = mq_capacity q" by (simp add: mq_capacity_def)
  ultimately show thesis using rb by (intro that [of ?q])
qed

lemma mq_contents_Nil: "mq_ok q \<Longrightarrow> mq_contents q = [] \<longleftrightarrow> mq_len q = 0"
  using mq_okD(5) [of q] by (metis length_0_conv)

interpretation mq: rollback_queue mq_push mq_pop mq_contents mq_capacity mq_ok mq_rollback_last_push
proof unfold_locales
  fix q :: MessageQueue and x :: Message and xs
  assume ok: "mq_ok q"
  show "mq_capacity q \<le> length (mq_contents q) \<Longrightarrow> \<exists>e. mq_push q x = (q, Inl e)"
    using mq_okD(2,5) [OF ok] by (simp add: mq_push_def mq_is_full_def)
  show "\<exists>q'. mq_push q x = (q', Inr ()) \<and> mq_ok q' \<and> mq_contents q' = mq_contents q @ [x] \<and>
      mq_capacity q' = mq_capacity q" if "length (mq_contents q) < mq_capacity q"
  proof -
    have "mq_len q < mq_capacity q" using that mq_okD(5) [OF ok] by simp
    then obtain q' where "mq_push q x = (q', ok_unit)" "mq_ok q'" "mq_contents q' = mq_contents q @ [x]"
      "mq_capacity q' = mq_capacity q" by (rule mq_push_room [OF ok])
    then show ?thesis by simp
  qed
  show "mq_contents q = [] \<Longrightarrow> mq_pop q = (q, None)"
    using ok by (simp add: mq_contents_Nil mq_pop_def)
  show "\<exists>q'. mq_pop q = (q', Some x) \<and> mq_ok q' \<and> mq_contents q' = xs \<and>
      mq_capacity q' = mq_capacity q" if "mq_contents q = x # xs"
  proof -
    have "mq_len q \<noteq> 0" using that mq_contents_Nil [OF ok] by simp
    then obtain q' where "mq_pop q = (q', Some (hd (mq_contents q)))" "mq_ok q'"
      "mq_contents q' = tl (mq_contents q)" "mq_capacity q' = mq_capacity q"
      by (rule mq_pop_nonempty [OF ok])
    with that show ?thesis by simp
  qed
  show "\<exists>q'. mq_rollback_last_push q = (q', Some x) \<and> mq_ok q' \<and> mq_contents q' = xs \<and>
      mq_capacity q' = mq_capacity q" if "mq_contents q = xs @ [x]"
  proof -
    have "mq_len q \<noteq> 0" using that mq_contents_Nil [OF ok] by simp
    then obtain q' where "mq_rollback_last_push q = (q', Some (last (mq_contents q)))" "mq_ok q'"
      "mq_contents q' = butlast (mq_contents q)" "mq_capacity q' = mq_capacity q"
      by (rule mq_rollback_nonempty [OF ok])
    with that show ?thesis by simp
  qed
qed

section \<open>Properties\<close>

lemma mq_ok_new: "mq_ok (mq_new n)" and mq_contents_new: "mq_contents (mq_new n) = []"
  and mq_capacity_new: "mq_capacity (mq_new n) = n"
  by (simp_all add: mq_new_def mq_ok_def mq_contents_def mq_capacity_def)

text \<open>
  (C29) Starting from an empty queue of capacity \<open>n\<close>, every sequence of pushes and pops gives the
  results, and leaves the contents, of a bounded first-in first-out list of that capacity: no
  message is lost, duplicated or reordered, and a push is refused exactly when \<open>n\<close> are waiting.
  The run continues from the queue each call leaves behind, so a refused push or an empty pop
  changes nothing.
\<close>

theorem message_queue_fifo:
  "run_queue_ops mq_push mq_pop (mq_new n) ops = (q, outs) \<Longrightarrow>
     mq_ok q \<and> run_list_queue n [] ops = (mq_contents q, outs)"
  using mq.run_refines [OF mq_ok_new, of n ops q outs]
  by (simp add: mq_contents_new mq_capacity_new)

theorem message_queue_fifo_witness:
  "run_list_queue 2 [] [Push (demo_message 1), Push (demo_message 2), Push (demo_message 3), Pop,
     Push (demo_message 4), Pop] =
   ([demo_message 4], [Pushed True, Pushed True, Pushed False, Popped (Some (demo_message 1)),
     Pushed True, Popped (Some (demo_message 2))])"
proof -
  let ?ops = "[Push (demo_message 1), Push (demo_message 2), Push (demo_message 3), Pop,
     Push (demo_message 4), Pop]"
  let ?q = "fst (run_queue_ops mq_push mq_pop (mq_new 2) ?ops)"
  have out: "snd (run_queue_ops mq_push mq_pop (mq_new 2) ?ops) =
      [Pushed True, Pushed True, Pushed False, Popped (Some (demo_message 1)),
       Pushed True, Popped (Some (demo_message 2))]" by code_simp
  have c: "mq_contents ?q = [demo_message 4]" by code_simp
  have run: "run_queue_ops mq_push mq_pop (mq_new 2) ?ops =
      (?q, [Pushed True, Pushed True, Pushed False, Popped (Some (demo_message 1)),
       Pushed True, Popped (Some (demo_message 2))])"
    by (simp only: out [symmetric] prod.collapse)
  show ?thesis
    using conjunct2 [OF message_queue_fifo [OF run]] unfolding c .
qed

text \<open>
  Taking back the last push is exact: if a message was accepted, \<open>rollback_last_push\<close> returns
  that message and leaves the queue, indices and buffer included, as it was before the push.
\<close>

theorem push_then_rollback:
  assumes ok: "mq_ok q" and push: "mq_push q x = (q', Inr ())"
  shows "mq_rollback_last_push q' = (q, Some x)"
proof -
  have room: "mq_len q < mq_capacity q"
    using push mq_okD(2) [OF ok] by (auto simp: mq_push_def mq_is_full_def split: if_splits)
  then have cap: "0 < mq_capacity q" by simp
  have tail: "mq_tail q < mq_capacity q" using mq_okD(3) [OF ok] cap by simp
  have "ring_at (mq_buffer q) (mq_head q) (mq_len q) = None"
    using ring_okD(3) [OF mq_okD(1) [OF ok], of "mq_len q"] room by (auto simp: mq_capacity_def)
  then have free: "mq_buffer q ! mq_tail q = None"
    using mq_okD(3) [OF ok] by (simp add: ring_at_def mq_capacity_def)
  have q': "q' = q\<lparr>mq_buffer := (mq_buffer q)[mq_tail q := Some x],
      mq_tail := (mq_tail q + 1) mod mq_capacity q, mq_len := mq_len q + 1\<rparr>"
    using push room by (simp add: mq_push_def mq_is_full_def)
  have bk: "((mq_tail q + 1) mod mq_capacity q + mq_capacity q - 1) mod mq_capacity q = mq_tail q"
    using ring_tail_back [of 1 "mq_capacity q" "mq_tail q"] cap tail by simp
  have same: "(mq_buffer q)[mq_tail q := None] = mq_buffer q"
    using free tail by (metis list_update_id)
  show ?thesis
    using bk tail same
    by (simp add: q' mq_rollback_last_push_def Let_def mq_capacity_def)
qed

theorem push_then_rollback_witness:
  "mq_rollback_last_push (fst (mq_push (mq_new 2) (demo_message 1))) = (mq_new 2, Some (demo_message 1))"
proof (rule push_then_rollback)
  show "mq_ok (mq_new 2)" by (rule mq_ok_new)
  show "mq_push (mq_new 2) (demo_message 1) = (fst (mq_push (mq_new 2) (demo_message 1)), Inr ())"
    by (simp add: mq_push_def mq_is_full_def mq_new_def mq_capacity_def)
qed

lemma copy_payload_take:
  "idx \<le> length data \<Longrightarrow> copy_payload data idx bs =
     (let k = min (length bs) (length data - idx) in
      (take idx data @ take k bs @ drop (idx + k) data, idx + k))"
proof (induction data idx bs rule: copy_payload.induct)
  case (2 data idx b bs)
  show ?case
  proof (cases "idx < length data")
    case True
    then have "take (Suc idx) (data[idx := b]) = take idx data @ [b]"
      by (simp add: take_Suc_conv_app_nth)
    moreover have "length data - idx = Suc (length data - Suc idx)" using True by simp
    ultimately show ?thesis
      using 2 True by (simp add: Let_def)
  qed (use 2 in simp)
qed simp

text \<open>
  A payload made from a byte slice carries exactly the first 64 bytes: the recorded length is
  that of the copied prefix, reading that many bytes gives the prefix back, and the rest of the
  array is zero.
\<close>

theorem from_slice_roundtrip:
  "mp_length (from_slice class bytes) = min (length bytes) 64 \<and>
   take (mp_length (from_slice class bytes)) (mp_data (from_slice class bytes)) = take 64 bytes \<and>
   mp_data (from_slice class bytes) = take 64 bytes @ replicate (64 - length bytes) 0 \<and>
   mp_security_class (from_slice class bytes) = class"
  by (auto simp: from_slice_def payload_empty_def PAYLOAD_BYTES_def copy_payload_take Let_def min_def)

end
