(* ===== verification/Mirage_Cap.thy ===== *)
theory Mirage_Cap
  imports Prelude
begin

text \<open>
  The capability tokens of supervised services and drivers (\<open>crates/mirage-cap\<close>): a token names
  an object, a 16-bit rights mask and whether it was revoked; a service holds a list of tokens
  and checks it before each privileged operation. The names carry the prefix \<open>mc\<close> because the
  security broker has types of the same names.
\<close>

unbundle bit_operations_syntax

section \<open>Tokens\<close>

datatype McCapabilityObject =
    McPciDevice u64
  | McMmioRegion u64 u64
  | McDmaRegion u64
  | McDmaBuffer u64 u64
  | McMemoryObject u64
  | McVramRegion u64 u64
  | McFramebuffer u64 u64
  | McIrqLine u16
  | McIpcEndpoint u64
  | McHotplugController u64
  | McBlockDeviceRegistry
  | McDisplayRegistry

datatype McCapabilityRight = McRead | McWrite | McSend | McReceive | McControl | McIo

fun mc_bit :: "McCapabilityRight \<Rightarrow> u16" where
  "mc_bit McRead = push_bit 0 1"
| "mc_bit McWrite = push_bit 1 1"
| "mc_bit McSend = push_bit 2 1"
| "mc_bit McReceive = push_bit 3 1"
| "mc_bit McControl = push_bit 4 1"
| "mc_bit McIo = push_bit 5 1"

type_synonym McCapabilityRights = u16

definition mc_rights_empty :: McCapabilityRights where
  "mc_rights_empty = 0"

definition mc_rights_io :: McCapabilityRights where
  "mc_rights_io = mc_bit McIo OR mc_bit McControl"

definition mc_rights_read_write_io :: McCapabilityRights where
  "mc_rights_read_write_io = mc_bit McRead OR mc_bit McWrite OR mc_bit McControl OR mc_bit McIo"

definition mc_rights_ipc :: McCapabilityRights where
  "mc_rights_ipc = mc_bit McSend OR mc_bit McReceive"

definition mc_with :: "McCapabilityRights \<Rightarrow> McCapabilityRight \<Rightarrow> McCapabilityRights" where
  "mc_with self right = self OR mc_bit right"

definition mc_contains :: "McCapabilityRights \<Rightarrow> McCapabilityRight \<Rightarrow> bool" where
  "mc_contains self right \<longleftrightarrow> (self AND mc_bit right) = mc_bit right"

definition mc_contains_all :: "McCapabilityRights \<Rightarrow> McCapabilityRights \<Rightarrow> bool" where
  "mc_contains_all self requested \<longleftrightarrow> (self AND requested) = requested"

datatype McCapabilityError = McMissing | McInsufficientRights | McRevoked

record McCapability =
  mc_object :: McCapabilityObject
  mc_rights :: McCapabilityRights
  mc_revoked :: bool

definition mc_capability_new :: "McCapabilityObject \<Rightarrow> McCapabilityRights \<Rightarrow> McCapability" where
  "mc_capability_new obj rights = \<lparr>mc_object = obj, mc_rights = rights, mc_revoked = False\<rparr>"

definition mc_revoke :: "McCapability \<Rightarrow> McCapability" where
  "mc_revoke self = self\<lparr>mc_revoked := True\<rparr>"

definition mc_permits ::
  "McCapability \<Rightarrow> McCapabilityObject \<Rightarrow> McCapabilityRights \<Rightarrow> McCapabilityError + unit" where
  "mc_permits self obj rights =
     (if mc_revoked self then Inl McRevoked
      else if mc_object self \<noteq> obj then Inl McMissing
      else if mc_contains_all (mc_rights self) rights then ok_unit
      else Inl McInsufficientRights)"

section \<open>Token sets\<close>

record McCapabilitySet =
  mc_capabilities :: "McCapability list"

definition mc_set_new :: McCapabilitySet where
  "mc_set_new = \<lparr>mc_capabilities = []\<rparr>"

definition mc_from_capabilities :: "McCapability list \<Rightarrow> McCapabilitySet" where
  "mc_from_capabilities caps = \<lparr>mc_capabilities = caps\<rparr>"

definition mc_grant :: "McCapabilitySet \<Rightarrow> McCapability \<Rightarrow> McCapabilitySet" where
  "mc_grant self cap = self\<lparr>mc_capabilities := mc_capabilities self @ [cap]\<rparr>"

fun mc_check_loop ::
  "McCapability list \<Rightarrow> McCapabilityObject \<Rightarrow> McCapabilityRights \<Rightarrow> bool \<Rightarrow> bool \<Rightarrow>
     McCapabilityError + unit" where
  "mc_check_loop [] obj rights saw_revoked saw_object =
     (if saw_revoked then Inl McRevoked
      else if saw_object then Inl McInsufficientRights
      else Inl McMissing)"
| "mc_check_loop (cap # caps) obj rights saw_revoked saw_object =
     (if mc_object cap \<noteq> obj then mc_check_loop caps obj rights saw_revoked saw_object
      else case mc_permits cap obj rights of
        Inr _ \<Rightarrow> ok_unit
      | Inl McRevoked \<Rightarrow> mc_check_loop caps obj rights True True
      | Inl McInsufficientRights \<Rightarrow> mc_check_loop caps obj rights saw_revoked True
      | Inl McMissing \<Rightarrow> mc_check_loop caps obj rights saw_revoked True)"

definition mc_check ::
  "McCapabilitySet \<Rightarrow> McCapabilityObject \<Rightarrow> McCapabilityRights \<Rightarrow> McCapabilityError + unit" where
  "mc_check self obj rights = mc_check_loop (mc_capabilities self) obj rights False False"

section \<open>What a check decides\<close>

definition mc_live :: "McCapability \<Rightarrow> McCapabilityObject \<Rightarrow> McCapabilityRights \<Rightarrow> bool" where
  "mc_live cap obj rights \<longleftrightarrow>
     mc_object cap = obj \<and> \<not> mc_revoked cap \<and> mc_contains_all (mc_rights cap) rights"

lemma mc_permits_ok: "mc_permits cap obj rights = Inr u \<longleftrightarrow> mc_live cap obj rights"
  by (auto simp: mc_permits_def mc_live_def)

lemma mc_check_loop_decides:
  "mc_check_loop caps obj rights r b =
     (if \<exists>c \<in> set caps. mc_live c obj rights then Inr ()
      else if r \<or> (\<exists>c \<in> set caps. mc_object c = obj \<and> mc_revoked c) then Inl McRevoked
      else if b \<or> (\<exists>c \<in> set caps. mc_object c = obj) then Inl McInsufficientRights
      else Inl McMissing)"
proof (induction caps arbitrary: r b)
  case (Cons c caps)
  have live: "mc_live c obj rights \<Longrightarrow> mc_object c = obj \<and> \<not> mc_revoked c" by (simp add: mc_live_def)
  consider (other) "mc_object c \<noteq> obj" | (live) "mc_live c obj rights"
    | (revoked) "mc_object c = obj" "mc_revoked c" "\<not> mc_live c obj rights"
    | (weak) "mc_object c = obj" "\<not> mc_revoked c" "\<not> mc_live c obj rights" by blast
  then show ?case
  proof cases
    case other
    then have "\<not> mc_live c obj rights" using live by blast
    with other show ?thesis by (simp add: Cons cong: if_cong)
  next
    case live
    then have "mc_object c = obj" "mc_permits c obj rights = Inr ()"
      by (simp_all add: mc_permits_ok mc_live_def)
    with live show ?thesis by simp
  next
    case revoked
    then have "mc_permits c obj rights = Inl McRevoked" by (simp add: mc_permits_def)
    with revoked Cons show ?thesis by simp
  next
    case weak
    then have "mc_permits c obj rights = Inl McInsufficientRights"
      by (simp add: mc_permits_def mc_live_def)
    with weak show ?thesis by (simp add: Cons cong: if_cong)
  qed
qed simp

text \<open>
  A service's check succeeds exactly when one of its tokens names the object, is not revoked
  and contains all the requested rights, whatever other tokens it holds and in whatever order.
  Otherwise the error is decided by the tokens for that object alone: revoked if any of them is,
  else insufficient rights if there is one, else missing.
\<close>

theorem mc_check_decides:
  "mc_check caps obj rights =
     (if \<exists>c \<in> set (mc_capabilities caps).
           mc_object c = obj \<and> \<not> mc_revoked c \<and> (mc_rights c AND rights) = rights then Inr ()
      else if \<exists>c \<in> set (mc_capabilities caps). mc_object c = obj \<and> mc_revoked c then Inl McRevoked
      else if \<exists>c \<in> set (mc_capabilities caps). mc_object c = obj then Inl McInsufficientRights
      else Inl McMissing)"
  by (simp only: mc_check_def mc_check_loop_decides mc_live_def mc_contains_all_def simp_thms)

text \<open>Granting a token never takes an authorization away.\<close>

lemma mc_grant_mono: "mc_check caps obj rights = Inr () \<Longrightarrow> mc_check (mc_grant caps c) obj rights = Inr ()"
  unfolding mc_check_def mc_check_loop_decides mc_grant_def by (simp split: if_splits)

end
