(* ===== verification/Futex.thy ===== *)
theory Futex
  imports Slot_Table "HOL-Library.Multiset"
begin

text \<open>
  The futex wait table (\<open>src/kernel/futex.rs\<close>): one slot per waiting thread, with the key it
  waits on and an optional deadline. \<open>MAX\<close> of the source is the length of the table.

  The table is a keyed table with the thread as the key (interpretation \<open>futex\<close>). The two loops
  that take waiters out, \<open>wake\<close> and \<open>expire\<close>, are shown to report exactly the waiters they
  remove, in table order, and to stop only at their bounds.
\<close>

type_synonym ThreadId = u64

record FutexKey =
  fk_owner :: u64
  fk_address :: u64

record FutexWaiter =
  fw_key :: FutexKey
  fw_thread :: ThreadId
  fw_deadline_ns :: "u128 option"

definition waiter_new :: "FutexKey \<Rightarrow> ThreadId \<Rightarrow> u128 option \<Rightarrow> FutexWaiter" where
  "waiter_new key thread deadline =
     \<lparr>fw_key = key, fw_thread = thread, fw_deadline_ns = deadline\<rparr>"

datatype FutexTableError = FutexFull

record FutexTable =
  ft_waiters :: "FutexWaiter slots"

definition ft_new :: "nat \<Rightarrow> FutexTable" where
  "ft_new n = \<lparr>ft_waiters = replicate n None\<rparr>"

definition ft_reset :: "FutexTable \<Rightarrow> FutexTable" where
  "ft_reset self = \<lparr>ft_waiters = replicate (length (ft_waiters self)) None\<rparr>"

text \<open>
  The scan of \<open>enqueue\<close>: stop at the slot of the thread, and remember the first free slot on
  the way. The result is the slot found (left) or the free slot, if any (right).
\<close>

fun enqueue_scan ::
  "ThreadId \<Rightarrow> FutexWaiter slots \<Rightarrow> nat \<Rightarrow> nat option \<Rightarrow> nat + nat option" where
  "enqueue_scan thread [] idx free = Inr free"
| "enqueue_scan thread (w # ws) idx free =
     (case w of
        Some waiter \<Rightarrow>
          if fw_thread waiter = thread then Inl idx
          else enqueue_scan thread ws (idx + 1) free
      | None \<Rightarrow> enqueue_scan thread ws (idx + 1) (if free = None then Some idx else free))"

definition enqueue ::
  "FutexTable \<Rightarrow> FutexKey \<Rightarrow> ThreadId \<Rightarrow> u128 option \<Rightarrow> (FutexTable, FutexTableError, unit) op_result"
where
  "enqueue self key thread deadline =
     (case enqueue_scan thread (ft_waiters self) 0 None of
        Inl idx \<Rightarrow>
          (self\<lparr>ft_waiters := (ft_waiters self)[idx := Some (waiter_new key thread deadline)]\<rparr>, ok_unit)
      | Inr None \<Rightarrow> (self, Inl FutexFull)
      | Inr (Some slot) \<Rightarrow>
          (self\<lparr>ft_waiters := (ft_waiters self)[slot := Some (waiter_new key thread deadline)]\<rparr>, ok_unit))"

text \<open>
  The loop shared by \<open>wake\<close> and \<open>expire\<close>: while fewer than \<open>bound\<close> threads were reported, take
  each matching waiter out of its slot and report its thread in the next cell of \<open>out\<close>.
\<close>

fun take_waiters ::
  "(FutexWaiter \<Rightarrow> bool) \<Rightarrow> nat \<Rightarrow> FutexWaiter slots \<Rightarrow> nat \<Rightarrow> ThreadId option list \<Rightarrow>
     FutexWaiter slots \<times> nat \<times> ThreadId option list" where
  "take_waiters P bound [] cnt out = ([], cnt, out)"
| "take_waiters P bound (w # ws) cnt out =
     (if cnt < bound
      then case w of
        Some waiter \<Rightarrow>
          if P waiter
          then (case take_waiters P bound ws (cnt + 1) (out[cnt := Some (fw_thread waiter)]) of
                  (ws', r) \<Rightarrow> (None # ws', r))
          else (case take_waiters P bound ws cnt out of (ws', r) \<Rightarrow> (w # ws', r))
      | None \<Rightarrow> (case take_waiters P bound ws cnt out of (ws', r) \<Rightarrow> (w # ws', r))
      else (w # ws, cnt, out))"

definition wake ::
  "FutexTable \<Rightarrow> FutexKey \<Rightarrow> nat \<Rightarrow> ThreadId option list \<Rightarrow> FutexTable \<times> nat \<times> ThreadId option list"
where
  "wake self key limit out =
     (if limit = 0 \<or> out = [] then (self, 0, out)
      else case take_waiters (\<lambda>w. fw_key w = key) (min limit (length out)) (ft_waiters self) 0 out of
        (ws, cnt, out') \<Rightarrow> (self\<lparr>ft_waiters := ws\<rparr>, cnt, out'))"

definition deadline_passed :: "u128 \<Rightarrow> FutexWaiter \<Rightarrow> bool" where
  "deadline_passed now w =
     (case fw_deadline_ns w of Some deadline \<Rightarrow> deadline \<le> now | None \<Rightarrow> False)"

definition expire ::
  "FutexTable \<Rightarrow> u128 \<Rightarrow> ThreadId option list \<Rightarrow> FutexTable \<times> nat \<times> ThreadId option list" where
  "expire self now out =
     (if out = [] then (self, 0, out)
      else case take_waiters (deadline_passed now) (length out) (ft_waiters self) 0 out of
        (ws, cnt, out') \<Rightarrow> (self\<lparr>ft_waiters := ws\<rparr>, cnt, out'))"

definition remove_thread :: "FutexTable \<Rightarrow> ThreadId \<Rightarrow> FutexTable" where
  "remove_thread self thread =
     self\<lparr>ft_waiters := clear_slots (\<lambda>w. fw_thread w = thread) (ft_waiters self)\<rparr>"

definition remove_owner :: "FutexTable \<Rightarrow> u64 \<Rightarrow> FutexTable" where
  "remove_owner self owner =
     self\<lparr>ft_waiters := clear_slots (\<lambda>w. fk_owner (fw_key w) = owner) (ft_waiters self)\<rparr>"

section \<open>The table as a map from threads to waiters\<close>

abbreviation ft_map :: "FutexTable \<Rightarrow> ThreadId \<rightharpoonup> FutexWaiter" where
  "ft_map t \<equiv> slot_lookup fw_thread (ft_waiters t)"

definition ft_ok :: "FutexTable \<Rightarrow> bool" where
  "ft_ok t \<longleftrightarrow> unique_keys fw_thread (ft_waiters t)"

definition ft_put :: "FutexTable \<Rightarrow> ThreadId \<Rightarrow> FutexKey \<times> u128 option \<Rightarrow> FutexTable option" where
  "ft_put t thread kd =
     (case enqueue t (fst kd) thread (snd kd) of (t', Inr _) \<Rightarrow> Some t' | (t', Inl _) \<Rightarrow> None)"

definition ft_waiter :: "ThreadId \<Rightarrow> FutexKey \<times> u128 option \<Rightarrow> FutexWaiter" where
  "ft_waiter thread kd = waiter_new (fst kd) thread (snd kd)"

text \<open>The methods as operations of a run.\<close>

datatype ft_op =
    FtEnqueue FutexKey ThreadId "u128 option"
  | FtWake FutexKey nat nat
  | FtExpire u128 nat
  | FtRemoveThread ThreadId
  | FtRemoveOwner u64
  | FtReset

text \<open>The two numbers of a wake are the limit and the length of the output buffer.\<close>

fun ft_exec :: "FutexTable \<Rightarrow> ft_op \<Rightarrow> FutexTable" where
  "ft_exec t (FtEnqueue key thread d) = fst (enqueue t key thread d)"
| "ft_exec t (FtWake key limit n) = fst (wake t key limit (replicate n None))"
| "ft_exec t (FtExpire now n) = fst (expire t now (replicate n None))"
| "ft_exec t (FtRemoveThread thread) = remove_thread t thread"
| "ft_exec t (FtRemoveOwner pid) = remove_owner t pid"
| "ft_exec t FtReset = ft_reset t"

text \<open>A table for the examples.\<close>

definition demo_futex :: FutexTable where
  "demo_futex = foldl ft_exec (ft_new 3)
     [FtEnqueue \<lparr>fk_owner = 1, fk_address = 64\<rparr> 10 None,
      FtEnqueue \<lparr>fk_owner = 1, fk_address = 64\<rparr> 11 (Some 500),
      FtEnqueue \<lparr>fk_owner = 2, fk_address = 64\<rparr> 12 (Some 900)]"

lemma fw_thread_waiter_new [simp]: "fw_thread (waiter_new k t d) = t"
  by (simp add: waiter_new_def)

lemma enqueue_scan_eq:
  "enqueue_scan thread ws idx free =
     (case find_slot (\<lambda>w. fw_thread w = thread) ws of
        Some i \<Rightarrow> Inl (idx + i)
      | None \<Rightarrow> Inr (case free of Some f \<Rightarrow> Some f | None \<Rightarrow> map_option ((+) idx) (free_slot ws)))"
proof (induction thread ws idx free rule: enqueue_scan.induct)
  case (2 thread w ws idx free)
  have "(+) (Suc idx) = (\<lambda>x. Suc (idx + x))" by (rule ext) simp
  with 2 show ?case by (auto split: option.splits simp: option.map_comp comp_def)
qed (simp split: option.split)

lemma enqueue_cases:
  obtains (known) i w where "find_slot (\<lambda>w. fw_thread w = thread) (ft_waiters t) = Some i"
      "i < length (ft_waiters t)" "ft_waiters t ! i = Some w" "fw_thread w = thread"
      "enqueue t key thread d =
        (t\<lparr>ft_waiters := (ft_waiters t)[i := Some (waiter_new key thread d)]\<rparr>, ok_unit)"
    | (fresh) i where "ft_map t thread = None" "free_slot (ft_waiters t) = Some i"
      "enqueue t key thread d =
        (t\<lparr>ft_waiters := (ft_waiters t)[i := Some (waiter_new key thread d)]\<rparr>, ok_unit)"
    | (full) "ft_map t thread = None" "None \<notin> set (ft_waiters t)"
      "enqueue t key thread d = (t, Inl FutexFull)"
proof (cases "find_slot (\<lambda>w. fw_thread w = thread) (ft_waiters t)")
  case (Some i)
  then obtain w where "i < length (ft_waiters t)" "ft_waiters t ! i = Some w" "fw_thread w = thread"
    by (rule find_slot_SomeE)
  with Some show thesis by (intro known) (simp_all add: enqueue_def enqueue_scan_eq)
next
  case None
  then have "ft_map t thread = None" by (simp add: find_slot_None_iff slot_lookup_None_iff)
  with None show thesis
    using fresh full
    by (cases "free_slot (ft_waiters t)") (simp_all add: enqueue_def enqueue_scan_eq free_slot_None_iff)
qed

lemma enqueue_map:
  assumes ok: "ft_ok t" and enq: "enqueue t key thread d = (t', Inr u)"
  shows "ft_ok t'" and "ft_map t' = (ft_map t)(thread \<mapsto> waiter_new key thread d)"
proof -
  let ?w = "waiter_new key thread d"
  have "ft_ok t' \<and> ft_map t' = (ft_map t)(thread \<mapsto> ?w)"
  proof (cases rule: enqueue_cases [of thread t key d])
    case (known i w)
    with enq ok show ?thesis
      using slot_lookup_replace [of fw_thread "ft_waiters t" i w ?w]
        unique_keys_update_same [of fw_thread "ft_waiters t" i w ?w]
      by (auto simp: ft_ok_def)
  next
    case (fresh i)
    with enq ok show ?thesis
      using slot_lookup_insert [of fw_thread "ft_waiters t" i ?w] by (auto simp: ft_ok_def)
  next
    case full
    with enq show ?thesis by simp
  qed
  then show "ft_ok t'" and "ft_map t' = (ft_map t)(thread \<mapsto> ?w)" by simp_all
qed

lemma remove_thread_map:
  assumes "ft_ok t"
  shows "ft_ok (remove_thread t thread)" and "ft_map (remove_thread t thread) = (ft_map t)(thread := None)"
proof -
  show "ft_ok (remove_thread t thread)" using assms by (simp add: ft_ok_def remove_thread_def unique_keys_clear)
  show "ft_map (remove_thread t thread) = (ft_map t)(thread := None)"
  proof
    fix k
    show "ft_map (remove_thread t thread) k = ((ft_map t)(thread := None)) k"
      using slot_lookup_clear [of fw_thread "ft_waiters t" "\<lambda>w. fw_thread w = thread"] assms
        slot_lookup_in_set [of fw_thread "ft_waiters t" k]
      by (cases "ft_map t k") (simp_all add: remove_thread_def ft_ok_def)
  qed
qed

lemma ft_put_Some: "ft_put t k a = Some t' \<longleftrightarrow> enqueue t (fst a) k (snd a) = (t', Inr ())"
  by (auto simp: ft_put_def split: prod.splits sum.splits)

interpretation futex: keyed_table ft_map ft_put remove_thread ft_waiter ft_ok
proof unfold_locales
  fix t k a t' assume ok: "ft_ok t" and put: "ft_put t k a = Some t'"
  note enq = put [unfolded ft_put_Some]
  show "ft_map t' = (ft_map t)(k \<mapsto> ft_waiter k a)"
    unfolding ft_waiter_def by (rule enqueue_map(2) [OF ok enq])
  show "ft_ok t'" by (rule enqueue_map(1) [OF ok enq])
qed (fact remove_thread_map)+

section \<open>Taking waiters out\<close>

lemma take_waiters_exact:
  assumes "take_waiters P bound ws cnt out = (ws', cnt', out')" and "cnt \<le> bound" "bound \<le> length out"
  shows "cnt' = cnt + length (take (bound - cnt) (filter P (slot_values ws)))"
    and "out' = take cnt out @ map (Some \<circ> fw_thread) (take (bound - cnt) (filter P (slot_values ws))) @ drop cnt' out"
    and "mset (slot_values ws) = mset (slot_values ws') + mset (take (bound - cnt) (filter P (slot_values ws)))"
    and "list_all2 (\<lambda>w w'. w' = w \<or> w' = None) ws ws'"
proof -
  let ?k = "\<lambda>b c ws. take (b - c) (filter P (slot_values ws))"
  have "cnt' = cnt + length (?k bound cnt ws) \<and>
    out' = take cnt out @ map (Some \<circ> fw_thread) (?k bound cnt ws) @ drop cnt' out \<and>
    mset (slot_values ws) = mset (slot_values ws') + mset (?k bound cnt ws) \<and>
    list_all2 (\<lambda>w w'. w' = w \<or> w' = None) ws ws'"
    using assms
  proof (induction P bound ws cnt out arbitrary: ws' cnt' out' rule: take_waiters.induct)
    case (2 P bound w ws cnt out)
    show ?case
    proof (cases "cnt < bound")
      case False
      with 2 show ?thesis by (auto intro: list_all2_refl)
    next
      case True
      consider (take) x where "w = Some x" "P x" | (skip) "w = None \<or> (\<exists>x. w = Some x \<and> \<not> P x)"
        by (cases w) auto
      then show ?thesis
      proof cases
        case (take x)
        obtain ws1 where rest: "take_waiters P bound ws (cnt + 1) (out[cnt := Some (fw_thread x)]) = (ws1, cnt', out')"
          and ws': "ws' = None # ws1"
          using 2(4) True take by (auto split: prod.splits)
        have "bound - cnt = Suc (bound - Suc cnt)" using True by simp
        moreover have "take (Suc cnt) (out[cnt := Some (fw_thread x)]) = take cnt out @ [Some (fw_thread x)]"
          using True 2(6) by (simp add: take_Suc_conv_app_nth)
        ultimately show ?thesis
          using 2(2) [OF True take(1,2) rest] True 2(6) take ws' by simp
      next
        case skip
        then obtain ws1 where rest: "take_waiters P bound ws cnt out = (ws1, cnt', out')"
          and ws': "ws' = w # ws1"
          using 2(4) True by (auto split: prod.splits)
        show ?thesis
          using skip 2(1,3) True rest 2(5,6) ws' by (cases w) auto
      qed
    qed
  qed simp
  then show "cnt' = cnt + length (?k bound cnt ws)"
    and "out' = take cnt out @ map (Some \<circ> fw_thread) (?k bound cnt ws) @ drop cnt' out"
    and "mset (slot_values ws) = mset (slot_values ws') + mset (?k bound cnt ws)"
    and "list_all2 (\<lambda>w w'. w' = w \<or> w' = None) ws ws'" by simp_all
qed

text \<open>
  (C39) Waking is exact. Of the threads waiting on the key, the first ones in table order are
  woken, as many as the limit and the output buffer allow; they are reported once each, at the
  front of the buffer, their waiters leave the table and nobody else's does.
\<close>

theorem wake_exact:
  assumes "wake t key limit out = (t', n, out')"
  shows "let woken = take (min limit (length out)) (filter (\<lambda>w. fw_key w = key) (slot_values (ft_waiters t)))
    in n = length woken \<and> out' = map (Some \<circ> fw_thread) woken @ drop n out \<and>
       mset (slot_values (ft_waiters t)) = mset (slot_values (ft_waiters t')) + mset woken"
proof (cases "limit = 0 \<or> out = []")
  case True
  with assms show ?thesis by (auto simp: wake_def Let_def)
next
  case False
  then obtain ws where "take_waiters (\<lambda>w. fw_key w = key) (min limit (length out)) (ft_waiters t) 0 out = (ws, n, out')"
    and "t' = t\<lparr>ft_waiters := ws\<rparr>"
    using assms by (auto simp: wake_def split: prod.splits)
  with take_waiters_exact [OF this(1)] show ?thesis by (simp add: Let_def)
qed

theorem wake_exact_witness:
  "fst (snd (wake demo_futex \<lparr>fk_owner = 1, fk_address = 64\<rparr> 5 [None])) = 1 \<and>
   snd (snd (wake demo_futex \<lparr>fk_owner = 1, fk_address = 64\<rparr> 5 [None])) = [Some 10]"
proof -
  let ?r = "wake demo_futex \<lparr>fk_owner = 1, fk_address = 64\<rparr> 5 [None]"
  have r: "?r = (fst ?r, fst (snd ?r), snd (snd ?r))" by simp
  have f: "filter (\<lambda>w. fw_key w = \<lparr>fk_owner = 1, fk_address = 64\<rparr>) (slot_values (ft_waiters demo_futex)) =
      [waiter_new \<lparr>fk_owner = 1, fk_address = 64\<rparr> 10 None,
       waiter_new \<lparr>fk_owner = 1, fk_address = 64\<rparr> 11 (Some 500)]" by code_simp
  show ?thesis using wake_exact [OF r] by (simp add: f Let_def)
qed

text \<open>
  Timeouts are exact in the same way: the waiters taken out are those whose deadline has
  passed, the first ones in table order that fit the buffer; waiters without a deadline stay.
\<close>

theorem expire_exact:
  assumes "expire t now out = (t', n, out')"
  shows "let due = take (length out) (filter (deadline_passed now) (slot_values (ft_waiters t)))
    in n = length due \<and> out' = map (Some \<circ> fw_thread) due @ drop n out \<and>
       mset (slot_values (ft_waiters t)) = mset (slot_values (ft_waiters t')) + mset due"
proof (cases "out = []")
  case True
  with assms show ?thesis by (auto simp: expire_def Let_def)
next
  case False
  then obtain ws where "take_waiters (deadline_passed now) (length out) (ft_waiters t) 0 out = (ws, n, out')"
    and "t' = t\<lparr>ft_waiters := ws\<rparr>"
    using assms by (auto simp: expire_def split: prod.splits)
  with take_waiters_exact [OF this(1)] show ?thesis by (simp add: Let_def)
qed

theorem expire_exact_witness:
  "fst (snd (expire demo_futex 600 [None, None])) = 1 \<and>
   snd (snd (expire demo_futex 600 [None, None])) = [Some 11, None]"
proof -
  let ?r = "expire demo_futex 600 [None, None]"
  have r: "?r = (fst ?r, fst (snd ?r), snd (snd ?r))" by simp
  have f: "filter (deadline_passed 600) (slot_values (ft_waiters demo_futex)) =
      [waiter_new \<lparr>fk_owner = 1, fk_address = 64\<rparr> 11 (Some 500)]" by code_simp
  show ?thesis using expire_exact [OF r] by (simp add: f Let_def)
qed

section \<open>Runs of the table\<close>

lemma unique_keys_cleared:
  assumes "unique_keys key ws" "list_all2 (\<lambda>w w'. w' = w \<or> w' = None) ws ws'"
  shows "unique_keys key ws'"
proof -
  have "ws' ! i = Some a \<Longrightarrow> i < length ws \<Longrightarrow> ws ! i = Some a" for i a
    using list_all2_nthD [OF assms(2), of i] by auto
  then show ?thesis
    using assms(1) list_all2_lengthD [OF assms(2)] unfolding unique_keys_def by auto
qed

lemma ft_ok_take:
  assumes "ft_ok t" "take_waiters P bound (ft_waiters t) 0 out = (ws, r)" "bound \<le> length out"
  shows "ft_ok (t\<lparr>ft_waiters := ws\<rparr>) \<and> length ws = length (ft_waiters t)"
proof -
  obtain n o' where r: "r = (n, o')" by fastforce
  note l = take_waiters_exact(4) [OF assms(2) [unfolded r] _ assms(3)]
  show ?thesis
    using unique_keys_cleared [OF assms(1) [unfolded ft_ok_def] l] list_all2_lengthD [OF l]
    by (simp add: ft_ok_def)
qed

lemma ft_ok_exec: "ft_ok t \<Longrightarrow> ft_ok (ft_exec t op) \<and> length (ft_waiters (ft_exec t op)) = length (ft_waiters t)"
proof (cases op)
  case (FtEnqueue key thread d)
  assume ok: "ft_ok t"
  have "length (ft_waiters (fst (enqueue t key thread d))) = length (ft_waiters t)"
    by (cases rule: enqueue_cases [of thread t key d]) simp_all
  moreover have "ft_ok (fst (enqueue t key thread d))"
    using enqueue_map(1) [OF ok, of key thread d] ok
    by (cases rule: enqueue_cases [of thread t key d]) simp_all
  ultimately show ?thesis by (simp add: FtEnqueue)
next
  case (FtWake key limit n)
  assume "ft_ok t"
  then show ?thesis
    using ft_ok_take [of t _ "min limit n" "replicate n None"]
    by (auto simp: FtWake wake_def split: prod.splits)
next
  case (FtExpire now n)
  assume "ft_ok t"
  then show ?thesis
    using ft_ok_take [of t _ n "replicate n None"]
    by (auto simp: FtExpire expire_def split: prod.splits)
qed (auto simp: ft_ok_def remove_thread_def remove_owner_def ft_reset_def unique_keys_clear)

text \<open>
  Whatever futex calls have run since \<open>new()\<close>, a thread waits on at most one key: no two
  slots hold the same thread, and the table keeps its size.
\<close>

theorem futex_one_waiter_per_thread:
  "unique_keys fw_thread (ft_waiters (foldl ft_exec (ft_new n) ops)) \<and>
   length (ft_waiters (foldl ft_exec (ft_new n) ops)) = n"
proof -
  have "ft_ok (foldl ft_exec (ft_new n) ops) \<and> length (ft_waiters (foldl ft_exec (ft_new n) ops)) = n"
  proof (induction ops rule: rev_induct)
    case Nil
    then show ?case by (simp add: ft_new_def ft_ok_def)
  next
    case (snoc op ops)
    with ft_ok_exec show ?case by simp
  qed
  then show ?thesis by (simp add: ft_ok_def)
qed

text \<open>
  After any run of waits that were accepted and of removals, a thread whose last operation
  was a wait is recorded with exactly that wait's key and deadline, even when it replaced an
  older wait.
\<close>

theorem futex_last_wait:
  assumes "ft_ok t" and "run_table ft_put remove_thread t (ops @ Put thread (key, d) # ops') = Some t'"
    and "thread \<notin> table_op_key ` set ops'"
  shows "ft_map t' thread = Some \<lparr>fw_key = key, fw_thread = thread, fw_deadline_ns = d\<rparr>"
  using futex.run_last_put [OF assms] by (simp add: ft_waiter_def waiter_new_def)

theorem futex_last_wait_witness:
  "ft_map (the (run_table ft_put remove_thread (ft_new 2)
     [Put 7 (\<lparr>fk_owner = 1, fk_address = 8\<rparr>, None), Put 7 (\<lparr>fk_owner = 1, fk_address = 16\<rparr>, Some 3), Drop 9])) 7 =
   Some \<lparr>fw_key = \<lparr>fk_owner = 1, fk_address = 16\<rparr>, fw_thread = 7, fw_deadline_ns = Some 3\<rparr>"
proof (rule futex_last_wait)
  show "ft_ok (ft_new 2)" by code_simp
  show "run_table ft_put remove_thread (ft_new 2)
     ([Put 7 (\<lparr>fk_owner = 1, fk_address = 8\<rparr>, None)] @ Put 7 (\<lparr>fk_owner = 1, fk_address = 16\<rparr>, Some 3) # [Drop 9]) =
    Some (the (run_table ft_put remove_thread (ft_new 2)
     [Put 7 (\<lparr>fk_owner = 1, fk_address = 8\<rparr>, None), Put 7 (\<lparr>fk_owner = 1, fk_address = 16\<rparr>, Some 3), Drop 9]))"
    by code_simp
  show "(7::u64) \<notin> table_op_key ` set [Drop 9]" by code_simp
qed

end
