(* ===== verification/Timer.thy ===== *)
theory Timer
  imports Ring_Queue Security_Labels Futex
begin

text \<open>
  Sleeps and process timers (\<open>src/kernel/timer.rs\<close>): two slot tables and the counter from which
  timer ids are drawn. Deadlines and intervals are \<open>u128\<close> nanoseconds.

  The search for a free timer id is a loop without a bound of its own; it is a partial function
  here, so that a run that does not return is the value \<open>None\<close>, and it is shown to return after
  at most one probe more than there are slots.
\<close>

record SleepEntry =
  sl_process :: ProcessId
  sl_thread :: "ThreadId option"
  sl_wake_deadline_ns :: u128

record ExpiredSleep =
  es_process :: ProcessId
  es_thread :: "ThreadId option"

record ProcessTimer =
  pt_owner :: ProcessId
  pt_id :: u64
  pt_armed :: bool
  pt_wake_deadline_ns :: u128
  pt_interval_ns :: u128

record ExpiredTimer =
  et_owner :: ProcessId
  et_id :: u64

datatype TimerError = TimerFull | InvalidTimer

record TimerManager =
  tm_sleeps :: "SleepEntry slots"
  tm_timers :: "ProcessTimer slots"
  tm_next_timer_id :: u64

definition tm_new :: "nat \<Rightarrow> nat \<Rightarrow> TimerManager" where
  "tm_new sleep_cap timer_cap =
     \<lparr>tm_sleeps = replicate sleep_cap None, tm_timers = replicate timer_cap None,
      tm_next_timer_id = 1\<rparr>"

definition tm_reset :: "TimerManager \<Rightarrow> TimerManager" where
  "tm_reset self =
     \<lparr>tm_sleeps = replicate (length (tm_sleeps self)) None,
      tm_timers = replicate (length (tm_timers self)) None, tm_next_timer_id = 1\<rparr>"

definition add_sleep ::
  "TimerManager \<Rightarrow> ProcessId \<Rightarrow> ThreadId option \<Rightarrow> u128 \<Rightarrow> (TimerManager, TimerError, unit) op_result"
where
  "add_sleep self process thread deadline =
     (case free_slot (tm_sleeps self) of
        Some idx \<Rightarrow>
          (self\<lparr>tm_sleeps := (tm_sleeps self)[idx := Some \<lparr>sl_process = process, sl_thread = thread,
             sl_wake_deadline_ns = deadline\<rparr>]\<rparr>, ok_unit)
      | None \<Rightarrow> (self, Inl TimerFull))"

definition expire_sleep :: "TimerManager \<Rightarrow> u128 \<Rightarrow> TimerManager \<times> ExpiredSleep option" where
  "expire_sleep self now =
     (case find_slot (\<lambda>e. sl_wake_deadline_ns e \<le> now) (tm_sleeps self) of
        Some idx \<Rightarrow>
          (case tm_sleeps self ! idx of
             Some entry \<Rightarrow>
               (self\<lparr>tm_sleeps := (tm_sleeps self)[idx := None]\<rparr>,
                Some \<lparr>es_process = sl_process entry, es_thread = sl_thread entry\<rparr>)
           | None \<Rightarrow> (self, None))
      | None \<Rightarrow> (self, None))"

definition timer_is :: "ProcessId \<Rightarrow> u64 \<Rightarrow> ProcessTimer \<Rightarrow> bool" where
  "timer_is pid tid t \<longleftrightarrow> pt_owner t = pid \<and> pt_id t = tid"

definition locate_timer :: "TimerManager \<Rightarrow> ProcessId \<Rightarrow> u64 \<Rightarrow> TimerError + nat" where
  "locate_timer self pid tid = ok_or InvalidTimer (find_slot (timer_is pid tid) (tm_timers self))"

text \<open>
  The loop of \<open>allocate_timer_id\<close>. Its result is the id and the new value of the counter, which
  the fallback leaves alone.
\<close>

partial_function (option) allocate_loop ::
  "TimerManager \<Rightarrow> ProcessId \<Rightarrow> u64 \<Rightarrow> u64 \<Rightarrow> (u64 \<times> u64) option" where
  "allocate_loop self pid start candidate =
     (case locate_timer self pid candidate of
        Inl _ \<Rightarrow> Some (candidate, max (candidate + 1) 1)
      | Inr _ \<Rightarrow>
          if max (candidate + 1) 1 = start then Some (1, tm_next_timer_id self)
          else allocate_loop self pid start (max (candidate + 1) 1))"

declare allocate_loop.simps [code]

definition allocate_timer_id :: "TimerManager \<Rightarrow> ProcessId \<Rightarrow> (TimerManager \<times> u64) option" where
  "allocate_timer_id self pid =
     (let start = max (tm_next_timer_id self) 1
      in map_option (\<lambda>(tid, next_id). (self\<lparr>tm_next_timer_id := next_id\<rparr>, tid))
           (allocate_loop self pid start start))"

definition create_timer ::
  "TimerManager \<Rightarrow> ProcessId \<Rightarrow> (TimerManager, TimerError, u64) op_result option" where
  "create_timer self pid =
     (case free_slot (tm_timers self) of
        Some idx \<Rightarrow>
          map_option (\<lambda>(s, tid).
            (s\<lparr>tm_timers := (tm_timers s)[idx := Some \<lparr>pt_owner = pid, pt_id = tid, pt_armed = False,
               pt_wake_deadline_ns = 0, pt_interval_ns = 0\<rparr>]\<rparr>, Inr tid))
            (allocate_timer_id self pid)
      | None \<Rightarrow> Some (self, Inl TimerFull))"

definition timer_of :: "TimerManager \<Rightarrow> ProcessId \<Rightarrow> u64 \<Rightarrow> TimerError + ProcessTimer" where
  "timer_of self pid tid =
     (case locate_timer self pid tid of
        Inl e \<Rightarrow> Inl e
      | Inr idx \<Rightarrow> ok_or InvalidTimer (tm_timers self ! idx))"

definition armed_timer :: "ProcessTimer \<Rightarrow> u128 option \<Rightarrow> u128 \<Rightarrow> ProcessTimer" where
  "armed_timer t deadline interval =
     (case deadline of
        Some d \<Rightarrow> t\<lparr>pt_interval_ns := interval, pt_armed := True, pt_wake_deadline_ns := d\<rparr>
      | None \<Rightarrow> t\<lparr>pt_interval_ns := interval, pt_armed := False, pt_wake_deadline_ns := 0\<rparr>)"

definition set_timer ::
  "TimerManager \<Rightarrow> ProcessId \<Rightarrow> u64 \<Rightarrow> u128 option \<Rightarrow> u128 \<Rightarrow>
     (TimerManager, TimerError, ProcessTimer) op_result" where
  "set_timer self pid tid deadline interval =
     (case locate_timer self pid tid of
        Inl e \<Rightarrow> (self, Inl e)
      | Inr idx \<Rightarrow>
          (case tm_timers self ! idx of
             None \<Rightarrow> (self, Inl InvalidTimer)
           | Some previous \<Rightarrow>
               (self\<lparr>tm_timers := (tm_timers self)[idx := Some (armed_timer previous deadline interval)]\<rparr>,
                Inr previous)))"

definition delete_timer ::
  "TimerManager \<Rightarrow> ProcessId \<Rightarrow> u64 \<Rightarrow> (TimerManager, TimerError, unit) op_result" where
  "delete_timer self pid tid =
     (case locate_timer self pid tid of
        Inl e \<Rightarrow> (self, Inl e)
      | Inr idx \<Rightarrow> (self\<lparr>tm_timers := (tm_timers self)[idx := None]\<rparr>, ok_unit))"

definition release_process :: "TimerManager \<Rightarrow> ProcessId \<Rightarrow> TimerManager" where
  "release_process self pid =
     self\<lparr>tm_sleeps := clear_slots (\<lambda>e. sl_process e = pid) (tm_sleeps self),
          tm_timers := clear_slots (\<lambda>t. pt_owner t = pid) (tm_timers self)\<rparr>"

definition timer_due :: "u128 \<Rightarrow> ProcessTimer \<Rightarrow> bool" where
  "timer_due now t \<longleftrightarrow> pt_armed t \<and> pt_wake_deadline_ns t \<le> now"

definition rearmed :: "u128 \<Rightarrow> ProcessTimer \<Rightarrow> ProcessTimer" where
  "rearmed now t =
     (if pt_interval_ns t > 0
      then let elapsed = saturating_sub now (pt_wake_deadline_ns t);
               missed_periods = elapsed div pt_interval_ns t + 1
           in t\<lparr>pt_wake_deadline_ns :=
                  saturating_add (pt_wake_deadline_ns t) (saturating_mul (pt_interval_ns t) missed_periods)\<rparr>
      else t\<lparr>pt_armed := False, pt_wake_deadline_ns := 0\<rparr>)"

definition expire_timer :: "TimerManager \<Rightarrow> u128 \<Rightarrow> TimerManager \<times> ExpiredTimer option" where
  "expire_timer self now =
     (case find_slot (timer_due now) (tm_timers self) of
        Some idx \<Rightarrow>
          (case tm_timers self ! idx of
             Some t \<Rightarrow>
               (self\<lparr>tm_timers := (tm_timers self)[idx := Some (rearmed now t)]\<rparr>,
                Some \<lparr>et_owner = pt_owner t, et_id = pt_id t\<rparr>)
           | None \<Rightarrow> (self, None))
      | None \<Rightarrow> (self, None))"

text \<open>The caller's loop: fire timers at a fixed time until none is due, at most \<open>fuel\<close> times.\<close>

fun drain_timers :: "nat \<Rightarrow> TimerManager \<Rightarrow> u128 \<Rightarrow> ExpiredTimer list \<times> TimerManager \<times> bool" where
  "drain_timers 0 s now = ([], s, False)"
| "drain_timers (Suc fuel) s now =
     (case expire_timer s now of
        (s', None) \<Rightarrow> ([], s', True)
      | (s', Some e) \<Rightarrow>
          (case drain_timers fuel s' now of (es, r) \<Rightarrow> (e # es, r)))"

fun drain_sleeps :: "nat \<Rightarrow> TimerManager \<Rightarrow> u128 \<Rightarrow> ExpiredSleep list \<times> TimerManager \<times> bool" where
  "drain_sleeps 0 s now = ([], s, False)"
| "drain_sleeps (Suc fuel) s now =
     (case expire_sleep s now of
        (s', None) \<Rightarrow> ([], s', True)
      | (s', Some e) \<Rightarrow>
          (case drain_sleeps fuel s' now of (es, r) \<Rightarrow> (e # es, r)))"

section \<open>Abstraction\<close>

definition timer_key :: "ProcessTimer \<Rightarrow> ProcessId \<times> u64" where
  "timer_key t = (pt_owner t, pt_id t)"

definition tm_ok :: "TimerManager \<Rightarrow> bool" where
  "tm_ok s \<longleftrightarrow> unique_keys timer_key (tm_timers s) \<and> length (tm_timers s) < 2 ^ 64 - 1"

text \<open>The methods as operations of a run; a creation that does not return leaves no next state.\<close>

datatype tm_op =
    TmAddSleep ProcessId "ThreadId option" u128
  | TmExpireSleep u128
  | TmCreate ProcessId
  | TmSet ProcessId u64 "u128 option" u128
  | TmDelete ProcessId u64
  | TmRelease ProcessId
  | TmExpireTimer u128
  | TmReset

fun tm_exec :: "TimerManager \<Rightarrow> tm_op \<Rightarrow> TimerManager option" where
  "tm_exec s (TmAddSleep pid tid d) = Some (fst (add_sleep s pid tid d))"
| "tm_exec s (TmExpireSleep now) = Some (fst (expire_sleep s now))"
| "tm_exec s (TmCreate pid) = map_option fst (create_timer s pid)"
| "tm_exec s (TmSet pid tid d i) = Some (fst (set_timer s pid tid d i))"
| "tm_exec s (TmDelete pid tid) = Some (fst (delete_timer s pid tid))"
| "tm_exec s (TmRelease pid) = Some (release_process s pid)"
| "tm_exec s (TmExpireTimer now) = Some (fst (expire_timer s now))"
| "tm_exec s TmReset = Some (tm_reset s)"

fun tm_run :: "TimerManager \<Rightarrow> tm_op list \<Rightarrow> TimerManager option" where
  "tm_run s [] = Some s"
| "tm_run s (op # ops) = (case tm_exec s op of None \<Rightarrow> None | Some s' \<Rightarrow> tm_run s' ops)"

section \<open>Firing timers\<close>

lemma rearmed_not_due:
  assumes due: "timer_due now t" and now: "now < max_word_of"
  shows "\<not> timer_due now (rearmed now t)"
proof (cases "pt_interval_ns t > 0")
  case True
  let ?D = "unat (pt_wake_deadline_ns t)" and ?I = "unat (pt_interval_ns t)" and ?n = "unat now"
  have I: "0 < ?I" using True by (simp add: word_less_nat_alt)
  have D: "?D \<le> ?n" using due by (simp add: timer_due_def word_le_nat_alt)
  have n: "?n < 2 ^ 128 - 1" using now by (simp add: word_less_nat_alt unat_max_word_of)
  let ?q = "(?n - ?D) div ?I"
  have "?q \<le> ?n" using I by (meson diff_le_self div_le_dividend le_trans)
  then have q: "unat (saturating_sub now (pt_wake_deadline_ns t) div pt_interval_ns t + 1) = Suc ?q"
    using n by (simp add: unat_plus_if' unat_div unat_saturating_sub)
  have "?n - ?D < ?I * Suc ?q"
    using I by (metis div_less_iff_less_mult less_Suc_eq mult.commute)
  then have "?n < ?D + ?I * Suc ?q" using D by linarith
  then have "?n < unat (pt_wake_deadline_ns (rearmed now t))"
    using True n q by (simp add: rearmed_def Let_def unat_saturating_add unat_saturating_mul)
  then show ?thesis by (simp add: timer_due_def word_le_nat_alt)
next
  case False
  then show ?thesis by (simp add: rearmed_def timer_due_def)
qed

lemma expire_timer_cases:
  assumes "now < max_word_of"
  obtains (idle) "expire_timer s now = (s, None)" "filter (timer_due now) (slot_values (tm_timers s)) = []"
    | (fired) s' t where "expire_timer s now = (s', Some \<lparr>et_owner = pt_owner t, et_id = pt_id t\<rparr>)"
      "filter (timer_due now) (slot_values (tm_timers s)) =
         t # filter (timer_due now) (slot_values (tm_timers s'))"
      "length (tm_timers s') = length (tm_timers s)" "tm_sleeps s' = tm_sleeps s"
proof (cases "find_slot (timer_due now) (tm_timers s)")
  case None
  then have "expire_timer s now = (s, None)" by (simp add: expire_timer_def)
  with None show thesis by (intro idle) (simp_all add: filter_empty_conv find_slot_None_iff)
next
  case (Some i)
  then obtain ys t zs where split: "tm_timers s = ys @ Some t # zs" "length ys = i" "timer_due now t"
      "filter (timer_due now) (slot_values ys) = []" by (rule find_slot_split)
  have nd: "\<not> timer_due now (rearmed now t)" using split(3) assms by (rule rearmed_not_due)
  let ?s = "s\<lparr>tm_timers := ys @ Some (rearmed now t) # zs\<rparr>"
  have "(tm_timers s)[i := Some (rearmed now t)] = ys @ Some (rearmed now t) # zs"
    "tm_timers s ! i = Some t"
    using split by (simp_all add: list_update_append nth_append)
  then have "expire_timer s now = (?s, Some \<lparr>et_owner = pt_owner t, et_id = pt_id t\<rparr>)"
    using Some by (simp add: expire_timer_def)
  then show thesis using split nd by (intro fired [of ?s t]) simp_all
qed

text \<open>
  (C31) The timer loop of the tick ends, and fires each due timer once: run at a time below the
  end of the \<open>u128\<close> range, it stops after at most one call more than there are timer slots, the
  timers reported are exactly those that were due, in slot order, and none is due afterwards.
\<close>

theorem drain_timers_exact:
  assumes "now < max_word_of" and "length (tm_timers s) < fuel"
  shows "\<exists>s'. drain_timers fuel s now =
      (map (\<lambda>t. \<lparr>et_owner = pt_owner t, et_id = pt_id t\<rparr>)
         (filter (timer_due now) (slot_values (tm_timers s))), s', True) \<and>
    filter (timer_due now) (slot_values (tm_timers s')) = []"
proof -
  have "\<exists>s'. drain_timers fuel s now =
      (map (\<lambda>t. \<lparr>et_owner = pt_owner t, et_id = pt_id t\<rparr>)
         (filter (timer_due now) (slot_values (tm_timers s))), s', True) \<and>
    filter (timer_due now) (slot_values (tm_timers s')) = []"
    if "length (filter (timer_due now) (slot_values (tm_timers s))) < fuel" for s fuel
    using that
  proof (induction fuel arbitrary: s)
    case (Suc fuel)
    from assms(1) show ?case
    proof (cases rule: expire_timer_cases [where s = s])
      case idle
      then show ?thesis by simp
    next
      case (fired s' t)
      with Suc(2) have "length (filter (timer_due now) (slot_values (tm_timers s'))) < fuel" by simp
      from Suc(1) [OF this] fired(1,2) show ?thesis by auto
    qed
  qed simp
  moreover have "length (filter (timer_due now) (slot_values (tm_timers s))) < fuel"
    using assms(2) occupied_le [of "tm_timers s"] length_filter_le [of "timer_due now" "slot_values (tm_timers s)"]
    unfolding occupied_def by linarith
  ultimately show ?thesis by blast
qed

theorem drain_timers_exact_witness:
  "\<exists>s'. drain_timers 3 \<lparr>tm_sleeps = [], tm_timers = [Some \<lparr>pt_owner = 1, pt_id = 5, pt_armed = True,
       pt_wake_deadline_ns = 100, pt_interval_ns = 30\<rparr>, None], tm_next_timer_id = 6\<rparr> 170 =
     ([\<lparr>et_owner = 1, et_id = 5\<rparr>], s', True) \<and>
     filter (timer_due 170) (slot_values (tm_timers s')) = []"
proof -
  let ?s = "\<lparr>tm_sleeps = [], tm_timers = [Some \<lparr>pt_owner = 1, pt_id = 5, pt_armed = True,
       pt_wake_deadline_ns = 100, pt_interval_ns = 30\<rparr>, None], tm_next_timer_id = 6\<rparr>"
  have "(170 :: u128) < max_word_of" by code_simp
  moreover have "length (tm_timers ?s) < 3" by simp
  ultimately show ?thesis
    using drain_timers_exact [of 170 ?s 3] by (simp add: timer_due_def)
qed

text \<open>
  (C32) Periodic timers do not drift: when the next period boundary fits in \<open>u128\<close>, a periodic timer
  that fires late is re-armed for the first boundary after the current time, a whole number of
  intervals after its old deadline and at most one interval ahead.
\<close>

theorem rearmed_next_boundary:
  assumes due: "timer_due now t" and I: "pt_interval_ns t > 0"
    and fits: "unat now + unat (pt_interval_ns t) < 2 ^ 128"
  shows "let old = unat (pt_wake_deadline_ns t); new = unat (pt_wake_deadline_ns (rearmed now t))
    in unat now < new \<and> new \<le> unat now + unat (pt_interval_ns t) \<and>
       (new - old) mod unat (pt_interval_ns t) = 0 \<and> pt_armed (rearmed now t)"
proof -
  let ?D = "unat (pt_wake_deadline_ns t)" and ?I = "unat (pt_interval_ns t)" and ?n = "unat now"
  have I': "0 < ?I" using I by (simp add: word_less_nat_alt)
  have D: "?D \<le> ?n" using due by (simp add: timer_due_def word_le_nat_alt)
  let ?q = "(?n - ?D) div ?I"
  have "?q \<le> ?n" using I' by (meson diff_le_self div_le_dividend le_trans)
  then have q: "unat (saturating_sub now (pt_wake_deadline_ns t) div pt_interval_ns t + 1) = Suc ?q"
    using fits I' by (simp add: unat_plus_if' unat_div unat_saturating_sub)
  have lt: "?n - ?D < ?I * Suc ?q"
    using I' by (metis div_less_iff_less_mult less_Suc_eq mult.commute)
  have le: "?I * Suc ?q \<le> (?n - ?D) + ?I" by simp
  have new: "unat (pt_wake_deadline_ns (rearmed now t)) = ?D + ?I * Suc ?q"
    using I q fits D le by (simp add: rearmed_def Let_def unat_saturating_add unat_saturating_mul)
  show ?thesis
    unfolding Let_def new
  proof (intro conjI)
    show "?n < ?D + ?I * Suc ?q" using lt D by linarith
    show "?D + ?I * Suc ?q \<le> ?n + ?I" using le D by linarith
    show "(?D + ?I * Suc ?q - ?D) mod ?I = 0" by simp
    show "pt_armed (rearmed now t)" using due I by (simp add: rearmed_def Let_def timer_due_def)
  qed
qed

theorem rearmed_next_boundary_witness:
  "unat (pt_wake_deadline_ns (rearmed 170 \<lparr>pt_owner = 1, pt_id = 5, pt_armed = True,
     pt_wake_deadline_ns = 100, pt_interval_ns = 30\<rparr>)) \<le> 170 + 30"
proof -
  let ?t = "\<lparr>pt_owner = 1, pt_id = 5, pt_armed = True, pt_wake_deadline_ns = 100, pt_interval_ns = 30\<rparr>"
  have "timer_due 170 ?t" "pt_interval_ns ?t > 0" "unat (170 :: u128) + unat (pt_interval_ns ?t) < 2 ^ 128"
    by (simp_all add: timer_due_def)
  from rearmed_next_boundary [OF this] show ?thesis by (simp add: Let_def)
qed

section \<open>Allocating timer ids\<close>

text \<open>The candidates the loop probes, in order: the nonzero ids in a cycle that starts at \<open>start\<close>.\<close>

definition candidate_at :: "u64 \<Rightarrow> nat \<Rightarrow> u64" where
  "candidate_at start k = word_of_nat ((unat start - 1 + k) mod (2 ^ 64 - 1) + 1)"

lemma unat_candidate_at: "unat (candidate_at start k) = (unat start - 1 + k) mod (2 ^ 64 - 1) + 1"
proof -
  have "(unat start - 1 + k) mod (2 ^ 64 - 1) < 2 ^ 64 - 1" by (rule mod_less_divisor) simp
  then show ?thesis unfolding candidate_at_def unat_of_nat by simp
qed

lemma candidate_at_nonzero: "candidate_at start k \<noteq> 0"
  using unat_candidate_at [of start k] by (metis add_is_0 unat_0 zero_neq_one)

lemma candidate_at_0: "start \<noteq> 0 \<Longrightarrow> candidate_at start 0 = start"
proof -
  assume "start \<noteq> 0"
  then have "0 < unat start" by (simp add: unat_gt_0)
  moreover have "unat start < 2 ^ 64" using unsigned_less [of start] by simp
  ultimately have "unat (candidate_at start 0) = unat start" by (simp add: unat_candidate_at)
  then show ?thesis by (rule unsigned_word_eqI)
qed

lemma candidate_at_Suc: "max (candidate_at start k + 1) 1 = candidate_at start (Suc k)"
proof -
  let ?m = "(unat start - 1 + k) mod (2 ^ 64 - 1)"
  have m: "?m < 2 ^ 64 - 1" by (rule mod_less_divisor) simp
  have suc: "(unat start - 1 + Suc k) mod (2 ^ 64 - 1) = (if Suc ?m = 2 ^ 64 - 1 then 0 else Suc ?m)"
    using m by (metis add_Suc_right mod_Suc)
  have "unat (max (candidate_at start k + 1) 1) = unat (candidate_at start (Suc k))"
  proof (cases "Suc ?m = 2 ^ 64 - 1")
    case True
    then have "unat (candidate_at start k + 1) = 0"
      using unat_candidate_at [of start k] by (simp add: unat_plus_if')
    then have "candidate_at start k + 1 = 0" by (metis unsigned_0 unsigned_word_eqI)
    then show ?thesis using True suc by (simp add: unat_candidate_at)
  next
    case False
    then have "unat (candidate_at start k + 1) = ?m + 2"
      using m unat_candidate_at [of start k] by (simp add: unat_plus_if')
    moreover from this have "1 \<le> candidate_at start k + 1" by (simp add: word_le_nat_alt)
    then have "max (candidate_at start k + 1) 1 = candidate_at start k + 1" by (rule max.absorb1)
    ultimately show ?thesis using False suc by (simp add: unat_candidate_at)
  qed
  then show ?thesis by (rule unsigned_word_eqI)
qed

lemma candidate_at_inj: "i < 2 ^ 64 - 1 \<Longrightarrow> j < 2 ^ 64 - 1 \<Longrightarrow> candidate_at start i = candidate_at start j \<Longrightarrow> i = j"
proof -
  assume ij: "i < 2 ^ 64 - 1" "j < 2 ^ 64 - 1" and "candidate_at start i = candidate_at start j"
  then have "(unat start - 1 + i) mod (2 ^ 64 - 1) = (unat start - 1 + j) mod (2 ^ 64 - 1)"
    using unat_candidate_at by (metis add_right_cancel)
  then show "i = j" using ij by (rule ring_index_inj)
qed

text \<open>From the \<open>k\<close>-th candidate the loop returns the first free one, if one comes before the cycle closes.\<close>

lemma allocate_loop_finds:
  assumes "start \<noteq> 0" and "j < 2 ^ 64 - 1" and "k \<le> j"
    and free: "locate_timer s pid (candidate_at start j) = Inl InvalidTimer"
    and used: "\<And>i. k \<le> i \<Longrightarrow> i < j \<Longrightarrow> locate_timer s pid (candidate_at start i) \<noteq> Inl InvalidTimer"
  shows "allocate_loop s pid start (candidate_at start k) =
    Some (candidate_at start j, candidate_at start (Suc j))"
  using \<open>k \<le> j\<close> used
proof (induction "j - k" arbitrary: k)
  case 0
  then have "k = j" by simp
  then show ?case using free by (subst allocate_loop.simps) (simp add: candidate_at_Suc)
next
  case (Suc d)
  then have kj: "k < j" by simp
  from Suc(4) [of k] kj obtain i where i: "locate_timer s pid (candidate_at start k) = Inr i"
    by (cases "locate_timer s pid (candidate_at start k)") (auto simp: locate_timer_def)
  have "candidate_at start (Suc k) \<noteq> candidate_at start 0"
    using candidate_at_inj [of "Suc k" 0 start] kj assms(2) by auto
  then have ne: "candidate_at start (Suc k) \<noteq> start" using candidate_at_0 [OF assms(1)] by simp
  have "allocate_loop s pid start (candidate_at start (Suc k)) =
      Some (candidate_at start j, candidate_at start (Suc j))"
    using Suc(1) [of "Suc k"] Suc(2,4) kj by simp
  then show ?case
    using i ne by (subst allocate_loop.simps) (simp add: candidate_at_Suc)
qed

text \<open>Among one more candidate than there are slots, one is free.\<close>

lemma some_candidate_free:
  assumes "length (tm_timers s) < 2 ^ 64 - 1"
  shows "\<exists>j \<le> length (tm_timers s). locate_timer s pid (candidate_at start j) = Inl InvalidTimer"
proof (rule ccontr)
  let ?n = "length (tm_timers s)"
  let ?ids = "pt_id ` set (slot_values (tm_timers s))"
  assume none: "\<not> ?thesis"
  have "candidate_at start j \<in> ?ids" if "j \<le> ?n" for j
  proof -
    have "find_slot (timer_is pid (candidate_at start j)) (tm_timers s) \<noteq> None"
      using none that by (auto simp: locate_timer_def)
    then obtain t where "Some t \<in> set (tm_timers s)" "pt_id t = candidate_at start j"
      by (auto simp: find_slot_None_iff timer_is_def)
    then show ?thesis by (metis image_eqI set_slot_values)
  qed
  then have "candidate_at start ` {..?n} \<subseteq> ?ids" by auto
  then have "card (candidate_at start ` {..?n}) \<le> card ?ids" by (rule card_mono [rotated]) simp
  moreover have "inj_on (candidate_at start) {..?n}"
  proof (rule inj_onI)
    fix i j assume "i \<in> {..?n}" "j \<in> {..?n}" "candidate_at start i = candidate_at start j"
    then show "i = j" using assms by (intro candidate_at_inj) auto
  qed
  then have "card (candidate_at start ` {..?n}) = Suc ?n" by (simp add: card_image)
  moreover have "card ?ids \<le> ?n"
    using card_image_le [OF finite_set, of pt_id "slot_values (tm_timers s)"]
      card_length [of "slot_values (tm_timers s)"] occupied_le [of "tm_timers s"]
    unfolding occupied_def by linarith
  ultimately show False by simp
qed

lemma allocate_timer_id_fresh:
  assumes "length (tm_timers s) < 2 ^ 64 - 1"
  obtains tid nid where "allocate_timer_id s pid = Some (s\<lparr>tm_next_timer_id := nid\<rparr>, tid)"
    "tid \<noteq> 0" "nid \<noteq> 0" "locate_timer s pid tid = Inl InvalidTimer"
proof -
  let ?start = "max (tm_next_timer_id s) 1"
  let ?P = "\<lambda>j. locate_timer s pid (candidate_at ?start j) = Inl InvalidTimer"
  have start: "?start \<noteq> 0" by (metis max.cobounded2 word_le_0_iff zero_neq_one)
  define j where "j = (LEAST j. ?P j)"
  obtain j0 where "j0 \<le> length (tm_timers s)" "?P j0" using some_candidate_free [OF assms] by blast
  then have j: "?P j" "j \<le> length (tm_timers s)"
    unfolding j_def using LeastI [of ?P j0] Least_le [of ?P j0] by simp_all
  have "allocate_loop s pid ?start (candidate_at ?start 0) =
      Some (candidate_at ?start j, candidate_at ?start (Suc j))"
  proof (rule allocate_loop_finds [OF start])
    show "?P j" by (rule j(1))
    show "\<not> ?P i" if "i < j" for i using that unfolding j_def by (rule not_less_Least)
  qed (use j(2) assms in simp_all)
  then have "allocate_timer_id s pid =
      Some (s\<lparr>tm_next_timer_id := candidate_at ?start (Suc j)\<rparr>, candidate_at ?start j)"
    by (simp add: allocate_timer_id_def Let_def candidate_at_0 [OF start])
  then show thesis using candidate_at_nonzero j(1) by (intro that)
qed

lemma timer_is_key: "timer_is pid tid = (\<lambda>t. timer_key t = (pid, tid))"
  by (auto simp: timer_is_def timer_key_def)

lemma timer_of_lookup: "timer_of s pid tid = ok_or InvalidTimer (slot_lookup timer_key (tm_timers s) (pid, tid))"
  by (auto simp: timer_of_def locate_timer_def timer_is_key slot_lookup_def ok_or_def split: option.split)

lemma locate_timer_Inl: "locate_timer s pid tid = Inl e \<Longrightarrow> slot_lookup timer_key (tm_timers s) (pid, tid) = None"
  by (auto simp: locate_timer_def timer_is_key slot_lookup_def)

lemma locate_timer_InrE:
  assumes "locate_timer s pid tid = Inr i"
  obtains t where "i < length (tm_timers s)" "tm_timers s ! i = Some t" "timer_key t = (pid, tid)"
  using assms unfolding locate_timer_def timer_is_key ok_or_eq_Inr by (rule find_slot_SomeE)

lemma create_timer_cases:
  assumes ok: "tm_ok s"
  obtains (full) "create_timer s pid = Some (s, Inl TimerFull)" "None \<notin> set (tm_timers s)"
    | (created) s' tid where "create_timer s pid = Some (s', Inr tid)" "tid \<noteq> 0"
      "slot_lookup timer_key (tm_timers s) (pid, tid) = None"
      "slot_lookup timer_key (tm_timers s') = (slot_lookup timer_key (tm_timers s))((pid, tid) \<mapsto>
         \<lparr>pt_owner = pid, pt_id = tid, pt_armed = False, pt_wake_deadline_ns = 0, pt_interval_ns = 0\<rparr>)"
      "tm_ok s'"
proof (cases "free_slot (tm_timers s)")
  case None
  then show thesis by (intro full) (simp_all add: create_timer_def free_slot_None_iff [symmetric])
next
  case (Some i)
  have "length (tm_timers s) < 2 ^ 64 - 1" using ok by (simp add: tm_ok_def)
  then obtain tid nid where alloc: "allocate_timer_id s pid = Some (s\<lparr>tm_next_timer_id := nid\<rparr>, tid)"
    and tid: "tid \<noteq> 0" "locate_timer s pid tid = Inl InvalidTimer" by (rule allocate_timer_id_fresh)
  let ?t = "\<lparr>pt_owner = pid, pt_id = tid, pt_armed = False, pt_wake_deadline_ns = 0, pt_interval_ns = 0\<rparr>"
  have key: "timer_key ?t = (pid, tid)" by (simp add: timer_key_def)
  note fresh = locate_timer_Inl [OF tid(2)]
  let ?s = "s\<lparr>tm_next_timer_id := nid, tm_timers := (tm_timers s)[i := Some ?t]\<rparr>"
  have "create_timer s pid = Some (?s, Inr tid)" using Some alloc by (simp add: create_timer_def)
  moreover have "slot_lookup timer_key (tm_timers ?s) = (slot_lookup timer_key (tm_timers s))((pid, tid) \<mapsto> ?t)"
    "unique_keys timer_key (tm_timers ?s)"
    using slot_lookup_insert [of timer_key "tm_timers s" i ?t] ok Some fresh by (simp_all add: tm_ok_def key)
  ultimately show thesis using tid(1) fresh ok by (intro created [of ?s tid]) (simp_all add: tm_ok_def)
qed

text \<open>
  Creating a timer always returns: the search for an id ends although its loop has no bound.
  The answer is \<open>Full\<close>, without effect, exactly when no slot is free; otherwise it is a nonzero id
  that the process did not have, the new timer is disarmed, and every other timer, of this and of
  other processes, reads as before.
\<close>

theorem create_timer_fresh:
  assumes "tm_ok s"
  shows "\<exists>s' r. create_timer s pid = Some (s', r) \<and>
    (case r of
       Inl e \<Rightarrow> e = TimerFull \<and> s' = s \<and> None \<notin> set (tm_timers s)
     | Inr tid \<Rightarrow> tid \<noteq> 0 \<and> timer_of s pid tid = Inl InvalidTimer \<and>
         timer_of s' pid tid = Inr \<lparr>pt_owner = pid, pt_id = tid, pt_armed = False,
           pt_wake_deadline_ns = 0, pt_interval_ns = 0\<rparr> \<and>
         (\<forall>p i. (p, i) \<noteq> (pid, tid) \<longrightarrow> timer_of s' p i = timer_of s p i))"
  using assms
proof (cases rule: create_timer_cases [where pid = pid])
  case full
  then show ?thesis by simp
next
  case (created s' tid)
  then show ?thesis by (simp add: timer_of_lookup)
qed

theorem create_timer_fresh_witness:
  "\<exists>s' r. create_timer \<lparr>tm_sleeps = [], tm_timers = [Some \<lparr>pt_owner = 1, pt_id = 1, pt_armed = False,
     pt_wake_deadline_ns = 0, pt_interval_ns = 0\<rparr>, None], tm_next_timer_id = 0\<rparr> 1 = Some (s', r) \<and> r = Inr 2"
proof -
  let ?s = "\<lparr>tm_sleeps = [], tm_timers = [Some \<lparr>pt_owner = 1, pt_id = 1, pt_armed = False,
     pt_wake_deadline_ns = 0, pt_interval_ns = 0\<rparr>, None], tm_next_timer_id = 0\<rparr>"
  have "tm_ok ?s" by (simp add: tm_ok_def unique_keys_code)
  from create_timer_fresh [OF this, of 1] obtain s' r where c: "create_timer ?s 1 = Some (s', r)" by blast
  have "map_option snd (create_timer ?s 1) = Some (Inr 2)" by code_simp
  with c show ?thesis by simp
qed

lemma tm_ok_set:
  assumes ok: "tm_ok s" and i: "i < length (tm_timers s)" "tm_timers s ! i = Some t"
    and k: "timer_key t' = timer_key t"
  shows "tm_ok (s\<lparr>tm_timers := (tm_timers s)[i := Some t']\<rparr>)"
    and "slot_lookup timer_key ((tm_timers s)[i := Some t']) = (slot_lookup timer_key (tm_timers s))(timer_key t \<mapsto> t')"
  using unique_keys_update_same [OF _ i, of timer_key t'] slot_lookup_replace [OF _ i, of timer_key t'] ok k
  by (simp_all add: tm_ok_def)

lemma timer_key_armed [simp]: "timer_key (armed_timer t d i) = timer_key t"
  by (simp add: timer_key_def armed_timer_def split: option.split)

lemma timer_key_rearmed [simp]: "timer_key (rearmed now t) = timer_key t"
  by (simp add: timer_key_def rearmed_def Let_def)

text \<open>
  Setting a timer is exact: on a timer the process has, it returns the old state and afterwards
  the timer reads back with the new interval, armed with the given deadline or disarmed; on any
  other id it fails with \<open>InvalidTimer\<close> and no effect. No other timer changes.
\<close>

theorem set_timer_exact:
  assumes ok: "tm_ok s"
  shows "case set_timer s pid tid d interval of
      (s', Inl e) \<Rightarrow> s' = s \<and> e = InvalidTimer \<and> timer_of s pid tid = Inl InvalidTimer
    | (s', Inr old) \<Rightarrow> timer_of s pid tid = Inr old \<and>
        timer_of s' pid tid = Inr (old\<lparr>pt_interval_ns := interval, pt_armed := (d \<noteq> None),
          pt_wake_deadline_ns := (case d of Some x \<Rightarrow> x | None \<Rightarrow> 0)\<rparr>) \<and>
        (\<forall>p i. (p, i) \<noteq> (pid, tid) \<longrightarrow> timer_of s' p i = timer_of s p i)"
proof (cases "locate_timer s pid tid")
  case (Inl e)
  then have e: "e = InvalidTimer" by (simp add: locate_timer_def)
  have "set_timer s pid tid d interval = (s, Inl InvalidTimer)" using Inl e by (simp add: set_timer_def)
  with Inl e show ?thesis by (simp add: timer_of_def)
next
  case (Inr i)
  then obtain t where i: "i < length (tm_timers s)" "tm_timers s ! i = Some t" and k: "timer_key t = (pid, tid)"
    by (rule locate_timer_InrE)
  have set: "set_timer s pid tid d interval =
      (s\<lparr>tm_timers := (tm_timers s)[i := Some (armed_timer t d interval)]\<rparr>, Inr t)"
    using Inr i by (simp add: set_timer_def)
  have "timer_of s pid tid = Inr t" using Inr i by (simp add: timer_of_def)
  moreover have "armed_timer t d interval = t\<lparr>pt_interval_ns := interval, pt_armed := (d \<noteq> None),
      pt_wake_deadline_ns := (case d of Some x \<Rightarrow> x | None \<Rightarrow> 0)\<rparr>"
    by (simp add: armed_timer_def split: option.split)
  ultimately show ?thesis
    unfolding set using tm_ok_set(2) [OF ok i timer_key_armed, of d interval] k
    by (simp add: timer_of_lookup)
qed

theorem set_timer_exact_witness:
  "timer_of (fst (set_timer \<lparr>tm_sleeps = [], tm_timers = [Some \<lparr>pt_owner = 1, pt_id = 1, pt_armed = False,
     pt_wake_deadline_ns = 0, pt_interval_ns = 0\<rparr>, None], tm_next_timer_id = 0\<rparr> 1 1 (Some 50) 5)) 1 1 =
   Inr \<lparr>pt_owner = 1, pt_id = 1, pt_armed = True, pt_wake_deadline_ns = 50, pt_interval_ns = 5\<rparr>"
proof -
  let ?t = "\<lparr>pt_owner = 1, pt_id = 1, pt_armed = False, pt_wake_deadline_ns = 0, pt_interval_ns = 0\<rparr>"
  let ?s = "\<lparr>tm_sleeps = [], tm_timers = [Some ?t, None], tm_next_timer_id = 0\<rparr>"
  have ok: "tm_ok ?s" by (simp add: tm_ok_def unique_keys_code)
  have "snd (set_timer ?s 1 1 (Some 50) 5) = Inr ?t" by code_simp
  then have "set_timer ?s 1 1 (Some 50) 5 = (fst (set_timer ?s 1 1 (Some 50) 5), Inr ?t)"
    by (metis prod.collapse)
  with set_timer_exact [OF ok, of 1 1 "Some 50" 5] show ?thesis by (simp split: prod.splits)
qed

section \<open>Runs and sleeps\<close>

lemma tm_ok_timers: "tm_ok s \<Longrightarrow> tm_timers s' = tm_timers s \<Longrightarrow> tm_ok s'"
  by (simp add: tm_ok_def)

lemma tm_ok_update_None: "tm_ok s \<Longrightarrow> tm_ok (s\<lparr>tm_timers := (tm_timers s)[i := None]\<rparr>)"
  by (simp add: tm_ok_def unique_keys_update_None)

lemma tm_exec_ok:
  assumes ok: "tm_ok s"
  shows "\<exists>s'. tm_exec s op = Some s' \<and> tm_ok s' \<and> length (tm_timers s') = length (tm_timers s)"
proof (cases op)
  case (TmCreate pid)
  have "\<exists>s' r. create_timer s pid = Some (s', r) \<and> tm_ok s'"
    using ok by (cases rule: create_timer_cases [where pid = pid]) (use ok in auto)
  moreover have "create_timer s pid = Some (s', r) \<Longrightarrow> length (tm_timers s') = length (tm_timers s)" for s' r
    by (auto simp: create_timer_def allocate_timer_id_def Let_def split: option.splits)
  ultimately show ?thesis by (auto simp: TmCreate)
next
  case (TmSet pid tid d interval)
  have "tm_ok (fst (set_timer s pid tid d interval)) \<and>
      length (tm_timers (fst (set_timer s pid tid d interval))) = length (tm_timers s)"
  proof (cases "locate_timer s pid tid")
    case (Inr i)
    then obtain t where i: "i < length (tm_timers s)" "tm_timers s ! i = Some t" by (rule locate_timer_InrE)
    with Inr tm_ok_set(1) [OF ok i timer_key_armed] show ?thesis by (simp add: set_timer_def)
  qed (use ok in \<open>simp add: set_timer_def\<close>)
  then show ?thesis by (simp add: TmSet)
next
  case (TmExpireTimer now)
  have "tm_ok (fst (expire_timer s now)) \<and> length (tm_timers (fst (expire_timer s now))) = length (tm_timers s)"
  proof (cases "find_slot (timer_due now) (tm_timers s)")
    case (Some i)
    then obtain t where i: "i < length (tm_timers s)" "tm_timers s ! i = Some t" by (rule find_slot_SomeE)
    with Some tm_ok_set(1) [OF ok i timer_key_rearmed] show ?thesis by (simp add: expire_timer_def)
  qed (use ok in \<open>simp add: expire_timer_def\<close>)
  then show ?thesis by (simp add: TmExpireTimer)
next
  case (TmDelete pid tid)
  show ?thesis
    using ok tm_ok_update_None [OF ok] by (auto simp: TmDelete delete_timer_def split: sum.split)
next
  case (TmExpireSleep now)
  have "tm_timers (fst (expire_sleep s now)) = tm_timers s"
    by (simp add: expire_sleep_def split: option.split)
  with tm_ok_timers [OF ok this] show ?thesis by (simp add: TmExpireSleep)
qed (use ok in \<open>auto simp: tm_ok_def add_sleep_def release_process_def tm_reset_def unique_keys_clear
      split: option.split\<close>)

text \<open>
  (C30) Every run of timer and sleep operations from \<open>new()\<close> returns, and at every point a process
  has at most one timer of each id; the timer table keeps its size.
\<close>

theorem tm_run_returns:
  assumes "timer_cap < 2 ^ 64 - 1"
  shows "\<exists>s. tm_run (tm_new sleep_cap timer_cap) ops = Some s \<and>
    unique_keys (\<lambda>t. (pt_owner t, pt_id t)) (tm_timers s) \<and> length (tm_timers s) = timer_cap"
proof -
  have "\<exists>s'. tm_run s ops = Some s' \<and> tm_ok s' \<and> length (tm_timers s') = length (tm_timers s)" if "tm_ok s" for s
    using that
  proof (induction ops arbitrary: s)
    case (Cons op ops)
    from tm_exec_ok [OF Cons(2), of op] obtain s1 where s1: "tm_exec s op = Some s1" "tm_ok s1"
      "length (tm_timers s1) = length (tm_timers s)" by blast
    from Cons(1) [OF s1(2)] s1 show ?case by auto
  qed simp
  moreover have "tm_ok (tm_new sleep_cap timer_cap)" using assms by (simp add: tm_ok_def tm_new_def)
  moreover have "timer_key = (\<lambda>t. (pt_owner t, pt_id t))" by (rule ext) (simp add: timer_key_def)
  ultimately show ?thesis by (fastforce simp: tm_ok_def tm_new_def)
qed

theorem tm_run_returns_witness:
  "\<exists>s. tm_run (tm_new 2 4) [TmCreate 7, TmCreate 7, TmDelete 7 1, TmCreate 7, TmRelease 7] = Some s \<and>
     unique_keys (\<lambda>t. (pt_owner t, pt_id t)) (tm_timers s) \<and> length (tm_timers s) = 4"
  by (rule tm_run_returns) simp

text \<open>The sleep loop of the tick ends too, and reports each sleep that is due once.\<close>

lemma expire_sleep_cases:
  obtains (idle) "expire_sleep s now = (s, None)"
      "filter (\<lambda>e. sl_wake_deadline_ns e \<le> now) (slot_values (tm_sleeps s)) = []"
    | (fired) s' e where "expire_sleep s now = (s', Some \<lparr>es_process = sl_process e, es_thread = sl_thread e\<rparr>)"
      "filter (\<lambda>e. sl_wake_deadline_ns e \<le> now) (slot_values (tm_sleeps s)) =
         e # filter (\<lambda>e. sl_wake_deadline_ns e \<le> now) (slot_values (tm_sleeps s'))"
proof (cases "find_slot (\<lambda>e. sl_wake_deadline_ns e \<le> now) (tm_sleeps s)")
  case None
  then have "expire_sleep s now = (s, None)" by (simp add: expire_sleep_def)
  with None show thesis by (intro idle) (simp_all add: filter_empty_conv find_slot_None_iff)
next
  case (Some i)
  then obtain ys e zs where split: "tm_sleeps s = ys @ Some e # zs" "length ys = i" "sl_wake_deadline_ns e \<le> now"
      "filter (\<lambda>e. sl_wake_deadline_ns e \<le> now) (slot_values ys) = []" by (rule find_slot_split)
  let ?s = "s\<lparr>tm_sleeps := ys @ None # zs\<rparr>"
  have "expire_sleep s now = (?s, Some \<lparr>es_process = sl_process e, es_thread = sl_thread e\<rparr>)"
    using Some split by (simp add: expire_sleep_def list_update_append nth_append)
  then show thesis using split by (intro fired [of ?s e]) simp_all
qed

lemma drain_sleeps_exact:
  assumes "length (filter (\<lambda>e. sl_wake_deadline_ns e \<le> now) (slot_values (tm_sleeps s))) < fuel"
  shows "\<exists>s'. drain_sleeps fuel s now =
      (map (\<lambda>e. \<lparr>es_process = sl_process e, es_thread = sl_thread e\<rparr>)
         (filter (\<lambda>e. sl_wake_deadline_ns e \<le> now) (slot_values (tm_sleeps s))), s', True) \<and>
    filter (\<lambda>e. sl_wake_deadline_ns e \<le> now) (slot_values (tm_sleeps s')) = []"
  using assms
proof (induction fuel arbitrary: s)
  case (Suc fuel)
  show ?case
  proof (cases rule: expire_sleep_cases [of s now])
    case idle
    then show ?thesis by simp
  next
    case (fired s' e)
    with Suc(2) have "length (filter (\<lambda>e. sl_wake_deadline_ns e \<le> now) (slot_values (tm_sleeps s'))) < fuel"
      by simp
    from Suc(1) [OF this] fired(1,2) show ?thesis by auto
  qed
qed simp

end
