(* ===== verification/Frame_Allocator.thy ===== *)
theory Frame_Allocator
  imports Slot_Table
begin

text \<open>
  The physical frame allocator (\<open>src/kernel/memory/frame_allocator.rs\<close>), with the parts of the
  boot information (\<open>src/arch/x86_64/boot.rs\<close>) and of the address translation
  (\<open>src/arch/x86_64/paging.rs\<close>) it reads: a table of memory regions, and one state per 4 KiB
  frame.

  \<open>MAX_REGIONS\<close> is the length of the region table. The metadata pointer is \<open>None\<close> when null and
  otherwise the list of frame states it points to. \<open>usize\<close> quantities are natural numbers: they
  count frames, of which a 64-bit address space has at most \<open>2^52\<close>. The address of the page table
  pool and of the boot stack, which the linker and the processor decide, are arguments.
\<close>

unbundle bit_operations_syntax

section \<open>Boot information and translation\<close>

definition PAGE_SIZE :: u64 where
  "PAGE_SIZE = 4096"

datatype MemoryRegionKind =
    BootUsable | BootReserved | BootAcpiReclaimable | BootAcpiNvs | BootBadMemory
  | BootBootloaderReclaimable | BootKernelAndModules | BootFramebuffer | BootUnknown u64

record MemoryMapEntry =
  mme_base :: u64
  mme_length :: u64
  mme_kind :: MemoryRegionKind

record KernelLoadRange =
  klr_physical_start :: u64
  klr_virtual_start :: u64
  klr_length :: u64

record VirtualRange =
  vr_start :: u64
  vr_end :: u64

definition vr_length :: "VirtualRange \<Rightarrow> u64" where
  "vr_length self = saturating_sub (vr_end self) (vr_start self)"

record BootModule =
  bm_base :: u64
  bm_size :: u64

record FramebufferInfo =
  fb_address :: u64
  fb_height :: u64
  fb_pitch :: u64

text \<open>
  The fields of \<open>BootInfo\<close> the allocator reads. The entries of the memory map and of the module
  list are optional, as the accessors of the source return nothing for an unusable pointer.
\<close>

record BootInfo =
  bi_memory_map :: "MemoryMapEntry option list option"
  bi_framebuffer :: "FramebufferInfo option"
  bi_rsdp :: "u64 option"
  bi_hhdm_offset :: "u64 option"
  bi_kernel_sections :: VirtualRange
  bi_kernel_load_range :: "KernelLoadRange option"
  bi_modules :: "BootModule option list"

record AddressTranslator =
  at_hhdm_offset :: "u64 option"
  at_kernel_physical_start :: u64
  at_kernel_virtual_start :: u64
  at_kernel_length :: u64

definition translator_identity :: AddressTranslator where
  "translator_identity =
     \<lparr>at_hhdm_offset = None, at_kernel_physical_start = 0, at_kernel_virtual_start = 0,
      at_kernel_length = 0\<rparr>"

definition translator_new :: "BootInfo \<Rightarrow> AddressTranslator" where
  "translator_new boot =
     (let load = bi_kernel_load_range boot in
      \<lparr>at_hhdm_offset = bi_hhdm_offset boot,
       at_kernel_physical_start = (case load of Some r \<Rightarrow> klr_physical_start r | None \<Rightarrow> 0),
       at_kernel_virtual_start = (case load of Some r \<Rightarrow> klr_virtual_start r | None \<Rightarrow> 0),
       at_kernel_length = (case load of Some r \<Rightarrow> klr_length r | None \<Rightarrow> 0)\<rparr>)"

definition physical_for_virtual :: "AddressTranslator \<Rightarrow> u64 \<Rightarrow> u64" where
  "physical_for_virtual self va =
     (if at_kernel_length self \<noteq> 0 \<and> va \<ge> at_kernel_virtual_start self \<and>
         va < saturating_add (at_kernel_virtual_start self) (at_kernel_length self)
      then saturating_add (at_kernel_physical_start self)
             (saturating_sub va (at_kernel_virtual_start self))
      else case at_hhdm_offset self of
        Some offset \<Rightarrow> if va \<ge> offset then va - offset else va
      | None \<Rightarrow> va)"

definition virtual_for_physical :: "AddressTranslator \<Rightarrow> u64 \<Rightarrow> u64" where
  "virtual_for_physical self pa =
     (if at_kernel_length self \<noteq> 0 \<and> pa \<ge> at_kernel_physical_start self \<and>
         pa < saturating_add (at_kernel_physical_start self) (at_kernel_length self)
      then saturating_add (at_kernel_virtual_start self)
             (saturating_sub pa (at_kernel_physical_start self))
      else case at_hhdm_offset self of
        Some offset \<Rightarrow> saturating_add pa offset
      | None \<Rightarrow> pa)"

section \<open>Frames, regions and the allocator state\<close>

datatype MemoryError =
    NotInitialized | OutOfMemory | MetadataUnavailable | MetadataTooSmall | InvalidFrame
  | DoubleFree | UnalignedFrame

definition align_down_u64 :: "u64 \<Rightarrow> u64" where
  "align_down_u64 v = v AND NOT (PAGE_SIZE - 1)"

definition align_up_u64 :: "u64 \<Rightarrow> u64" where
  "align_up_u64 v = (let mask = PAGE_SIZE - 1 in saturating_add v mask AND NOT mask)"

definition frame_index :: "u64 \<Rightarrow> nat" where
  "frame_index address = unat (address div PAGE_SIZE)"

definition ranges_overlap :: "u64 \<Rightarrow> u64 \<Rightarrow> u64 \<Rightarrow> u64 \<Rightarrow> bool" where
  "ranges_overlap a_start a_end b_start b_end \<longleftrightarrow> a_start < b_end \<and> b_start < a_end"

record PhysFrame =
  pf_start :: u64

definition containing_address :: "u64 \<Rightarrow> PhysFrame" where
  "containing_address address = \<lparr>pf_start = align_down_u64 address\<rparr>"

definition from_start_address :: "u64 \<Rightarrow> MemoryError + PhysFrame" where
  "from_start_address start =
     (if start AND (PAGE_SIZE - 1) = 0 then Inr \<lparr>pf_start = start\<rparr> else Inl UnalignedFrame)"

datatype PhysicalRegionKind =
    KindUsable | KindReserved | KindAcpi | KindMmio | KindKernel | KindModule
  | KindBootloaderReclaimable | KindAllocatorMetadata

fun from_boot :: "MemoryRegionKind \<Rightarrow> PhysicalRegionKind" where
  "from_boot BootUsable = KindUsable"
| "from_boot BootAcpiReclaimable = KindAcpi"
| "from_boot BootAcpiNvs = KindAcpi"
| "from_boot BootFramebuffer = KindMmio"
| "from_boot BootKernelAndModules = KindKernel"
| "from_boot BootBootloaderReclaimable = KindBootloaderReclaimable"
| "from_boot BootReserved = KindReserved"
| "from_boot BootBadMemory = KindReserved"
| "from_boot (BootUnknown _) = KindReserved"

record PhysicalRegion =
  pr_start :: u64
  pr_length :: u64
  pr_kind :: PhysicalRegionKind

definition region_new :: "u64 \<Rightarrow> u64 \<Rightarrow> PhysicalRegionKind \<Rightarrow> PhysicalRegion" where
  "region_new start len kind = \<lparr>pr_start = start, pr_length = len, pr_kind = kind\<rparr>"

definition region_end :: "PhysicalRegion \<Rightarrow> u64" where
  "region_end self = saturating_add (pr_start self) (pr_length self)"

datatype FrameState = FrameInvalid | FrameFree | FrameAllocated | FrameReserved | FrameBootloaderReclaimable

fun state_for_reserved_kind :: "PhysicalRegionKind \<Rightarrow> FrameState" where
  "state_for_reserved_kind KindUsable = FrameFree"
| "state_for_reserved_kind KindBootloaderReclaimable = FrameBootloaderReclaimable"
| "state_for_reserved_kind _ = FrameReserved"

record PhysicalMemoryStats =
  ps_total_memory_map_bytes :: u64
  ps_total_bytes :: u64
  ps_total_usable_bytes :: u64
  ps_usable_bytes :: u64
  ps_reserved_bytes :: u64
  ps_bootloader_reclaimable_bytes :: u64
  ps_acpi_bytes :: u64
  ps_mmio_framebuffer_bytes :: u64
  ps_mmio_bytes :: u64
  ps_kernel_module_bytes :: u64
  ps_kernel_bytes :: u64
  ps_module_bytes :: u64
  ps_total_frame_count :: nat
  ps_free_frame_count :: nat
  ps_used_frame_count :: nat
  ps_frame_count :: nat
  ps_free_frames :: nat
  ps_used_frames :: nat
  ps_allocated_frames :: nat
  ps_metadata_bytes :: nat
  ps_metadata_physical_start :: u64
  ps_metadata_physical_end :: u64

definition stats_zero :: PhysicalMemoryStats where
  "stats_zero =
     \<lparr>ps_total_memory_map_bytes = 0, ps_total_bytes = 0, ps_total_usable_bytes = 0,
      ps_usable_bytes = 0, ps_reserved_bytes = 0, ps_bootloader_reclaimable_bytes = 0,
      ps_acpi_bytes = 0, ps_mmio_framebuffer_bytes = 0, ps_mmio_bytes = 0,
      ps_kernel_module_bytes = 0, ps_kernel_bytes = 0, ps_module_bytes = 0,
      ps_total_frame_count = 0, ps_free_frame_count = 0, ps_used_frame_count = 0,
      ps_frame_count = 0, ps_free_frames = 0, ps_used_frames = 0, ps_allocated_frames = 0,
      ps_metadata_bytes = 0, ps_metadata_physical_start = 0, ps_metadata_physical_end = 0\<rparr>"

record PhysicalFrameAllocator =
  pfa_regions :: "PhysicalRegion slots"
  pfa_metadata :: "FrameState list option"
  pfa_frame_count :: nat
  pfa_metadata_bytes :: nat
  pfa_metadata_physical_start :: u64
  pfa_free_frames :: nat
  pfa_used_frames :: nat
  pfa_stats :: PhysicalMemoryStats
  pfa_initialized :: bool

definition pfa_new :: "nat \<Rightarrow> PhysicalFrameAllocator" where
  "pfa_new max_regions =
     \<lparr>pfa_regions = replicate max_regions None, pfa_metadata = None, pfa_frame_count = 0,
      pfa_metadata_bytes = 0, pfa_metadata_physical_start = 0, pfa_free_frames = 0,
      pfa_used_frames = 0, pfa_stats = stats_zero, pfa_initialized = False\<rparr>"

definition pfa_reset :: "PhysicalFrameAllocator \<Rightarrow> PhysicalFrameAllocator" where
  "pfa_reset self = pfa_new (length (pfa_regions self))"

section \<open>Statistics\<close>

definition live_bytes_for :: "PhysicalFrameAllocator \<Rightarrow> PhysicalRegionKind \<Rightarrow> u64" where
  "live_bytes_for self kind =
     foldl (\<lambda>total r. case r of
              Some region \<Rightarrow> if pr_kind region = kind then saturating_add total (pr_length region) else total
            | None \<Rightarrow> total) 0 (pfa_regions self)"

definition frames_in_state :: "FrameState \<Rightarrow> PhysicalFrameAllocator \<Rightarrow> nat" where
  "frames_in_state st self =
     (case pfa_metadata self of
        None \<Rightarrow> 0
      | Some db \<Rightarrow> length (filter (\<lambda>s. s = st) (take (pfa_frame_count self) db)))"

definition refresh_stats :: "PhysicalFrameAllocator \<Rightarrow> PhysicalFrameAllocator" where
  "refresh_stats self =
     (let free = frames_in_state FrameFree self;
          used = frames_in_state FrameAllocated self;
          kernel = live_bytes_for self KindKernel;
          module = live_bytes_for self KindModule;
          mmio = live_bytes_for self KindMmio
      in self\<lparr>pfa_free_frames := free, pfa_used_frames := used,
           pfa_stats := (pfa_stats self)\<lparr>
             ps_total_frame_count := pfa_frame_count self,
             ps_free_frame_count := free,
             ps_used_frame_count := used,
             ps_frame_count := pfa_frame_count self,
             ps_free_frames := free,
             ps_used_frames := used,
             ps_allocated_frames := used,
             ps_metadata_bytes := pfa_metadata_bytes self,
             ps_metadata_physical_start := pfa_metadata_physical_start self,
             ps_metadata_physical_end :=
               saturating_add (pfa_metadata_physical_start self) (word_of_nat (pfa_metadata_bytes self)),
             ps_reserved_bytes :=
               saturating_add (live_bytes_for self KindReserved) (live_bytes_for self KindAllocatorMetadata),
             ps_kernel_bytes := kernel,
             ps_module_bytes := module,
             ps_kernel_module_bytes := saturating_add kernel module,
             ps_mmio_bytes := mmio,
             ps_mmio_framebuffer_bytes := mmio,
             ps_acpi_bytes := live_bytes_for self KindAcpi,
             ps_bootloader_reclaimable_bytes := live_bytes_for self KindBootloaderReclaimable\<rparr>\<rparr>)"

definition account_original_region ::
  "PhysicalFrameAllocator \<Rightarrow> PhysicalRegionKind \<Rightarrow> u64 \<Rightarrow> PhysicalFrameAllocator" where
  "account_original_region self kind len =
     (let st = pfa_stats self;
          total = saturating_add (ps_total_memory_map_bytes st) len;
          st' = st\<lparr>ps_total_memory_map_bytes := total, ps_total_bytes := total\<rparr>
      in self\<lparr>pfa_stats :=
           (case kind of
              KindUsable \<Rightarrow>
                (let u = saturating_add (ps_total_usable_bytes st') len
                 in st'\<lparr>ps_total_usable_bytes := u, ps_usable_bytes := u\<rparr>)
            | KindAcpi \<Rightarrow> st'\<lparr>ps_acpi_bytes := saturating_add (ps_acpi_bytes st') len\<rparr>
            | KindMmio \<Rightarrow> st'\<lparr>ps_mmio_bytes := saturating_add (ps_mmio_bytes st') len\<rparr>
            | KindKernel \<Rightarrow> st'\<lparr>ps_kernel_bytes := saturating_add (ps_kernel_bytes st') len\<rparr>
            | KindModule \<Rightarrow> st'\<lparr>ps_module_bytes := saturating_add (ps_module_bytes st') len\<rparr>
            | KindBootloaderReclaimable \<Rightarrow>
                st'\<lparr>ps_bootloader_reclaimable_bytes :=
                  saturating_add (ps_bootloader_reclaimable_bytes st') len\<rparr>
            | KindReserved \<Rightarrow> st'\<lparr>ps_reserved_bytes := saturating_add (ps_reserved_bytes st') len\<rparr>
            | KindAllocatorMetadata \<Rightarrow>
                st'\<lparr>ps_reserved_bytes := saturating_add (ps_reserved_bytes st') len\<rparr>)\<rparr>)"

section \<open>Regions and reservations\<close>

definition add_region :: "PhysicalFrameAllocator \<Rightarrow> PhysicalRegion \<Rightarrow> PhysicalFrameAllocator \<times> bool" where
  "add_region self region =
     (if pr_length region = 0 then (self, True)
      else case find_slot (\<lambda>e. pr_kind e = pr_kind region \<and>
               (region_end e = pr_start region \<or> region_end region = pr_start e)) (pfa_regions self) of
        Some idx \<Rightarrow>
          (case pfa_regions self ! idx of
             Some existing \<Rightarrow>
               let merged =
                 (if region_end existing = pr_start region
                  then region_new (pr_start existing)
                         (saturating_add (pr_length existing) (pr_length region)) (pr_kind existing)
                  else region_new (pr_start region)
                         (saturating_add (pr_length existing) (pr_length region)) (pr_kind existing))
               in (self\<lparr>pfa_regions := (pfa_regions self)[idx := Some merged]\<rparr>, True)
           | None \<Rightarrow> (self, False))
      | None \<Rightarrow>
          (case free_slot (pfa_regions self) of
             Some idx \<Rightarrow> (self\<lparr>pfa_regions := (pfa_regions self)[idx := Some region]\<rparr>, True)
           | None \<Rightarrow> (self, False)))"

definition mark_frame ::
  "FrameState \<Rightarrow> PhysicalFrameAllocator \<Rightarrow> nat \<Rightarrow> PhysicalFrameAllocator" where
  "mark_frame st self index =
     (case pfa_metadata self of
        None \<Rightarrow> self
      | Some db \<Rightarrow>
          let old = db ! index in
          self\<lparr>pfa_free_frames :=
                 (if old = FrameFree \<and> st \<noteq> FrameFree then pfa_free_frames self - 1
                  else pfa_free_frames self),
               pfa_used_frames :=
                 (if old = FrameAllocated \<and> st \<noteq> FrameAllocated then pfa_used_frames self - 1
                  else pfa_used_frames self),
               pfa_metadata := Some (db[index := st])\<rparr>)"

definition mark_frame_range ::
  "PhysicalFrameAllocator \<Rightarrow> u64 \<Rightarrow> u64 \<Rightarrow> FrameState \<Rightarrow> PhysicalFrameAllocator" where
  "mark_frame_range self start end st =
     foldl (mark_frame st) self
       [frame_index (align_down_u64 start)..<min (frame_index (align_up_u64 end)) (pfa_frame_count self)]"

definition reserve_slot ::
  "u64 \<Rightarrow> u64 \<Rightarrow> PhysicalFrameAllocator \<Rightarrow> nat \<Rightarrow> PhysicalFrameAllocator" where
  "reserve_slot reserve_start reserve_end self idx =
     (case pfa_regions self ! idx of
        None \<Rightarrow> self
      | Some region \<Rightarrow>
          if ranges_overlap (pr_start region) (region_end region) reserve_start reserve_end
          then let s0 = self\<lparr>pfa_regions := (pfa_regions self)[idx := None]\<rparr>;
                   s1 = (if pr_start region < reserve_start
                         then fst (add_region s0 (region_new (pr_start region)
                                (saturating_sub reserve_start (pr_start region)) (pr_kind region)))
                         else s0)
               in (if reserve_end < region_end region
                   then fst (add_region s1 (region_new reserve_end
                          (saturating_sub (region_end region) reserve_end) (pr_kind region)))
                   else s1)
          else self)"

definition reserve_range ::
  "PhysicalFrameAllocator \<Rightarrow> u64 \<Rightarrow> u64 \<Rightarrow> PhysicalRegionKind \<Rightarrow> PhysicalFrameAllocator" where
  "reserve_range self start len kind =
     (if len = 0 then self
      else let reserve_start = align_down_u64 start;
               reserve_end = align_up_u64 (saturating_add start len);
               s1 = foldl (reserve_slot reserve_start reserve_end) self [0..<length (pfa_regions self)];
               s2 = fst (add_region s1 (region_new reserve_start
                      (saturating_sub reserve_end reserve_start) kind))
           in if pfa_initialized s2 \<and> pfa_metadata s2 \<noteq> None
              then refresh_stats (mark_frame_range s2 reserve_start reserve_end
                     (state_for_reserved_kind kind))
              else s2)"

section \<open>Building the frame database at boot\<close>

definition ingest_entry ::
  "PhysicalFrameAllocator \<times> u64 \<Rightarrow> MemoryMapEntry option \<Rightarrow> PhysicalFrameAllocator \<times> u64" where
  "ingest_entry acc e =
     (case (acc, e) of
        ((self, max_end), None) \<Rightarrow> (self, max_end)
      | ((self, max_end), Some entry) \<Rightarrow>
          let raw_start = mme_base entry;
              raw_end = saturating_add (mme_base entry) (mme_length entry);
              kind = from_boot (mme_kind entry);
              s1 = account_original_region self kind (mme_length entry);
              (start, end) = (if kind = KindUsable
                              then (align_up_u64 raw_start, align_down_u64 raw_end)
                              else (align_down_u64 raw_start, align_up_u64 raw_end));
              s2 = (if start < end
                    then fst (add_region s1 (region_new start (saturating_sub end start) kind))
                    else s1)
          in (s2, max max_end (align_up_u64 raw_end)))"

text \<open>
  The ranges the running kernel owns: its image, the modules, the framebuffer, the ACPI root
  pointer, the page table pool and the boot stack.
\<close>

definition boot_owned_ranges ::
  "BootInfo \<Rightarrow> AddressTranslator \<Rightarrow> u64 \<times> u64 \<Rightarrow> u64 \<Rightarrow> (u64 \<times> u64 \<times> PhysicalRegionKind) list" where
  "boot_owned_ranges boot tr tables stack_virtual =
     (case bi_kernel_load_range boot of
        Some load \<Rightarrow> [(klr_physical_start load, klr_length load, KindKernel)]
      | None \<Rightarrow> [(physical_for_virtual tr (vr_start (bi_kernel_sections boot)),
                  vr_length (bi_kernel_sections boot), KindKernel)]) @
     List.map_filter (map_option (\<lambda>md. (physical_for_virtual tr (bm_base md), bm_size md, KindModule)))
       (bi_modules boot) @
     (case bi_framebuffer boot of
        Some fb \<Rightarrow> [(physical_for_virtual tr (fb_address fb), saturating_mul (fb_pitch fb) (fb_height fb), KindMmio)]
      | None \<Rightarrow> []) @
     (case bi_rsdp boot of Some rsdp \<Rightarrow> [(rsdp, PAGE_SIZE, KindAcpi)] | None \<Rightarrow> []) @
     [(physical_for_virtual tr (fst tables), snd tables, KindKernel),
      (saturating_sub (physical_for_virtual tr stack_virtual) (64 * 1024), 64 * 1024, KindKernel)]"

definition reserve_boot_owned_ranges ::
  "PhysicalFrameAllocator \<Rightarrow> BootInfo \<Rightarrow> AddressTranslator \<Rightarrow> u64 \<times> u64 \<Rightarrow> u64 \<Rightarrow> PhysicalFrameAllocator"
where
  "reserve_boot_owned_ranges self boot tr tables stack_virtual =
     foldl (\<lambda>s (start, len, kind). reserve_range s start len kind) self
       (boot_owned_ranges boot tr tables stack_virtual)"

definition fits_metadata :: "u64 \<Rightarrow> PhysicalRegion \<Rightarrow> bool" where
  "fits_metadata required region \<longleftrightarrow>
     pr_kind region = KindUsable \<and>
     align_up_u64 (pr_start region) < align_down_u64 (region_end region) \<and>
     saturating_sub (align_down_u64 (region_end region)) (align_up_u64 (pr_start region)) \<ge> required"

definition find_metadata_range :: "PhysicalFrameAllocator \<Rightarrow> u64 \<Rightarrow> u64 option" where
  "find_metadata_range self bytes =
     (if bytes = 0 then None
      else case find_slot (fits_metadata (align_up_u64 bytes)) (pfa_regions self) of
        None \<Rightarrow> None
      | Some idx \<Rightarrow> map_option (\<lambda>region. align_up_u64 (pr_start region)) (pfa_regions self ! idx))"

definition initialize_database :: "PhysicalFrameAllocator \<Rightarrow> PhysicalFrameAllocator" where
  "initialize_database self =
     foldl (\<lambda>s r. case r of
              Some region \<Rightarrow>
                mark_frame_range s (pr_start region) (region_end region)
                  (state_for_reserved_kind (pr_kind region))
            | None \<Rightarrow> s)
       (self\<lparr>pfa_metadata := Some (replicate (pfa_frame_count self) FrameInvalid)\<rparr>)
       (pfa_regions self)"

definition ingest_boot_info ::
  "PhysicalFrameAllocator \<Rightarrow> BootInfo \<Rightarrow> u64 \<times> u64 \<Rightarrow> u64 \<Rightarrow>
     (PhysicalFrameAllocator, MemoryError, unit) op_result" where
  "ingest_boot_info self boot tables stack_virtual =
     (let tr = translator_new boot;
          (s1, max_end) = foldl ingest_entry (pfa_reset self, 0)
                            (case bi_memory_map boot of Some entries \<Rightarrow> entries | None \<Rightarrow> []);
          s2 = reserve_boot_owned_ranges s1 boot tr tables stack_virtual;
          frames = frame_index max_end + (if max_end mod PAGE_SIZE \<noteq> 0 then 1 else 0);
          s3 = s2\<lparr>pfa_frame_count := frames, pfa_metadata_bytes := frames\<rparr>
      in case find_metadata_range s3 (word_of_nat frames) of
           None \<Rightarrow> (s3, Inl MetadataUnavailable)
         | Some physical \<Rightarrow>
             let s4 = (reserve_range s3 physical (word_of_nat frames) KindAllocatorMetadata)
                        \<lparr>pfa_metadata_physical_start := physical\<rparr>
             in if virtual_for_physical tr physical = 0 then (s4, Inl MetadataUnavailable)
                else (refresh_stats ((initialize_database s4)\<lparr>pfa_initialized := True\<rparr>), ok_unit))"

section \<open>Allocating and freeing frames\<close>

fun first_free :: "FrameState list \<Rightarrow> nat option" where
  "first_free [] = None"
| "first_free (s # ss) = (if s = FrameFree then Some 0 else map_option Suc (first_free ss))"

definition allocate_frame ::
  "PhysicalFrameAllocator \<Rightarrow> (PhysicalFrameAllocator, MemoryError, PhysFrame) op_result" where
  "allocate_frame self =
     (case pfa_metadata self of
        None \<Rightarrow> (self, Inl NotInitialized)
      | Some db \<Rightarrow>
          if \<not> pfa_initialized self then (self, Inl NotInitialized)
          else (case first_free (take (pfa_frame_count self) db) of
            None \<Rightarrow> (self, Inl OutOfMemory)
          | Some index \<Rightarrow>
              (refresh_stats (self\<lparr>pfa_metadata := Some (db[index := FrameAllocated]),
                  pfa_free_frames := pfa_free_frames self - 1,
                  pfa_used_frames := pfa_used_frames self + 1\<rparr>),
               Inr \<lparr>pf_start = saturating_mul (word_of_nat index) PAGE_SIZE\<rparr>)))"

definition free_frame ::
  "PhysicalFrameAllocator \<Rightarrow> PhysFrame \<Rightarrow> (PhysicalFrameAllocator, MemoryError, unit) op_result" where
  "free_frame self frame =
     (case pfa_metadata self of
        None \<Rightarrow> (self, Inl NotInitialized)
      | Some db \<Rightarrow>
          if \<not> pfa_initialized self then (self, Inl NotInitialized)
          else if pf_start frame AND (PAGE_SIZE - 1) \<noteq> 0 then (self, Inl UnalignedFrame)
          else let index = frame_index (pf_start frame) in
            if index \<ge> pfa_frame_count self then (self, Inl InvalidFrame)
            else (case db ! index of
              FrameAllocated \<Rightarrow>
                (refresh_stats (self\<lparr>pfa_metadata := Some (db[index := FrameFree]),
                    pfa_free_frames := pfa_free_frames self + 1,
                    pfa_used_frames := pfa_used_frames self - 1\<rparr>), ok_unit)
            | FrameFree \<Rightarrow> (self, Inl DoubleFree)
            | _ \<Rightarrow> (self, Inl InvalidFrame)))"

section \<open>Invariant and ownership\<close>

definition pfa_ok :: "PhysicalFrameAllocator \<Rightarrow> bool" where
  "pfa_ok s \<longleftrightarrow>
     pfa_initialized s \<and> pfa_frame_count s \<le> 2 ^ 52 \<and>
     (case pfa_metadata s of Some db \<Rightarrow> length db = pfa_frame_count s | None \<Rightarrow> False)"

definition frame_db :: "PhysicalFrameAllocator \<Rightarrow> FrameState list" where
  "frame_db s = (case pfa_metadata s of Some db \<Rightarrow> db | None \<Rightarrow> [])"

definition stats_ok :: "PhysicalFrameAllocator \<Rightarrow> bool" where
  "stats_ok s \<longleftrightarrow>
     ps_free_frame_count (pfa_stats s) = length (filter (\<lambda>x. x = FrameFree) (frame_db s)) \<and>
     ps_used_frame_count (pfa_stats s) = length (filter (\<lambda>x. x = FrameAllocated) (frame_db s)) \<and>
     ps_total_frame_count (pfa_stats s) = length (frame_db s)"

text \<open>
  Clients of the allocator: a run of allocations and frees, with the set of frames that were handed
  out and not given back.
\<close>

datatype frame_op = AllocFrame | FreeFrame PhysFrame

fun frame_step :: "PhysicalFrameAllocator \<times> PhysFrame set \<Rightarrow> frame_op \<Rightarrow> PhysicalFrameAllocator \<times> PhysFrame set"
where
  "frame_step (s, owned) AllocFrame =
     (case allocate_frame s of
        (s', Inr f) \<Rightarrow> (s', insert f owned)
      | (s', Inl _) \<Rightarrow> (s', owned))"
| "frame_step (s, owned) (FreeFrame f) =
     (case free_frame s f of
        (s', Inr _) \<Rightarrow> (s', owned - {f})
      | (s', Inl _) \<Rightarrow> (s', owned))"

definition frame_at :: "nat \<Rightarrow> PhysFrame" where
  "frame_at i = \<lparr>pf_start = word_of_nat (i * 4096)\<rparr>"

section \<open>Page arithmetic\<close>

lemma page_mask: "PAGE_SIZE - 1 = mask 12"
  by (simp add: PAGE_SIZE_def mask_eq_exp_minus_1)

lemma unat_and_not_mask: "unat (v AND NOT (PAGE_SIZE - 1)) = unat v div 4096 * 4096"
proof -
  have "v AND NOT (mask 12) = push_bit 12 (drop_bit 12 v)"
    by (rule bit_eqI) (auto simp: bit_simps)
  also have "\<dots> = v div 4096 * 4096" by (simp add: push_bit_eq_mult drop_bit_eq_div)
  finally have eq: "v AND NOT (PAGE_SIZE - 1) = v div 4096 * 4096" by (simp only: page_mask)
  have "unat v div 4096 * 4096 \<le> unat v" by simp
  also have "\<dots> < 2 ^ 64" using unsigned_less [of v] by simp
  finally have "unat v div 4096 * 4096 < 2 ^ 64" .
  then show ?thesis unfolding eq by (simp add: unat_word_ariths unat_div)
qed

lemma unat_align_down: "unat (align_down_u64 v) = unat v div 4096 * 4096"
  by (simp only: align_down_u64_def unat_and_not_mask)

lemma unat_align_up: "unat (align_up_u64 v) = min (unat v + 4095) (2 ^ 64 - 1) div 4096 * 4096"
proof -
  have "unat (PAGE_SIZE - 1) = 4095" by (simp add: PAGE_SIZE_def)
  then show ?thesis
    by (simp only: align_up_u64_def Let_def unat_and_not_mask unat_saturating_add) simp
qed

lemma unat_frame_index: "frame_index v = unat v div 4096"
  by (simp add: frame_index_def PAGE_SIZE_def unat_div)

lemma aligned_iff: "v AND (PAGE_SIZE - 1) = 0 \<longleftrightarrow> unat v mod 4096 = 0"
proof -
  have "v AND (PAGE_SIZE - 1) = v mod 4096"
    unfolding page_mask by (simp add: take_bit_eq_mask [symmetric] take_bit_eq_mod)
  then have "v AND (PAGE_SIZE - 1) = 0 \<longleftrightarrow> unat (v mod 4096) = 0" by (simp only: unat_eq_0)
  then show ?thesis by (simp add: unat_mod)
qed

lemma unat_frame_at: "i < 2 ^ 52 \<Longrightarrow> unat (pf_start (frame_at i)) = i * 4096"
proof -
  assume "i < 2 ^ 52"
  then have "i * 4096 < 2 ^ 64" by simp
  then show ?thesis by (simp only: frame_at_def PhysFrame.simps unat_of_nat) simp
qed

lemma frame_index_at: "i < 2 ^ 52 \<Longrightarrow> frame_index (pf_start (frame_at i)) = i"
  by (simp add: unat_frame_index unat_frame_at)

lemma frame_at_index:
  assumes "pf_start f AND (PAGE_SIZE - 1) = 0"
  shows "f = frame_at (frame_index (pf_start f))"
proof -
  have "unat (pf_start f) div 4096 * 4096 = unat (pf_start f)"
    using assms by (simp add: aligned_iff) (metis add.right_neutral div_mult_mod_eq)
  then have "frame_index (pf_start f) * 4096 = unat (pf_start f)" by (simp only: unat_frame_index)
  then have "word_of_nat (frame_index (pf_start f) * 4096) = pf_start f" by (simp only: word_of_nat_unat)
  then show ?thesis by (cases f) (simp add: frame_at_def)
qed

section \<open>Allocation and free\<close>

lemma first_free_SomeD:
  assumes "first_free ss = Some i"
  shows "i < length ss" "ss ! i = FrameFree" "\<And>j. j < i \<Longrightarrow> ss ! j \<noteq> FrameFree"
proof -
  have "i < length ss \<and> ss ! i = FrameFree \<and> (\<forall>j < i. ss ! j \<noteq> FrameFree)"
    using assms by (induction ss arbitrary: i) (auto simp: nth_Cons split: if_splits nat.splits)
  then show "i < length ss" "ss ! i = FrameFree" "\<And>j. j < i \<Longrightarrow> ss ! j \<noteq> FrameFree" by auto
qed

lemma first_free_None_iff: "first_free ss = None \<longleftrightarrow> FrameFree \<notin> set ss"
  by (induction ss) auto

lemma pfa_okD:
  assumes "pfa_ok s"
  shows "pfa_metadata s = Some (frame_db s)" "length (frame_db s) = pfa_frame_count s"
    "pfa_initialized s" "pfa_frame_count s \<le> 2 ^ 52"
  using assms by (auto simp: pfa_ok_def frame_db_def split: option.splits)

lemma refresh_stats_simps [simp]:
  "pfa_regions (refresh_stats s) = pfa_regions s"
  "pfa_metadata (refresh_stats s) = pfa_metadata s"
  "pfa_frame_count (refresh_stats s) = pfa_frame_count s"
  "pfa_initialized (refresh_stats s) = pfa_initialized s"
  "frame_db (refresh_stats s) = frame_db s"
  "pfa_ok (refresh_stats s) = pfa_ok s"
  by (cases "pfa_metadata s"; simp add: refresh_stats_def Let_def frame_db_def pfa_ok_def)+

lemma stats_ok_refresh: "pfa_ok s \<Longrightarrow> stats_ok (refresh_stats s)"
  by (cases "pfa_metadata s")
    (simp_all add: pfa_ok_def stats_ok_def refresh_stats_def Let_def frames_in_state_def frame_db_def)

lemma allocate_frame_cases:
  assumes wf: "pfa_ok s"
  obtains (oom) "allocate_frame s = (s, Inl OutOfMemory)" "FrameFree \<notin> set (frame_db s)"
    | (ok) i s' where "i < pfa_frame_count s" "frame_db s ! i = FrameFree"
      "\<And>j. j < i \<Longrightarrow> frame_db s ! j \<noteq> FrameFree"
      "allocate_frame s = (s', Inr (frame_at i))" "frame_db s' = (frame_db s)[i := FrameAllocated]"
      "pfa_ok s'" "pfa_frame_count s' = pfa_frame_count s" "stats_ok s'"
proof (cases "first_free (frame_db s)")
  case None
  with pfa_okD [OF wf] show thesis
    by (intro oom) (simp_all add: allocate_frame_def first_free_None_iff [symmetric])
next
  case (Some i)
  note i = first_free_SomeD [OF Some]
  let ?s = "s\<lparr>pfa_metadata := Some ((frame_db s)[i := FrameAllocated]),
      pfa_free_frames := pfa_free_frames s - 1, pfa_used_frames := pfa_used_frames s + 1\<rparr>"
  have lt: "i < 2 ^ 52" using i(1) pfa_okD(2,4) [OF wf] by linarith
  have "unat (saturating_mul (word_of_nat i) PAGE_SIZE) = i * 4096"
    using lt by (simp add: unat_saturating_mul PAGE_SIZE_def unat_of_nat)
  then have "saturating_mul (word_of_nat i) PAGE_SIZE = pf_start (frame_at i)"
    using unat_frame_at [OF lt] by (metis word_of_nat_unat)
  then have frame: "\<lparr>pf_start = saturating_mul (word_of_nat i) PAGE_SIZE\<rparr> = frame_at i"
    by (simp add: frame_at_def)
  have al: "allocate_frame s = (refresh_stats ?s, Inr (frame_at i))"
    using pfa_okD [OF wf] Some frame by (simp add: allocate_frame_def)
  have ok': "pfa_ok ?s" using wf pfa_okD [OF wf] by (simp add: pfa_ok_def)
  have "frame_db ?s = (frame_db s)[i := FrameAllocated]" by (simp add: frame_db_def)
  with i al ok' stats_ok_refresh [OF ok'] pfa_okD(2) [OF wf] show thesis
    by (intro ok [of i "refresh_stats ?s"]) simp_all
qed

lemma free_frame_cases:
  assumes ok: "pfa_ok s"
  obtains (refused) e where "free_frame s f = (s, Inl e)"
      "pf_start f AND (PAGE_SIZE - 1) = 0 \<Longrightarrow> frame_index (pf_start f) < pfa_frame_count s \<Longrightarrow>
         frame_db s ! frame_index (pf_start f) \<noteq> FrameAllocated"
    | (freed) i s' where "f = frame_at i" "i < pfa_frame_count s" "frame_db s ! i = FrameAllocated"
      "free_frame s f = (s', ok_unit)" "frame_db s' = (frame_db s)[i := FrameFree]"
      "pfa_ok s'" "pfa_frame_count s' = pfa_frame_count s" "stats_ok s'"
proof -
  let ?i = "frame_index (pf_start f)"
  note d = pfa_okD [OF ok]
  consider (bad) "pf_start f AND (PAGE_SIZE - 1) \<noteq> 0 \<or> ?i \<ge> pfa_frame_count s \<or>
      frame_db s ! ?i \<noteq> FrameAllocated"
    | (good) "pf_start f AND (PAGE_SIZE - 1) = 0" "?i < pfa_frame_count s" "frame_db s ! ?i = FrameAllocated"
    by fastforce
  then show thesis
  proof cases
    case bad
    have "\<exists>e. free_frame s f = (s, Inl e)"
      using d bad by (cases "frame_db s ! ?i") (auto simp: free_frame_def Let_def)
    then show thesis using bad refused by fastforce
  next
    case good
    let ?s = "s\<lparr>pfa_metadata := Some ((frame_db s)[?i := FrameFree]),
      pfa_free_frames := pfa_free_frames s + 1, pfa_used_frames := pfa_used_frames s - 1\<rparr>"
    have fr: "free_frame s f = (refresh_stats ?s, ok_unit)"
      using d good by (simp add: free_frame_def Let_def)
    have ok': "pfa_ok ?s" using ok d by (simp add: pfa_ok_def)
    have "frame_db ?s = (frame_db s)[?i := FrameFree]" by (simp add: frame_db_def)
    with good fr ok' stats_ok_refresh [OF ok'] frame_at_index [OF good(1)] show thesis
      by (intro freed [of ?i "refresh_stats ?s"]) simp_all
  qed
qed

text \<open>
  The errors of a free are exact: an address inside a page is unaligned, a frame past the
  database, reserved or never described is invalid, a frame that is already free is a double free,
  and only an allocated frame is freed. An error changes nothing.
\<close>

theorem free_frame_errors:
  assumes "pfa_ok s"
  shows "case free_frame s f of
      (s', Inl UnalignedFrame) \<Rightarrow> s' = s \<and> unat (pf_start f) mod 4096 \<noteq> 0
    | (s', Inl DoubleFree) \<Rightarrow> s' = s \<and> frame_db s ! (unat (pf_start f) div 4096) = FrameFree
    | (s', Inl InvalidFrame) \<Rightarrow> s' = s \<and> (unat (pf_start f) div 4096 \<ge> pfa_frame_count s \<or>
         frame_db s ! (unat (pf_start f) div 4096) \<notin> {FrameFree, FrameAllocated})
    | (s', Inl _) \<Rightarrow> False
    | (s', Inr _) \<Rightarrow> unat (pf_start f) mod 4096 = 0 \<and> unat (pf_start f) div 4096 < pfa_frame_count s \<and>
         frame_db s ! (unat (pf_start f) div 4096) = FrameAllocated \<and>
         frame_db s' = (frame_db s)[unat (pf_start f) div 4096 := FrameFree]"
proof -
  let ?i = "unat (pf_start f) div 4096"
  have db: "frame_db (s\<lparr>pfa_metadata := Some db, pfa_free_frames := a, pfa_used_frames := b\<rparr>) = db"
    for db a b by (simp add: frame_db_def)
  show ?thesis
    using pfa_okD [OF assms] unfolding free_frame_def Let_def aligned_iff unat_frame_index
    by (cases "frame_db s ! ?i") (simp_all add: db)
qed

text \<open>An allocator over four frames, two of them free, for the examples.\<close>

definition demo_frames :: PhysicalFrameAllocator where
  "demo_frames = refresh_stats ((pfa_new 2)\<lparr>pfa_metadata := Some [FrameReserved, FrameFree, FrameInvalid, FrameFree],
     pfa_frame_count := 4, pfa_initialized := True\<rparr>)"

lemma demo_frames_ok: "pfa_ok demo_frames"
  by (simp add: demo_frames_def pfa_ok_def)

lemma demo_frames_db: "frame_db demo_frames = [FrameReserved, FrameFree, FrameInvalid, FrameFree]"
  by (simp add: demo_frames_def frame_db_def)

theorem free_frame_errors_witness:
  "free_frame demo_frames \<lparr>pf_start = 4096\<rparr> = (demo_frames, Inl DoubleFree) \<and>
   frame_db demo_frames ! 1 = FrameFree"
proof -
  have "snd (free_frame demo_frames \<lparr>pf_start = 4096\<rparr>) = Inl DoubleFree"
    using pfa_okD [OF demo_frames_ok]
    by (simp add: free_frame_def Let_def aligned_iff unat_frame_index demo_frames_db)
  then have "free_frame demo_frames \<lparr>pf_start = 4096\<rparr> =
      (fst (free_frame demo_frames \<lparr>pf_start = 4096\<rparr>), Inl DoubleFree)" by (metis prod.collapse)
  with free_frame_errors [OF demo_frames_ok, of "\<lparr>pf_start = 4096\<rparr>"] show ?thesis
    by (auto split: prod.splits)
qed

section \<open>Ownership over runs\<close>

definition ownership_ok :: "FrameState list \<Rightarrow> PhysicalFrameAllocator \<times> PhysFrame set \<Rightarrow> bool" where
  "ownership_ok db0 so \<longleftrightarrow>
     pfa_ok (fst so) \<and> pfa_frame_count (fst so) = length db0 \<and>
     snd so = frame_at ` {i. i < length db0 \<and> frame_db (fst so) ! i = FrameAllocated} \<and>
     (\<forall>i < length db0. (db0 ! i = FrameFree \<longrightarrow> frame_db (fst so) ! i \<in> {FrameFree, FrameAllocated}) \<and>
        (db0 ! i \<noteq> FrameFree \<longrightarrow> frame_db (fst so) ! i = db0 ! i))"

lemma frame_at_inj: "i < 2 ^ 52 \<Longrightarrow> j < 2 ^ 52 \<Longrightarrow> frame_at i = frame_at j \<Longrightarrow> i = j"
  by (metis frame_index_at)

lemma ownership_update:
  assumes own: "ownership_ok db0 (s, owned)" and no: "\<forall>i < length db0. db0 ! i \<noteq> FrameAllocated"
    and i: "i < length db0" "db0 ! i = FrameFree" and st: "st \<in> {FrameFree, FrameAllocated}"
    and s': "pfa_ok s'" "pfa_frame_count s' = pfa_frame_count s" "frame_db s' = (frame_db s)[i := st]"
    and owned': "owned' = (if st = FrameAllocated then insert (frame_at i) owned else owned - {frame_at i})"
  shows "ownership_ok db0 (s', owned')"
proof -
  have len: "length (frame_db s) = length db0" and le: "length db0 \<le> 2 ^ 52"
    using own pfa_okD(2,4) [of s] by (auto simp: ownership_ok_def)
  have nth: "frame_db s' ! j = (if i = j then st else frame_db s ! j)" if "j < length db0" for j
    using that len by (simp add: s'(3) nth_list_update)
  have inj: "inj_on frame_at {j. j < length db0}"
  proof (rule inj_onI)
    fix x y assume "x \<in> {j. j < length db0}" "y \<in> {j. j < length db0}" "frame_at x = frame_at y"
    moreover from this have "x < 2 ^ 52" "y < 2 ^ 52" using le by simp_all
    ultimately show "x = y" by (intro frame_at_inj)
  qed
  let ?A = "\<lambda>db. {j. j < length db0 \<and> db ! j = FrameAllocated}"
  have owned: "owned = frame_at ` ?A (frame_db s)" using own by (simp add: ownership_ok_def)
  have "owned' = frame_at ` ?A (frame_db s')"
  proof (cases "st = FrameAllocated")
    case True
    then have "?A (frame_db s') = insert i (?A (frame_db s))"
      using i(1) by (simp add: set_eq_iff nth cong: conj_cong)
    with True owned owned' show ?thesis by simp
  next
    case False
    then have "?A (frame_db s') = ?A (frame_db s) - {i}"
      by (simp add: set_eq_iff nth cong: conj_cong)
    moreover have "frame_at ` (?A (frame_db s) - {i}) = frame_at ` ?A (frame_db s) - frame_at ` {i}"
      using i by (intro inj_on_image_set_diff [OF inj]) auto
    ultimately show ?thesis using False owned owned' by simp
  qed
  moreover have "\<forall>j < length db0. (db0 ! j = FrameFree \<longrightarrow> frame_db s' ! j \<in> {FrameFree, FrameAllocated}) \<and>
        (db0 ! j \<noteq> FrameFree \<longrightarrow> frame_db s' ! j = db0 ! j)"
  proof (intro allI impI)
    fix j assume j: "j < length db0"
    then have "(db0 ! j = FrameFree \<longrightarrow> frame_db s ! j \<in> {FrameFree, FrameAllocated}) \<and>
        (db0 ! j \<noteq> FrameFree \<longrightarrow> frame_db s ! j = db0 ! j)"
      using own unfolding ownership_ok_def fst_conv by blast
    then show "(db0 ! j = FrameFree \<longrightarrow> frame_db s' ! j \<in> {FrameFree, FrameAllocated}) \<and>
        (db0 ! j \<noteq> FrameFree \<longrightarrow> frame_db s' ! j = db0 ! j)"
      using i st nth [OF j] by (cases "i = j") simp_all
  qed
  ultimately show ?thesis
    using own s'(1,2) by (simp add: ownership_ok_def)
qed

lemma ownership_step:
  assumes own: "ownership_ok db0 (s, owned)" and no: "\<forall>i < length db0. db0 ! i \<noteq> FrameAllocated"
  shows "ownership_ok db0 (frame_step (s, owned) op)"
proof -
  have wf: "pfa_ok s" and len: "pfa_frame_count s = length db0" using own by (simp_all add: ownership_ok_def)
  have orig: "db0 ! i = FrameFree" if "i < length db0" "frame_db s ! i \<in> {FrameFree, FrameAllocated}" for i
    using own no that unfolding ownership_ok_def by (metis empty_iff fst_conv insert_iff)
  show ?thesis
  proof (cases op)
    case AllocFrame
    from wf show ?thesis
    proof (cases rule: allocate_frame_cases)
      case oom
      with own show ?thesis by (simp add: AllocFrame)
    next
      case (ok i s')
      have "ownership_ok db0 (s', insert (frame_at i) owned)"
        using ok len orig [of i] by (intro ownership_update [OF own no, of i FrameAllocated]) simp_all
      then show ?thesis by (simp add: AllocFrame ok(4))
    qed
  next
    case (FreeFrame f)
    from wf show ?thesis
    proof (cases rule: free_frame_cases [where f = f])
      case (refused e)
      with own show ?thesis by (simp add: FreeFrame)
    next
      case (freed i s')
      have "ownership_ok db0 (s', owned - {frame_at i})"
        using freed len orig [of i] by (intro ownership_update [OF own no, of i FrameFree]) simp_all
      then show ?thesis using freed(1,4) by (simp add: FreeFrame)
    qed
  qed
qed

lemma ownership_run:
  assumes "pfa_ok s" and "FrameAllocated \<notin> set (frame_db s)"
  shows "ownership_ok (frame_db s) (foldl frame_step (s, {}) ops)"
proof -
  have no: "\<forall>i < length (frame_db s). frame_db s ! i \<noteq> FrameAllocated" using assms(2) by (metis nth_mem)
  have "ownership_ok (frame_db s) (s, {})"
    using assms(1) no pfa_okD(2) [OF assms(1)] by (auto simp: ownership_ok_def)
  then show ?thesis
    by (induction ops rule: rev_induct) (simp_all, metis ownership_step no prod.collapse)
qed

text \<open>
  (C10) Exclusive ownership: after any run of allocations and frees, valid or not, on a database
  without allocated frames, a frame that is handed out next is not one a client still owns, and it
  was marked free in the original database. So a frame is never given to two clients, and a
  reserved, reclaimable or undescribed frame is never given to anyone.
\<close>

theorem frames_exclusive:
  assumes "pfa_ok s" and "FrameAllocated \<notin> set (frame_db s)"
    and "foldl frame_step (s, {}) ops = (s', owned)" and "allocate_frame s' = (s'', Inr f)"
  shows "f \<notin> owned \<and> (\<exists>i < pfa_frame_count s. f = frame_at i \<and> frame_db s ! i = FrameFree)"
proof -
  let ?db = "frame_db s"
  have no: "\<forall>i < length ?db. ?db ! i \<noteq> FrameAllocated" using assms(2) by (metis nth_mem)
  have own: "ownership_ok ?db (s', owned)" using ownership_run [OF assms(1,2), of ops] assms(3) by simp
  then have "pfa_ok s'" by (simp add: ownership_ok_def)
  then show ?thesis
  proof (cases rule: allocate_frame_cases)
    case (ok i t)
    have cnt: "pfa_frame_count s' = length ?db" "length ?db = pfa_frame_count s" "length ?db \<le> 2 ^ 52"
      using own pfa_okD(2,4) [OF assms(1)] by (simp_all add: ownership_ok_def)
    have f: "f = frame_at i" using ok(4) assms(4) by simp
    have "j = i" if "j < length ?db" "frame_at j = frame_at i" for j
      using that cnt ok(1) by (intro frame_at_inj) linarith+
    then have "frame_at i \<notin> owned"
      using own ok(2) by (auto simp: ownership_ok_def)
    moreover have "?db ! i = FrameFree"
      using own ok(1,2) cnt(1) no unfolding ownership_ok_def by (metis fst_conv)
    ultimately show ?thesis using ok(1) cnt f by auto
  qed (use assms(4) in simp)
qed

theorem frames_exclusive_witness:
  "\<exists>s' s'' f. foldl frame_step (demo_frames, {}) [AllocFrame] = (s', {\<lparr>pf_start = 4096\<rparr>}) \<and>
     allocate_frame s' = (s'', Inr f) \<and> f \<notin> {\<lparr>pf_start = 4096\<rparr>} \<and> f = \<lparr>pf_start = 12288\<rparr>"
proof -
  have alloc: "\<exists>t. allocate_frame s = (t, Inr \<lparr>pf_start = saturating_mul (word_of_nat i) PAGE_SIZE\<rparr>) \<and>
      pfa_metadata t = Some (db[i := FrameAllocated]) \<and> pfa_initialized t \<and> pfa_frame_count t = 4"
    if "pfa_metadata s = Some db" "pfa_initialized s" "pfa_frame_count s = 4" "first_free (take 4 db) = Some i"
    for s db i using that by (simp add: allocate_frame_def)
  obtain s1 where s1: "allocate_frame demo_frames = (s1, Inr \<lparr>pf_start = 4096\<rparr>)"
      "pfa_metadata s1 = Some [FrameReserved, FrameAllocated, FrameInvalid, FrameFree]"
      "pfa_initialized s1" "pfa_frame_count s1 = 4"
    using alloc [of demo_frames "[FrameReserved, FrameFree, FrameInvalid, FrameFree]" 1]
    by (auto simp: demo_frames_def saturating_mul_def PAGE_SIZE_def)
  obtain s2 where s2: "allocate_frame s1 = (s2, Inr \<lparr>pf_start = 12288\<rparr>)"
    using alloc [OF s1(2-4), of 3] by (auto simp: saturating_mul_def PAGE_SIZE_def)
  have run: "foldl frame_step (demo_frames, {}) [AllocFrame] = (s1, {\<lparr>pf_start = 4096\<rparr>})"
    using s1(1) by simp
  have "FrameAllocated \<notin> set (frame_db demo_frames)" by (simp add: demo_frames_db)
  from frames_exclusive [OF demo_frames_ok this run s2] run s2 show ?thesis by blast
qed

section \<open>Marking and reserving\<close>

lemma mark_frame_shape:
  "pfa_metadata s = Some db \<Longrightarrow> \<exists>f u. mark_frame st s i =
     s\<lparr>pfa_metadata := Some (db[i := st]), pfa_free_frames := f, pfa_used_frames := u\<rparr>"
proof -
  assume db: "pfa_metadata s = Some db"
  let ?f = "if db ! i = FrameFree \<and> st \<noteq> FrameFree then pfa_free_frames s - 1 else pfa_free_frames s"
  let ?u = "if db ! i = FrameAllocated \<and> st \<noteq> FrameAllocated then pfa_used_frames s - 1 else pfa_used_frames s"
  have "mark_frame st s i = s\<lparr>pfa_metadata := Some (db[i := st]), pfa_free_frames := ?f, pfa_used_frames := ?u\<rparr>"
    using db by (simp only: mark_frame_def Let_def option.case) simp
  then show ?thesis by (intro exI)
qed

lemma foldl_mark_frame:
  assumes "pfa_metadata s = Some db" and "b \<le> length db"
  shows "\<exists>f u. foldl (mark_frame st) s [a..<b] =
    s\<lparr>pfa_metadata := Some (map (\<lambda>i. if a \<le> i \<and> i < b then st else db ! i) [0..<length db]),
      pfa_free_frames := f, pfa_used_frames := u\<rparr>"
  using assms(2)
proof (induction b)
  case 0
  have "foldl (mark_frame st) s [a..<0] =
    s\<lparr>pfa_metadata := Some (map (\<lambda>i. if a \<le> i \<and> i < 0 then st else db ! i) [0..<length db]),
      pfa_free_frames := pfa_free_frames s, pfa_used_frames := pfa_used_frames s\<rparr>"
    using assms(1) by (simp add: map_nth)
  then show ?case by blast
next
  case (Suc b)
  then obtain f u where ih: "foldl (mark_frame st) s [a..<b] =
    s\<lparr>pfa_metadata := Some (map (\<lambda>i. if a \<le> i \<and> i < b then st else db ! i) [0..<length db]),
      pfa_free_frames := f, pfa_used_frames := u\<rparr>" by auto
  show ?case
  proof (cases "a \<le> b")
    case True
    have "(map (\<lambda>i. if a \<le> i \<and> i < b then st else db ! i) [0..<length db])[b := st] =
        map (\<lambda>i. if a \<le> i \<and> i < Suc b then st else db ! i) [0..<length db]"
      using True Suc(2) by (intro nth_equalityI) (auto simp: nth_list_update less_Suc_eq)
    moreover have "foldl (mark_frame st) s [a..<Suc b] = mark_frame st (foldl (mark_frame st) s [a..<b]) b"
      using True by simp
    ultimately show ?thesis
      using mark_frame_shape [of "foldl (mark_frame st) s [a..<b]" _ st b] by (simp add: ih)
  next
    case False
    then have "[a..<Suc b] = [a..<b]" "\<And>i. (a \<le> i \<and> i < b) = (a \<le> i \<and> i < Suc b)" by auto
    with ih show ?thesis by (intro exI [of _ f] exI [of _ u]) simp
  qed
qed

lemma mark_frame_range_db:
  assumes "pfa_metadata s = Some db" "length db = pfa_frame_count s"
  shows "\<exists>f u. mark_frame_range s start end st =
    s\<lparr>pfa_metadata := Some (map (\<lambda>i. if frame_index (align_down_u64 start) \<le> i \<and>
        i < frame_index (align_up_u64 end) then st else db ! i) [0..<length db]),
      pfa_free_frames := f, pfa_used_frames := u\<rparr>"
proof -
  let ?a = "frame_index (align_down_u64 start)" and ?e = "frame_index (align_up_u64 end)"
  have eq: "map (\<lambda>i. if ?a \<le> i \<and> i < min ?e (pfa_frame_count s) then st else db ! i) [0..<length db] =
      map (\<lambda>i. if ?a \<le> i \<and> i < ?e then st else db ! i) [0..<length db]"
    using assms(2) by simp
  have "min ?e (pfa_frame_count s) \<le> length db" using assms(2) by simp
  from foldl_mark_frame [OF assms(1) this, of st ?a] show ?thesis
    unfolding mark_frame_range_def eq .
qed

end
