(* ===== verification/Boot_Memory.thy ===== *)
theory Boot_Memory
  imports Frame_Allocator
begin

text \<open>
  What the frame database holds after boot. The region table is read as sets of addresses: \<open>rng\<close>
  is the range of one region, \<open>usable_cover\<close> the union of the ranges marked usable. Adding a
  non-usable region never grows the usable cover, and reserving a range removes it from the cover,
  even when the table is full and regions are dropped. The last theorem follows a frame from the
  boot memory map to a client.
\<close>

section \<open>Regions as address ranges\<close>

definition rng :: "PhysicalRegion \<Rightarrow> nat set" where
  "rng r = {unat (pr_start r)..<unat (pr_start r) + unat (pr_length r)}"

definition region_wf :: "PhysicalRegion \<Rightarrow> bool" where
  "region_wf r \<longleftrightarrow>
     0 < unat (pr_length r) \<and> 4096 dvd unat (pr_start r) \<and> 4096 dvd unat (pr_length r) \<and>
     unat (pr_start r) + unat (pr_length r) < 2 ^ 64"

definition regs_wf :: "PhysicalRegion slots \<Rightarrow> bool" where
  "regs_wf regs \<longleftrightarrow> (\<forall>r. Some r \<in> set regs \<longrightarrow> region_wf r)"

definition usable_cover :: "PhysicalRegion slots \<Rightarrow> nat set" where
  "usable_cover regs = \<Union> (rng ` {r. Some r \<in> set regs \<and> pr_kind r = KindUsable})"

text \<open>The first \<open>n\<close> slots hold no region that meets the set \<open>R\<close>.\<close>

definition clear_upto :: "nat \<Rightarrow> nat set \<Rightarrow> PhysicalRegion slots \<Rightarrow> bool" where
  "clear_upto n R regs \<longleftrightarrow> (\<forall>j < n. \<forall>r. j < length regs \<longrightarrow> regs ! j = Some r \<longrightarrow> rng r \<inter> R = {})"

lemma region_new_simps [simp]:
  "pr_start (region_new a l k) = a" "pr_length (region_new a l k) = l" "pr_kind (region_new a l k) = k"
  by (simp_all add: region_new_def)

lemma unat_region_end: "region_wf r \<Longrightarrow> unat (region_end r) = unat (pr_start r) + unat (pr_length r)"
  by (simp add: region_end_def region_wf_def unat_saturating_add)

lemma regs_wfD: "regs_wf regs \<Longrightarrow> Some r \<in> set regs \<Longrightarrow> region_wf r"
  by (simp add: regs_wf_def)

lemma regs_wf_update: "regs_wf regs \<Longrightarrow> (\<And>r. v = Some r \<Longrightarrow> region_wf r) \<Longrightarrow> regs_wf (regs[i := v])"
  unfolding regs_wf_def using set_update_subset_insert [of regs i v] by blast

lemma usable_cover_update:
  assumes "i < length regs"
    and "\<And>r. v = Some r \<Longrightarrow> pr_kind r = KindUsable \<Longrightarrow> rng r \<subseteq> usable_cover regs \<union> X"
  shows "usable_cover (regs[i := v]) \<subseteq> usable_cover regs \<union> X"
proof
  fix x assume "x \<in> usable_cover (regs[i := v])"
  then obtain r where r: "Some r \<in> set (regs[i := v])" "pr_kind r = KindUsable" "x \<in> rng r"
    by (auto simp: usable_cover_def)
  then have "Some r = v \<or> Some r \<in> set regs" using set_update_subset_insert by fastforce
  then show "x \<in> usable_cover regs \<union> X"
    using r assms(2) [of r] by (auto simp: usable_cover_def)
qed

lemma merge_regions:
  assumes "region_wf e" "region_wf r" "region_end e = pr_start r"
    and l: "l = saturating_add (pr_length e) (pr_length r) \<or> l = saturating_add (pr_length r) (pr_length e)"
  shows "region_wf (region_new (pr_start e) l k)" and "rng (region_new (pr_start e) l k) = rng e \<union> rng r"
proof -
  have e: "unat (pr_start r) = unat (pr_start e) + unat (pr_length e)"
    using unat_region_end [OF assms(1)] assms(3) by simp
  have len: "unat l = unat (pr_length e) + unat (pr_length r)"
    using l assms(2) e by (auto simp: unat_saturating_add region_wf_def)
  show "region_wf (region_new (pr_start e) l k)"
    using assms(1,2) e len unfolding region_wf_def by (simp add: dvd_add)
  show "rng (region_new (pr_start e) l k) = rng e \<union> rng r"
    using e len by (auto simp: rng_def)
qed

lemma add_region_cases:
  assumes regs: "regs_wf (pfa_regions s)" and r: "region_wf r"
  obtains (merged) i e m where "i < length (pfa_regions s)" "pfa_regions s ! i = Some e"
      "pr_kind e = pr_kind r" "pr_kind m = pr_kind r" "region_wf m" "rng m = rng e \<union> rng r"
      "fst (add_region s r) = s\<lparr>pfa_regions := (pfa_regions s)[i := Some m]\<rparr>"
    | (inserted) i where "i < length (pfa_regions s)" "pfa_regions s ! i = None"
      "fst (add_region s r) = s\<lparr>pfa_regions := (pfa_regions s)[i := Some r]\<rparr>"
    | (dropped) "fst (add_region s r) = s"
proof -
  have len: "pr_length r \<noteq> 0" using r by (auto simp: region_wf_def)
  let ?P = "\<lambda>e. pr_kind e = pr_kind r \<and> (region_end e = pr_start r \<or> region_end r = pr_start e)"
  show thesis
  proof (cases "find_slot ?P (pfa_regions s)")
    case (Some i)
    then obtain e where e: "i < length (pfa_regions s)" "pfa_regions s ! i = Some e" "?P e"
      by (rule find_slot_SomeE)
    have wf: "region_wf e" using regs e by (metis nth_mem regs_wfD)
    let ?l = "saturating_add (pr_length e) (pr_length r)"
    define m where "m = (if region_end e = pr_start r then region_new (pr_start e) ?l (pr_kind e)
        else region_new (pr_start r) ?l (pr_kind e))"
    have m: "region_wf m" "rng m = rng e \<union> rng r" "pr_kind m = pr_kind r"
      using merge_regions [OF wf r _, of ?l "pr_kind e"] merge_regions [OF r wf _, of ?l "pr_kind e"] e(3)
      by (auto simp: m_def)
    have "fst (add_region s r) = s\<lparr>pfa_regions := (pfa_regions s)[i := Some m]\<rparr>"
      using Some e(2) len by (simp add: add_region_def m_def Let_def)
    with e m show thesis by (intro merged [of i e m]) simp_all
  next
    case None
    show thesis
    proof (cases "free_slot (pfa_regions s)")
      case (Some i)
      with None len free_slot_SomeD(1,2) [OF Some] show thesis
        by (intro inserted [of i]) (simp_all add: add_region_def)
    next
      case None
      with \<open>find_slot ?P (pfa_regions s) = None\<close> len show thesis
        by (intro dropped) (simp add: add_region_def)
    qed
  qed
qed

text \<open>What one insertion keeps, in terms of address sets.\<close>

definition regions_only :: "PhysicalFrameAllocator \<Rightarrow> PhysicalFrameAllocator \<Rightarrow> bool" where
  "regions_only s s' \<longleftrightarrow>
     s' = s\<lparr>pfa_regions := pfa_regions s'\<rparr> \<and> length (pfa_regions s') = length (pfa_regions s)"

lemma regions_only_trans: "regions_only a b \<Longrightarrow> regions_only b c \<Longrightarrow> regions_only a c"
  unfolding regions_only_def
  by (cases a; cases b; cases c) simp

lemma regions_only_refl [simp]: "regions_only s s"
  by (simp add: regions_only_def)

lemma add_region_keeps:
  assumes regs: "regs_wf (pfa_regions s)" and r: "region_wf r"
  shows "regions_only s (fst (add_region s r))"
    and "regs_wf (pfa_regions (fst (add_region s r)))"
    and "usable_cover (pfa_regions (fst (add_region s r))) \<subseteq>
      usable_cover (pfa_regions s) \<union> (if pr_kind r = KindUsable then rng r else {})"
    and "clear_upto n R (pfa_regions s) \<Longrightarrow> rng r \<inter> R = {} \<Longrightarrow>
      clear_upto n R (pfa_regions (fst (add_region s r)))"
proof -
  have "regions_only s (fst (add_region s r)) \<and> regs_wf (pfa_regions (fst (add_region s r))) \<and>
    usable_cover (pfa_regions (fst (add_region s r))) \<subseteq>
      usable_cover (pfa_regions s) \<union> (if pr_kind r = KindUsable then rng r else {}) \<and>
    (clear_upto n R (pfa_regions s) \<longrightarrow> rng r \<inter> R = {} \<longrightarrow>
      clear_upto n R (pfa_regions (fst (add_region s r))))"
    using assms
  proof (cases rule: add_region_cases)
    case (merged i e m)
    have "Some e \<in> set (pfa_regions s)" using merged(1,2) by (metis nth_mem)
    then have "pr_kind r = KindUsable \<Longrightarrow> rng e \<subseteq> usable_cover (pfa_regions s)"
      using merged(3) by (auto simp: usable_cover_def)
    then have "usable_cover ((pfa_regions s)[i := Some m]) \<subseteq>
        usable_cover (pfa_regions s) \<union> (if pr_kind r = KindUsable then rng r else {})"
      using merged by (intro usable_cover_update) auto
    moreover have "regs_wf ((pfa_regions s)[i := Some m])"
      using regs merged(5) by (intro regs_wf_update) auto
    moreover have "clear_upto n R ((pfa_regions s)[i := Some m])"
      if "clear_upto n R (pfa_regions s)" "rng r \<inter> R = {}"
      using that merged(1,2,6) by (simp add: clear_upto_def nth_list_update Int_Un_distrib2)
    ultimately show ?thesis by (simp add: merged(7) regions_only_def)
  next
    case (inserted i)
    have "usable_cover ((pfa_regions s)[i := Some r]) \<subseteq>
        usable_cover (pfa_regions s) \<union> (if pr_kind r = KindUsable then rng r else {})"
      using inserted by (intro usable_cover_update) auto
    moreover have "regs_wf ((pfa_regions s)[i := Some r])"
      using regs r by (intro regs_wf_update) auto
    moreover have "clear_upto n R ((pfa_regions s)[i := Some r])"
      if "clear_upto n R (pfa_regions s)" "rng r \<inter> R = {}"
      using that inserted(1) by (simp add: clear_upto_def nth_list_update)
    ultimately show ?thesis by (simp add: inserted(3) regions_only_def)
  next
    case dropped
    then show ?thesis using regs by auto
  qed
  then show "regions_only s (fst (add_region s r))"
    and "regs_wf (pfa_regions (fst (add_region s r)))"
    and "usable_cover (pfa_regions (fst (add_region s r))) \<subseteq>
      usable_cover (pfa_regions s) \<union> (if pr_kind r = KindUsable then rng r else {})"
    and "clear_upto n R (pfa_regions s) \<Longrightarrow> rng r \<inter> R = {} \<Longrightarrow>
      clear_upto n R (pfa_regions (fst (add_region s r)))" by blast+
qed


section \<open>Reserving a range\<close>

lemma aligned_below_top:
  assumes "4096 dvd (n::nat)" and "n < 2 ^ 64"
  shows "n \<le> 2 ^ 64 - 4096"
proof -
  obtain k where k: "n = 4096 * k" using assms(1) by (rule dvdE)
  have "k < 2 ^ 52" using assms(2) unfolding k by simp
  then show ?thesis unfolding k by simp
qed

lemma not_overlap_rng:
  assumes "region_wf r" and "\<not> ranges_overlap (pr_start r) (region_end r) rs re"
  shows "rng r \<inter> {unat rs..<unat re} = {}"
  using assms unat_region_end [OF assms(1)]
  by (auto simp: ranges_overlap_def rng_def word_less_nat_alt)

lemma piece_wf:
  assumes "4096 dvd unat a" "4096 dvd unat b" "a < b"
  shows "region_wf (region_new a (saturating_sub b a) k)"
    and "rng (region_new a (saturating_sub b a) k) = {unat a..<unat b}"
proof -
  have lt: "unat a < unat b" using assms(3) by (simp add: word_less_nat_alt)
  have len: "unat (saturating_sub b a) = unat b - unat a" by (simp add: unat_saturating_sub)
  have "unat b < 2 ^ 64" using unsigned_less [of b] by simp
  then show "region_wf (region_new a (saturating_sub b a) k)"
    using lt assms(1,2) unfolding region_wf_def by (simp add: len dvd_diff_nat)
  show "rng (region_new a (saturating_sub b a) k) = {unat a..<unat b}"
    using lt by (simp add: rng_def len)
qed

lemma add_piece:
  assumes regs: "regs_wf (pfa_regions s)" and al: "4096 dvd unat a" "4096 dvd unat b"
    and s': "s' = (if a < b then fst (add_region s (region_new a (saturating_sub b a) k)) else s)"
  shows "regions_only s s'" and "regs_wf (pfa_regions s')"
    and "usable_cover (pfa_regions s') \<subseteq>
      usable_cover (pfa_regions s) \<union> (if k = KindUsable then {unat a..<unat b} else {})"
    and "clear_upto n R (pfa_regions s) \<Longrightarrow> {unat a..<unat b} \<inter> R = {} \<Longrightarrow> clear_upto n R (pfa_regions s')"
proof -
  have "regions_only s s' \<and> regs_wf (pfa_regions s') \<and>
    usable_cover (pfa_regions s') \<subseteq>
      usable_cover (pfa_regions s) \<union> (if k = KindUsable then {unat a..<unat b} else {}) \<and>
    (clear_upto n R (pfa_regions s) \<longrightarrow> {unat a..<unat b} \<inter> R = {} \<longrightarrow> clear_upto n R (pfa_regions s'))"
  proof (cases "a < b")
    case True
    note p = piece_wf [OF al True, of k]
    note keeps = add_region_keeps [OF regs p(1)]
    show ?thesis using True keeps(1,2,3) keeps(4) [of n R] unfolding s' p(2) region_new_simps by simp
  next
    case False
    then show ?thesis using regs s' by simp
  qed
  then show "regions_only s s'" "regs_wf (pfa_regions s')"
    "usable_cover (pfa_regions s') \<subseteq>
      usable_cover (pfa_regions s) \<union> (if k = KindUsable then {unat a..<unat b} else {})"
    "clear_upto n R (pfa_regions s) \<Longrightarrow> {unat a..<unat b} \<inter> R = {} \<Longrightarrow> clear_upto n R (pfa_regions s')"
    by blast+
qed

lemma clear_upto_Suc:
  "clear_upto (Suc n) R regs \<longleftrightarrow> clear_upto n R regs \<and>
     (n < length regs \<longrightarrow> (\<forall>r. regs ! n = Some r \<longrightarrow> rng r \<inter> R = {}))"
  by (auto simp: clear_upto_def less_Suc_eq)

lemma reserve_slot_keeps:
  assumes regs: "regs_wf (pfa_regions s)" and i: "i < length (pfa_regions s)"
    and al: "4096 dvd unat rs" "4096 dvd unat re"
    and clear: "clear_upto i {unat rs..<unat re} (pfa_regions s)"
  shows "regions_only s (reserve_slot rs re s i) \<and> regs_wf (pfa_regions (reserve_slot rs re s i)) \<and>
    usable_cover (pfa_regions (reserve_slot rs re s i)) \<subseteq> usable_cover (pfa_regions s) \<and>
    clear_upto (Suc i) {unat rs..<unat re} (pfa_regions (reserve_slot rs re s i))"
proof (cases "pfa_regions s ! i")
  case None
  with regs clear show ?thesis by (simp add: reserve_slot_def clear_upto_Suc)
next
  case (Some r)
  then have mem: "Some r \<in> set (pfa_regions s)" using i by (metis nth_mem)
  then have wf: "region_wf r" using regs by (metis regs_wfD)
  note e = unat_region_end [OF wf]
  show ?thesis
  proof (cases "ranges_overlap (pr_start r) (region_end r) rs re")
    case False
    with not_overlap_rng [OF wf False] regs clear Some show ?thesis
      by (simp add: reserve_slot_def clear_upto_Suc)
  next
    case True
    let ?R = "{unat rs..<unat re}"
    define s0 where "s0 = s\<lparr>pfa_regions := (pfa_regions s)[i := None]\<rparr>"
    define s1 where "s1 = (if pr_start r < rs
      then fst (add_region s0 (region_new (pr_start r) (saturating_sub rs (pr_start r)) (pr_kind r))) else s0)"
    define s2 where "s2 = (if re < region_end r
      then fst (add_region s1 (region_new re (saturating_sub (region_end r) re) (pr_kind r))) else s1)"
    have eq: "reserve_slot rs re s i = s2"
      using Some True by (simp add: reserve_slot_def s0_def s1_def s2_def Let_def)
    have ral: "4096 dvd unat (pr_start r)" "4096 dvd unat (region_end r)"
      using wf e by (simp_all add: region_wf_def dvd_add)
    have w0: "regs_wf (pfa_regions s0)" using regs_wf_update [OF regs, of None i] by (simp add: s0_def)
    have o0: "regions_only s s0" by (simp add: s0_def regions_only_def)
    have "usable_cover ((pfa_regions s)[i := None]) \<subseteq> usable_cover (pfa_regions s) \<union> {}"
      by (rule usable_cover_update [OF i]) simp
    then have c0: "usable_cover (pfa_regions s0) \<subseteq> usable_cover (pfa_regions s)" by (simp add: s0_def)
    have k0: "clear_upto (Suc i) ?R (pfa_regions s0)"
      using clear i by (simp add: s0_def clear_upto_def nth_list_update less_Suc_eq)
    note p1 = add_piece [OF w0 ral(1) al(1) s1_def]
    note p2 = add_piece [OF p1(2) al(2) ral(2) s2_def]
    have cov: "{unat (pr_start r)..<unat (region_end r)} \<subseteq> usable_cover (pfa_regions s)"
      if "pr_kind r = KindUsable" using mem that by (auto simp: usable_cover_def rng_def e)
    have ov: "unat (pr_start r) < unat re" "unat rs < unat (region_end r)"
      using True by (simp_all add: ranges_overlap_def word_less_nat_alt)
    have sub: "{unat (pr_start r)..<unat rs} \<subseteq> {unat (pr_start r)..<unat (region_end r)}"
      "{unat re..<unat (region_end r)} \<subseteq> {unat (pr_start r)..<unat (region_end r)}"
      using ov by auto
    have "usable_cover (pfa_regions s1) \<subseteq> usable_cover (pfa_regions s)"
      using c0 subset_trans [OF sub(1) cov] by (intro order_trans [OF p1(3)]) simp
    then have "usable_cover (pfa_regions s2) \<subseteq> usable_cover (pfa_regions s)"
      using subset_trans [OF sub(2) cov] by (intro order_trans [OF p2(3)]) simp
    moreover have "clear_upto (Suc i) ?R (pfa_regions s2)"
      by (intro p2(4) p1(4) k0) auto
    ultimately show ?thesis
      unfolding eq using p2(1,2) p1(1) o0 by (blast intro: regions_only_trans)
  qed
qed


lemma reserve_loop_keeps:
  assumes regs: "regs_wf (pfa_regions s)" and n: "n \<le> length (pfa_regions s)"
    and al: "4096 dvd unat rs" "4096 dvd unat re"
  shows "regions_only s (foldl (reserve_slot rs re) s [0..<n]) \<and>
    regs_wf (pfa_regions (foldl (reserve_slot rs re) s [0..<n])) \<and>
    usable_cover (pfa_regions (foldl (reserve_slot rs re) s [0..<n])) \<subseteq> usable_cover (pfa_regions s) \<and>
    clear_upto n {unat rs..<unat re} (pfa_regions (foldl (reserve_slot rs re) s [0..<n]))"
  using n
proof (induction n)
  case 0
  then show ?case using regs by (simp add: clear_upto_def)
next
  case (Suc n)
  define t where "t = foldl (reserve_slot rs re) s [0..<n]"
  have ih: "regions_only s t" "regs_wf (pfa_regions t)" "usable_cover (pfa_regions t) \<subseteq> usable_cover (pfa_regions s)"
    "clear_upto n {unat rs..<unat re} (pfa_regions t)"
    using Suc unfolding t_def by simp_all
  have "n < length (pfa_regions t)" using ih(1) Suc(2) by (simp add: regions_only_def)
  from reserve_slot_keeps [OF ih(2) this al ih(4)] ih(1,3) show ?case
    by (simp add: t_def [symmetric]) (blast intro: regions_only_trans)
qed

lemma cover_clear:
  assumes "clear_upto (length regs) R regs"
  shows "usable_cover regs \<inter> R = {}"
  using assms by (force simp: clear_upto_def usable_cover_def in_set_conv_nth)

text \<open>The reserved range as the code rounds it.\<close>

definition reserved :: "u64 \<Rightarrow> u64 \<Rightarrow> nat set" where
  "reserved start len =
     (if len = 0 then {}
      else {unat (align_down_u64 start)..<unat (align_up_u64 (saturating_add start len))})"

lemma align_dvd: "4096 dvd unat (align_down_u64 v)" "4096 dvd unat (align_up_u64 v)"
  by (simp_all only: unat_align_down unat_align_up dvd_triv_right)

lemma reserve_range_boot:
  assumes regs: "regs_wf (pfa_regions s)" and un: "\<not> pfa_initialized s" and k: "k \<noteq> KindUsable"
  shows "regions_only s (reserve_range s start len k) \<and>
    regs_wf (pfa_regions (reserve_range s start len k)) \<and>
    usable_cover (pfa_regions (reserve_range s start len k)) \<subseteq> usable_cover (pfa_regions s) - reserved start len"
proof (cases "len = 0")
  case True
  then show ?thesis using regs by (simp add: reserve_range_def reserved_def)
next
  case False
  define rs re where "rs = align_down_u64 start" and "re = align_up_u64 (saturating_add start len)"
  have al: "4096 dvd unat rs" "4096 dvd unat re" by (simp_all only: rs_def re_def align_dvd)
  define s1 where "s1 = foldl (reserve_slot rs re) s [0..<length (pfa_regions s)]"
  define s2 where "s2 = (if rs < re then fst (add_region s1 (region_new rs (saturating_sub re rs) k)) else s1)"
  have loop: "regions_only s s1" "regs_wf (pfa_regions s1)"
    "usable_cover (pfa_regions s1) \<subseteq> usable_cover (pfa_regions s)"
    "clear_upto (length (pfa_regions s1)) {unat rs..<unat re} (pfa_regions s1)"
    using reserve_loop_keeps [OF regs order_refl al] unfolding s1_def by (simp_all add: regions_only_def)
  note p = add_piece [OF loop(2) al s2_def]
  have only: "regions_only s s2" using loop(1) p(1) by (rule regions_only_trans)
  have "\<not> rs < re \<Longrightarrow> saturating_sub re rs = 0" by (simp add: saturating_sub_def)
  then have "fst (add_region s1 (region_new rs (saturating_sub re rs) k)) = s2"
    by (simp add: s2_def add_region_def)
  moreover have "\<not> pfa_initialized s2"
  proof -
    from only have "s2 = s\<lparr>pfa_regions := pfa_regions s2\<rparr>" by (simp add: regions_only_def)
    then have "pfa_initialized s2 = pfa_initialized (s\<lparr>pfa_regions := pfa_regions s2\<rparr>)" by (rule arg_cong)
    with un show ?thesis by simp
  qed
  ultimately have eq: "reserve_range s start len k = s2"
    using False by (simp add: reserve_range_def Let_def rs_def [symmetric] re_def [symmetric] s1_def [symmetric])
  have "usable_cover (pfa_regions s2) \<subseteq> usable_cover (pfa_regions s1)" using p(3) k by simp
  then have "usable_cover (pfa_regions s2) \<subseteq> usable_cover (pfa_regions s) - reserved start len"
    using loop(3) cover_clear [OF loop(4)] False by (auto simp: reserved_def rs_def re_def)
  with only p(2) show ?thesis by (simp add: eq)
qed

section \<open>Boot\<close>

text \<open>
  Between \<open>reset\<close> and the end of \<open>ingest_boot_info\<close> the database does not exist and the usable
  cover only shrinks.
\<close>

definition booting :: "nat set \<Rightarrow> PhysicalFrameAllocator \<Rightarrow> bool" where
  "booting C s \<longleftrightarrow> \<not> pfa_initialized s \<and> pfa_metadata s = None \<and> regs_wf (pfa_regions s) \<and>
     usable_cover (pfa_regions s) \<subseteq> C"

lemma regions_only_fields:
  assumes "regions_only s s'"
  shows "pfa_initialized s' = pfa_initialized s" "pfa_metadata s' = pfa_metadata s"
    "pfa_frame_count s' = pfa_frame_count s"
proof -
  have eq: "s' = s\<lparr>pfa_regions := pfa_regions s'\<rparr>" using assms by (simp add: regions_only_def)
  show "pfa_initialized s' = pfa_initialized s" "pfa_metadata s' = pfa_metadata s"
    "pfa_frame_count s' = pfa_frame_count s"
    by (subst eq, simp)+
qed

lemma booting_reserve:
  assumes "booting C s" and "k \<noteq> KindUsable"
  shows "booting (C - reserved start len) (reserve_range s start len k)"
proof -
  have s: "regs_wf (pfa_regions s)" "\<not> pfa_initialized s" "usable_cover (pfa_regions s) \<subseteq> C"
    "pfa_metadata s = None" using assms(1) by (simp_all add: booting_def)
  note r = reserve_range_boot [OF s(1,2) assms(2), of start len]
  note f = regions_only_fields [OF conjunct1 [OF r]]
  have "usable_cover (pfa_regions (reserve_range s start len k)) \<subseteq> C - reserved start len"
    using r s(3) by blast
  with r s f show ?thesis by (simp only: booting_def simp_thms)
qed

lemma booting_reserve_all:
  assumes "booting C s" and "\<forall>(a, l, k) \<in> set rs. k \<noteq> KindUsable"
  shows "booting (C - (\<Union>(a, l, k) \<in> set rs. reserved a l)) (foldl (\<lambda>s (a, l, k). reserve_range s a l k) s rs)"
  using assms
proof (induction rs arbitrary: C s)
  case Nil
  then show ?case by simp
next
  case (Cons x rs)
  obtain a l k where x: "x = (a, l, k)" by (cases x)
  have "booting (C - reserved a l) (reserve_range s a l k)"
    using Cons.prems by (intro booting_reserve) (auto simp: x)
  from Cons.IH [OF this] Cons.prems(2) show ?case by (simp add: x Diff_eq Int_assoc)
qed

text \<open>The whole pages inside a usable entry of the boot memory map.\<close>

definition entry_pages :: "MemoryMapEntry \<Rightarrow> nat set" where
  "entry_pages e =
     (if mme_kind e = BootUsable
      then {unat (align_up_u64 (mme_base e))..<unat (align_down_u64 (saturating_add (mme_base e) (mme_length e)))}
      else {})"

lemma from_boot_usable: "from_boot k = KindUsable \<longleftrightarrow> k = BootUsable"
  by (cases k) simp_all

lemma account_original_region_simps [simp]:
  "pfa_regions (account_original_region s k l) = pfa_regions s"
  "pfa_metadata (account_original_region s k l) = pfa_metadata s"
  "pfa_initialized (account_original_region s k l) = pfa_initialized s"
  by (simp_all add: account_original_region_def Let_def)

lemma booting_entry:
  assumes "booting C s"
  shows "booting (C \<union> (case e of Some x \<Rightarrow> entry_pages x | None \<Rightarrow> {})) (fst (ingest_entry (s, m) e))"
proof (cases e)
  case None
  with assms show ?thesis by (simp add: ingest_entry_def)
next
  case (Some x)
  let ?k = "from_boot (mme_kind x)" and ?stop = "saturating_add (mme_base x) (mme_length x)"
  define a b where "a = (if ?k = KindUsable then align_up_u64 (mme_base x) else align_down_u64 (mme_base x))"
    and "b = (if ?k = KindUsable then align_down_u64 ?stop else align_up_u64 ?stop)"
  define s1 where "s1 = account_original_region s ?k (mme_length x)"
  define s2 where "s2 = (if a < b then fst (add_region s1 (region_new a (saturating_sub b a) ?k)) else s1)"
  have al: "4096 dvd unat a" "4096 dvd unat b" by (simp_all add: a_def b_def align_dvd)
  have s1: "regs_wf (pfa_regions s1)" "\<not> pfa_initialized s1" "pfa_metadata s1 = None"
    "usable_cover (pfa_regions s1) \<subseteq> C" using assms by (simp_all add: s1_def booting_def)
  note p = add_piece [OF s1(1) al s2_def]
  have "fst (ingest_entry (s, m) e) = s2"
    by (simp add: Some ingest_entry_def Let_def s2_def s1_def a_def b_def)
  moreover have "booting (C \<union> entry_pages x) s2"
    using p(2,3) regions_only_fields [OF p(1)] s1
    by (auto simp: booting_def entry_pages_def a_def b_def from_boot_usable split: if_splits)
  ultimately show ?thesis by (simp add: Some)
qed


lemma booting_entries:
  assumes "booting C s"
  shows "booting (C \<union> (\<Union>e \<in> {e. Some e \<in> set es}. entry_pages e)) (fst (foldl ingest_entry (s, m) es))"
  using assms
proof (induction es arbitrary: C s m)
  case Nil
  then show ?case by simp
next
  case (Cons e es)
  let ?p = "case e of Some x \<Rightarrow> entry_pages x | None \<Rightarrow> {}"
  have "C \<union> ?p \<union> (\<Union>e \<in> {e. Some e \<in> set es}. entry_pages e) =
      C \<union> (\<Union>e \<in> {x. Some x \<in> set (e # es)}. entry_pages e)"
    by (cases e) auto
  with Cons.IH [OF booting_entry [OF Cons.prems, where e = e and m = m], where m = "snd (ingest_entry (s, m) e)"] show ?case
    by simp
qed

lemma region_frames:
  assumes "region_wf r"
    and "frame_index (align_down_u64 (pr_start r)) \<le> i" "i < frame_index (align_up_u64 (region_end r))"
  shows "i * 4096 \<in> rng r"
proof -
  have wf: "4096 dvd unat (pr_start r)" "4096 dvd unat (region_end r)" "unat (region_end r) < 2 ^ 64"
    using assms(1) unat_region_end [OF assms(1)] by (simp_all add: region_wf_def dvd_add)
  obtain a where a: "unat (pr_start r) = 4096 * a" using wf(1) by (rule dvdE)
  obtain b where b: "unat (region_end r) = 4096 * b" using wf(2) by (rule dvdE)
  have "b < 2 ^ 52" using wf(3) unfolding b by simp
  then have "frame_index (align_up_u64 (region_end r)) = b"
    by (simp add: unat_frame_index unat_align_up b)
  moreover have "frame_index (align_down_u64 (pr_start r)) = a"
    by (simp add: unat_frame_index unat_align_down a)
  ultimately show ?thesis using assms(2,3) a b unat_region_end [OF assms(1)] by (simp add: rng_def)
qed

lemma region_state_simps [simp]:
  "state_for_reserved_kind k = FrameFree \<longleftrightarrow> k = KindUsable" "state_for_reserved_kind k \<noteq> FrameAllocated"
  by (cases k; simp)+

text \<open>One step of the second loop of \<open>initialize_database\<close>.\<close>

definition mark_region :: "PhysicalFrameAllocator \<Rightarrow> PhysicalRegion option \<Rightarrow> PhysicalFrameAllocator" where
  "mark_region s r =
     (case r of
        Some region \<Rightarrow>
          mark_frame_range s (pr_start region) (region_end region) (state_for_reserved_kind (pr_kind region))
      | None \<Rightarrow> s)"

lemma initialize_database_mark_region:
  "initialize_database s =
     foldl mark_region (s\<lparr>pfa_metadata := Some (replicate (pfa_frame_count s) FrameInvalid)\<rparr>) (pfa_regions s)"
  by (simp add: initialize_database_def mark_region_def [abs_def])

lemma mark_region_simps [simp]:
  "mark_region s None = s"
  "mark_region s (Some r) = mark_frame_range s (pr_start r) (region_end r) (state_for_reserved_kind (pr_kind r))"
  by (simp_all add: mark_region_def)

lemma database_regions:
  assumes "regs_wf regs" and "pfa_metadata s = Some db" and "length db = pfa_frame_count s"
  shows "\<exists>db'. pfa_metadata (foldl mark_region s regs) = Some db' \<and> length db' = pfa_frame_count s \<and>
    pfa_frame_count (foldl mark_region s regs) = pfa_frame_count s \<and>
    (\<forall>i < length db'. (db' ! i = FrameFree \<longrightarrow> db ! i = FrameFree \<or> i * 4096 \<in> usable_cover regs) \<and>
       (db' ! i = FrameAllocated \<longrightarrow> db ! i = FrameAllocated))"
  using assms
proof (induction regs arbitrary: s db)
  case Nil
  then show ?case by simp
next
  case (Cons r regs)
  have wf: "regs_wf regs" using Cons.prems(1) by (simp add: regs_wf_def)
  have cov: "usable_cover regs \<subseteq> usable_cover (r # regs)" by (auto simp: usable_cover_def)
  show ?case
  proof (cases r)
    case None
    from Cons.IH [OF wf Cons.prems(2,3)] cov show ?thesis by (simp add: None) blast
  next
    case (Some g)
    let ?in = "\<lambda>i. frame_index (align_down_u64 (pr_start g)) \<le> i \<and> i < frame_index (align_up_u64 (region_end g))"
    let ?st = "state_for_reserved_kind (pr_kind g)"
    let ?db = "map (\<lambda>i. if ?in i then ?st else db ! i) [0..<length db]"
    obtain f u where m: "mark_frame_range s (pr_start g) (region_end g) ?st =
        s\<lparr>pfa_metadata := Some ?db, pfa_free_frames := f, pfa_used_frames := u\<rparr>" (is "_ = ?s")
      using mark_frame_range_db [OF Cons.prems(2,3)] by blast
    have "pfa_metadata ?s = Some ?db" "length ?db = pfa_frame_count ?s"
      using Cons.prems(3) by simp_all
    from Cons.IH [OF wf this] obtain db' where db': "length db' = pfa_frame_count s"
      "pfa_metadata (foldl mark_region ?s regs) = Some db'"
      "pfa_frame_count (foldl mark_region ?s regs) = pfa_frame_count s"
      "\<forall>i < length db'. (db' ! i = FrameFree \<longrightarrow> ?db ! i = FrameFree \<or> i * 4096 \<in> usable_cover regs) \<and>
         (db' ! i = FrameAllocated \<longrightarrow> ?db ! i = FrameAllocated)" by auto
    have g: "i * 4096 \<in> usable_cover (r # regs)" if "?in i" "pr_kind g = KindUsable" for i
    proof -
      have "region_wf g" using Cons.prems(1) Some by (simp add: regs_wf_def)
      then have "i * 4096 \<in> rng g" using that by (intro region_frames) simp_all
      then show ?thesis using that(2) by (auto simp: usable_cover_def Some)
    qed
    have "(db' ! i = FrameFree \<longrightarrow> db ! i = FrameFree \<or> i * 4096 \<in> usable_cover (r # regs)) \<and>
         (db' ! i = FrameAllocated \<longrightarrow> db ! i = FrameAllocated)" if i: "i < length db'" for i
    proof -
      have nth: "?db ! i = (if ?in i then ?st else db ! i)" using i db'(1) Cons.prems(3) by simp
      have "(db' ! i = FrameFree \<longrightarrow> ?db ! i = FrameFree \<or> i * 4096 \<in> usable_cover regs)"
        "(db' ! i = FrameAllocated \<longrightarrow> ?db ! i = FrameAllocated)" using db'(4) i by blast+
      then show ?thesis using g [of i] cov unfolding nth by (cases "?in i") auto
    qed
    with db'(1-3) show ?thesis by (intro exI [of _ db']) (simp add: Some m)
  qed
qed

lemma initialize_database_fields [simp]:
  "pfa_metadata_physical_start (initialize_database s) = pfa_metadata_physical_start s"
  "pfa_frame_count (initialize_database s) = pfa_frame_count s"
proof -
  have mark: "pfa_metadata_physical_start (foldl (mark_frame st) t xs) = pfa_metadata_physical_start t"
    "pfa_frame_count (foldl (mark_frame st) t xs) = pfa_frame_count t" for st t xs
    by (induction xs rule: rev_induct) (simp_all add: mark_frame_def Let_def split: option.splits)
  have "pfa_metadata_physical_start (foldl mark_region t rs) = pfa_metadata_physical_start t"
    "pfa_frame_count (foldl mark_region t rs) = pfa_frame_count t" for t rs
    by (induction rs rule: rev_induct) (simp_all add: mark_region_def mark_frame_range_def mark split: option.splits)
  then show "pfa_metadata_physical_start (initialize_database s) = pfa_metadata_physical_start s"
    "pfa_frame_count (initialize_database s) = pfa_frame_count s"
    by (simp_all add: initialize_database_mark_region)
qed

lemma refresh_stats_metadata [simp]: "pfa_metadata_physical_start (refresh_stats s) = pfa_metadata_physical_start s"
  by (simp add: refresh_stats_def Let_def)

lemma boot_database:
  assumes s: "booting C s" and n: "pfa_frame_count s \<le> 2 ^ 52"
  defines "t \<equiv> refresh_stats ((initialize_database s)\<lparr>pfa_initialized := True\<rparr>)"
  shows "pfa_ok t" and "FrameAllocated \<notin> set (frame_db t)"
    and "\<And>i. i < pfa_frame_count t \<Longrightarrow> frame_db t ! i = FrameFree \<Longrightarrow> i * 4096 \<in> C"
proof -
  let ?s = "s\<lparr>pfa_metadata := Some (replicate (pfa_frame_count s) FrameInvalid)\<rparr>"
  have regs: "regs_wf (pfa_regions s)" "usable_cover (pfa_regions s) \<subseteq> C"
    using s by (simp_all add: booting_def)
  obtain db' where db': "pfa_metadata (initialize_database s) = Some db'"
      "length db' = pfa_frame_count s" "pfa_frame_count (initialize_database s) = pfa_frame_count s"
      "\<forall>i < length db'. (db' ! i = FrameFree \<longrightarrow>
         replicate (pfa_frame_count s) FrameInvalid ! i = FrameFree \<or> i * 4096 \<in> usable_cover (pfa_regions s)) \<and>
       (db' ! i = FrameAllocated \<longrightarrow> replicate (pfa_frame_count s) FrameInvalid ! i = FrameAllocated)"
    using database_regions [OF regs(1), of ?s "replicate (pfa_frame_count s) FrameInvalid"]
    unfolding initialize_database_mark_region by auto
  have t: "frame_db t = db'" "pfa_frame_count t = pfa_frame_count s"
    using db' by (simp_all add: t_def frame_db_def)
  show "pfa_ok t" using db' n by (simp add: t_def pfa_ok_def)
  show "FrameAllocated \<notin> set (frame_db t)"
    using db'(2,4) by (auto simp: t(1) in_set_conv_nth)
  show "i * 4096 \<in> C" if "i < pfa_frame_count t" "frame_db t ! i = FrameFree" for i
    using that db'(2,4) regs(2) by (auto simp: t)
qed


section \<open>Pages\<close>

definition page :: "PhysFrame \<Rightarrow> nat set" where
  "page f = {unat (pf_start f)..<unat (pf_start f) + 4096}"

lemma page_frame_at: "i < 2 ^ 52 \<Longrightarrow> page (frame_at i) = {i * 4096..<i * 4096 + 4096}"
  by (simp add: page_def unat_frame_at)

lemma aligned_gap:
  assumes "4096 dvd (a::nat)" "4096 dvd b" "a < b" shows "a + 4096 \<le> b"
  using assms by (auto elim!: dvdE)

lemma align_up_covers:
  assumes "x < unat v" and "x < 2 ^ 64 - 4096" and "4096 dvd x"
  shows "x < unat (align_up_u64 v)"
proof -
  obtain k where k: "x = 4096 * k" using assms(3) by (rule dvdE)
  have "k + 1 \<le> min (unat v + 4095) (2 ^ 64 - 1) div 4096"
    using assms(1,2) unfolding k by simp
  then show ?thesis unfolding unat_align_up k by linarith
qed

lemma entry_page:
  assumes "i * 4096 \<in> entry_pages e"
  shows "mme_kind e = BootUsable" and "i * 4096 < 2 ^ 64 - 4096"
    and "{i * 4096..<i * 4096 + 4096} \<subseteq> {unat (mme_base e)..<unat (mme_base e) + unat (mme_length e)}"
proof -
  let ?stop = "saturating_add (mme_base e) (mme_length e)"
  have e: "mme_kind e = BootUsable" "unat (align_up_u64 (mme_base e)) \<le> i * 4096"
    "i * 4096 < unat (align_down_u64 ?stop)"
    using assms by (auto simp: entry_pages_def split: if_splits)
  have down: "unat (align_down_u64 ?stop) \<le> unat ?stop" by (simp add: unat_align_down)
  have "unat (align_down_u64 ?stop) \<le> 2 ^ 64 - 4096"
    using unsigned_less [of "align_down_u64 ?stop"] by (intro aligned_below_top align_dvd) simp
  with e(3) show lt: "i * 4096 < 2 ^ 64 - 4096" by simp
  have gap: "i * 4096 + 4096 \<le> unat (align_down_u64 ?stop)"
    using e(3) by (intro aligned_gap align_dvd) simp
  have "unat ?stop \<le> unat (mme_base e) + unat (mme_length e)" by (simp add: unat_saturating_add)
  moreover have "unat (mme_base e) \<le> i * 4096"
  proof (rule ccontr)
    assume "\<not> unat (mme_base e) \<le> i * 4096"
    then have "i * 4096 < unat (align_up_u64 (mme_base e))" using lt by (intro align_up_covers) simp_all
    with e(2) show False by simp
  qed
  ultimately show "{i * 4096..<i * 4096 + 4096} \<subseteq> {unat (mme_base e)..<unat (mme_base e) + unat (mme_length e)}"
    using gap down by (intro subsetI) (simp only: atLeastLessThan_iff, linarith)
  show "mme_kind e = BootUsable" by (rule e)
qed

lemma unreserved_page:
  assumes "i * 4096 \<notin> reserved a l" and lt: "i * 4096 < 2 ^ 64 - 4096"
  shows "{i * 4096..<i * 4096 + 4096} \<inter> {unat a..<unat a + unat l} = {}"
proof (rule ccontr)
  assume "\<not> ?thesis"
  then obtain y where "y \<in> {i * 4096..<i * 4096 + 4096} \<inter> {unat a..<unat a + unat l}" by blast
  then have y: "i * 4096 \<le> y" "y < i * 4096 + 4096" "unat a \<le> y" "y < unat a + unat l" by simp_all
  then have l: "l \<noteq> 0" by auto
  have "unat (align_down_u64 a) \<le> i * 4096"
  proof (rule ccontr)
    assume "\<not> ?thesis"
    then have "i * 4096 + 4096 \<le> unat (align_down_u64 a)" by (intro aligned_gap align_dvd) simp_all
    moreover have "unat (align_down_u64 a) \<le> unat a" by (simp add: unat_align_down)
    ultimately show False using y by linarith
  qed
  moreover have "i * 4096 < unat (align_up_u64 (saturating_add a l))"
  proof (rule align_up_covers [OF _ lt])
    show "i * 4096 < unat (saturating_add a l)" using y lt by (simp add: unat_saturating_add)
  qed simp
  ultimately show False using assms(1) l by (simp add: reserved_def)
qed

section \<open>From the memory map to a client\<close>

definition map_entries :: "BootInfo \<Rightarrow> MemoryMapEntry option list" where
  "map_entries boot = (case bi_memory_map boot of Some entries \<Rightarrow> entries | None \<Rightarrow> [])"

lemma boot_owned_kinds: "\<forall>(a, l, k) \<in> set (boot_owned_ranges boot tr tables stack). k \<noteq> KindUsable"
  by (auto simp: boot_owned_ranges_def set_map_filter split: option.splits)

lemma ingest_boot_info_ok:
  assumes "ingest_boot_info s boot tables stack = (s0, Inr ())"
  shows "pfa_ok s0" and "FrameAllocated \<notin> set (frame_db s0)"
    and "\<And>i. i < pfa_frame_count s0 \<Longrightarrow> frame_db s0 ! i = FrameFree \<Longrightarrow>
      (\<exists>e. Some e \<in> set (map_entries boot) \<and> i * 4096 \<in> entry_pages e) \<and>
      (\<forall>(a, l, k) \<in> set (boot_owned_ranges boot (translator_new boot) tables stack). i * 4096 \<notin> reserved a l) \<and>
      i * 4096 \<notin> reserved (pfa_metadata_physical_start s0) (word_of_nat (pfa_frame_count s0))"
proof -
  let ?tr = "translator_new boot"
  obtain s1 max_end where f: "foldl ingest_entry (pfa_reset s, 0) (map_entries boot) = (s1, max_end)"
    by (metis surj_pair)
  define s2 where "s2 = reserve_boot_owned_ranges s1 boot ?tr tables stack"
  define frames where "frames = frame_index max_end + (if max_end mod PAGE_SIZE \<noteq> 0 then 1 else 0)"
  define s3 where "s3 = s2\<lparr>pfa_frame_count := frames, pfa_metadata_bytes := frames\<rparr>"
  have eq: "ingest_boot_info s boot tables stack =
      (case find_metadata_range s3 (word_of_nat frames) of
         None \<Rightarrow> (s3, Inl MetadataUnavailable)
       | Some p \<Rightarrow>
           let s4 = (reserve_range s3 p (word_of_nat frames) KindAllocatorMetadata)\<lparr>pfa_metadata_physical_start := p\<rparr>
           in if virtual_for_physical ?tr p = 0 then (s4, Inl MetadataUnavailable)
              else (refresh_stats ((initialize_database s4)\<lparr>pfa_initialized := True\<rparr>), ok_unit))"
    unfolding ingest_boot_info_def map_entries_def [symmetric] Let_def f prod.case
      s2_def [symmetric] frames_def [symmetric] s3_def [symmetric] ..
  from assms obtain p where p: "find_metadata_range s3 (word_of_nat frames) = Some p"
    unfolding eq by (cases "find_metadata_range s3 (word_of_nat frames)") simp_all
  define r4 where "r4 = reserve_range s3 p (word_of_nat frames) KindAllocatorMetadata"
  define s4 where "s4 = r4\<lparr>pfa_metadata_physical_start := p\<rparr>"
  from assms have s0: "s0 = refresh_stats ((initialize_database s4)\<lparr>pfa_initialized := True\<rparr>)"
    unfolding eq by (simp add: p Let_def r4_def [symmetric] s4_def [symmetric] split: if_splits)
  let ?E = "\<Union>e \<in> {e. Some e \<in> set (map_entries boot)}. entry_pages e"
  let ?B = "\<Union>(a, l, k) \<in> set (boot_owned_ranges boot ?tr tables stack). reserved a l"
  let ?M = "reserved p (word_of_nat frames)"
  have "booting {} (pfa_reset s)"
    by (simp add: booting_def pfa_reset_def pfa_new_def regs_wf_def usable_cover_def)
  from booting_entries [OF this, of "map_entries boot" 0] have "booting ?E s1" by (simp add: f)
  from booting_reserve_all [OF this boot_owned_kinds] have "booting (?E - ?B) s2"
    by (simp add: s2_def reserve_boot_owned_ranges_def)
  then have b3: "booting (?E - ?B) s3" by (simp add: s3_def booting_def)
  from booting_reserve [OF this, of KindAllocatorMetadata p "word_of_nat frames"] have b4: "booting (?E - ?B - ?M) s4"
    by (simp add: r4_def [symmetric] s4_def booting_def)
  have "unat max_end < 2 ^ 64" using unsigned_less [of max_end] by simp
  then have "unat max_end div 4096 < 2 ^ 52" by (intro less_mult_imp_div_less) simp
  then have "frames \<le> 2 ^ 52" by (simp add: frames_def unat_frame_index)
  moreover have n: "pfa_frame_count s4 = frames"
  proof -
    have "regions_only s3 r4"
      using reserve_range_boot [of s3] b3 by (simp add: r4_def booting_def)
    from regions_only_fields(3) [OF this] show ?thesis by (simp add: s4_def s3_def)
  qed
  ultimately have le: "pfa_frame_count s4 \<le> 2 ^ 52" by simp
  note db = boot_database [OF b4 le, folded s0]
  show "pfa_ok s0" "FrameAllocated \<notin> set (frame_db s0)" by (rule db)+
  have "pfa_frame_count s0 = frames" "pfa_metadata_physical_start s0 = p"
    by (simp_all add: s0 n) (simp add: s4_def)
  note s0_fields = this
  fix i assume "i < pfa_frame_count s0" "frame_db s0 ! i = FrameFree"
  from db(3) [OF this] show "(\<exists>e. Some e \<in> set (map_entries boot) \<and> i * 4096 \<in> entry_pages e) \<and>
      (\<forall>(a, l, k) \<in> set (boot_owned_ranges boot ?tr tables stack). i * 4096 \<notin> reserved a l) \<and>
      i * 4096 \<notin> reserved (pfa_metadata_physical_start s0) (word_of_nat (pfa_frame_count s0))"
    unfolding s0_fields by blast
qed


text \<open>
  (C2) Memory given to a client is memory the firmware called usable and nobody else owns. After a
  successful boot and any run of allocations and frees, the page of every frame a client owns lies
  inside a usable entry of the boot memory map, and meets neither the kernel image, the modules,
  the framebuffer, the ACPI root pointer, the page table pool and the boot stack, nor the
  allocator's own database, however small the region table is.
\<close>

theorem boot_frames_safe:
  assumes "ingest_boot_info s boot tables stack = (s0, Inr ())"
    and "foldl frame_step (s0, {}) ops = (s', owned)" and "f \<in> owned"
  shows "(\<exists>e. Some e \<in> set (map_entries boot) \<and> mme_kind e = BootUsable \<and>
      page f \<subseteq> {unat (mme_base e)..<unat (mme_base e) + unat (mme_length e)}) \<and>
    (\<forall>(a, l, k) \<in> set (boot_owned_ranges boot (translator_new boot) tables stack).
      page f \<inter> {unat a..<unat a + unat l} = {}) \<and>
    page f \<inter> {unat (pfa_metadata_physical_start s0)..<unat (pfa_metadata_physical_start s0) + pfa_frame_count s0} = {}"
proof -
  note boot = ingest_boot_info_ok [OF assms(1)]
  note ok = pfa_okD [OF boot(1)]
  have "ownership_ok (frame_db s0) (s', owned)"
    using ownership_run [OF boot(1,2), of ops] assms(2) by simp
  then obtain i where i: "f = frame_at i" "i < pfa_frame_count s0" "frame_db s0 ! i = FrameFree"
    using assms(3) ok(2) boot(2) unfolding ownership_ok_def
    by (force simp: in_set_conv_nth)
  from boot(3) [OF i(2,3)] obtain e where e: "Some e \<in> set (map_entries boot)" "i * 4096 \<in> entry_pages e"
    and B: "\<forall>(a, l, k) \<in> set (boot_owned_ranges boot (translator_new boot) tables stack). i * 4096 \<notin> reserved a l"
    and M: "i * 4096 \<notin> reserved (pfa_metadata_physical_start s0) (word_of_nat (pfa_frame_count s0))" by blast
  note ep = entry_page [OF e(2)]
  have pg: "page f = {i * 4096..<i * 4096 + 4096}" using i ok(4) by (simp only: i(1)) (intro page_frame_at, linarith)
  have cnt: "unat (word_of_nat (pfa_frame_count s0) :: u64) = pfa_frame_count s0"
    using ok(4) by (simp add: unat_of_nat)
  show ?thesis
    using e(1) ep(1,3) B unreserved_page [OF _ ep(2)] unreserved_page [OF M ep(2)] unfolding pg cnt by blast
qed


text \<open>
  A machine with 20 KiB of memory, a kernel in its first page and a stack elsewhere: the second page
  becomes the database and the third page is the first one a client gets.
\<close>

definition demo_boot :: BootInfo where
  "demo_boot = \<lparr>bi_memory_map = Some [Some \<lparr>mme_base = 0x1000, mme_length = 0x4000, mme_kind = BootUsable\<rparr>],
     bi_framebuffer = None, bi_rsdp = None, bi_hhdm_offset = None,
     bi_kernel_sections = \<lparr>vr_start = 0, vr_end = 0\<rparr>,
     bi_kernel_load_range = Some \<lparr>klr_physical_start = 0x1000, klr_virtual_start = 0xF000000, klr_length = 0x800\<rparr>,
     bi_modules = []\<rparr>"

lemma demo_boot_runs:
  "snd (ingest_boot_info (pfa_new 3) demo_boot (0, 0) 0x40000) = Inr ()"
  "snd (foldl frame_step (fst (ingest_boot_info (pfa_new 3) demo_boot (0, 0) 0x40000), {}) [AllocFrame]) =
     {\<lparr>pf_start = 0x3000\<rparr>}"
  "(0x1000, 0x800, KindKernel) \<in> set (boot_owned_ranges demo_boot (translator_new demo_boot) (0, 0) 0x40000)"
  by code_simp+

theorem boot_frames_safe_witness:
  "\<exists>s0 s'. ingest_boot_info (pfa_new 3) demo_boot (0, 0) 0x40000 = (s0, Inr ()) \<and>
     foldl frame_step (s0, {}) [AllocFrame] = (s', {\<lparr>pf_start = 0x3000\<rparr>}) \<and>
     page \<lparr>pf_start = 0x3000\<rparr> \<inter> {0x1000..<0x1800} = {}"
proof -
  obtain s0 where s0: "ingest_boot_info (pfa_new 3) demo_boot (0, 0) 0x40000 = (s0, Inr ())"
    using demo_boot_runs(1) by (metis prod.collapse)
  obtain s' where s': "foldl frame_step (s0, {}) [AllocFrame] = (s', {\<lparr>pf_start = 0x3000\<rparr>})"
    using demo_boot_runs(2) unfolding s0 fst_conv by (metis prod.collapse)
  have "\<forall>(a, l, k) \<in> set (boot_owned_ranges demo_boot (translator_new demo_boot) (0, 0) 0x40000).
      page \<lparr>pf_start = 0x3000\<rparr> \<inter> {unat a..<unat a + unat l} = {}"
    using boot_frames_safe [OF s0 s', of "\<lparr>pf_start = 0x3000\<rparr>"] by simp
  then have "page \<lparr>pf_start = 0x3000\<rparr> \<inter> {unat (0x1000 :: u64)..<unat (0x1000 :: u64) + unat (0x800 :: u64)} = {}"
    using demo_boot_runs(3) by fast
  then show ?thesis using s0 s' by simp
qed

end
