(* ===== verification/Mtss_Types.thy ===== *)
theory Mtss_Types
  imports Slot_Table
begin

text \<open>
  The vocabulary of the multitasking subsystem: the modules \<open>types\<close>, \<open>lifecycle\<close>, \<open>stats\<close> and
  \<open>scheduler\<close> of \<^verbatim>\<open>src/crates/mirage-mtss/src/lib.rs\<close> and the registry of
  \<^verbatim>\<open>src/crates/mirage-mtss/src/scheduler_modules.rs\<close>.

  Identifiers are words of the width of the source. Methods that take \<open>&mut self\<close> return the new
  object, with the result where they can fail. The counters of \<open>MtssStats\<close> use plain \<open>+= 1\<close> on
  \<open>u64\<close>, which is word addition here.
\<close>

section \<open>Identifiers and states\<close>

type_synonym TaskId = u64
type_synonym AddressSpaceId = u64
type_synonym CpuId = u32
type_synonym MtThreadId = u64
type_synonym MtProcessId = u64
type_synonym Timestamp = u64
type_synonym Timeslice = u64
type_synonym CredentialHandle = u64
type_synonym GrantHandle = u64
type_synonym Priority = u8

definition ts_is_expired :: "Timeslice \<Rightarrow> bool" where
  "ts_is_expired self \<longleftrightarrow> self = 0"

definition ts_consume_tick :: "Timeslice \<Rightarrow> Timeslice" where
  "ts_consume_tick self = saturating_sub self 1"

definition PRIORITY_CRITICAL :: Priority where "PRIORITY_CRITICAL = 0"
definition PRIORITY_HIGH :: Priority where "PRIORITY_HIGH = 64"
definition PRIORITY_NORMAL :: Priority where "PRIORITY_NORMAL = 128"
definition PRIORITY_LOW :: Priority where "PRIORITY_LOW = 192"

datatype TaskState = TaskCreatedState | TaskRunnable | TaskRunning | TaskBlocked | TaskExited

datatype ThreadState =
  ThreadNew | ThreadReady | ThreadRunningState | ThreadBlockedState | ThreadSleepingState | ThreadZombie | ThreadDead

datatype ProcessState =
  ProcessNew | ProcessReady | ProcessRunning | ProcessWaiting | ProcessZombie | ProcessDead | ProcessFailed

fun task_is_terminal :: "TaskState \<Rightarrow> bool" where
  "task_is_terminal TaskExited = True"
| "task_is_terminal _ = False"

fun task_may_schedule :: "TaskState \<Rightarrow> bool" where
  "task_may_schedule TaskRunnable = True"
| "task_may_schedule TaskRunning = True"
| "task_may_schedule _ = False"

fun thread_is_terminal :: "ThreadState \<Rightarrow> bool" where
  "thread_is_terminal ThreadZombie = True"
| "thread_is_terminal ThreadDead = True"
| "thread_is_terminal _ = False"

fun thread_may_schedule :: "ThreadState \<Rightarrow> bool" where
  "thread_may_schedule ThreadReady = True"
| "thread_may_schedule ThreadRunningState = True"
| "thread_may_schedule _ = False"

fun process_is_terminal :: "ProcessState \<Rightarrow> bool" where
  "process_is_terminal ProcessDead = True"
| "process_is_terminal ProcessFailed = True"
| "process_is_terminal _ = False"

fun process_may_schedule :: "ProcessState \<Rightarrow> bool" where
  "process_may_schedule ProcessReady = True"
| "process_may_schedule ProcessRunning = True"
| "process_may_schedule _ = False"

fun valid_task_transition :: "TaskState \<Rightarrow> TaskState \<Rightarrow> bool" where
  "valid_task_transition TaskCreatedState TaskRunnable = True"
| "valid_task_transition TaskCreatedState TaskExited = True"
| "valid_task_transition TaskRunnable TaskRunning = True"
| "valid_task_transition TaskRunnable TaskBlocked = True"
| "valid_task_transition TaskRunnable TaskExited = True"
| "valid_task_transition TaskRunning TaskRunnable = True"
| "valid_task_transition TaskRunning TaskBlocked = True"
| "valid_task_transition TaskRunning TaskExited = True"
| "valid_task_transition TaskBlocked TaskRunnable = True"
| "valid_task_transition TaskBlocked TaskExited = True"
| "valid_task_transition st nxt = (st = nxt)"

fun valid_thread_transition :: "ThreadState \<Rightarrow> ThreadState \<Rightarrow> bool" where
  "valid_thread_transition ThreadNew ThreadReady = True"
| "valid_thread_transition ThreadNew ThreadDead = True"
| "valid_thread_transition ThreadReady ThreadRunningState = True"
| "valid_thread_transition ThreadReady ThreadBlockedState = True"
| "valid_thread_transition ThreadReady ThreadSleepingState = True"
| "valid_thread_transition ThreadReady ThreadZombie = True"
| "valid_thread_transition ThreadReady ThreadDead = True"
| "valid_thread_transition ThreadRunningState ThreadReady = True"
| "valid_thread_transition ThreadRunningState ThreadBlockedState = True"
| "valid_thread_transition ThreadRunningState ThreadSleepingState = True"
| "valid_thread_transition ThreadRunningState ThreadZombie = True"
| "valid_thread_transition ThreadRunningState ThreadDead = True"
| "valid_thread_transition ThreadBlockedState ThreadReady = True"
| "valid_thread_transition ThreadBlockedState ThreadZombie = True"
| "valid_thread_transition ThreadBlockedState ThreadDead = True"
| "valid_thread_transition ThreadSleepingState ThreadReady = True"
| "valid_thread_transition ThreadSleepingState ThreadZombie = True"
| "valid_thread_transition ThreadSleepingState ThreadDead = True"
| "valid_thread_transition ThreadZombie ThreadDead = True"
| "valid_thread_transition st nxt = (st = nxt)"

fun valid_process_transition :: "ProcessState \<Rightarrow> ProcessState \<Rightarrow> bool" where
  "valid_process_transition ProcessNew ProcessReady = True"
| "valid_process_transition ProcessNew ProcessFailed = True"
| "valid_process_transition ProcessReady ProcessRunning = True"
| "valid_process_transition ProcessReady ProcessWaiting = True"
| "valid_process_transition ProcessReady ProcessZombie = True"
| "valid_process_transition ProcessReady ProcessFailed = True"
| "valid_process_transition ProcessRunning ProcessReady = True"
| "valid_process_transition ProcessRunning ProcessWaiting = True"
| "valid_process_transition ProcessRunning ProcessZombie = True"
| "valid_process_transition ProcessRunning ProcessFailed = True"
| "valid_process_transition ProcessWaiting ProcessReady = True"
| "valid_process_transition ProcessWaiting ProcessZombie = True"
| "valid_process_transition ProcessWaiting ProcessFailed = True"
| "valid_process_transition ProcessZombie ProcessDead = True"
| "valid_process_transition st nxt = (st = nxt)"

datatype MtssError =
    RunQueueFull | AlreadyCurrent | EmptyRunQueue | InvalidTask | InvalidThread
  | TaskTableFull | ThreadTableFull
  | InvalidTaskTransition TaskState TaskState
  | InvalidThreadTransition ThreadState ThreadState
  | InvalidProcessTransition ProcessState ProcessState
  | ProcessRecordFull | BackendUnavailable | CapabilityDenied

section \<open>Tasks and threads\<close>

record Task =
  tk_id :: TaskId
  tk_parent :: "TaskId option"
  tk_address_space :: AddressSpaceId
  tk_state :: TaskState
  tk_priority :: Priority
  tk_thread_count :: u16
  tk_cpu_time_ticks :: u128

definition task_new :: "TaskId \<Rightarrow> TaskId option \<Rightarrow> AddressSpaceId \<Rightarrow> Priority \<Rightarrow> Task" where
  "task_new tid parent space prio =
     \<lparr>tk_id = tid, tk_parent = parent, tk_address_space = space, tk_state = TaskCreatedState,
      tk_priority = prio, tk_thread_count = 0, tk_cpu_time_ticks = 0\<rparr>"

definition task_transition :: "Task \<Rightarrow> TaskState \<Rightarrow> (Task, MtssError, TaskState) op_result" where
  "task_transition self nxt =
     (if \<not> valid_task_transition (tk_state self) nxt
      then (self, Inl (InvalidTaskTransition (tk_state self) nxt))
      else (self\<lparr>tk_state := nxt\<rparr>, Inr (tk_state self)))"

definition task_admit :: "Task \<Rightarrow> (Task, MtssError, TaskState) op_result" where
  "task_admit self = task_transition self TaskRunnable"
definition task_mark_running :: "Task \<Rightarrow> (Task, MtssError, TaskState) op_result" where
  "task_mark_running self = task_transition self TaskRunning"
definition task_block :: "Task \<Rightarrow> (Task, MtssError, TaskState) op_result" where
  "task_block self = task_transition self TaskBlocked"
definition task_sleep :: "Task \<Rightarrow> (Task, MtssError, TaskState) op_result" where
  "task_sleep self = task_transition self TaskBlocked"
definition task_suspend :: "Task \<Rightarrow> (Task, MtssError, TaskState) op_result" where
  "task_suspend self = task_transition self TaskBlocked"
definition task_suspect :: "Task \<Rightarrow> (Task, MtssError, TaskState) op_result" where
  "task_suspect self = task_transition self TaskBlocked"
definition task_contain :: "Task \<Rightarrow> (Task, MtssError, TaskState) op_result" where
  "task_contain self = task_transition self TaskBlocked"
definition task_terminate :: "Task \<Rightarrow> (Task, MtssError, TaskState) op_result" where
  "task_terminate self = task_transition self TaskExited"
definition task_reap :: "Task \<Rightarrow> (Task, MtssError, TaskState) op_result" where
  "task_reap self = task_transition self TaskExited"
definition task_wake :: "Task \<Rightarrow> (Task, MtssError, TaskState) op_result" where
  "task_wake self = task_transition self TaskRunnable"

definition increment_thread_count :: "Task \<Rightarrow> Task" where
  "increment_thread_count self = self\<lparr>tk_thread_count := saturating_add (tk_thread_count self) 1\<rparr>"
definition decrement_thread_count :: "Task \<Rightarrow> Task" where
  "decrement_thread_count self = self\<lparr>tk_thread_count := saturating_sub (tk_thread_count self) 1\<rparr>"
definition task_accumulate_cpu_time :: "Task \<Rightarrow> u64 \<Rightarrow> Task" where
  "task_accumulate_cpu_time self ticks =
     self\<lparr>tk_cpu_time_ticks := saturating_add (tk_cpu_time_ticks self) (ucast ticks)\<rparr>"

record Thread =
  th_id :: MtThreadId
  th_task :: TaskId
  th_state :: ThreadState
  th_priority :: Priority
  th_timeslice :: Timeslice
  th_cpu_time_ticks :: u128

definition thread_new :: "MtThreadId \<Rightarrow> TaskId \<Rightarrow> Priority \<Rightarrow> Timeslice \<Rightarrow> Thread" where
  "thread_new tid task prio ts =
     \<lparr>th_id = tid, th_task = task, th_state = ThreadNew, th_priority = prio, th_timeslice = ts,
      th_cpu_time_ticks = 0\<rparr>"

definition thread_transition :: "Thread \<Rightarrow> ThreadState \<Rightarrow> (Thread, MtssError, ThreadState) op_result" where
  "thread_transition self nxt =
     (if \<not> valid_thread_transition (th_state self) nxt
      then (self, Inl (InvalidThreadTransition (th_state self) nxt))
      else (self\<lparr>th_state := nxt\<rparr>, Inr (th_state self)))"

definition thread_admit :: "Thread \<Rightarrow> (Thread, MtssError, ThreadState) op_result" where
  "thread_admit self = thread_transition self ThreadReady"
definition thread_mark_running :: "Thread \<Rightarrow> (Thread, MtssError, ThreadState) op_result" where
  "thread_mark_running self = thread_transition self ThreadRunningState"
definition thread_mark_ready :: "Thread \<Rightarrow> (Thread, MtssError, ThreadState) op_result" where
  "thread_mark_ready self = thread_transition self ThreadReady"
definition thread_block :: "Thread \<Rightarrow> (Thread, MtssError, ThreadState) op_result" where
  "thread_block self = thread_transition self ThreadBlockedState"
definition thread_sleep :: "Thread \<Rightarrow> (Thread, MtssError, ThreadState) op_result" where
  "thread_sleep self = thread_transition self ThreadSleepingState"
definition thread_wake :: "Thread \<Rightarrow> (Thread, MtssError, ThreadState) op_result" where
  "thread_wake self = thread_transition self ThreadReady"
definition thread_terminate :: "Thread \<Rightarrow> (Thread, MtssError, ThreadState) op_result" where
  "thread_terminate self = thread_transition self ThreadDead"

definition consume_timeslice_tick :: "Thread \<Rightarrow> Thread \<times> bool" where
  "consume_timeslice_tick self =
     (let t = self\<lparr>th_timeslice := ts_consume_tick (th_timeslice self)\<rparr>
      in (t, ts_is_expired (th_timeslice t)))"
definition reset_timeslice :: "Thread \<Rightarrow> Timeslice \<Rightarrow> Thread" where
  "reset_timeslice self ts = self\<lparr>th_timeslice := ts\<rparr>"
definition thread_accumulate_cpu_time :: "Thread \<Rightarrow> u64 \<Rightarrow> Thread" where
  "thread_accumulate_cpu_time self ticks =
     self\<lparr>th_cpu_time_ticks := saturating_add (th_cpu_time_ticks self) (ucast ticks)\<rparr>"

record ThreadDescriptor =
  td_id :: MtThreadId
  td_priority :: Priority
  td_initial_state :: ThreadState
  td_budget :: "Timeslice option"

section \<open>Process records\<close>

record ProcessRecord =
  pc_pid :: MtProcessId
  pc_parent_pid :: "MtProcessId option"
  pc_children :: "MtProcessId slots"
  pc_child_count :: nat
  pc_threads :: "MtThreadId slots"
  pc_thread_count :: nat
  pc_state :: ProcessState
  pc_exit_code :: "32 word option"
  pc_address_space :: "AddressSpaceId option"
  pc_credentials :: "CredentialHandle option"
  pc_grants :: "GrantHandle option"
  pc_name :: string
  pc_path :: string

definition process_record_new ::
  "nat \<Rightarrow> nat \<Rightarrow> MtProcessId \<Rightarrow> MtProcessId option \<Rightarrow> AddressSpaceId option \<Rightarrow> string \<Rightarrow> string \<Rightarrow> ProcessRecord"
where
  "process_record_new max_children max_threads pid parent space name path =
     \<lparr>pc_pid = pid, pc_parent_pid = parent, pc_children = replicate max_children None,
      pc_child_count = 0, pc_threads = replicate max_threads None, pc_thread_count = 0,
      pc_state = ProcessNew, pc_exit_code = None, pc_address_space = space, pc_credentials = None,
      pc_grants = None, pc_name = name, pc_path = path\<rparr>"

definition process_transition ::
  "ProcessRecord \<Rightarrow> ProcessState \<Rightarrow> (ProcessRecord, MtssError, ProcessState) op_result" where
  "process_transition self nxt =
     (if \<not> valid_process_transition (pc_state self) nxt
      then (self, Inl (InvalidProcessTransition (pc_state self) nxt))
      else (self\<lparr>pc_state := nxt\<rparr>, Inr (pc_state self)))"

text \<open>
  The loop of \<open>add_child\<close> and \<open>add_thread\<close>: it stops at the element or at the first free slot,
  whichever comes first, and says whether it inserted.
\<close>

fun add_member :: "'a \<Rightarrow> 'a slots \<Rightarrow> ('a slots \<times> bool) option" where
  "add_member x [] = None"
| "add_member x (None # xs) = Some (Some x # xs, True)"
| "add_member x (Some y # xs) =
     (if y = x then Some (Some y # xs, False)
      else map_option (\<lambda>(ys, b). (Some y # ys, b)) (add_member x xs))"

definition add_child :: "ProcessRecord \<Rightarrow> MtProcessId \<Rightarrow> (ProcessRecord, MtssError, unit) op_result" where
  "add_child self child =
     (case add_member child (pc_children self) of
        None \<Rightarrow> (self, Inl ProcessRecordFull)
      | Some (cs, inserted) \<Rightarrow>
          (if inserted
           then self\<lparr>pc_children := cs, pc_child_count := pc_child_count self + 1\<rparr> else self, ok_unit))"

definition add_thread :: "ProcessRecord \<Rightarrow> MtThreadId \<Rightarrow> (ProcessRecord, MtssError, unit) op_result" where
  "add_thread self thread =
     (case add_member thread (pc_threads self) of
        None \<Rightarrow> (self, Inl ProcessRecordFull)
      | Some (ts, inserted) \<Rightarrow>
          (if inserted
           then self\<lparr>pc_threads := ts, pc_thread_count := pc_thread_count self + 1\<rparr> else self, ok_unit))"

section \<open>Accounting\<close>

record MtssStats =
  st_admitted_tasks :: u64
  st_completed_tasks :: u64
  st_reaped_tasks :: u64
  st_admitted_threads :: u64
  st_completed_threads :: u64
  st_context_switches :: u64
  st_preemptions :: u64
  st_blocked_tasks :: u64
  st_blocked_threads :: u64
  st_sleeps :: u64
  st_wakeups :: u64
  st_suspensions :: u64
  st_containments :: u64

definition mtss_stats_new :: MtssStats where
  "mtss_stats_new =
     \<lparr>st_admitted_tasks = 0, st_completed_tasks = 0, st_reaped_tasks = 0, st_admitted_threads = 0,
      st_completed_threads = 0, st_context_switches = 0, st_preemptions = 0, st_blocked_tasks = 0,
      st_blocked_threads = 0, st_sleeps = 0, st_wakeups = 0, st_suspensions = 0, st_containments = 0\<rparr>"

definition with_task_admission :: "MtssStats \<Rightarrow> MtssStats" where
  "with_task_admission s = s\<lparr>st_admitted_tasks := st_admitted_tasks s + 1\<rparr>"
definition with_task_completion :: "MtssStats \<Rightarrow> MtssStats" where
  "with_task_completion s = s\<lparr>st_completed_tasks := st_completed_tasks s + 1\<rparr>"
definition with_reap :: "MtssStats \<Rightarrow> MtssStats" where
  "with_reap s = s\<lparr>st_reaped_tasks := st_reaped_tasks s + 1\<rparr>"
definition with_admission :: "MtssStats \<Rightarrow> MtssStats" where
  "with_admission s = s\<lparr>st_admitted_threads := st_admitted_threads s + 1\<rparr>"
definition with_completion :: "MtssStats \<Rightarrow> MtssStats" where
  "with_completion s = s\<lparr>st_completed_threads := st_completed_threads s + 1\<rparr>"
definition with_context_switch :: "MtssStats \<Rightarrow> MtssStats" where
  "with_context_switch s = s\<lparr>st_context_switches := st_context_switches s + 1\<rparr>"
definition with_preemption :: "MtssStats \<Rightarrow> MtssStats" where
  "with_preemption s = s\<lparr>st_preemptions := st_preemptions s + 1\<rparr>"
definition with_task_block :: "MtssStats \<Rightarrow> MtssStats" where
  "with_task_block s = s\<lparr>st_blocked_tasks := st_blocked_tasks s + 1\<rparr>"
definition with_block :: "MtssStats \<Rightarrow> MtssStats" where
  "with_block s = s\<lparr>st_blocked_threads := st_blocked_threads s + 1\<rparr>"
definition with_sleep :: "MtssStats \<Rightarrow> MtssStats" where
  "with_sleep s = s\<lparr>st_sleeps := st_sleeps s + 1\<rparr>"
definition with_wakeup :: "MtssStats \<Rightarrow> MtssStats" where
  "with_wakeup s = s\<lparr>st_wakeups := st_wakeups s + 1\<rparr>"
definition with_suspension :: "MtssStats \<Rightarrow> MtssStats" where
  "with_suspension s = s\<lparr>st_suspensions := st_suspensions s + 1\<rparr>"
definition with_containment :: "MtssStats \<Rightarrow> MtssStats" where
  "with_containment s = s\<lparr>st_containments := st_containments s + 1\<rparr>"

section \<open>Events\<close>

datatype MtssEventKind =
    EvTaskCreated | EvThreadCreated | EvThreadRunnable | EvThreadRunning | EvThreadBlocked
  | EvThreadSleeping | EvTaskSuspect | EvTaskContained | EvTaskTerminated | EvTaskReaped
  | EvThreadExited | EvTimesliceExpired

record MtssEvent =
  ev_kind :: MtssEventKind
  ev_task :: "TaskId option"
  ev_thread :: "MtThreadId option"
  ev_cpu :: "CpuId option"
  ev_at :: Timestamp

definition event_task :: "MtssEventKind \<Rightarrow> TaskId \<Rightarrow> Timestamp \<Rightarrow> MtssEvent" where
  "event_task kind task at =
     \<lparr>ev_kind = kind, ev_task = Some task, ev_thread = None, ev_cpu = None, ev_at = at\<rparr>"

definition event_thread ::
  "MtssEventKind \<Rightarrow> TaskId \<Rightarrow> MtThreadId \<Rightarrow> CpuId option \<Rightarrow> Timestamp \<Rightarrow> MtssEvent" where
  "event_thread kind task thread cpu at =
     \<lparr>ev_kind = kind, ev_task = Some task, ev_thread = Some thread, ev_cpu = cpu, ev_at = at\<rparr>"

datatype LifecycleReason =
    ReasonCreated | ReasonAdmitted | ReasonScheduled | ReasonYielded | ReasonPreempted | ReasonBlocked
  | ReasonSleeping | ReasonWoken | ReasonSuspended | ReasonSuspected | ReasonContained | ReasonExited
  | ReasonReaped | ReasonFaulted | ReasonRevoked

record LifecycleEvent =
  le_task :: "TaskId option"
  le_thread :: "MtThreadId option"
  le_cpu :: "CpuId option"
  le_previous_task :: "TaskState option"
  le_next_task :: "TaskState option"
  le_previous_thread :: "ThreadState option"
  le_next_thread :: "ThreadState option"
  le_reason :: LifecycleReason
  le_at :: Timestamp

definition lifecycle_thread ::
  "MtThreadId \<Rightarrow> CpuId option \<Rightarrow> ThreadState option \<Rightarrow> ThreadState \<Rightarrow> LifecycleReason \<Rightarrow> Timestamp \<Rightarrow> LifecycleEvent"
where
  "lifecycle_thread thread cpu previous nxt reason at =
     \<lparr>le_task = None, le_thread = Some thread, le_cpu = cpu, le_previous_task = None,
      le_next_task = None, le_previous_thread = previous, le_next_thread = Some nxt,
      le_reason = reason, le_at = at\<rparr>"

definition lifecycle_task ::
  "TaskId \<Rightarrow> TaskState option \<Rightarrow> TaskState \<Rightarrow> LifecycleReason \<Rightarrow> Timestamp \<Rightarrow> LifecycleEvent" where
  "lifecycle_task task previous nxt reason at =
     \<lparr>le_task = Some task, le_thread = None, le_cpu = None, le_previous_task = previous,
      le_next_task = Some nxt, le_previous_thread = None, le_next_thread = None,
      le_reason = reason, le_at = at\<rparr>"

section \<open>The scheduler core\<close>

record ScheduleDecision =
  sd_cpu :: CpuId
  sd_previous :: "MtThreadId option"
  sd_next :: MtThreadId
  sd_at :: Timestamp

definition decision_new :: "CpuId \<Rightarrow> MtThreadId option \<Rightarrow> MtThreadId \<Rightarrow> Timestamp \<Rightarrow> ScheduleDecision" where
  "decision_new cpu previous nxt at =
     \<lparr>sd_cpu = cpu, sd_previous = previous, sd_next = nxt, sd_at = at\<rparr>"

record SchedulerCore =
  sc_cpu :: CpuId
  sc_current :: "MtThreadId option"
  sc_stats :: MtssStats

definition core_new :: "CpuId \<Rightarrow> SchedulerCore" where
  "core_new cpu = \<lparr>sc_cpu = cpu, sc_current = None, sc_stats = mtss_stats_new\<rparr>"

definition core_admit :: "SchedulerCore \<Rightarrow> MtThreadId \<Rightarrow> Timestamp \<Rightarrow> SchedulerCore \<times> LifecycleEvent" where
  "core_admit self thread at =
     (self\<lparr>sc_stats := with_admission (sc_stats self)\<rparr>,
      lifecycle_thread thread (Some (sc_cpu self)) (Some ThreadNew) ThreadReady ReasonAdmitted at)"

definition core_select ::
  "SchedulerCore \<Rightarrow> MtThreadId \<Rightarrow> Timestamp \<Rightarrow> (SchedulerCore, MtssError, ScheduleDecision) op_result" where
  "core_select self nxt at =
     (if Some nxt = sc_current self then (self, Inl AlreadyCurrent)
      else (self\<lparr>sc_current := Some nxt, sc_stats := with_context_switch (sc_stats self)\<rparr>,
            Inr (decision_new (sc_cpu self) (sc_current self) nxt at)))"

definition core_clear_current ::
  "SchedulerCore \<Rightarrow> LifecycleReason \<Rightarrow> Timestamp \<Rightarrow> SchedulerCore \<times> LifecycleEvent option" where
  "core_clear_current self reason at =
     (case sc_current self of
        None \<Rightarrow> (self, None)
      | Some thread \<Rightarrow>
          (self\<lparr>sc_current := None, sc_stats := with_completion (sc_stats self)\<rparr>,
           Some (lifecycle_thread thread (Some (sc_cpu self)) (Some ThreadRunningState) ThreadDead reason at)))"

section \<open>Scheduler modules\<close>

datatype MtssSchedulerModuleId = GenericRoundRobin | AmdZen2Renoir

datatype MtssSchedulerModuleState = ModRegistered | ModSelected | ModOnline | ModStub | ModFailed

record MtssCpuProfile =
  cp_family :: u16
  cp_model :: u16
  cp_cores :: u16
  cp_threads :: u16
  cp_amd :: bool
  cp_renoir :: bool

definition profile_generic :: MtssCpuProfile where
  "profile_generic =
     \<lparr>cp_family = 0, cp_model = 0, cp_cores = 1, cp_threads = 1, cp_amd = False, cp_renoir = False\<rparr>"

record MtssSchedulerModuleDescriptor =
  md_id :: MtssSchedulerModuleId
  md_name :: string
  md_arch :: string
  md_microarch :: string
  md_state :: MtssSchedulerModuleState
  md_core_local_queues :: bool
  md_work_borrowing :: bool
  md_cluster_execution :: bool
  md_helper_packs :: bool

definition GENERIC_ROUND_ROBIN_DESCRIPTOR :: MtssSchedulerModuleDescriptor where
  "GENERIC_ROUND_ROBIN_DESCRIPTOR =
     \<lparr>md_id = GenericRoundRobin, md_name = ''mtss-sched-generic-round-robin'', md_arch = ''generic'',
      md_microarch = ''generic'', md_state = ModOnline, md_core_local_queues = True,
      md_work_borrowing = False, md_cluster_execution = False, md_helper_packs = False\<rparr>"

definition AMD_ZEN2_RENOIR_DESCRIPTOR :: MtssSchedulerModuleDescriptor where
  "AMD_ZEN2_RENOIR_DESCRIPTOR =
     \<lparr>md_id = AmdZen2Renoir, md_name = ''mtss-sched-amd-zen2-renoir'', md_arch = ''x86_64'',
      md_microarch = ''amd-zen2-renoir'', md_state = ModRegistered, md_core_local_queues = True,
      md_work_borrowing = True, md_cluster_execution = True, md_helper_packs = True\<rparr>"

definition SCHEDULER_MODULES :: "MtssSchedulerModuleDescriptor list" where
  "SCHEDULER_MODULES = [GENERIC_ROUND_ROBIN_DESCRIPTOR, AMD_ZEN2_RENOIR_DESCRIPTOR]"

text \<open>The two implementations of \<open>MtssSchedulerModule::supports\<close>, by module id.\<close>

fun module_supports :: "MtssSchedulerModuleId \<Rightarrow> MtssCpuProfile \<Rightarrow> bool" where
  "module_supports GenericRoundRobin cpu = True"
| "module_supports AmdZen2Renoir cpu =
     (cp_amd cpu \<and> cp_renoir cpu \<and> cp_family cpu = 0x17 \<and> cp_model cpu \<ge> 0x60 \<and> cp_model cpu \<le> 0x7f)"

definition select_scheduler_module :: "MtssCpuProfile \<Rightarrow> MtssSchedulerModuleDescriptor" where
  "select_scheduler_module cpu =
     (if cp_amd cpu \<and> cp_renoir cpu \<and> cp_family cpu = 0x17 \<and> cp_model cpu \<ge> 0x60 \<and> cp_model cpu \<le> 0x7f
      then AMD_ZEN2_RENOIR_DESCRIPTOR else GENERIC_ROUND_ROBIN_DESCRIPTOR)"


section \<open>Process records hold sets\<close>

lemma add_member_cases:
  assumes xs: "xs = map Some ys @ replicate m None"
  shows "add_member x xs =
    (if x \<in> set ys then Some (xs, False)
     else if m = 0 then None else Some (map Some (ys @ [x]) @ replicate (m - 1) None, True))"
  unfolding xs
proof (induction ys)
  case Nil
  then show ?case by (cases m) simp_all
next
  case (Cons y ys)
  then show ?case by auto
qed

text \<open>The first occurrences of the elements of a list, in order.\<close>

definition first_occurrences :: "'a list \<Rightarrow> 'a list" where
  "first_occurrences xs = rev (remdups (rev xs))"

lemma first_occurrences_snoc:
  "first_occurrences (xs @ [x]) = (if x \<in> set xs then first_occurrences xs else first_occurrences xs @ [x])"
  by (simp add: first_occurrences_def)

lemma set_first_occurrences [simp]: "set (first_occurrences xs) = set xs"
  by (simp add: first_occurrences_def)

lemma add_children_run:
  defines "r0 n m pid parent space name path \<equiv> process_record_new n m pid parent space name path"
  shows "\<exists>ys. pc_children (foldl (\<lambda>r c. fst (add_child r c)) (r0 n m pid parent space name path) cs) =
      map Some ys @ replicate (n - length ys) None \<and> ys = take n (first_occurrences cs) \<and>
    pc_child_count (foldl (\<lambda>r c. fst (add_child r c)) (r0 n m pid parent space name path) cs) = length ys"
proof (induction cs rule: rev_induct)
  case Nil
  then show ?case by (simp add: r0_def process_record_new_def first_occurrences_def)
next
  case (snoc c cs)
  let ?r = "foldl (\<lambda>r c. fst (add_child r c)) (r0 n m pid parent space name path) cs"
  let ?ys = "take n (first_occurrences cs)"
  have ih: "pc_children ?r = map Some ?ys @ replicate (n - length ?ys) None" "pc_child_count ?r = length ?ys"
    using snoc by auto
  note am = add_member_cases [OF ih(1), of c]
  consider (dup) "c \<in> set ?ys" | (full) "c \<notin> set ?ys" "n \<le> length (first_occurrences cs)"
    | (new) "c \<notin> set ?ys" "length (first_occurrences cs) < n" by linarith
  then show ?case
  proof cases
    case dup
    then have "c \<in> set cs" using set_take_subset [of n "first_occurrences cs"] by auto
    then have "first_occurrences (cs @ [c]) = first_occurrences cs" by (simp add: first_occurrences_snoc)
    with dup ih am show ?thesis by (simp add: add_child_def)
  next
    case full
    then have "take n (first_occurrences (cs @ [c])) = ?ys" by (simp add: first_occurrences_snoc)
    with full ih am show ?thesis by (simp add: add_child_def)
  next
    case new
    then have "c \<notin> set cs" by simp
    then have "take n (first_occurrences (cs @ [c])) = ?ys @ [c]" "length ?ys < n"
      using new by (simp_all add: first_occurrences_snoc)
    with new ih am show ?thesis by (simp add: add_child_def)
  qed
qed

text \<open>
  The children of a process record form a bounded set: after adding any list of children to a
  new record, with repetitions, the table holds the first \<open>n\<close> distinct ones in the order they came,
  and the counter is their number. A child that does not fit is refused without effect.
\<close>

theorem add_children_exact:
  "let r = foldl (\<lambda>r c. fst (add_child r c)) (process_record_new n m pid parent space name path) cs
   in slot_values (pc_children r) = take n (first_occurrences cs) \<and>
      pc_child_count r = length (take n (first_occurrences cs))"
proof -
  have "slot_values (map Some ys @ replicate k None) = ys" for ys :: "MtProcessId list" and k
  proof -
    have "slot_values (map Some ys) = ys" "slot_values (replicate k None :: MtProcessId slots) = []"
      by (induction ys; simp) (induction k; simp)
    then show ?thesis by simp
  qed
  with add_children_run [of n m pid parent space name path cs] show ?thesis by (auto simp: Let_def)
qed

section \<open>Life cycles\<close>

lemma transition_foldl_absorbing:
  assumes "\<And>x. \<not> valid st x \<or> x = st" and "\<And>t x. state (step t x) = (if valid (state t) x then x else state t)"
    and "state t = st"
  shows "state (foldl step t xs) = st"
  using assms(3)
proof (induction xs arbitrary: t)
  case (Cons x xs)
  have "state (step t x) = st" using assms(1) [of x] assms(2) [of t x] Cons.prems by auto
  then show ?case using Cons.IH by simp
qed simp

text \<open>
  The terminal states of the three life cycles are final under any sequence of attempted
  transitions: a dead thread stays dead, an exited task exited, a dead or failed process as it is.
\<close>

theorem terminal_states_final:
  "th_state (foldl (\<lambda>t x. fst (thread_transition t x)) (th\<lparr>th_state := ThreadDead\<rparr>) xs) = ThreadDead \<and>
   tk_state (foldl (\<lambda>t x. fst (task_transition t x)) (tk\<lparr>tk_state := TaskExited\<rparr>) ys) = TaskExited \<and>
   pc_state (foldl (\<lambda>p x. fst (process_transition p x)) (pc\<lparr>pc_state := ProcessDead\<rparr>) zs) = ProcessDead \<and>
   pc_state (foldl (\<lambda>p x. fst (process_transition p x)) (pc\<lparr>pc_state := ProcessFailed\<rparr>) zs) = ProcessFailed"
proof (intro conjI)
  show "th_state (foldl (\<lambda>t x. fst (thread_transition t x)) (th\<lparr>th_state := ThreadDead\<rparr>) xs) = ThreadDead"
    by (rule transition_foldl_absorbing [where valid = valid_thread_transition and state = th_state])
      (auto simp: thread_transition_def)
  show "tk_state (foldl (\<lambda>t x. fst (task_transition t x)) (tk\<lparr>tk_state := TaskExited\<rparr>) ys) = TaskExited"
    by (rule transition_foldl_absorbing [where valid = valid_task_transition and state = tk_state])
      (auto simp: task_transition_def)
  show "pc_state (foldl (\<lambda>p x. fst (process_transition p x)) (pc\<lparr>pc_state := ProcessDead\<rparr>) zs) = ProcessDead"
    by (rule transition_foldl_absorbing [where valid = valid_process_transition and state = pc_state])
      (auto simp: process_transition_def)
  show "pc_state (foldl (\<lambda>p x. fst (process_transition p x)) (pc\<lparr>pc_state := ProcessFailed\<rparr>) zs) = ProcessFailed"
    by (rule transition_foldl_absorbing [where valid = valid_process_transition and state = pc_state])
      (auto simp: process_transition_def)
qed

end
