(* ===== verification/Run_Queue.thy ===== *)
theory Run_Queue
  imports Mtss_Types Ring_Queue
begin

text \<open>
  The run queue of the multitasking subsystem,
  \<^verbatim>\<open>src/crates/mirage-mtss/src/run_queue.rs\<close>. \<open>MAX\<close> is the length of the slot array.

  Two readings of the queue are used. \<open>rq_strict\<close> holds as long as nothing is removed from the
  middle: the records form a gapless ring and the queue is a bounded first-in first-out list.
  \<open>rq_ok\<close> holds after every operation, removals included: the number of records is at most
  \<open>len\<close>, and the records are read in the order in which \<open>next\<close> would find them.
\<close>

section \<open>Schedule records\<close>

record ('t, 'p, 'q) MtssThreadScheduleRecord =
  sr_thread :: 't
  sr_process :: 'p
  sr_priority :: 'q
  sr_remaining_slice :: u8
  sr_slice_budget :: u8

definition schedule_record_new :: "'t \<Rightarrow> 'p \<Rightarrow> 'q \<Rightarrow> u8 \<Rightarrow> ('t, 'p, 'q) MtssThreadScheduleRecord" where
  "schedule_record_new thread process prio budget =
     \<lparr>sr_thread = thread, sr_process = process, sr_priority = prio, sr_remaining_slice = budget,
      sr_slice_budget = budget\<rparr>"

definition consume_time_slice ::
  "('t, 'p, 'q) MtssThreadScheduleRecord \<Rightarrow> ('t, 'p, 'q) MtssThreadScheduleRecord \<times> bool" where
  "consume_time_slice self =
     (let r = (if sr_remaining_slice self > 0
               then self\<lparr>sr_remaining_slice := sr_remaining_slice self - 1\<rparr> else self)
      in (r, sr_remaining_slice r = 0))"

definition reset_time_slice ::
  "('t, 'p, 'q) MtssThreadScheduleRecord \<Rightarrow> ('t, 'p, 'q) MtssThreadScheduleRecord" where
  "reset_time_slice self = self\<lparr>sr_remaining_slice := sr_slice_budget self\<rparr>"

section \<open>The queue\<close>

record 'r RunQueue =
  rq_queue :: "'r slots"
  rq_head :: nat
  rq_tail :: nat
  rq_len :: nat

definition rq_new :: "nat \<Rightarrow> 'r RunQueue" where
  "rq_new capacity = \<lparr>rq_queue = replicate capacity None, rq_head = 0, rq_tail = 0, rq_len = 0\<rparr>"

definition rq_reset :: "'r RunQueue \<Rightarrow> 'r RunQueue" where
  "rq_reset self =
     self\<lparr>rq_head := 0, rq_tail := 0, rq_len := 0, rq_queue := replicate (length (rq_queue self)) None\<rparr>"

definition rq_enqueue :: "'r RunQueue \<Rightarrow> 'r \<Rightarrow> ('r RunQueue, MtssError, unit) op_result" where
  "rq_enqueue self r =
     (if rq_len self = length (rq_queue self) then (self, Inl RunQueueFull)
      else (self\<lparr>rq_queue := (rq_queue self)[rq_tail self := Some r],
                 rq_tail := (rq_tail self + 1) mod length (rq_queue self),
                 rq_len := rq_len self + 1\<rparr>, ok_unit))"

definition rq_requeue :: "'r RunQueue \<Rightarrow> 'r \<Rightarrow> ('r RunQueue, MtssError, unit) op_result" where
  "rq_requeue self r = rq_enqueue self r"

text \<open>The search of \<open>next\<close>: \<open>k\<close> more slots to look at, the next one \<open>steps\<close> after the head.\<close>

fun scan_from :: "'r slots \<Rightarrow> nat \<Rightarrow> nat \<Rightarrow> nat \<Rightarrow> (nat \<times> 'r) option" where
  "scan_from queue head steps 0 = None"
| "scan_from queue head steps (Suc k) =
     (let idx = (head + steps) mod length queue in
      case queue ! idx of
        Some entry \<Rightarrow> Some (idx, entry)
      | None \<Rightarrow> scan_from queue head (Suc steps) k)"

definition rq_next :: "'r RunQueue \<Rightarrow> 'r RunQueue \<times> 'r option" where
  "rq_next self =
     (if rq_len self = 0 then (self, None)
      else case scan_from (rq_queue self) (rq_head self) 0 (length (rq_queue self)) of
        Some (idx, entry) \<Rightarrow>
          (self\<lparr>rq_queue := (rq_queue self)[idx := None], rq_len := rq_len self - 1,
                rq_head := (idx + 1) mod length (rq_queue self)\<rparr>, Some entry)
      | None \<Rightarrow> (self\<lparr>rq_head := 0, rq_tail := 0, rq_len := 0\<rparr>, None))"

definition rq_is_empty :: "'r RunQueue \<Rightarrow> bool" where
  "rq_is_empty self \<longleftrightarrow> rq_len self = 0"

definition remove_matching :: "'r RunQueue \<Rightarrow> ('r \<Rightarrow> bool) \<Rightarrow> 'r RunQueue \<times> nat" where
  "remove_matching self matches =
     (let removed = length (filter matches (slot_values (rq_queue self)))
      in (self\<lparr>rq_queue := clear_slots matches (rq_queue self), rq_len := rq_len self - removed\<rparr>, removed))"

definition contains_process :: "('t, 'p, 'q) MtssThreadScheduleRecord RunQueue \<Rightarrow> 'p \<Rightarrow> bool" where
  "contains_process self process \<longleftrightarrow> find_slot (\<lambda>e. sr_process e = process) (rq_queue self) \<noteq> None"

definition rq_remove_thread ::
  "('t, 'p, 'q) MtssThreadScheduleRecord RunQueue \<Rightarrow> 't \<Rightarrow> ('t, 'p, 'q) MtssThreadScheduleRecord RunQueue \<times> nat" where
  "rq_remove_thread self thread = remove_matching self (\<lambda>e. sr_thread e = thread)"

definition rq_remove_process ::
  "('t, 'p, 'q) MtssThreadScheduleRecord RunQueue \<Rightarrow> 'p \<Rightarrow> ('t, 'p, 'q) MtssThreadScheduleRecord RunQueue \<times> nat" where
  "rq_remove_process self process = remove_matching self (\<lambda>e. sr_process e = process)"

section \<open>Every reachable queue\<close>

definition rq_ok :: "'r RunQueue \<Rightarrow> bool" where
  "rq_ok q \<longleftrightarrow>
     (rq_queue q \<noteq> [] \<longrightarrow> rq_head q < length (rq_queue q) \<and> rq_tail q < length (rq_queue q)) \<and>
     occupied (rq_queue q) \<le> rq_len q \<and> rq_len q \<le> length (rq_queue q)"

text \<open>The records in the order of the search.\<close>

definition rq_records :: "'r RunQueue \<Rightarrow> 'r list" where
  "rq_records q = slot_values (map (ring_at (rq_queue q) (rq_head q)) [0..<length (rq_queue q)])"

datatype 'r rq_op = RqEnqueue 'r | RqRequeue 'r | RqNext | RqRemove "'r \<Rightarrow> bool" | RqReset

fun rq_exec :: "'r RunQueue \<Rightarrow> 'r rq_op \<Rightarrow> 'r RunQueue" where
  "rq_exec q (RqEnqueue r) = fst (rq_enqueue q r)"
| "rq_exec q (RqRequeue r) = fst (rq_requeue q r)"
| "rq_exec q RqNext = fst (rq_next q)"
| "rq_exec q (RqRemove P) = fst (remove_matching q P)"
| "rq_exec q RqReset = rq_reset q"

lemma set_rq_records:
  assumes "rq_ok q"
  shows "r \<in> set (rq_records q) \<longleftrightarrow> Some r \<in> set (rq_queue q)"
proof (cases "rq_queue q = []")
  case False
  let ?b = "rq_queue q" and ?h = "rq_head q"
  have n: "0 < length ?b" using False by simp
  have "Some r \<in> ring_at ?b ?h ` {0..<length ?b} \<longleftrightarrow> Some r \<in> set ?b"
  proof
    assume "Some r \<in> set ?b"
    then obtain j where j: "j < length ?b" "?b ! j = Some r" by (auto simp: in_set_conv_nth)
    let ?i = "(j + (length ?b - ?h)) mod length ?b"
    have h: "?h < length ?b" using assms False by (simp add: rq_ok_def)
    have "(?h + ?i) mod length ?b = (?h + (j + (length ?b - ?h))) mod length ?b" by (rule mod_add_right_eq)
    also have "\<dots> = j" using h j(1) by simp
    finally have "ring_at ?b ?h ?i = Some r" using j(2) by (simp add: ring_at_def)
    moreover have "?i < length ?b" using n by simp
    ultimately show "Some r \<in> ring_at ?b ?h ` {0..<length ?b}" by (metis atLeast0LessThan imageI lessThan_iff)
  next
    assume "Some r \<in> ring_at ?b ?h ` {0..<length ?b}"
    then obtain x where x: "?b ! ((?h + x) mod length ?b) = Some r" by (auto simp: ring_at_def)
    have "(?h + x) mod length ?b < length ?b" using n by simp
    from nth_mem [OF this] show "Some r \<in> set ?b" by (simp add: x)
  qed
  then show ?thesis by (simp add: rq_records_def)
qed (simp add: rq_records_def)

lemma slot_values_empty_iff: "slot_values xs = [] \<longleftrightarrow> (\<forall>r. Some r \<notin> set xs)"
  by (induction xs) (auto simp: slot_values_def split: option.splits)

lemma no_records: "rq_ok q \<Longrightarrow> slot_values (rq_queue q) = [] \<Longrightarrow> rq_records q = []"
  using set_rq_records [of q] by (simp add: slot_values_empty_iff) (metis list.set_intros(1) neq_Nil_conv)

text \<open>The search finds the first record and the slots before it are empty.\<close>

lemma scan_from_spec:
  "scan_from b h s k =
     (case find (\<lambda>i. ring_at b h i \<noteq> None) [s..<s + k] of
        None \<Rightarrow> None
      | Some i \<Rightarrow> Some ((h + i) mod length b, the (ring_at b h i)))"
proof (induction k arbitrary: s)
  case (Suc k)
  have "[s..<s + Suc k] = s # [Suc s..<Suc s + k]" by (simp add: upt_conv_Cons)
  then show ?case
    using Suc.IH [of "Suc s"] by (cases "ring_at b h s") (simp_all add: ring_at_def Let_def)
qed simp

lemma find_upt_split:
  assumes "find P [0..<n] = Some i"
  shows "i < n" "P i" "[0..<n] = [0..<i] @ i # [Suc i..<n]" "\<forall>j < i. \<not> P j"
proof -
  from assms obtain k where k: "k < length [0..<n]" "P ([0..<n] ! k)" "i = [0..<n] ! k"
    "\<forall>j < k. \<not> P ([0..<n] ! j)" by (auto simp: find_Some_iff)
  then have "k = i" by simp
  then show "i < n" "P i" "\<forall>j < i. \<not> P j" using k by auto
  then show "[0..<n] = [0..<i] @ i # [Suc i..<n]"
    using upt_add_eq_append [of 0 i "n - i"] by (simp add: upt_conv_Cons [symmetric])
qed

lemma slot_values_map_None: "(\<And>x. x \<in> set xs \<Longrightarrow> f x = None) \<Longrightarrow> slot_values (map f xs) = []"
  by (induction xs) simp_all

lemma find_None_records:
  "find (\<lambda>i. f i \<noteq> None) xs = None \<longleftrightarrow> slot_values (map f xs) = []"
  by (induction xs) (auto simp: slot_values_def)

lemma ring_at_period: "ring_at b h (i + length b) = ring_at b h i"
  by (simp add: ring_at_def add.assoc [symmetric])

lemma records_after_take:
  fixes b :: "'a slots"
  assumes n: "i < length b" and before: "\<forall>j < i. ring_at b h j = None"
  defines "b' \<equiv> b[(h + i) mod length b := None]"
  shows "slot_values (map (ring_at b' (((h + i) mod length b + 1) mod length b)) [0..<length b]) =
    slot_values (map (ring_at b h) [Suc i..<length b])"
proof -
  let ?n = "length b" and ?h' = "((h + i) mod length b + 1) mod length b"
  have upd: "ring_at b' h j = (if i = j then None else ring_at b h j)" if "j < ?n" for j
    unfolding b'_def using n that by (rule ring_at_update)
  have shift: "ring_at b' ?h' j = ring_at b' h (j + Suc i)" for j
  proof -
    have "(?h' + j) mod ?n = (h + (j + Suc i)) mod ?n" by (simp add: mod_simps ac_simps)
    then show ?thesis by (simp add: ring_at_def b'_def)
  qed
  have "map (ring_at b' ?h') [0..<?n] = map (ring_at b' h) (map (\<lambda>j. j + Suc i) [0..<?n])"
    unfolding map_map o_def by (rule map_cong [OF refl shift])
  also have "map (\<lambda>j. j + Suc i) [0..<?n] = [Suc i..<?n + Suc i]" by (rule map_add_upt)
  also have "\<dots> = [Suc i..<?n] @ [?n..<?n + Suc i]"
    using n by (metis Suc_leI upt_add_eq_append)
  finally have eq: "map (ring_at b' ?h') [0..<?n] = map (ring_at b' h) [Suc i..<?n] @ map (ring_at b' h) [?n..<?n + Suc i]"
    by simp
  have "ring_at b' h j = None" if "j \<in> set [?n..<?n + Suc i]" for j
  proof -
    define k where "k = j - ?n"
    have k: "j = k + ?n" "k \<le> i" using that by (auto simp: k_def)
    then have "ring_at b' h j = ring_at b' h k" using ring_at_period [of b' h k] by (simp add: b'_def)
    then show ?thesis using upd [of k] k(2) n before by auto
  qed
  then have "slot_values (map (ring_at b' h) [?n..<?n + Suc i]) = []" by (rule slot_values_map_None)
  moreover have "map (ring_at b' h) [Suc i..<?n] = map (ring_at b h) [Suc i..<?n]"
    by (rule map_cong) (simp_all add: upd)
  ultimately show ?thesis by (simp only: eq slot_values_simps append_Nil2)
qed

lemma rq_next_cases:
  assumes ok: "rq_ok q"
  obtains (empty) q' where "rq_next q = (q', None)" "rq_records q = []" "rq_records q' = []" "rq_ok q'"
      "length (rq_queue q') = length (rq_queue q)" "set (rq_queue q') \<subseteq> set (rq_queue q)"
    | (taken) q' r where "rq_next q = (q', Some r)" "rq_records q = r # rq_records q'" "rq_ok q'"
      "length (rq_queue q') = length (rq_queue q)" "rq_len q = Suc (rq_len q')"
proof -
  let ?b = "rq_queue q" and ?h = "rq_head q"
  consider (zero) "rq_len q = 0"
    | (none) "rq_len q \<noteq> 0" "find (\<lambda>i. ring_at ?b ?h i \<noteq> None) [0..<length ?b] = None"
    | (found) i where "rq_len q \<noteq> 0" "find (\<lambda>i. ring_at ?b ?h i \<noteq> None) [0..<length ?b] = Some i"
    by (cases "rq_len q = 0"; cases "find (\<lambda>i. ring_at ?b ?h i \<noteq> None) [0..<length ?b]") auto
  then show thesis
  proof cases
    case zero
    then have "slot_values ?b = []" using ok by (simp add: rq_ok_def occupied_def)
    then have "rq_records q = []" by (rule no_records [OF ok])
    with zero ok show thesis by (intro empty [of q]) (simp_all add: rq_next_def)
  next
    case none
    let ?q = "q\<lparr>rq_head := 0, rq_tail := 0, rq_len := 0\<rparr>"
    have rec: "rq_records q = []" using none(2) by (simp only: rq_records_def find_None_records)
    then have "Some r \<notin> set ?b" for r using set_rq_records [OF ok, of r] by simp
    then have no: "slot_values ?b = []" by (simp add: slot_values_empty_iff)
    then have ok': "rq_ok ?q" using ok by (simp add: rq_ok_def occupied_def)
    then have "rq_records ?q = []" using no by (intro no_records) simp_all
    moreover have "scan_from ?b ?h 0 (length ?b) = None" unfolding scan_from_spec add_0 none(2) by simp
    then have "rq_next q = (?q, None)" using none(1) by (simp add: rq_next_def)
    ultimately show thesis using rec ok' by (intro empty [of ?q]) simp_all
  next
    case (found i)
    note sp = find_upt_split [OF found(2)]
    let ?x = "(?h + i) mod length ?b"
    obtain r where r: "ring_at ?b ?h i = Some r" using sp(2) by auto
    let ?q = "q\<lparr>rq_queue := ?b[?x := None], rq_len := rq_len q - 1, rq_head := (?x + 1) mod length ?b\<rparr>"
    have n: "0 < length ?b" using sp(1) by linarith
    have x: "?x < length ?b" "?b ! ?x = Some r" using n r by (simp_all add: ring_at_def)
    have "scan_from ?b ?h 0 (length ?b) = Some (?x, r)"
      unfolding scan_from_spec add_0 found(2) by (simp add: r)
    then have nx: "rq_next q = (?q, Some r)" using found(1) by (simp add: rq_next_def)
    have "rq_records q = slot_values (map (ring_at ?b ?h) [0..<i]) @ r # slot_values (map (ring_at ?b ?h) [Suc i..<length ?b])"
      unfolding rq_records_def by (subst sp(3)) (simp add: r)
    also have "slot_values (map (ring_at ?b ?h) [0..<i]) = []"
      using sp(4) by (intro slot_values_map_None) simp
    also have "slot_values (map (ring_at ?b ?h) [Suc i..<length ?b]) = rq_records ?q"
      using records_after_take [OF sp(1), of ?h] sp(4) by (simp add: rq_records_def)
    finally have rec: "rq_records q = r # rq_records ?q" by simp
    have "occupied (?b[?x := None]) + 1 = occupied ?b" using occupied_update [OF x(1), of None] x(2) by simp
    moreover have "occupied ?b \<le> rq_len q" "rq_len q \<le> length ?b" "rq_tail q < length ?b"
      using ok n by (auto simp: rq_ok_def)
    ultimately have "occupied (?b[?x := None]) \<le> rq_len q - 1" "rq_len q - 1 \<le> length ?b"
      by linarith+
    then have ok': "rq_ok ?q" using \<open>rq_tail q < length ?b\<close> n by (simp add: rq_ok_def)
    show thesis by (rule taken [OF nx rec ok']) (use found(1) in simp_all)
  qed
qed


lemma rq_enqueue_cases:
  assumes ok: "rq_ok q"
  obtains (full) "rq_len q = length (rq_queue q)" "rq_enqueue q r = (q, Inl RunQueueFull)"
    | (queued) q' where "rq_enqueue q r = (q', ok_unit)" "rq_ok q'" "rq_len q' = Suc (rq_len q)"
      "length (rq_queue q') = length (rq_queue q)" "rq_len q < length (rq_queue q)"
      "rq_queue q' = (rq_queue q)[rq_tail q := Some r]" "rq_tail q < length (rq_queue q)"
proof (cases "rq_len q = length (rq_queue q)")
  case True
  then show thesis by (intro full) (simp_all add: rq_enqueue_def)
next
  case False
  let ?b = "rq_queue q"
  let ?q = "q\<lparr>rq_queue := ?b[rq_tail q := Some r], rq_tail := (rq_tail q + 1) mod length ?b, rq_len := rq_len q + 1\<rparr>"
  have lt: "rq_len q < length ?b" "occupied ?b \<le> rq_len q" using ok False by (simp_all add: rq_ok_def)
  then have ne: "?b \<noteq> []" by auto
  then have t: "rq_tail q < length ?b" "rq_head q < length ?b" using ok by (simp_all add: rq_ok_def)
  have "occupied (?b[rq_tail q := Some r]) \<le> Suc (occupied ?b)"
    using occupied_update [OF t(1), of "Some r"] by simp
  then have "rq_ok ?q" using lt ne t by (simp add: rq_ok_def)
  moreover have "rq_enqueue q r = (?q, ok_unit)" using False by (simp add: rq_enqueue_def)
  ultimately show thesis using lt(1) t(1) by (intro queued [of ?q]) simp_all
qed

lemma filter_length_compl: "length (filter (\<lambda>x. \<not> P x) xs) = length xs - length (filter P xs)"
  using sum_length_filter_compl [of P xs] by simp

lemma remove_matching_ok:
  assumes ok: "rq_ok q"
  shows "rq_ok (fst (remove_matching q P))"
    and "rq_records (fst (remove_matching q P)) = filter (\<lambda>r. \<not> P r) (rq_records q)"
proof -
  let ?b = "rq_queue q" and ?h = "rq_head q"
  have "occupied (clear_slots P ?b) \<le> rq_len q - length (filter P (slot_values ?b))"
    using ok by (simp add: occupied_def slot_values_clear filter_length_compl rq_ok_def diff_le_mono)
  then show "rq_ok (fst (remove_matching q P))"
    using ok by (auto simp: remove_matching_def Let_def rq_ok_def) (simp_all add: clear_slots_def)
  have "map (ring_at (clear_slots P ?b) ?h) [0..<length ?b] = clear_slots P (map (ring_at ?b ?h) [0..<length ?b])"
    by (cases "?b = []") (simp_all add: clear_slots_def ring_at_def)
  then show "rq_records (fst (remove_matching q P)) = filter (\<lambda>r. \<not> P r) (rq_records q)"
    by (simp add: remove_matching_def Let_def rq_records_def slot_values_clear)
qed

lemma rq_exec_ok:
  assumes "rq_ok q"
  shows "rq_ok (rq_exec q op)"
proof (cases op)
  case (RqEnqueue r)
  from assms show ?thesis by (cases rule: rq_enqueue_cases [where r = r]) (use assms in \<open>simp_all add: RqEnqueue\<close>)
next
  case (RqRequeue r)
  from assms show ?thesis
    by (cases rule: rq_enqueue_cases [where r = r]) (use assms in \<open>simp_all add: RqRequeue rq_requeue_def\<close>)
next
  case RqNext
  from assms show ?thesis by (cases rule: rq_next_cases) (simp_all add: RqNext)
next
  case (RqRemove P)
  with assms show ?thesis by (simp add: remove_matching_ok)
next
  case RqReset
  with assms show ?thesis by (auto simp: rq_ok_def rq_reset_def occupied_def slot_values_empty_iff)
qed

lemma rq_ok_new: "rq_ok (rq_new n)"
  by (auto simp: rq_ok_def rq_new_def occupied_def slot_values_def map_filter_def)

lemma rq_exec_run_ok: "rq_ok (foldl rq_exec (rq_new n) ops)"
  by (induction ops rule: rev_induct) (simp_all add: rq_ok_new rq_exec_ok)

text \<open>
  (C38) What a scheduler can rely on in every reachable run queue, removals included: \<open>next\<close> returns
  the first record in search order and takes nothing else, and it returns nothing exactly when no
  record is left; a removal drops exactly the matching records and keeps the order of the others;
  and the queue never counts fewer records than it holds.
\<close>

theorem run_queue_search:
  "let q = foldl rq_exec (rq_new n) ops in
     (case rq_next q of
        (q', None) \<Rightarrow> rq_records q = [] \<and> rq_records q' = []
      | (q', Some r) \<Rightarrow> rq_records q = r # rq_records q') \<and>
     rq_records (fst (remove_matching q P)) = filter (\<lambda>r. \<not> P r) (rq_records q) \<and>
     length (slot_values (rq_queue q)) \<le> rq_len q \<and> rq_len q \<le> length (rq_queue q)"
proof -
  let ?q = "foldl rq_exec (rq_new n) ops"
  note ok = rq_exec_run_ok [of n ops]
  have "length (slot_values (rq_queue ?q)) \<le> rq_len ?q \<and> rq_len ?q \<le> length (rq_queue ?q)"
    using ok by (simp add: rq_ok_def occupied_def)
  moreover have "case rq_next ?q of
        (q', None) \<Rightarrow> rq_records ?q = [] \<and> rq_records q' = []
      | (q', Some r) \<Rightarrow> rq_records ?q = r # rq_records q'"
    using ok by (cases rule: rq_next_cases) simp_all
  ultimately show ?thesis using remove_matching_ok(2) [OF ok, of P] by (simp only: Let_def)
qed

section \<open>Without removals the queue is first-in first-out\<close>

definition rq_strict :: "'r RunQueue \<Rightarrow> bool" where
  "rq_strict q \<longleftrightarrow> ring_ok (rq_queue q) (rq_head q) (rq_len q) \<and>
     (rq_queue q \<noteq> [] \<longrightarrow> rq_tail q = (rq_head q + rq_len q) mod length (rq_queue q))"

definition rq_contents :: "'r RunQueue \<Rightarrow> 'r list" where
  "rq_contents q = ring_contents (rq_queue q) (rq_head q) (rq_len q)"

lemma rq_strict_new: "rq_strict (rq_new n)" "rq_contents (rq_new n) = []"
  by (simp_all add: rq_strict_def rq_new_def rq_contents_def)

lemma rq_strict_enqueue:
  assumes q: "rq_strict q" and lt: "rq_len q < length (rq_queue q)"
  shows "\<exists>q'. rq_enqueue q r = (q', ok_unit) \<and> rq_strict q' \<and> rq_contents q' = rq_contents q @ [r] \<and>
    length (rq_queue q') = length (rq_queue q)"
proof -
  let ?b = "rq_queue q"
  have ring: "ring_ok ?b (rq_head q) (rq_len q)" using q by (simp add: rq_strict_def)
  have t: "rq_tail q = (rq_head q + rq_len q) mod length ?b" using q lt by (auto simp: rq_strict_def)
  note push = ring_push [OF ring lt, of r]
  show ?thesis
    using lt push by (simp add: rq_enqueue_def t rq_strict_def rq_contents_def mod_Suc_eq)
qed

lemma rq_strict_next:
  assumes q: "rq_strict q" and ne: "rq_len q \<noteq> 0"
  shows "\<exists>q'. rq_next q = (q', Some (hd (rq_contents q))) \<and> rq_strict q' \<and> rq_contents q' = tl (rq_contents q) \<and>
    length (rq_queue q') = length (rq_queue q)"
proof -
  let ?b = "rq_queue q" and ?h = "rq_head q"
  have ring: "ring_ok ?b ?h (rq_len q)" using q by (simp add: rq_strict_def)
  have n: "0 < length ?b" "?h < length ?b" using ring_okD(1,2) [OF ring] ne by fastforce+
  note pop = ring_pop [OF ring] and hd = ring_head [OF ring]
  obtain k where k: "length ?b = Suc k" using n(1) by (cases "length ?b") auto
  have "scan_from ?b ?h 0 (length ?b) = Some (?h, hd (rq_contents q))"
    using hd ne n(2) by (subst k) (simp add: rq_contents_def Let_def)
  then have nx: "rq_next q = (q\<lparr>rq_queue := ?b[?h := None], rq_len := rq_len q - 1, rq_head := Suc ?h mod length ?b\<rparr>,
      Some (hd (rq_contents q)))" (is "_ = (?q, _)")
    using ne by (simp add: rq_next_def)
  have "rq_tail q = (?h + rq_len q) mod length ?b" using q n by (auto simp: rq_strict_def)
  also have "\<dots> = (Suc ?h mod length ?b + (rq_len q - 1)) mod length ?b"
    by (rule ring_tail_pop [symmetric]) (use ne in simp)
  finally have tail: "rq_tail q = (Suc ?h mod length ?b + (rq_len q - 1)) mod length ?b" .
  have "rq_strict ?q \<longleftrightarrow> ring_ok (?b[?h := None]) (Suc ?h mod length ?b) (rq_len q - 1) \<and>
      (?b \<noteq> [] \<longrightarrow> rq_tail q = (Suc ?h mod length ?b + (rq_len q - 1)) mod length ?b)"
    by (simp add: rq_strict_def)
  then have "rq_strict ?q" using pop(1) ne tail by blast
  moreover have "rq_contents ?q = tl (rq_contents q)" using pop(2) ne by (simp add: rq_contents_def)
  ultimately show ?thesis using nx by (intro exI [of _ ?q]) simp
qed

interpretation rq: bounded_queue rq_enqueue rq_next rq_contents "\<lambda>q. length (rq_queue q)" rq_strict
proof
  fix q :: "'a RunQueue" and r
  assume q: "rq_strict q" and "length (rq_queue q) \<le> length (rq_contents q)"
  then have "rq_len q = length (rq_queue q)"
    using ring_okD(1) [of "rq_queue q" "rq_head q" "rq_len q"] by (simp add: rq_strict_def rq_contents_def)
  then show "\<exists>e. rq_enqueue q r = (q, Inl e)" by (simp add: rq_enqueue_def)
next
  fix q :: "'a RunQueue" and r
  assume "rq_strict q" and "length (rq_contents q) < length (rq_queue q)"
  then show "\<exists>q'. rq_enqueue q r = (q', Inr ()) \<and> rq_strict q' \<and> rq_contents q' = rq_contents q @ [r] \<and>
      length (rq_queue q') = length (rq_queue q)"
    using rq_strict_enqueue [of q r] by (auto simp: rq_contents_def)
next
  fix q :: "'a RunQueue"
  assume "rq_contents q = []"
  then have "rq_len q = 0" by (metis rq_contents_def length_ring_contents list.size(3))
  then show "rq_next q = (q, None)" by (simp add: rq_next_def)
next
  fix q :: "'a RunQueue" and r rs
  assume "rq_strict q" and c: "rq_contents q = r # rs"
  moreover from c have "rq_len q \<noteq> 0" by (metis rq_contents_def length_ring_contents list.size(3) list.distinct(1) length_0_conv)
  ultimately show "\<exists>q'. rq_next q = (q', Some r) \<and> rq_strict q' \<and> rq_contents q' = rs \<and>
      length (rq_queue q') = length (rq_queue q)"
    using rq_strict_next [of q] by auto
qed

text \<open>
  As long as no thread is removed from the middle, the run queue is round robin: every
  sequence of \<open>enqueue\<close> and \<open>next\<close> gives the results and the contents of a bounded first-in
  first-out list.
\<close>

theorem run_queue_fifo:
  assumes "run_queue_ops rq_enqueue rq_next (rq_new n) ops = (q, outs)"
  shows "run_list_queue n [] ops = (rq_contents q, outs)"
  using rq.run_refines [OF rq_strict_new(1) assms] by (simp add: rq_strict_new(2)) (simp add: rq_new_def)

theorem run_queue_fifo_witness:
  "\<exists>q. run_queue_ops rq_enqueue rq_next (rq_new 2) [Push (7::nat), Push 8, Push 9, Pop, Push 9, Pop] =
     (q, [Pushed True, Pushed True, Pushed False, Popped (Some 7), Pushed True, Popped (Some 8)]) \<and> rq_contents q = [9]"
proof -
  obtain q outs where run: "run_queue_ops rq_enqueue rq_next (rq_new 2)
      [Push (7::nat), Push 8, Push 9, Pop, Push 9, Pop] = (q, outs)" by (metis surj_pair)
  from run_queue_fifo [OF run] run show ?thesis by auto
qed

text \<open>
  A removal in the middle breaks the ring: the slot at the tail may then hold a live record although
  \<open>len\<close> is below the capacity, and \<open>enqueue\<close> overwrites it. With three slots, after queueing 1, 2
  and 3 and removing 2, queueing 4 succeeds and drops 1.
\<close>

theorem enqueue_after_remove_loses_record:
  "let q = foldl rq_exec (rq_new 3) [RqEnqueue (1::nat), RqEnqueue 2, RqEnqueue 3, RqRemove (\<lambda>r. r = 2)]
   in rq_records q = [1, 3] \<and> rq_len q = 2 \<and> snd (rq_enqueue q 4) = Inr () \<and>
      rq_records (fst (rq_enqueue q 4)) = [4, 3]"
  by code_simp

end
