(* ===== verification/Mtss.thy ===== *)
theory Mtss
  imports Run_Queue
begin

text \<open>
  The scheduler facade of the multitasking subsystem, \<^verbatim>\<open>src/crates/mirage-mtss/src/mtss.rs\<close>:
  the task and thread tables, the run queue, the current thread and the event ring, with every
  operation of \<open>impl Mtss\<close>. The four table sizes are the lengths of the lists.

  A borrow \<open>let x = self.thread_mut(id)?; ..\<close> is \<open>thread_apply\<close>: the body of the block is a function
  on the thread record, and the table is written back with what the body leaves, on its error path
  too. \<open>task_apply\<close> is the same for \<open>task_mut\<close>.
\<close>

section \<open>Configuration and state\<close>

record MtssConfig =
  cfg_cpu :: CpuId
  cfg_initial_time :: Timestamp
  cfg_default_timeslice :: Timeslice

definition config_new :: "CpuId \<Rightarrow> MtssConfig" where
  "config_new cpu = \<lparr>cfg_cpu = cpu, cfg_initial_time = 0, cfg_default_timeslice = 4\<rparr>"

definition with_initial_time :: "MtssConfig \<Rightarrow> Timestamp \<Rightarrow> MtssConfig" where
  "with_initial_time self t = self\<lparr>cfg_initial_time := t\<rparr>"

definition with_default_timeslice :: "MtssConfig \<Rightarrow> Timeslice \<Rightarrow> MtssConfig" where
  "with_default_timeslice self ts = self\<lparr>cfg_default_timeslice := ts\<rparr>"

definition config_default :: MtssConfig where
  "config_default = config_new 0"

record MtssHandle =
  mh_task :: TaskId
  mh_thread :: "MtThreadId option"

definition handle_task :: "TaskId \<Rightarrow> MtssHandle" where
  "handle_task task = \<lparr>mh_task = task, mh_thread = None\<rparr>"

definition handle_thread :: "TaskId \<Rightarrow> MtThreadId \<Rightarrow> MtssHandle" where
  "handle_thread task thread = \<lparr>mh_task = task, mh_thread = Some thread\<rparr>"

type_synonym SchedRecord = "(MtThreadId, TaskId, Priority) MtssThreadScheduleRecord"

record Mtss =
  mt_config :: MtssConfig
  mt_now :: Timestamp
  mt_current :: "MtThreadId option"
  mt_tasks :: "Task slots"
  mt_threads :: "Thread slots"
  mt_run_queue :: "SchedRecord RunQueue"
  mt_stats :: MtssStats
  mt_need_resched :: bool
  mt_events :: "MtssEvent slots"
  mt_event_head :: nat
  mt_event_len :: nat
  mt_dropped_events :: u64

definition mtss_new :: "nat \<Rightarrow> nat \<Rightarrow> nat \<Rightarrow> nat \<Rightarrow> MtssConfig \<Rightarrow> Mtss" where
  "mtss_new max_tasks max_threads run_queue_depth event_queue_depth config =
     \<lparr>mt_config = config, mt_now = cfg_initial_time config, mt_current = None,
      mt_tasks = replicate max_tasks None, mt_threads = replicate max_threads None,
      mt_run_queue = rq_new run_queue_depth, mt_stats = mtss_stats_new, mt_need_resched = False,
      mt_events = replicate event_queue_depth None, mt_event_head = 0, mt_event_len = 0,
      mt_dropped_events = 0\<rparr>"

section \<open>Events\<close>

definition emit :: "Mtss \<Rightarrow> MtssEvent \<Rightarrow> Mtss" where
  "emit self event =
     (if length (mt_events self) = 0
      then self\<lparr>mt_dropped_events := saturating_add (mt_dropped_events self) 1\<rparr>
      else if mt_event_len self = length (mt_events self)
      then self\<lparr>mt_events := (mt_events self)[mt_event_head self := Some event],
                mt_event_head := (mt_event_head self + 1) mod length (mt_events self),
                mt_dropped_events := saturating_add (mt_dropped_events self) 1\<rparr>
      else let tail = (mt_event_head self + mt_event_len self) mod length (mt_events self)
           in self\<lparr>mt_events := (mt_events self)[tail := Some event],
                   mt_event_len := mt_event_len self + 1\<rparr>)"

definition drain_event :: "Mtss \<Rightarrow> Mtss \<times> MtssEvent option" where
  "drain_event self =
     (if mt_event_len self = 0 then (self, None)
      else (self\<lparr>mt_events := (mt_events self)[mt_event_head self := None],
                 mt_event_head := (mt_event_head self + 1) mod length (mt_events self),
                 mt_event_len := mt_event_len self - 1\<rparr>,
            mt_events self ! mt_event_head self))"

text \<open>The sink is any state with a function that records an event in it.\<close>

function drain_events_to :: "('k \<Rightarrow> MtssEvent \<Rightarrow> 'k) \<Rightarrow> Mtss \<Rightarrow> 'k \<Rightarrow> nat \<Rightarrow> Mtss \<times> 'k \<times> nat" where
  "drain_events_to record_mtss_event self sink drained =
     (case drain_event self of
        (self', Some event) \<Rightarrow>
          drain_events_to record_mtss_event self' (record_mtss_event sink event) (drained + 1)
      | (self', None) \<Rightarrow> (self', sink, drained))"
  by pat_completeness auto
termination
  by (relation "measure (\<lambda>(_, self, _, _). mt_event_len self)")
    (auto simp: drain_event_def split: if_splits)

section \<open>Table access\<close>

definition find_task_index :: "Mtss \<Rightarrow> TaskId \<Rightarrow> nat option" where
  "find_task_index self task = find_slot (\<lambda>e. tk_id e = task) (mt_tasks self)"

definition find_thread_index :: "Mtss \<Rightarrow> MtThreadId \<Rightarrow> nat option" where
  "find_thread_index self thread = find_slot (\<lambda>e. th_id e = thread) (mt_threads self)"

definition free_task_slot :: "Mtss \<Rightarrow> nat option" where
  "free_task_slot self = free_slot (mt_tasks self)"

definition free_thread_slot :: "Mtss \<Rightarrow> nat option" where
  "free_thread_slot self = free_slot (mt_threads self)"

definition get_thread :: "Mtss \<Rightarrow> MtThreadId \<Rightarrow> MtssError + Thread" where
  "get_thread self thread =
     (case find_thread_index self thread of
        None \<Rightarrow> Inl InvalidThread
      | Some idx \<Rightarrow> ok_or InvalidThread (mt_threads self ! idx))"

definition thread_apply ::
  "Mtss \<Rightarrow> MtThreadId \<Rightarrow> (Thread \<Rightarrow> (Thread, MtssError, 'a) op_result) \<Rightarrow> (Mtss, MtssError, 'a) op_result" where
  "thread_apply self thread f =
     (case find_thread_index self thread of
        None \<Rightarrow> (self, Inl InvalidThread)
      | Some idx \<Rightarrow>
          (case mt_threads self ! idx of
             None \<Rightarrow> (self, Inl InvalidThread)
           | Some th \<Rightarrow>
               (case f th of (th', r) \<Rightarrow> (self\<lparr>mt_threads := (mt_threads self)[idx := Some th']\<rparr>, r))))"

definition task_apply ::
  "Mtss \<Rightarrow> TaskId \<Rightarrow> (Task \<Rightarrow> (Task, MtssError, 'a) op_result) \<Rightarrow> (Mtss, MtssError, 'a) op_result" where
  "task_apply self task f =
     (case find_task_index self task of
        None \<Rightarrow> (self, Inl InvalidTask)
      | Some idx \<Rightarrow>
          (case mt_tasks self ! idx of
             None \<Rightarrow> (self, Inl InvalidTask)
           | Some tk \<Rightarrow>
               (case f tk of (tk', r) \<Rightarrow> (self\<lparr>mt_tasks := (mt_tasks self)[idx := Some tk']\<rparr>, r))))"

definition with_task_mut :: "Mtss \<Rightarrow> TaskId \<Rightarrow> (Task \<Rightarrow> Task) \<Rightarrow> (Mtss, MtssError, unit) op_result" where
  "with_task_mut self task f = task_apply self task (\<lambda>tk. (f tk, ok_unit))"

definition with_task_mut_for_thread ::
  "Mtss \<Rightarrow> MtThreadId \<Rightarrow> (Task \<Rightarrow> Task) \<Rightarrow> (Mtss, MtssError, unit) op_result" where
  "with_task_mut_for_thread self thread f =
     (case get_thread self thread of
        Inl e \<Rightarrow> (self, Inl e)
      | Inr th \<Rightarrow> with_task_mut self (th_task th) f)"

definition ensure_run_queue_capacity :: "Mtss \<Rightarrow> MtssError + unit" where
  "ensure_run_queue_capacity self =
     (if rq_len (mt_run_queue self) = length (rq_queue (mt_run_queue self)) then Inl RunQueueFull else ok_unit)"

definition any_schedulable_thread :: "Mtss \<Rightarrow> TaskId \<Rightarrow> bool" where
  "any_schedulable_thread self task \<longleftrightarrow>
     find_slot (\<lambda>th. th_task th = task \<and> thread_may_schedule (th_state th)) (mt_threads self) \<noteq> None"

definition unschedule_thread :: "Mtss \<Rightarrow> MtThreadId \<Rightarrow> Mtss" where
  "unschedule_thread self thread =
     (let s = self\<lparr>mt_run_queue := fst (rq_remove_thread (mt_run_queue self) thread)\<rparr>
      in if mt_current s = Some thread then s\<lparr>mt_current := None\<rparr> else s)"

definition validate_thread_destination :: "ThreadState \<Rightarrow> ThreadState \<Rightarrow> MtssError + unit" where
  "validate_thread_destination src dst =
     (if valid_thread_transition src dst then ok_unit else Inl (InvalidThreadTransition src dst))"

definition timeslice_budget_u8 :: "Timeslice \<Rightarrow> u8" where
  "timeslice_budget_u8 ts = (if ts = 0 then 1 else if ts > 255 then 255 else ucast ts)"

definition schedule_record :: "Thread \<Rightarrow> SchedRecord" where
  "schedule_record th =
     schedule_record_new (th_id th) (th_task th) (th_priority th) (timeslice_budget_u8 (th_timeslice th))"

definition run_enqueue :: "Mtss \<Rightarrow> SchedRecord \<Rightarrow> (Mtss, MtssError, unit) op_result" where
  "run_enqueue self r =
     (case rq_enqueue (mt_run_queue self) r of (q, res) \<Rightarrow> (self\<lparr>mt_run_queue := q\<rparr>, res))"

definition emit_thread :: "Mtss \<Rightarrow> MtssEventKind \<Rightarrow> TaskId \<Rightarrow> MtThreadId \<Rightarrow> Mtss" where
  "emit_thread self kind task thread =
     emit self (event_thread kind task thread (Some (cfg_cpu (mt_config self))) (mt_now self))"

definition emit_task :: "Mtss \<Rightarrow> MtssEventKind \<Rightarrow> TaskId \<Rightarrow> Mtss" where
  "emit_task self kind task = emit self (event_task kind task (mt_now self))"

definition count_stat :: "(MtssStats \<Rightarrow> MtssStats) \<Rightarrow> Mtss \<Rightarrow> Mtss" where
  "count_stat f self = self\<lparr>mt_stats := f (mt_stats self)\<rparr>"

section \<open>Creating tasks and threads\<close>

definition create_task ::
  "Mtss \<Rightarrow> TaskId \<Rightarrow> TaskId option \<Rightarrow> AddressSpaceId \<Rightarrow> Priority \<Rightarrow> (Mtss, MtssError, MtssHandle) op_result"
where
  "create_task self tid parent space prio =
     (if find_task_index self tid \<noteq> None then (self, Inl InvalidTask)
      else case free_task_slot self of
        None \<Rightarrow> (self, Inl TaskTableFull)
      | Some slot \<Rightarrow>
          (case task_admit (task_new tid parent space prio) of
             (_, Inl e) \<Rightarrow> (self, Inl e)
           | (task, Inr _) \<Rightarrow>
               (emit_task (count_stat with_task_admission
                  (self\<lparr>mt_tasks := (mt_tasks self)[slot := Some task]\<rparr>)) EvTaskCreated tid,
                Inr (handle_task tid))))"

definition create_thread ::
  "Mtss \<Rightarrow> TaskId \<Rightarrow> MtThreadId \<Rightarrow> Priority \<Rightarrow> (Mtss, MtssError, MtssHandle) op_result" where
  "create_thread self task thread prio =
     (if find_thread_index self thread \<noteq> None then (self, Inl InvalidThread)
      else case find_task_index self task of
        None \<Rightarrow> (self, Inl InvalidTask)
      | Some task_index \<Rightarrow>
          (case mt_tasks self ! task_index of
             None \<Rightarrow> (self, Inl InvalidTask)
           | Some tk \<Rightarrow>
               if \<not> task_may_schedule (tk_state tk)
               then (self, Inl (InvalidTaskTransition (tk_state tk) TaskRunnable))
               else case free_thread_slot self of
                 None \<Rightarrow> (self, Inl ThreadTableFull)
               | Some slot \<Rightarrow>
                   and_then
                     (with_task_mut
                        (self\<lparr>mt_threads := (mt_threads self)[slot :=
                            Some (thread_new thread task prio (cfg_default_timeslice (mt_config self)))]\<rparr>)
                        task increment_thread_count)
                     (\<lambda>s _. (emit s (event_thread EvThreadCreated task thread None (mt_now s)),
                             Inr (handle_thread task thread)))))"

section \<open>Scheduling\<close>

definition enqueue_thread :: "Mtss \<Rightarrow> MtThreadId \<Rightarrow> (Mtss, MtssError, unit) op_result" where
  "enqueue_thread self thread =
     (case ensure_run_queue_capacity self of
        Inl e \<Rightarrow> (self, Inl e)
      | Inr _ \<Rightarrow>
          and_then
            (thread_apply self thread (\<lambda>th.
               and_then (if th_state th \<noteq> ThreadReady then thread_transition th ThreadReady
                         else (th, Inr (th_state th)))
                 (\<lambda>th _. (th, Inr (schedule_record th, th_task th)))))
            (\<lambda>s (r, task).
               and_then (run_enqueue s r)
                 (\<lambda>s _. (emit_thread (count_stat with_admission s) EvThreadRunnable task thread, ok_unit))))"

definition dispatch ::
  "Mtss \<Rightarrow> MtThreadId \<Rightarrow> LifecycleReason \<Rightarrow> (Mtss, MtssError, ScheduleDecision) op_result" where
  "dispatch self thread reason =
     (let previous = mt_current self in
      and_then
        (thread_apply self thread (\<lambda>th.
           and_then (thread_mark_running th)
             (\<lambda>th _. (reset_timeslice th (cfg_default_timeslice (mt_config self)), Inr (th_task th)))))
        (\<lambda>s task.
           and_then
             (with_task_mut s task
                (\<lambda>tk. if tk_state tk = TaskRunnable then fst (task_mark_running tk) else tk))
             (\<lambda>s _.
                let s = emit_thread (count_stat with_context_switch (s\<lparr>mt_current := Some thread\<rparr>))
                          EvThreadRunning task thread
                in (s, Inr (decision_new (cfg_cpu (mt_config s)) previous thread (mt_now s))))))"

definition pick_next :: "Mtss \<Rightarrow> (Mtss, MtssError, ScheduleDecision option) op_result" where
  "pick_next self =
     (case rq_next (mt_run_queue self) of
        (q, None) \<Rightarrow> (self\<lparr>mt_run_queue := q\<rparr>, Inr None)
      | (q, Some r) \<Rightarrow>
          and_then (dispatch (self\<lparr>mt_run_queue := q\<rparr>) (sr_thread r) ReasonScheduled)
            (\<lambda>s d. (s, Inr (Some d))))"

definition ready_current_for_requeue ::
  "Mtss \<Rightarrow> MtThreadId \<Rightarrow> LifecycleReason \<Rightarrow> (Mtss, MtssError, unit) op_result" where
  "ready_current_for_requeue self thread reason =
     (case ensure_run_queue_capacity self of
        Inl e \<Rightarrow> (self, Inl e)
      | Inr _ \<Rightarrow>
          and_then
            (thread_apply self thread (\<lambda>th.
               and_then (thread_mark_ready th)
                 (\<lambda>th _. let th = reset_timeslice th (cfg_default_timeslice (mt_config self))
                         in (th, Inr (schedule_record th, th_task th)))))
            (\<lambda>s (r, task).
               and_then (run_enqueue s r)
                 (\<lambda>s _. (emit_thread s EvThreadRunnable task thread, ok_unit))))"

definition yield_current :: "Mtss \<Rightarrow> (Mtss, MtssError, ScheduleDecision option) op_result" where
  "yield_current self =
     (case mt_current self of
        None \<Rightarrow> pick_next self
      | Some current \<Rightarrow>
          and_then (ready_current_for_requeue self current ReasonYielded) (\<lambda>s _. pick_next s))"

definition requeue_current :: "Mtss \<Rightarrow> (Mtss, MtssError, unit) op_result" where
  "requeue_current self =
     (case mt_current self of
        None \<Rightarrow> (self, ok_unit)
      | Some current \<Rightarrow> ready_current_for_requeue (self\<lparr>mt_current := None\<rparr>) current ReasonYielded)"

definition reschedule_if_needed :: "Mtss \<Rightarrow> (Mtss, MtssError, ScheduleDecision option) op_result" where
  "reschedule_if_needed self =
     (if \<not> mt_need_resched self then (self, Inr None)
      else yield_current (self\<lparr>mt_need_resched := False\<rparr>))"

definition on_timer_tick_with_preemption_disabled ::
  "Mtss \<Rightarrow> bool \<Rightarrow> (Mtss, MtssError, ScheduleDecision option) op_result" where
  "on_timer_tick_with_preemption_disabled self preemption_disabled =
     (let self = self\<lparr>mt_now := saturating_add (mt_now self) 1\<rparr> in
      case mt_current self of
        None \<Rightarrow> (self, Inr None)
      | Some current \<Rightarrow>
          and_then
            (thread_apply self current (\<lambda>th.
               if th_state th \<noteq> ThreadRunningState
               then (th, Inl (InvalidThreadTransition (th_state th) ThreadRunningState))
               else case consume_timeslice_tick (thread_accumulate_cpu_time th 1) of
                      (th, expired) \<Rightarrow> (th, Inr expired)))
            (\<lambda>s expired.
               and_then (with_task_mut_for_thread s current (\<lambda>tk. task_accumulate_cpu_time tk 1))
                 (\<lambda>s _.
                    if \<not> expired then (s, Inr None)
                    else let s = count_stat with_preemption (s\<lparr>mt_need_resched := True\<rparr>) in
                      case get_thread s current of
                        Inl e \<Rightarrow> (s, Inl e)
                      | Inr th \<Rightarrow>
                          let s = emit_thread s EvTimesliceExpired (th_task th) current in
                          if preemption_disabled then (s, Inr None) else reschedule_if_needed s)))"

definition on_timer_tick :: "Mtss \<Rightarrow> (Mtss, MtssError, ScheduleDecision option) op_result" where
  "on_timer_tick self = on_timer_tick_with_preemption_disabled self False"

section \<open>Task states\<close>

definition mark_task_running :: "Mtss \<Rightarrow> TaskId \<Rightarrow> (Mtss, MtssError, unit) op_result" where
  "mark_task_running self task =
     task_apply self task (\<lambda>tk.
       if tk_state tk = TaskRunnable then and_then (task_mark_running tk) (\<lambda>tk _. (tk, ok_unit))
       else (tk, ok_unit))"

definition mark_task_ready :: "Mtss \<Rightarrow> TaskId \<Rightarrow> (Mtss, MtssError, unit) op_result" where
  "mark_task_ready self task =
     task_apply self task (\<lambda>tk.
       if tk_state tk = TaskRunning \<or> tk_state tk = TaskBlocked
       then and_then (task_wake tk) (\<lambda>tk _. (tk, ok_unit)) else (tk, ok_unit))"

definition mtss_block_task :: "Mtss \<Rightarrow> TaskId \<Rightarrow> (Mtss, MtssError, unit) op_result" where
  "mtss_block_task self task =
     and_then
       (task_apply self task (\<lambda>tk.
          if tk_state tk \<noteq> TaskExited \<and> tk_state tk \<noteq> TaskBlocked
          then and_then (task_block tk) (\<lambda>tk _. (tk, Inr True)) else (tk, Inr False)))
       (\<lambda>s blocked. (if blocked then count_stat with_task_block s else s, ok_unit))"

definition refresh_task_wait_state :: "Mtss \<Rightarrow> TaskId \<Rightarrow> TaskState \<Rightarrow> (Mtss, MtssError, unit) op_result" where
  "refresh_task_wait_state self task waiting_state =
     (let has_schedulable = any_schedulable_thread self task in
      and_then
        (task_apply self task (\<lambda>tk.
           if has_schedulable
           then (if tk_state tk \<noteq> TaskRunnable \<and> tk_state tk \<noteq> TaskRunning
                 then and_then (task_wake tk) (\<lambda>tk _. (tk, Inr False)) else (tk, Inr False))
           else if tk_state tk \<noteq> waiting_state
           then and_then (task_transition tk waiting_state) (\<lambda>tk _. (tk, Inr (waiting_state = TaskBlocked)))
           else (tk, Inr False)))
        (\<lambda>s blocked. (if blocked then count_stat with_task_block s else s, ok_unit)))"

definition wake_task_if_waiting :: "Mtss \<Rightarrow> TaskId \<Rightarrow> (Mtss, MtssError, unit) op_result" where
  "wake_task_if_waiting self task =
     task_apply self task (\<lambda>tk.
       if tk_state tk = TaskBlocked then and_then (task_wake tk) (\<lambda>tk _. (tk, ok_unit)) else (tk, ok_unit))"

section \<open>Blocking, sleeping, waking, exiting\<close>

definition block_thread :: "Mtss \<Rightarrow> MtThreadId \<Rightarrow> (Mtss, MtssError, unit) op_result" where
  "block_thread self thread =
     (case get_thread self thread of
        Inl e \<Rightarrow> (self, Inl e)
      | Inr th \<Rightarrow>
          (case validate_thread_destination (th_state th) ThreadBlockedState of
             Inl e \<Rightarrow> (self, Inl e)
           | Inr _ \<Rightarrow>
               and_then
                 (thread_apply (unschedule_thread self thread) thread
                    (\<lambda>th. and_then (thread_block th) (\<lambda>th _. (th, Inr (th_task th)))))
                 (\<lambda>s task.
                    and_then (refresh_task_wait_state s task TaskBlocked)
                      (\<lambda>s _. (emit_thread (count_stat with_block s) EvThreadBlocked task thread, ok_unit)))))"

definition wake_thread :: "Mtss \<Rightarrow> MtThreadId \<Rightarrow> (Mtss, MtssError, unit) op_result" where
  "wake_thread self thread =
     (case ensure_run_queue_capacity self of
        Inl e \<Rightarrow> (self, Inl e)
      | Inr _ \<Rightarrow>
          and_then
            (thread_apply self thread (\<lambda>th. and_then (thread_wake th) (\<lambda>th _. (th, Inr (th_task th)))))
            (\<lambda>s task.
               and_then (wake_task_if_waiting s task)
                 (\<lambda>s _. enqueue_thread (count_stat with_wakeup s) thread)))"

definition sleep_thread :: "Mtss \<Rightarrow> MtThreadId \<Rightarrow> (Mtss, MtssError, unit) op_result" where
  "sleep_thread self thread =
     (case get_thread self thread of
        Inl e \<Rightarrow> (self, Inl e)
      | Inr th \<Rightarrow>
          (case validate_thread_destination (th_state th) ThreadSleepingState of
             Inl e \<Rightarrow> (self, Inl e)
           | Inr _ \<Rightarrow>
               and_then
                 (thread_apply (unschedule_thread self thread) thread
                    (\<lambda>th. and_then (thread_sleep th) (\<lambda>th _. (th, Inr (th_task th)))))
                 (\<lambda>s task.
                    and_then (refresh_task_wait_state s task TaskBlocked)
                      (\<lambda>s _. (emit_thread (count_stat with_sleep s) EvThreadSleeping task thread, ok_unit)))))"

definition exit_thread :: "Mtss \<Rightarrow> MtThreadId \<Rightarrow> (Mtss, MtssError, unit) op_result" where
  "exit_thread self thread =
     and_then
       (thread_apply (unschedule_thread self thread) thread
          (\<lambda>th. and_then (thread_terminate th) (\<lambda>th _. (th, Inr (th_task th)))))
       (\<lambda>s task.
          and_then (with_task_mut s task decrement_thread_count)
            (\<lambda>s _. (emit_thread (count_stat with_completion s) EvThreadExited task thread, ok_unit)))"

section \<open>Terminating, containing and reaping tasks\<close>

fun terminate_loop :: "TaskId \<Rightarrow> nat list \<Rightarrow> Mtss \<Rightarrow> (Mtss, MtssError, unit) op_result" where
  "terminate_loop task [] self = (self, ok_unit)"
| "terminate_loop task (idx # rest) self =
     (case mt_threads self ! idx of
        None \<Rightarrow> terminate_loop task rest self
      | Some th \<Rightarrow>
          if th_task th = task
          then (let s = unschedule_thread self (th_id th) in
                case thread_terminate th of
                  (_, Inl e) \<Rightarrow> (s, Inl e)
                | (th', Inr _) \<Rightarrow>
                    terminate_loop task rest
                      (emit_thread (count_stat with_completion
                         (s\<lparr>mt_threads := (mt_threads s)[idx := Some th']\<rparr>)) EvThreadExited task (th_id th')))
          else terminate_loop task rest self)"

definition terminate_task :: "Mtss \<Rightarrow> TaskId \<Rightarrow> (Mtss, MtssError, unit) op_result" where
  "terminate_task self task =
     and_then (task_apply self task task_terminate)
       (\<lambda>s previous.
          and_then (terminate_loop task [0..<length (mt_threads s)] s)
            (\<lambda>s _. (emit_task (if previous \<noteq> TaskExited then count_stat with_task_completion s else s)
                      EvTaskTerminated task, ok_unit)))"

definition contain_step :: "TaskId \<Rightarrow> Mtss \<Rightarrow> nat \<Rightarrow> Mtss" where
  "contain_step task self idx =
     (case mt_threads self ! idx of
        Some th \<Rightarrow> if th_task th = task then unschedule_thread self (th_id th) else self
      | None \<Rightarrow> self)"

definition contain_task :: "Mtss \<Rightarrow> TaskId \<Rightarrow> (Mtss, MtssError, unit) op_result" where
  "contain_task self task =
     and_then
       (task_apply self task (\<lambda>tk.
          if tk_state tk \<noteq> TaskBlocked then and_then (task_suspect tk) (\<lambda>tk _. (tk, ok_unit)) else (tk, ok_unit)))
       (\<lambda>s _.
          and_then (task_apply (emit_task s EvTaskSuspect task) task task_contain)
            (\<lambda>s _.
               let s = foldl (contain_step task) s [0..<length (mt_threads s)]
               in (emit_task (count_stat with_containment s) EvTaskContained task, ok_unit)))"

definition reap_task :: "Mtss \<Rightarrow> TaskId \<Rightarrow> (Mtss, MtssError, unit) op_result" where
  "reap_task self task =
     (case find_task_index self task of
        None \<Rightarrow> (self, Inl InvalidTask)
      | Some task_index \<Rightarrow>
          (case mt_tasks self ! task_index of
             None \<Rightarrow> (self, Inl InvalidTask)
           | Some tk \<Rightarrow>
               if tk_state tk \<noteq> TaskExited
               then (self, Inl (InvalidTaskTransition (tk_state tk) TaskExited))
               else case find_slot (\<lambda>th. th_task th = task \<and> th_state th \<noteq> ThreadDead) (mt_threads self) of
                 Some idx \<Rightarrow>
                   (self, Inl (case mt_threads self ! idx of
                      Some th \<Rightarrow> InvalidThreadTransition (th_state th) ThreadDead
                    | None \<Rightarrow> InvalidThread))
               | None \<Rightarrow>
                   (case task_reap tk of
                      (_, Inl e) \<Rightarrow> (self, Inl e)
                    | (_, Inr _) \<Rightarrow>
                        (emit_task (count_stat with_reap
                           (self\<lparr>mt_threads := clear_slots (\<lambda>th. th_task th = task) (mt_threads self),
                                 mt_tasks := (mt_tasks self)[task_index := None]\<rparr>)) EvTaskReaped task,
                         ok_unit))))"

end
