(* ===== verification/Mtss_Invariant.thy ===== *)
theory Mtss_Invariant
  imports Mtss
begin

text \<open>
  The invariant of the scheduler facade and its preservation by every operation.

  The tables are read as maps: \<open>thread_map\<close> and \<open>task_map\<close>. \<open>core_ok\<close> relates the two maps, the set
  of queued thread ids and the current thread: every thread belongs to a task of the table, every
  queued thread and the current one exist and are ready or running, and the threads of an exited
  task are dead. What an operation does to the statistics, the clock and the events does not matter
  here.
\<close>

section \<open>The invariant\<close>

abbreviation thread_map :: "Mtss \<Rightarrow> MtThreadId \<rightharpoonup> Thread" where
  "thread_map s \<equiv> slot_lookup th_id (mt_threads s)"

abbreviation task_map :: "Mtss \<Rightarrow> TaskId \<rightharpoonup> Task" where
  "task_map s \<equiv> slot_lookup tk_id (mt_tasks s)"

definition queued :: "Mtss \<Rightarrow> MtThreadId set" where
  "queued s = {t. \<exists>r. Some r \<in> set (rq_queue (mt_run_queue s)) \<and> sr_thread r = t}"

definition core_ok ::
  "(MtThreadId \<rightharpoonup> Thread) \<Rightarrow> (TaskId \<rightharpoonup> Task) \<Rightarrow> MtThreadId set \<Rightarrow> MtThreadId option \<Rightarrow> bool" where
  "core_ok T K Q c \<longleftrightarrow>
     (\<forall>t th. T t = Some th \<longrightarrow> K (th_task th) \<noteq> None) \<and>
     (\<forall>t \<in> Q. \<exists>th. T t = Some th \<and> thread_may_schedule (th_state th)) \<and>
     (\<forall>t. c = Some t \<longrightarrow> (\<exists>th. T t = Some th \<and> thread_may_schedule (th_state th))) \<and>
     (\<forall>tk t th. T t = Some th \<longrightarrow> K (th_task th) = Some tk \<longrightarrow> tk_state tk = TaskExited \<longrightarrow>
        th_state th = ThreadDead)"

definition mtss_ok :: "Mtss \<Rightarrow> bool" where
  "mtss_ok s \<longleftrightarrow>
     unique_keys th_id (mt_threads s) \<and> unique_keys tk_id (mt_tasks s) \<and> rq_ok (mt_run_queue s) \<and>
     core_ok (thread_map s) (task_map s) (queued s) (mt_current s)"

lemma mtss_okD:
  assumes "mtss_ok s"
  shows "unique_keys th_id (mt_threads s)" "unique_keys tk_id (mt_tasks s)" "rq_ok (mt_run_queue s)"
    "core_ok (thread_map s) (task_map s) (queued s) (mt_current s)"
  using assms by (simp_all add: mtss_ok_def)

lemma not_may_schedule_dead [simp]: "\<not> thread_may_schedule ThreadDead"
  by simp

lemma core_thread:
  assumes "core_ok T K Q c" and "T t = Some th" and "th_task th' = th_task th"
    and "th_state th = ThreadDead \<Longrightarrow> th_state th' = ThreadDead"
    and "t \<in> Q \<or> c = Some t \<Longrightarrow> thread_may_schedule (th_state th')"
  shows "core_ok (T(t \<mapsto> th')) K Q c"
  using assms unfolding core_ok_def by (auto split: if_splits)

lemma core_task:
  assumes "core_ok T K Q c" and "K k = Some tk"
    and "tk_state tk' = TaskExited \<Longrightarrow> tk_state tk = TaskExited"
  shows "core_ok T (K(k \<mapsto> tk')) Q c"
  using assms unfolding core_ok_def by (auto split: if_splits)

lemma core_mono:
  assumes "core_ok T K Q c" and "Q' \<subseteq> Q" and "c' = c \<or> c' = None"
  shows "core_ok T K Q' c'"
  using assms unfolding core_ok_def by auto

lemma core_schedule:
  assumes "core_ok T K Q c" and "T t = Some th" and "thread_may_schedule (th_state th)"
    and "Q' \<subseteq> insert t Q" and "c' = c \<or> c' = Some t"
  shows "core_ok T K Q' c'"
  using assms unfolding core_ok_def by auto

lemma core_new_thread:
  assumes "core_ok T K Q c" and "T t = None" and "K (th_task th) = Some tk" and "tk_state tk \<noteq> TaskExited"
  shows "core_ok (T(t \<mapsto> th)) K Q c"
  using assms unfolding core_ok_def by (auto split: if_splits)

lemma core_new_task:
  assumes "core_ok T K Q c" and "K k = None" and "tk_state tk \<noteq> TaskExited"
  shows "core_ok T (K(k \<mapsto> tk)) Q c"
  using assms unfolding core_ok_def by (auto split: if_splits)

text \<open>The killed threads are out of the queue and dead.\<close>

lemma core_terminate:
  assumes "core_ok T K Q c" and "K k = Some tk"
    and T': "\<And>t. T' t = map_option (\<lambda>th. if th_task th = k then th\<lparr>th_state := ThreadDead\<rparr> else th) (T t)"
    and Q': "\<And>t. t \<in> Q' \<Longrightarrow> t \<in> Q \<and> (\<forall>th. T t = Some th \<longrightarrow> th_task th \<noteq> k)"
    and c': "\<And>t. c' = Some t \<Longrightarrow> c = Some t \<and> (\<forall>th. T t = Some th \<longrightarrow> th_task th \<noteq> k)"
  shows "core_ok T' (K(k \<mapsto> tk')) Q' c'"
proof -
  have *: "T' t = Some th' \<longleftrightarrow> (\<exists>th. T t = Some th \<and> th' = (if th_task th = k then th\<lparr>th_state := ThreadDead\<rparr> else th))"
    for t th' using T' [of t] by (cases "T t") auto
  have keep: "T' t = T t" if "\<forall>th. T t = Some th \<longrightarrow> th_task th \<noteq> k" for t
    using that T' [of t] by (cases "T t") simp_all
  note core = assms(1) [unfolded core_ok_def]
  have sched: "\<exists>th. T' t = Some th \<and> thread_may_schedule (th_state th)"
    if "t \<in> Q \<or> c = Some t" "\<forall>th. T t = Some th \<longrightarrow> th_task th \<noteq> k" for t
    unfolding keep [OF that(2)] using core that(1) by blast
  show ?thesis
    unfolding core_ok_def
  proof (intro conjI allI impI ballI)
    fix t th assume "T' t = Some th"
    then obtain th0 where "T t = Some th0" "th_task th = th_task th0" by (auto simp: *)
    then show "(K(k \<mapsto> tk')) (th_task th) \<noteq> None" using core by simp
  next
    fix t assume "t \<in> Q'"
    from Q' [OF this] show "\<exists>th. T' t = Some th \<and> thread_may_schedule (th_state th)" by (intro sched) simp_all
  next
    fix t assume "c' = Some t"
    from c' [OF this] show "\<exists>th. T' t = Some th \<and> thread_may_schedule (th_state th)" by (intro sched) simp_all
  next
    fix tk1 t th assume a: "T' t = Some th" "(K(k \<mapsto> tk')) (th_task th) = Some tk1" "tk_state tk1 = TaskExited"
    from a(1) obtain th0 where th0: "T t = Some th0"
      "th = (if th_task th0 = k then th0\<lparr>th_state := ThreadDead\<rparr> else th0)" by (auto simp: *)
    show "th_state th = ThreadDead"
    proof (cases "th_task th0 = k")
      case False
      with th0(2) a(2) have "th = th0" "K (th_task th0) = Some tk1" by simp_all
      with core th0(1) a(3) show ?thesis by blast
    qed (simp add: th0(2))
  qed
qed

lemma core_reap:
  assumes "core_ok T K Q c" and "K k = Some tk" and "tk_state tk = TaskExited"
  shows "core_ok (\<lambda>t. case T t of Some th \<Rightarrow> if th_task th = k then None else Some th | None \<Rightarrow> None)
    (K(k := None)) Q c"
proof -
  let ?T = "\<lambda>t. case T t of Some th \<Rightarrow> if th_task th = k then None else Some th | None \<Rightarrow> None"
  have *: "?T t = Some th \<longleftrightarrow> T t = Some th \<and> th_task th \<noteq> k" for t th
    by (auto split: option.splits)
  have "th_task th \<noteq> k" if "T t = Some th" "thread_may_schedule (th_state th)" for t th
    using assms that unfolding core_ok_def by (metis not_may_schedule_dead)
  then show ?thesis
    using assms(1) unfolding core_ok_def * by (auto split: if_splits)
qed

section \<open>Table access\<close>

lemma unschedule_simps [simp]:
  "mt_threads (unschedule_thread s t) = mt_threads s" "mt_tasks (unschedule_thread s t) = mt_tasks s"
  "mt_config (unschedule_thread s t) = mt_config s" "mt_now (unschedule_thread s t) = mt_now s"
  by (simp_all add: unschedule_thread_def Let_def)

lemma emit_simps [simp]:
  "mt_threads (emit s e) = mt_threads s" "mt_tasks (emit s e) = mt_tasks s"
  "mt_run_queue (emit s e) = mt_run_queue s" "mt_current (emit s e) = mt_current s"
  "mt_config (emit s e) = mt_config s" "mt_now (emit s e) = mt_now s"
  "mt_need_resched (emit s e) = mt_need_resched s"
  by (simp_all add: emit_def Let_def)

lemma emit_thread_simps [simp]:
  "mt_threads (emit_thread s k a b) = mt_threads s" "mt_tasks (emit_thread s k a b) = mt_tasks s"
  "mt_run_queue (emit_thread s k a b) = mt_run_queue s" "mt_current (emit_thread s k a b) = mt_current s"
  "mt_config (emit_thread s k a b) = mt_config s" "mt_now (emit_thread s k a b) = mt_now s"
  "mt_need_resched (emit_thread s k a b) = mt_need_resched s"
  by (simp_all add: emit_thread_def)

lemma emit_task_simps [simp]:
  "mt_threads (emit_task s k a) = mt_threads s" "mt_tasks (emit_task s k a) = mt_tasks s"
  "mt_run_queue (emit_task s k a) = mt_run_queue s" "mt_current (emit_task s k a) = mt_current s"
  "mt_config (emit_task s k a) = mt_config s"
  by (simp_all add: emit_task_def)

lemma count_stat_simps [simp]:
  "mt_threads (count_stat f s) = mt_threads s" "mt_tasks (count_stat f s) = mt_tasks s"
  "mt_run_queue (count_stat f s) = mt_run_queue s" "mt_current (count_stat f s) = mt_current s"
  "mt_config (count_stat f s) = mt_config s" "mt_now (count_stat f s) = mt_now s"
  "mt_need_resched (count_stat f s) = mt_need_resched s"
  by (simp_all add: count_stat_def)

text \<open>The invariant reads four fields.\<close>

lemma mtss_ok_cong:
  assumes "mt_threads s' = mt_threads s" "mt_tasks s' = mt_tasks s" "mt_run_queue s' = mt_run_queue s"
    "mt_current s' = mt_current s"
  shows "mtss_ok s' \<longleftrightarrow> mtss_ok s"
  using assms by (simp add: mtss_ok_def queued_def)

lemma mtss_ok_frame [simp]:
  "mtss_ok (emit s e) = mtss_ok s" "mtss_ok (emit_thread s k a b) = mtss_ok s" "mtss_ok (emit_task s k a) = mtss_ok s"
  "mtss_ok (count_stat f s) = mtss_ok s" "mtss_ok (s\<lparr>mt_need_resched := x\<rparr>) = mtss_ok s"
  "mtss_ok (s\<lparr>mt_now := n\<rparr>) = mtss_ok s"
  by (rule mtss_ok_cong; simp)+

lemma get_thread_map: "get_thread s t = (case thread_map s t of None \<Rightarrow> Inl InvalidThread | Some th \<Rightarrow> Inr th)"
  by (auto simp: get_thread_def find_thread_index_def slot_lookup_def ok_or_def split: option.splits)

lemma thread_apply_cases:
  assumes u: "unique_keys th_id (mt_threads s)" and f: "\<And>th. th_id (fst (f th)) = th_id th"
  obtains (missing) "thread_map s t = None" "thread_apply s t f = (s, Inl InvalidThread)"
    | (found) th th' r threads' where "thread_map s t = Some th" "th_id th = t" "f th = (th', r)"
      "thread_apply s t f = (s\<lparr>mt_threads := threads'\<rparr>, r)" "unique_keys th_id threads'"
      "slot_lookup th_id threads' = (thread_map s)(t \<mapsto> th')" "length threads' = length (mt_threads s)"
proof (cases "find_slot (\<lambda>e. th_id e = t) (mt_threads s)")
  case None
  then show thesis
    by (intro missing) (simp_all add: slot_lookup_def thread_apply_def find_thread_index_def)
next
  case (Some i)
  then obtain th where i: "i < length (mt_threads s)" "mt_threads s ! i = Some th" "th_id th = t"
    by (rule find_slot_SomeE)
  obtain th' r where fr: "f th = (th', r)" by (cases "f th")
  have id: "th_id th' = th_id th" using f [of th] fr by simp
  have map: "thread_map s t = Some th" using Some i(2) by (simp add: slot_lookup_def)
  have app: "thread_apply s t f = (s\<lparr>mt_threads := (mt_threads s)[i := Some th']\<rparr>, r)"
    using Some i(2) fr by (simp add: thread_apply_def find_thread_index_def)
  show thesis
    by (rule found [OF map i(3) fr app unique_keys_update_same [OF u i(1,2) id]])
      (use slot_lookup_replace [OF u i(1,2) id] id i(3) in simp_all)
qed

lemma task_apply_cases:
  assumes u: "unique_keys tk_id (mt_tasks s)" and f: "\<And>tk. tk_id (fst (f tk)) = tk_id tk"
  obtains (missing) "task_map s k = None" "task_apply s k f = (s, Inl InvalidTask)"
    | (found) tk tk' r tasks' where "task_map s k = Some tk" "tk_id tk = k" "f tk = (tk', r)"
      "task_apply s k f = (s\<lparr>mt_tasks := tasks'\<rparr>, r)" "unique_keys tk_id tasks'"
      "slot_lookup tk_id tasks' = (task_map s)(k \<mapsto> tk')" "length tasks' = length (mt_tasks s)"
proof (cases "find_slot (\<lambda>e. tk_id e = k) (mt_tasks s)")
  case None
  then show thesis
    by (intro missing) (simp_all add: slot_lookup_def task_apply_def find_task_index_def)
next
  case (Some i)
  then obtain tk where i: "i < length (mt_tasks s)" "mt_tasks s ! i = Some tk" "tk_id tk = k"
    by (rule find_slot_SomeE)
  obtain tk' r where fr: "f tk = (tk', r)" by (cases "f tk")
  have id: "tk_id tk' = tk_id tk" using f [of tk] fr by simp
  have map: "task_map s k = Some tk" using Some i(2) by (simp add: slot_lookup_def)
  have app: "task_apply s k f = (s\<lparr>mt_tasks := (mt_tasks s)[i := Some tk']\<rparr>, r)"
    using Some i(2) fr by (simp add: task_apply_def find_task_index_def)
  show thesis
    by (rule found [OF map i(3) fr app unique_keys_update_same [OF u i(1,2) id]])
      (use slot_lookup_replace [OF u i(1,2) id] id i(3) in simp_all)
qed


lemmas thread_ops = thread_mark_running_def thread_mark_ready_def thread_block_def thread_sleep_def
  thread_wake_def thread_terminate_def reset_timeslice_def consume_timeslice_tick_def
  thread_accumulate_cpu_time_def

lemmas task_ops = task_mark_running_def task_block_def task_suspect_def task_contain_def
  task_terminate_def task_wake_def increment_thread_count_def decrement_thread_count_def
  task_accumulate_cpu_time_def

lemma and_then_thread_transition:
  "and_then (thread_transition th x) k =
     (if valid_thread_transition (th_state th) x then k (th\<lparr>th_state := x\<rparr>) (th_state th)
      else (th, Inl (InvalidThreadTransition (th_state th) x)))"
  by (simp add: thread_transition_def)

lemma and_then_task_transition:
  "and_then (task_transition tk x) k =
     (if valid_task_transition (tk_state tk) x then k (tk\<lparr>tk_state := x\<rparr>) (tk_state tk)
      else (tk, Inl (InvalidTaskTransition (tk_state tk) x)))"
  by (simp add: task_transition_def)

lemma valid_from_dead: "valid_thread_transition ThreadDead x \<longleftrightarrow> x = ThreadDead"
  by (cases x) simp_all

lemma valid_from_exited: "valid_task_transition TaskExited x \<longleftrightarrow> x = TaskExited"
  by (cases x) simp_all

lemma valid_to_dead [simp]: "valid_thread_transition x ThreadDead"
  by (cases x) simp_all

lemma valid_to_exited [simp]: "valid_task_transition x TaskExited"
  by (cases x) simp_all

lemma valid_to_running: "thread_may_schedule x \<Longrightarrow> valid_thread_transition x ThreadRunningState"
  by (cases x) simp_all

lemma valid_to_ready: "thread_may_schedule x \<Longrightarrow> valid_thread_transition x ThreadReady"
  by (cases x) simp_all

section \<open>Preservation, step by step\<close>

text \<open>A change of one thread record that the invariant allows.\<close>

definition thread_change :: "bool \<Rightarrow> Thread \<Rightarrow> Thread \<Rightarrow> bool" where
  "thread_change scheduled th th' \<longleftrightarrow>
     th_id th' = th_id th \<and> th_task th' = th_task th \<and>
     (th_state th = ThreadDead \<longrightarrow> th_state th' = ThreadDead) \<and>
     (scheduled \<longrightarrow> thread_may_schedule (th_state th) \<longrightarrow> thread_may_schedule (th_state th'))"

definition scheduled :: "Mtss \<Rightarrow> MtThreadId \<Rightarrow> bool" where
  "scheduled s t \<longleftrightarrow> t \<in> queued s \<or> mt_current s = Some t"

lemma scheduled_thread:
  assumes "mtss_ok s" and "scheduled s t"
  obtains th where "thread_map s t = Some th" "thread_may_schedule (th_state th)"
  using mtss_okD(4) [OF assms(1)] assms(2) unfolding core_ok_def scheduled_def by blast

lemma thread_change_id: "thread_change b th th' \<Longrightarrow> th_id th' = th_id th"
  by (simp add: thread_change_def)

lemma thread_apply_ok:
  assumes ok: "mtss_ok s" and f: "\<And>th. thread_change (scheduled s t) th (fst (f th))"
  shows "mtss_ok (fst (thread_apply s t f))"
  using mtss_okD(1) [OF ok] thread_change_id [OF f]
proof (cases rule: thread_apply_cases [where t = t])
  case missing
  with ok show ?thesis by simp
next
  case (found th th' r threads')
  have ch: "thread_change (scheduled s t) th th'" using f [of th] found(3) by simp
  have "core_ok ((thread_map s)(t \<mapsto> th')) (task_map s) (queued s) (mt_current s)"
  proof (rule core_thread [OF mtss_okD(4) [OF ok] found(1)])
    assume "t \<in> queued s \<or> mt_current s = Some t"
    then have sc: "scheduled s t" by (simp add: scheduled_def)
    with ok obtain th0 where "thread_map s t = Some th0" "thread_may_schedule (th_state th0)"
      by (rule scheduled_thread)
    with found(1) sc ch show "thread_may_schedule (th_state th')" by (simp add: thread_change_def)
  qed (use ch in \<open>simp_all add: thread_change_def\<close>)
  then show ?thesis
    using mtss_okD [OF ok] found(5,6) by (simp add: found(4) mtss_ok_def queued_def)
qed

lemma thread_apply_Inr:
  assumes ok: "mtss_ok s" and f: "\<And>th. thread_change (scheduled s t) th (fst (f th))"
    and eq: "thread_apply s t f = (s', Inr x)"
  obtains th th' where "thread_map s t = Some th" "f th = (th', Inr x)" "th_id th = t"
    "thread_map s' = (thread_map s)(t \<mapsto> th')" "mt_tasks s' = mt_tasks s" "mt_run_queue s' = mt_run_queue s"
    "mt_current s' = mt_current s" "mtss_ok s'" "mt_config s' = mt_config s" "mt_now s' = mt_now s"
    "mt_need_resched s' = mt_need_resched s"
proof -
  have ok': "mtss_ok s'" using thread_apply_ok [OF ok f] eq by simp
  from mtss_okD(1) [OF ok] thread_change_id [OF f] show thesis
  proof (cases rule: thread_apply_cases [where t = t])
    case missing
    with eq show thesis by simp
  next
    case (found th th' r threads')
    then have "s' = s\<lparr>mt_threads := threads'\<rparr>" "r = Inr x" using eq by simp_all
    with found ok' show thesis by (intro that [of th th']) simp_all
  qed
qed

lemma thread_apply_total:
  assumes ok: "mtss_ok s" and f: "\<And>th. thread_change (scheduled s t) th (fst (f th))"
    and th: "thread_map s t = Some th" and fth: "f th = (th', Inr x)"
  obtains s' where "thread_apply s t f = (s', Inr x)" "thread_map s' = (thread_map s)(t \<mapsto> th')" "mtss_ok s'"
    "mt_tasks s' = mt_tasks s" "mt_run_queue s' = mt_run_queue s" "mt_current s' = mt_current s"
    "mt_config s' = mt_config s" "mt_now s' = mt_now s" "mt_need_resched s' = mt_need_resched s"
  using mtss_okD(1) [OF ok] thread_change_id [OF f]
proof (cases rule: thread_apply_cases [where t = t])
  case missing
  with th show thesis by simp
next
  case (found th0 th0' r threads')
  have "th0 = th" using found(1) th by simp
  then have "th0' = th'" "r = Inr x" using found(3) fth by simp_all
  note eqs = this
  have "thread_apply s t f = (s\<lparr>mt_threads := threads'\<rparr>, Inr x)" using found(4) by (simp only: eqs)
  moreover from thread_apply_ok [OF ok f] this have "mtss_ok (s\<lparr>mt_threads := threads'\<rparr>)" by simp
  ultimately show thesis using found(6) eqs by (intro that [of "s\<lparr>mt_threads := threads'\<rparr>"]) simp_all
qed

definition task_change :: "Task \<Rightarrow> Task \<Rightarrow> bool" where
  "task_change tk tk' \<longleftrightarrow> tk_id tk' = tk_id tk \<and> (tk_state tk' = TaskExited \<longrightarrow> tk_state tk = TaskExited) \<and>
     (tk_state tk = TaskExited \<longrightarrow> tk_state tk' = TaskExited)"

lemma task_change_id: "task_change tk tk' \<Longrightarrow> tk_id tk' = tk_id tk"
  by (simp add: task_change_def)

lemma task_apply_ok:
  assumes ok: "mtss_ok s" and f: "\<And>tk. task_change tk (fst (f tk))"
  shows "mtss_ok (fst (task_apply s k f))"
  using mtss_okD(2) [OF ok] task_change_id [OF f]
proof (cases rule: task_apply_cases [where k = k])
  case missing
  with ok show ?thesis by simp
next
  case (found tk tk' r tasks')
  have "core_ok (thread_map s) ((task_map s)(k \<mapsto> tk')) (queued s) (mt_current s)"
    using f [of tk] found(3) by (intro core_task [OF mtss_okD(4) [OF ok] found(1)]) (simp add: task_change_def)
  then show ?thesis
    using mtss_okD [OF ok] found(5,6) by (simp add: found(4) mtss_ok_def queued_def)
qed

lemma task_apply_frame:
  "mt_threads (fst (task_apply s k f)) = mt_threads s" "mt_run_queue (fst (task_apply s k f)) = mt_run_queue s"
  "mt_current (fst (task_apply s k f)) = mt_current s" "mt_config (fst (task_apply s k f)) = mt_config s"
  "mt_now (fst (task_apply s k f)) = mt_now s" "mt_need_resched (fst (task_apply s k f)) = mt_need_resched s"
  by (simp_all add: task_apply_def split: option.splits prod.splits)

lemma task_apply_Inr_frame:
  assumes "task_apply s k f = (s', r)"
  shows "mt_threads s' = mt_threads s" "mt_run_queue s' = mt_run_queue s" "mt_current s' = mt_current s"
    "mt_config s' = mt_config s" "mt_now s' = mt_now s" "mt_need_resched s' = mt_need_resched s"
  using task_apply_frame [of s k f] assms by simp_all

lemma with_task_mut_ok:
  assumes "mtss_ok s" and "\<And>tk. task_change tk (f tk)"
  shows "mtss_ok (fst (with_task_mut s k f))"
  using assms by (simp add: with_task_mut_def task_apply_ok)

lemma with_task_mut_total:
  assumes ok: "mtss_ok s" and k: "task_map s k = Some tk" and f: "\<And>tk. task_change tk (f tk)"
  obtains s' where "with_task_mut s k f = (s', ok_unit)" "mtss_ok s'" "task_map s' = (task_map s)(k \<mapsto> f tk)"
    "mt_threads s' = mt_threads s" "mt_run_queue s' = mt_run_queue s" "mt_current s' = mt_current s"
    "mt_config s' = mt_config s" "mt_now s' = mt_now s" "mt_need_resched s' = mt_need_resched s"
proof -
  have "tk_id (fst (f tk, ok_unit)) = tk_id tk" for tk using task_change_id [OF f] by simp
  with mtss_okD(2) [OF ok] show thesis
  proof (cases rule: task_apply_cases [where k = k])
    case missing
    with k show thesis by simp
  next
    case (found tk0 tk' r tasks')
    then have eq: "with_task_mut s k f = (s\<lparr>mt_tasks := tasks'\<rparr>, ok_unit)" "tk' = f tk"
      using k by (simp_all add: with_task_mut_def)
    from with_task_mut_ok [OF ok f, of k] eq(1) have "mtss_ok (s\<lparr>mt_tasks := tasks'\<rparr>)" by simp
    with found(6) eq show thesis by (intro that [of "s\<lparr>mt_tasks := tasks'\<rparr>"]) simp_all
  qed
qed

lemma queued_unschedule: "queued (unschedule_thread s t) = queued s - {t}"
  by (auto simp: queued_def unschedule_thread_def Let_def rq_remove_thread_def remove_matching_def)

lemma current_unschedule: "mt_current (unschedule_thread s t) = (if mt_current s = Some t then None else mt_current s)"
  by (simp add: unschedule_thread_def Let_def)

lemma unschedule_ok:
  assumes ok: "mtss_ok s"
  shows "mtss_ok (unschedule_thread s t)"
proof -
  have "rq_ok (mt_run_queue (unschedule_thread s t))"
    using remove_matching_ok(1) [OF mtss_okD(3) [OF ok]]
    by (simp add: unschedule_thread_def Let_def rq_remove_thread_def)
  moreover have "core_ok (thread_map s) (task_map s) (queued s - {t}) (mt_current (unschedule_thread s t))"
    by (rule core_mono [OF mtss_okD(4) [OF ok]]) (auto simp: current_unschedule)
  ultimately show ?thesis using mtss_okD(1,2) [OF ok] by (simp add: mtss_ok_def queued_unschedule)
qed

lemma not_scheduled_unschedule: "\<not> scheduled (unschedule_thread s t) t"
  by (simp add: scheduled_def queued_unschedule current_unschedule)

lemma run_enqueue_ok:
  assumes ok: "mtss_ok s" and th: "thread_map s (sr_thread r) = Some th" "thread_may_schedule (th_state th)"
  shows "mtss_ok (fst (run_enqueue s r))"
  using mtss_okD(3) [OF ok]
proof (cases rule: rq_enqueue_cases [where r = r])
  case full
  with ok show ?thesis by (simp add: run_enqueue_def)
next
  case (queued q')
  let ?s = "s\<lparr>mt_run_queue := q'\<rparr>"
  have "Some x \<in> set (rq_queue q') \<Longrightarrow> x = r \<or> Some x \<in> set (rq_queue (mt_run_queue s))" for x
    using set_update_subset_insert [of "rq_queue (mt_run_queue s)" "rq_tail (mt_run_queue s)" "Some r"]
    unfolding queued(6) by blast
  then have "queued ?s \<subseteq> insert (sr_thread r) (queued s)" by (auto simp: queued_def)
  then have "core_ok (thread_map s) (task_map s) (queued ?s) (mt_current s)"
    by (rule core_schedule [OF mtss_okD(4) [OF ok] th]) simp
  then show ?thesis using mtss_okD(1,2) [OF ok] queued(1,2) by (simp add: run_enqueue_def mtss_ok_def)
qed

lemma run_enqueue_frame:
  assumes "run_enqueue s r = (s', x)"
  shows "mt_threads s' = mt_threads s" "mt_tasks s' = mt_tasks s" "mt_current s' = mt_current s"
    "mt_config s' = mt_config s" "mt_now s' = mt_now s" "mt_need_resched s' = mt_need_resched s"
  using assms by (auto simp: run_enqueue_def split: prod.splits)


section \<open>Preservation by every operation\<close>

lemmas ok_and_then = fst_and_then [where Q = mtss_ok]

lemma create_task_ok:
  assumes ok: "mtss_ok s"
  shows "mtss_ok (fst (create_task s tid parent space prio))"
proof (cases "find_task_index s tid = None \<and> free_task_slot s \<noteq> None")
  case False
  then show ?thesis using ok by (auto simp: create_task_def)
next
  case True
  then obtain i where i: "free_slot (mt_tasks s) = Some i" by (auto simp: free_task_slot_def)
  let ?tk = "(task_new tid parent space prio)\<lparr>tk_state := TaskRunnable\<rparr>"
  have new: "task_map s (tk_id ?tk) = None"
    using True by (simp add: slot_lookup_def find_task_index_def task_new_def)
  note ins = slot_lookup_insert [OF mtss_okD(2) [OF ok] i new]
  have "core_ok (thread_map s) ((task_map s)(tk_id ?tk \<mapsto> ?tk)) (queued s) (mt_current s)"
    by (rule core_new_task [OF mtss_okD(4) [OF ok] new]) simp
  then have "mtss_ok (s\<lparr>mt_tasks := (mt_tasks s)[i := Some ?tk]\<rparr>)"
    using mtss_okD [OF ok] ins by (simp add: mtss_ok_def queued_def)
  moreover have "task_admit (task_new tid parent space prio) = (?tk, Inr TaskCreatedState)"
    by (simp add: task_admit_def task_transition_def task_new_def)
  ultimately show ?thesis using True i by (simp add: create_task_def free_task_slot_def)
qed

lemma create_thread_ok:
  assumes ok: "mtss_ok s"
  shows "mtss_ok (fst (create_thread s task thread prio))"
proof (cases "\<exists>tk i. find_thread_index s thread = None \<and> task_map s task = Some tk \<and>
    task_may_schedule (tk_state tk) \<and> free_slot (mt_threads s) = Some i")
  case False
  then show ?thesis
    using ok by (auto simp: create_thread_def slot_lookup_def find_task_index_def free_thread_slot_def
        split: option.splits)
next
  case True
  then obtain tk i where tk: "find_thread_index s thread = None" "task_map s task = Some tk"
    "task_may_schedule (tk_state tk)" and i: "free_slot (mt_threads s) = Some i" by blast
  let ?th = "thread_new thread task prio (cfg_default_timeslice (mt_config s))"
  let ?s = "s\<lparr>mt_threads := (mt_threads s)[i := Some ?th]\<rparr>"
  have new: "thread_map s (th_id ?th) = None"
    using tk(1) by (simp add: slot_lookup_def find_thread_index_def thread_new_def)
  note ins = slot_lookup_insert [OF mtss_okD(1) [OF ok] i new]
  have "task_map s (th_task ?th) = Some tk" "tk_state tk \<noteq> TaskExited" using tk by (auto simp: thread_new_def)
  then have "core_ok ((thread_map s)(th_id ?th \<mapsto> ?th)) (task_map s) (queued s) (mt_current s)"
    by (rule core_new_thread [OF mtss_okD(4) [OF ok] new])
  then have "mtss_ok ?s"
    using mtss_okD [OF ok] ins by (simp add: mtss_ok_def queued_def)
  then have "mtss_ok (fst (with_task_mut ?s task increment_thread_count))"
    by (rule with_task_mut_ok) (simp add: task_change_def task_ops)
  moreover obtain j where j: "find_slot (\<lambda>e. tk_id e = task) (mt_tasks s) = Some j" "mt_tasks s ! j = Some tk"
    using tk(2) by (auto elim: slot_lookup_SomeE)
  ultimately show ?thesis
    using tk i j by (simp add: create_thread_def find_task_index_def free_thread_slot_def)
      (rule ok_and_then, assumption, simp)
qed

lemma make_ready_change:
  "thread_change b th (fst (and_then (if th_state th \<noteq> ThreadReady then thread_transition th ThreadReady
     else (th, Inr (th_state th))) (\<lambda>th _. (th, Inr (g th)))))"
  by (simp add: thread_transition_def thread_change_def valid_from_dead)

lemma mark_ready_change:
  "thread_change b th (fst (and_then (thread_mark_ready th) (\<lambda>th _. let th = reset_timeslice th d in (th, Inr (g th)))))"
  by (simp add: thread_ops and_then_thread_transition Let_def thread_change_def valid_from_dead)

text \<open>The common end of the three operations that queue a thread.\<close>

lemma enqueue_step:
  assumes ok: "mtss_ok s" and f: "\<And>th. thread_change (scheduled s t) th (fst (f th))"
    and rec: "\<And>th th' r k. f th = (th', Inr (r, k)) \<Longrightarrow> sr_thread r = th_id th \<and> thread_may_schedule (th_state th')"
  shows "mtss_ok (fst (and_then (thread_apply s t f)
    (\<lambda>s (r, k). and_then (run_enqueue s r) (\<lambda>s _. (emit_thread (count_stat g s) EvThreadRunnable k t, ok_unit)))))"
proof (rule ok_and_then [OF thread_apply_ok [OF ok f]])
  fix s1 and rk :: "SchedRecord \<times> TaskId"
  assume eq: "thread_apply s t f = (s1, Inr rk)"
  obtain r k where rk: "rk = (r, k)" by (cases rk)
  from thread_apply_Inr [OF ok f eq] obtain th th' where th: "f th = (th', Inr rk)" "th_id th = t"
    "thread_map s1 = (thread_map s)(t \<mapsto> th')" "mtss_ok s1" by metis
  from rec [OF th(1) [unfolded rk]] th have "thread_map s1 (sr_thread r) = Some th'" "thread_may_schedule (th_state th')"
    by simp_all
  from run_enqueue_ok [OF th(4) this]
  show "mtss_ok (fst (case rk of (r, k) \<Rightarrow> and_then (run_enqueue s1 r)
      (\<lambda>s _. (emit_thread (count_stat g s) EvThreadRunnable k t, ok_unit))))"
    unfolding rk prod.case by (rule ok_and_then) simp
qed

lemma sr_thread_schedule_record [simp]: "sr_thread (schedule_record th) = th_id th" "sr_process (schedule_record th) = th_task th"
  by (simp_all add: schedule_record_def schedule_record_new_def)

lemma enqueue_thread_ok:
  assumes ok: "mtss_ok s"
  shows "mtss_ok (fst (enqueue_thread s t))"
proof (cases "ensure_run_queue_capacity s")
  case (Inr _)
  have "mtss_ok (fst (and_then (thread_apply s t (\<lambda>th.
       and_then (if th_state th \<noteq> ThreadReady then thread_transition th ThreadReady else (th, Inr (th_state th)))
         (\<lambda>th _. (th, Inr (schedule_record th, th_task th)))))
    (\<lambda>s (r, k). and_then (run_enqueue s r) (\<lambda>s _. (emit_thread (count_stat with_admission s) EvThreadRunnable k t, ok_unit)))))"
    by (rule enqueue_step [OF ok make_ready_change]) (auto simp: thread_transition_def split: if_splits)
  then show ?thesis by (simp only: enqueue_thread_def Inr sum.case)
qed (use ok in \<open>simp add: enqueue_thread_def\<close>)

lemma ready_current_ok:
  assumes ok: "mtss_ok s"
  shows "mtss_ok (fst (ready_current_for_requeue s t reason))"
proof (cases "ensure_run_queue_capacity s")
  case (Inr _)
  have id: "count_stat (\<lambda>x. x) s' = s'" for s' by (simp add: count_stat_def)
  have "mtss_ok (fst (and_then (thread_apply s t (\<lambda>th.
       and_then (thread_mark_ready th) (\<lambda>th _. let th = reset_timeslice th (cfg_default_timeslice (mt_config s))
         in (th, Inr (schedule_record th, th_task th)))))
    (\<lambda>s (r, k). and_then (run_enqueue s r) (\<lambda>s _. (emit_thread (count_stat (\<lambda>x. x) s) EvThreadRunnable k t, ok_unit)))))"
    by (rule enqueue_step [OF ok mark_ready_change])
      (auto simp: thread_ops and_then_thread_transition Let_def split: if_splits)
  then show ?thesis by (simp only: ready_current_for_requeue_def Inr sum.case id)
qed (use ok in \<open>simp add: ready_current_for_requeue_def\<close>)


text \<open>Dispatching a thread that may run always succeeds.\<close>

lemma dispatch_total:
  assumes ok: "mtss_ok s" and th: "thread_map s t = Some th" "thread_may_schedule (th_state th)"
  obtains s' where "dispatch s t reason =
      (s', Inr (decision_new (cfg_cpu (mt_config s)) (mt_current s) t (mt_now s)))" "mtss_ok s'"
    "thread_map s' = (thread_map s)(t \<mapsto> th\<lparr>th_state := ThreadRunningState,
       th_timeslice := cfg_default_timeslice (mt_config s)\<rparr>)"
    "mt_current s' = Some t" "mt_run_queue s' = mt_run_queue s" "mt_config s' = mt_config s" "mt_now s' = mt_now s"
    "mt_need_resched s' = mt_need_resched s"
proof -
  let ?ts = "cfg_default_timeslice (mt_config s)"
  let ?f = "\<lambda>th. and_then (thread_mark_running th) (\<lambda>th _. (reset_timeslice th ?ts, Inr (th_task th)))"
  let ?th = "th\<lparr>th_state := ThreadRunningState, th_timeslice := ?ts\<rparr>"
  let ?g = "\<lambda>tk. if tk_state tk = TaskRunnable then fst (task_mark_running tk) else tk"
  have f: "thread_change b th (fst (?f th))" for b th
    by (simp add: thread_ops and_then_thread_transition thread_change_def valid_from_dead)
  have fth: "?f th = (?th, Inr (th_task th))"
    using valid_to_running [OF th(2)] by (simp add: thread_ops and_then_thread_transition)
  obtain s1 where s1: "thread_apply s t ?f = (s1, Inr (th_task th))" and m1: "thread_map s1 = (thread_map s)(t \<mapsto> ?th)"
    "mtss_ok s1" "mt_run_queue s1 = mt_run_queue s" "mt_config s1 = mt_config s" "mt_now s1 = mt_now s"
    "mt_need_resched s1 = mt_need_resched s" "mt_current s1 = mt_current s"
    using ok f th(1) fth by (rule thread_apply_total)
  have g: "task_change tk (?g tk)" for tk
    by (simp add: task_ops task_transition_def task_change_def)
  have "thread_map s1 t = Some ?th" by (simp add: m1(1))
  then have "task_map s1 (th_task ?th) \<noteq> None" using mtss_okD(4) [OF m1(2)] unfolding core_ok_def by blast
  then obtain tk where "task_map s1 (th_task th) = Some tk" by auto
  with m1(2) obtain s2 where s2: "with_task_mut s1 (th_task th) ?g = (s2, ok_unit)" and m2: "mtss_ok s2"
    and fr: "mt_threads s2 = mt_threads s1" "mt_run_queue s2 = mt_run_queue s1" "mt_current s2 = mt_current s1"
      "mt_config s2 = mt_config s1" "mt_now s2 = mt_now s1" "mt_need_resched s2 = mt_need_resched s1"
    using g by (rule with_task_mut_total)
  let ?s = "emit_thread (count_stat with_context_switch (s2\<lparr>mt_current := Some t\<rparr>)) EvThreadRunning (th_task th) t"
  have "core_ok (thread_map s2) (task_map s2) (queued s2) (Some t)"
    by (rule core_schedule [OF mtss_okD(4) [OF m2], where th = ?th]) (use m1(1) fr(1) in auto)
  then have "mtss_ok ?s" using mtss_okD(1-3) [OF m2] by (simp add: mtss_ok_def queued_def)
  moreover have "dispatch s t reason = (?s, Inr (decision_new (cfg_cpu (mt_config s)) (mt_current s) t (mt_now s)))"
    using s1 s2 fr m1 by (simp add: dispatch_def Let_def)
  ultimately show thesis using m1 fr by (intro that [of ?s]) simp_all
qed

lemma pick_next_cases:
  assumes ok: "mtss_ok s"
  obtains (idle) s' where "pick_next s = (s', Inr None)" "rq_records (mt_run_queue s) = []" "mtss_ok s'"
      "mt_threads s' = mt_threads s" "mt_tasks s' = mt_tasks s" "mt_current s' = mt_current s"
      "queued s' \<subseteq> queued s"
    | (picked) r th s' where "rq_records (mt_run_queue s) = r # rq_records (mt_run_queue s')"
      "thread_map s (sr_thread r) = Some th" "thread_may_schedule (th_state th)"
      "pick_next s = (s', Inr (Some (decision_new (cfg_cpu (mt_config s)) (mt_current s) (sr_thread r) (mt_now s))))"
      "mtss_ok s'" "mt_current s' = Some (sr_thread r)"
      "thread_map s' = (thread_map s)(sr_thread r \<mapsto> th\<lparr>th_state := ThreadRunningState,
         th_timeslice := cfg_default_timeslice (mt_config s)\<rparr>)"
      "rq_next (mt_run_queue s) = (mt_run_queue s', Some r)" "mt_config s' = mt_config s" "mt_now s' = mt_now s"
      "mt_need_resched s' = mt_need_resched s" "queued s' \<subseteq> queued s" "sr_thread r \<in> queued s"
  using mtss_okD(3) [OF ok]
proof (cases rule: rq_next_cases)
  case (empty q')
  let ?s = "s\<lparr>mt_run_queue := q'\<rparr>"
  have sub: "queued ?s \<subseteq> queued s" using empty(6) by (auto simp: queued_def)
  then have "core_ok (thread_map s) (task_map s) (queued ?s) (mt_current s)"
    by (rule core_mono [OF mtss_okD(4) [OF ok]]) simp
  then have "mtss_ok ?s" using mtss_okD(1,2) [OF ok] empty(4) by (simp add: mtss_ok_def)
  then show thesis using empty(1,2) sub by (intro idle [of ?s]) (simp_all add: pick_next_def)
next
  case (taken q' r)
  let ?s = "s\<lparr>mt_run_queue := q'\<rparr>"
  have sub: "Some x \<in> set (rq_queue q') \<Longrightarrow> Some x \<in> set (rq_queue (mt_run_queue s))" for x
    using set_rq_records [OF taken(3), of x] set_rq_records [OF mtss_okD(3) [OF ok], of x] taken(2) by simp
  then have sub': "queued ?s \<subseteq> queued s" by (auto simp: queued_def)
  then have "core_ok (thread_map s) (task_map s) (queued ?s) (mt_current s)"
    by (rule core_mono [OF mtss_okD(4) [OF ok]]) simp
  then have ok1: "mtss_ok ?s" using mtss_okD(1,2) [OF ok] taken(3) by (simp add: mtss_ok_def)
  have "Some r \<in> set (rq_queue (mt_run_queue s))"
    using set_rq_records [OF mtss_okD(3) [OF ok], of r] taken(2) by simp
  then have inq: "sr_thread r \<in> queued s" by (auto simp: queued_def)
  then obtain th where th: "thread_map s (sr_thread r) = Some th" "thread_may_schedule (th_state th)"
    using mtss_okD(4) [OF ok] unfolding core_ok_def by blast
  from ok1 th obtain s' where s': "dispatch ?s (sr_thread r) ReasonScheduled =
      (s', Inr (decision_new (cfg_cpu (mt_config s)) (mt_current s) (sr_thread r) (mt_now s)))" "mtss_ok s'"
    "thread_map s' = (thread_map s)(sr_thread r \<mapsto> th\<lparr>th_state := ThreadRunningState,
       th_timeslice := cfg_default_timeslice (mt_config s)\<rparr>)"
    "mt_current s' = Some (sr_thread r)" "mt_run_queue s' = q'" "mt_config s' = mt_config s" "mt_now s' = mt_now s"
    "mt_need_resched s' = mt_need_resched s"
    by (auto elim: dispatch_total [of ?s "sr_thread r" th ReasonScheduled])
  have "pick_next s = (s', Inr (Some (decision_new (cfg_cpu (mt_config s)) (mt_current s) (sr_thread r) (mt_now s))))"
    by (simp add: pick_next_def taken(1) s'(1))
  moreover have "queued s' \<subseteq> queued s" using sub' s'(5) by (simp add: queued_def)
  ultimately show thesis using th s'(2-8) taken(1,2) inq by (intro picked [of r s' th]) simp_all
qed

lemma pick_next_ok: "mtss_ok s \<Longrightarrow> mtss_ok (fst (pick_next s))"
  by (erule pick_next_cases) simp_all

lemma yield_current_ok:
  assumes ok: "mtss_ok s"
  shows "mtss_ok (fst (yield_current s))"
proof (cases "mt_current s")
  case None
  then show ?thesis using pick_next_ok [OF ok] by (simp add: yield_current_def)
next
  case (Some t)
  show ?thesis unfolding yield_current_def Some option.case
    by (rule ok_and_then [OF ready_current_ok [OF ok]]) (simp add: pick_next_ok)
qed

lemma clear_current_ok: "mtss_ok s \<Longrightarrow> mtss_ok (s\<lparr>mt_current := None\<rparr>)"
  using core_mono [of "thread_map s" "task_map s" "queued s" "mt_current s" "queued s" None]
  by (simp add: mtss_ok_def queued_def)

lemma requeue_current_ok: "mtss_ok s \<Longrightarrow> mtss_ok (fst (requeue_current s))"
  by (simp add: requeue_current_def ready_current_ok clear_current_ok split: option.split)

lemma reschedule_ok: "mtss_ok s \<Longrightarrow> mtss_ok (fst (reschedule_if_needed s))"
  by (simp add: reschedule_if_needed_def yield_current_ok)


lemma tick_change:
  "thread_change b th (fst (if th_state th \<noteq> ThreadRunningState
     then (th, Inl (InvalidThreadTransition (th_state th) ThreadRunningState))
     else case consume_timeslice_tick (thread_accumulate_cpu_time th 1) of (th, expired) \<Rightarrow> (th, Inr expired)))"
  by (simp add: thread_change_def thread_ops Let_def)

lemma with_task_for_thread_ok:
  assumes "mtss_ok s" and "\<And>tk. task_change tk (f tk)"
  shows "mtss_ok (fst (with_task_mut_for_thread s t f))"
  using assms by (simp add: with_task_mut_for_thread_def with_task_mut_ok split: sum.split)

lemma on_timer_tick_ok:
  assumes ok: "mtss_ok s"
  shows "mtss_ok (fst (on_timer_tick_with_preemption_disabled s disabled))"
proof -
  let ?s = "s\<lparr>mt_now := saturating_add (mt_now s) 1\<rparr>"
  have ok': "mtss_ok ?s" using ok by simp
  show ?thesis
  proof (cases "mt_current ?s")
    case None
    with ok show ?thesis by (simp add: on_timer_tick_with_preemption_disabled_def)
  next
    case (Some t)
    show ?thesis
      unfolding on_timer_tick_with_preemption_disabled_def Let_def Some option.case
    proof (rule ok_and_then [OF thread_apply_ok [OF ok' tick_change]])
      fix s1 expired assume "mtss_ok s1"
      then have w: "mtss_ok (fst (with_task_mut_for_thread s1 t (\<lambda>tk. task_accumulate_cpu_time tk 1)))"
        by (rule with_task_for_thread_ok) (simp add: task_change_def task_ops)
      show "mtss_ok (fst (and_then (with_task_mut_for_thread s1 t (\<lambda>tk. task_accumulate_cpu_time tk 1))
        (\<lambda>s _. if \<not> expired then (s, Inr None)
           else case get_thread (count_stat with_preemption (s\<lparr>mt_need_resched := True\<rparr>)) t of
               Inl e \<Rightarrow> (count_stat with_preemption (s\<lparr>mt_need_resched := True\<rparr>), Inl e)
             | Inr th \<Rightarrow> if disabled
                 then (emit_thread (count_stat with_preemption (s\<lparr>mt_need_resched := True\<rparr>))
                    EvTimesliceExpired (th_task th) t, Inr None)
                 else reschedule_if_needed (emit_thread (count_stat with_preemption
                    (s\<lparr>mt_need_resched := True\<rparr>)) EvTimesliceExpired (th_task th) t))))"
        by (rule ok_and_then [OF w]) (simp add: reschedule_ok split: sum.split)
    qed
  qed
qed

lemma task_trans_change:
  assumes "x \<noteq> TaskExited"
  shows "task_change tk (fst (task_transition tk x))"
    "task_change tk (fst (and_then (task_transition tk x) (\<lambda>tk _. (tk, g tk))))"
  using assms by (simp_all add: task_transition_def task_change_def)

lemma mark_task_running_ok: "mtss_ok s \<Longrightarrow> mtss_ok (fst (mark_task_running s k))"
  unfolding mark_task_running_def
  by (rule task_apply_ok) (simp_all add: task_ops task_trans_change, simp add: task_change_def)

lemma mark_task_ready_ok: "mtss_ok s \<Longrightarrow> mtss_ok (fst (mark_task_ready s k))"
  unfolding mark_task_ready_def
  by (rule task_apply_ok) (simp_all add: task_ops task_trans_change, simp add: task_change_def)

lemma wake_task_ok: "mtss_ok s \<Longrightarrow> mtss_ok (fst (wake_task_if_waiting s k))"
  unfolding wake_task_if_waiting_def
  by (rule task_apply_ok) (simp_all add: task_ops task_trans_change, simp add: task_change_def)

lemma block_task_ok:
  assumes ok: "mtss_ok s" shows "mtss_ok (fst (mtss_block_task s k))"
  unfolding mtss_block_task_def
proof (rule ok_and_then [OF task_apply_ok [OF ok]])
  show "task_change tk (fst (if tk_state tk \<noteq> TaskExited \<and> tk_state tk \<noteq> TaskBlocked
      then and_then (task_block tk) (\<lambda>tk _. (tk, Inr True)) else (tk, Inr False)))" for tk
    by (simp add: task_ops task_trans_change) (simp add: task_change_def)
qed simp

lemma refresh_task_ok:
  assumes ok: "mtss_ok s" shows "mtss_ok (fst (refresh_task_wait_state s k TaskBlocked))"
  unfolding refresh_task_wait_state_def Let_def
proof (rule ok_and_then [OF task_apply_ok [OF ok]])
  show "task_change tk (fst (if any_schedulable_thread s k
       then (if tk_state tk \<noteq> TaskRunnable \<and> tk_state tk \<noteq> TaskRunning
             then and_then (task_wake tk) (\<lambda>tk _. (tk, Inr False)) else (tk, Inr False))
       else if tk_state tk \<noteq> TaskBlocked
       then and_then (task_transition tk TaskBlocked) (\<lambda>tk _. (tk, Inr (TaskBlocked = TaskBlocked)))
       else (tk, Inr False)))" for tk
    by (simp add: task_ops task_trans_change) (simp add: task_change_def)
qed simp

text \<open>An unscheduled thread may take any state the transition table allows.\<close>

lemma unscheduled_apply_ok:
  assumes ok: "mtss_ok s"
  shows "mtss_ok (fst (thread_apply (unschedule_thread s t) t
    (\<lambda>th. and_then (thread_transition th x) (\<lambda>th _. (th, Inr (th_task th))))))"
  by (rule thread_apply_ok [OF unschedule_ok [OF ok]])
    (simp add: and_then_thread_transition thread_change_def not_scheduled_unschedule valid_from_dead)

lemma block_thread_ok:
  assumes ok: "mtss_ok s" shows "mtss_ok (fst (block_thread s t))"
  using ok unfolding block_thread_def thread_ops
  by (auto split: sum.split intro!: ok_and_then unscheduled_apply_ok refresh_task_ok)

lemma sleep_thread_ok:
  assumes ok: "mtss_ok s" shows "mtss_ok (fst (sleep_thread s t))"
  using ok unfolding sleep_thread_def thread_ops
  by (auto split: sum.split intro!: ok_and_then unscheduled_apply_ok refresh_task_ok)

lemma exit_thread_ok:
  assumes ok: "mtss_ok s" shows "mtss_ok (fst (exit_thread s t))"
  using ok unfolding exit_thread_def thread_ops
  by (auto split: sum.split intro!: ok_and_then unscheduled_apply_ok with_task_mut_ok
      simp: task_change_def task_ops)

lemma wake_thread_ok:
  assumes ok: "mtss_ok s" shows "mtss_ok (fst (wake_thread s t))"
proof -
  have "thread_change b th (fst (and_then (thread_transition th ThreadReady) (\<lambda>th _. (th, Inr (th_task th)))))" for b th
    by (simp add: and_then_thread_transition thread_change_def valid_from_dead)
  then show ?thesis
    using ok unfolding wake_thread_def thread_ops
    by (auto split: sum.split intro!: ok_and_then thread_apply_ok wake_task_ok enqueue_thread_ok)
qed


subsection \<open>Termination, containment and reaping\<close>

definition kill :: "TaskId \<Rightarrow> Thread \<Rightarrow> Thread" where
  "kill k th = (if th_task th = k then th\<lparr>th_state := ThreadDead\<rparr> else th)"

definition threads_of :: "Mtss \<Rightarrow> TaskId \<Rightarrow> nat set \<Rightarrow> MtThreadId set" where
  "threads_of s k I = {t. \<exists>j \<in> I. \<exists>th. mt_threads s ! j = Some th \<and> th_task th = k \<and> th_id th = t}"

lemma find_slot_map:
  assumes "\<And>a. P (g a) = P a"
  shows "find_slot P (map (map_option g) xs) = find_slot P xs"
  by (induction xs) (auto simp: assms split: option.split)

lemma slot_lookup_map:
  assumes "\<And>a. key (g a) = key a"
  shows "slot_lookup key (map (map_option g) xs) k = map_option g (slot_lookup key xs k)"
proof -
  have "find_slot (\<lambda>a. key a = k) (map (map_option g) xs) = find_slot (\<lambda>a. key a = k) xs"
    by (rule find_slot_map) (simp add: assms)
  then show ?thesis by (auto simp: slot_lookup_def dest: find_slot_SomeD split: option.split)
qed

lemma unique_keys_map:
  assumes "unique_keys key xs" and "\<And>a. key (g a) = key a"
  shows "unique_keys key (map (map_option g) xs)"
  using assms(1) by (auto simp: unique_keys_def assms(2))

text \<open>What unscheduling a set of threads leaves of the queue and of the current thread.\<close>

definition unscheduled :: "MtThreadId set \<Rightarrow> Mtss \<Rightarrow> Mtss \<Rightarrow> bool" where
  "unscheduled X s s' \<longleftrightarrow>
     queued s' = queued s - X \<and> (\<forall>t. mt_current s' = Some t \<longleftrightarrow> mt_current s = Some t \<and> t \<notin> X) \<and>
     (rq_ok (mt_run_queue s) \<longrightarrow> rq_ok (mt_run_queue s'))"

lemma unscheduled_refl: "unscheduled {} s s"
  by (simp add: unscheduled_def)

lemma unscheduled_trans: "unscheduled X s s1 \<Longrightarrow> unscheduled Y s1 s2 \<Longrightarrow> unscheduled (X \<union> Y) s s2"
  by (auto simp: unscheduled_def)

lemma unscheduled_unschedule: "unscheduled {t} s (unschedule_thread s t)"
proof -
  have "rq_ok (mt_run_queue s) \<Longrightarrow> rq_ok (mt_run_queue (unschedule_thread s t))"
    by (simp add: unschedule_thread_def Let_def rq_remove_thread_def remove_matching_ok(1))
  then show ?thesis by (auto simp: unscheduled_def queued_unschedule current_unschedule)
qed

lemma unscheduled_cong:
  assumes "unscheduled X s s'" and "mt_run_queue s'' = mt_run_queue s'" "mt_current s'' = mt_current s'"
  shows "unscheduled X s s''"
  using assms by (simp add: unscheduled_def queued_def)

lemma terminate_loop_spec:
  assumes "\<forall>i \<in> set is. i < length (mt_threads s)"
  shows "\<exists>s'. terminate_loop k is s = (s', ok_unit) \<and> mt_tasks s' = mt_tasks s \<and>
    length (mt_threads s') = length (mt_threads s) \<and>
    (\<forall>j < length (mt_threads s). mt_threads s' ! j =
       (if j \<in> set is then map_option (kill k) (mt_threads s ! j) else mt_threads s ! j)) \<and>
    unscheduled (threads_of s k (set is)) s s'"
  using assms
proof (induction "is" arbitrary: s)
  case Nil
  then show ?case by (simp add: threads_of_def unscheduled_refl)
next
  case (Cons i rest)
  show ?case
  proof (cases "\<exists>th. mt_threads s ! i = Some th \<and> th_task th = k")
    case False
    have eq: "terminate_loop k (i # rest) s = terminate_loop k rest s"
      using False by (auto split: option.split)
    have "map_option (kill k) (mt_threads s ! i) = mt_threads s ! i"
      using False by (cases "mt_threads s ! i") (auto simp: kill_def)
    moreover have "threads_of s k (set (i # rest)) = threads_of s k (set rest)"
      using False by (auto simp: threads_of_def)
    moreover have "\<forall>i \<in> set rest. i < length (mt_threads s)" using Cons.prems by simp
    ultimately show ?thesis using Cons.IH [of s] unfolding eq by (simp only: list.set insert_iff) metis
  next
    case True
    then obtain th where th: "mt_threads s ! i = Some th" "th_task th = k" by blast
    let ?th = "th\<lparr>th_state := ThreadDead\<rparr>"
    define s1 where "s1 = emit_thread (count_stat with_completion
      ((unschedule_thread s (th_id th))\<lparr>mt_threads := (mt_threads s)[i := Some ?th]\<rparr>)) EvThreadExited k (th_id th)"
    have i: "i < length (mt_threads s)" using Cons.prems by simp
    have eq: "terminate_loop k (i # rest) s = terminate_loop k rest s1"
      using th by (simp add: Let_def thread_terminate_def thread_transition_def s1_def)
    have s1: "mt_tasks s1 = mt_tasks s" "mt_threads s1 = (mt_threads s)[i := Some ?th]" by (simp_all add: s1_def)
    have u1: "unscheduled {th_id th} s s1"
      by (rule unscheduled_cong [OF unscheduled_unschedule]) (simp_all add: s1_def)
    have nth1: "mt_threads s1 ! j = (if j = i then map_option (kill k) (mt_threads s ! j) else mt_threads s ! j)"
      if "j < length (mt_threads s)" for j
      using that th i by (simp add: s1 nth_list_update kill_def)
    have "\<forall>i \<in> set rest. i < length (mt_threads s1)" using Cons.prems by (simp add: s1)
    from Cons.IH [OF this] obtain s' where s': "terminate_loop k rest s1 = (s', ok_unit)" "mt_tasks s' = mt_tasks s"
      "length (mt_threads s') = length (mt_threads s)"
      "\<And>j. j < length (mt_threads s) \<Longrightarrow> mt_threads s' ! j =
         (if j \<in> set rest then map_option (kill k) (mt_threads s1 ! j) else mt_threads s1 ! j)"
      "unscheduled (threads_of s1 k (set rest)) s1 s'" by (auto simp: s1)
    have kk: "map_option (kill k) (map_option (kill k) x) = map_option (kill k) x" for x
      by (cases x) (auto simp: kill_def)
    have "mt_threads s' ! j = (if j \<in> set (i # rest) then map_option (kill k) (mt_threads s ! j) else mt_threads s ! j)"
      if "j < length (mt_threads s)" for j
      unfolding s'(4) [OF that] nth1 [OF that] by (simp add: kk)
    moreover have "{th_id th} \<union> threads_of s1 k (set rest) = threads_of s k (set (i # rest))"
    proof -
      have "threads_of s1 k (set rest) \<union> {th_id th} = threads_of s k (set rest) \<union> {th_id th}"
        using th i by (auto simp: threads_of_def s1 nth_list_update split: if_splits) (metis option.inject)
      then show ?thesis using th by (auto simp: threads_of_def)
    qed
    then have "unscheduled (threads_of s k (set (i # rest))) s s'"
      using unscheduled_trans [OF u1 s'(5)] by simp
    ultimately show ?thesis using s'(1-3) unfolding eq by blast
  qed
qed

lemma threads_of_all:
  assumes "unique_keys th_id (mt_threads s)"
  shows "t \<in> threads_of s k {0..<length (mt_threads s)} \<longleftrightarrow> (\<exists>th. thread_map s t = Some th \<and> th_task th = k)"
  by (simp add: threads_of_def slot_lookup_eq_Some_iff [OF assms] in_set_conv_nth Bex_def) blast

lemma terminate_task_cases:
  assumes ok: "mtss_ok s"
  obtains (missing) "task_map s k = None" "terminate_task s k = (s, Inl InvalidTask)"
    | (killed) tk s' where "task_map s k = Some tk" "terminate_task s k = (s', ok_unit)" "mtss_ok s'"
      "task_map s' = (task_map s)(k \<mapsto> tk\<lparr>tk_state := TaskExited\<rparr>)"
      "\<And>t. thread_map s' t = map_option (kill k) (thread_map s t)"
      "\<And>t. t \<in> queued s' \<longleftrightarrow> t \<in> queued s \<and> (\<forall>th. thread_map s t = Some th \<longrightarrow> th_task th \<noteq> k)"
      "\<And>t. mt_current s' = Some t \<longleftrightarrow> mt_current s = Some t \<and> (\<forall>th. thread_map s t = Some th \<longrightarrow> th_task th \<noteq> k)"
proof -
  have f: "tk_id (fst (task_terminate tk)) = tk_id tk" for tk by (simp add: task_terminate_def task_transition_def)
  from mtss_okD(2) [OF ok] f show thesis
  proof (cases rule: task_apply_cases [where k = k])
    case missing
    then show thesis by (intro that(1)) (simp_all add: terminate_task_def)
  next
    case (found tk tk' r tasks')
    have tk': "tk' = tk\<lparr>tk_state := TaskExited\<rparr>" "r = Inr (tk_state tk)"
      using found(3) by (simp_all add: task_terminate_def task_transition_def)
    let ?s1 = "s\<lparr>mt_tasks := tasks'\<rparr>"
    obtain s2 where s2: "terminate_loop k [0..<length (mt_threads s)] ?s1 = (s2, ok_unit)"
      "mt_tasks s2 = tasks'" "length (mt_threads s2) = length (mt_threads s)"
      "\<forall>j < length (mt_threads s). mt_threads s2 ! j = map_option (kill k) (mt_threads s ! j)"
      "unscheduled (threads_of ?s1 k {0..<length (mt_threads s)}) ?s1 s2"
      using terminate_loop_spec [of "[0..<length (mt_threads s)]" ?s1 k] by auto
    have threads2: "mt_threads s2 = map (map_option (kill k)) (mt_threads s)"
      by (rule nth_equalityI) (use s2(3,4) in simp_all)
    define s3 where "s3 = emit_task (if tk_state tk \<noteq> TaskExited then count_stat with_task_completion s2 else s2)
      EvTaskTerminated k"
    have s3: "mt_threads s3 = mt_threads s2" "mt_tasks s3 = tasks'" "mt_run_queue s3 = mt_run_queue s2"
      "mt_current s3 = mt_current s2" by (simp_all add: s3_def s2(2))
    have eq: "terminate_task s k = (s3, ok_unit)"
      using found(4) s2(1) tk' by (simp add: terminate_task_def s3_def)
    note u = mtss_okD(1) [OF ok]
    have T: "thread_map s3 t = map_option (kill k) (thread_map s t)" for t
      unfolding s3 threads2 by (rule slot_lookup_map) (simp add: kill_def)
    have in_k: "t \<in> threads_of ?s1 k {0..<length (mt_threads s)} \<longleftrightarrow> (\<exists>th. thread_map s t = Some th \<and> th_task th = k)" for t
      using threads_of_all [of ?s1 t k] u by simp
    have Q: "t \<in> queued s3 \<longleftrightarrow> t \<in> queued s \<and> (\<forall>th. thread_map s t = Some th \<longrightarrow> th_task th \<noteq> k)" for t
      using s2(5) in_k [of t] by (auto simp: unscheduled_def queued_def s3)
    have c: "mt_current s3 = Some t \<longleftrightarrow> mt_current s = Some t \<and> (\<forall>th. thread_map s t = Some th \<longrightarrow> th_task th \<noteq> k)" for t
      using s2(5) in_k [of t] by (simp add: unscheduled_def s3)
    have K: "task_map s3 = (task_map s)(k \<mapsto> tk\<lparr>tk_state := TaskExited\<rparr>)" using found(6) tk' by (simp add: s3)
    have "core_ok (thread_map s3) ((task_map s)(k \<mapsto> tk\<lparr>tk_state := TaskExited\<rparr>)) (queued s3) (mt_current s3)"
      by (rule core_terminate [OF mtss_okD(4) [OF ok] found(1)]) (simp_all add: T Q c kill_def [abs_def])
    moreover have "rq_ok (mt_run_queue s3)" using s2(5) mtss_okD(3) [OF ok] by (simp add: unscheduled_def s3)
    moreover have "unique_keys th_id (mt_threads s3)" unfolding s3 threads2
      by (rule unique_keys_map [OF u]) (simp add: kill_def)
    moreover have "unique_keys tk_id (mt_tasks s3)" using found(5) by (simp add: s3)
    ultimately have "mtss_ok s3" by (simp add: mtss_ok_def K)
    with found(1) eq K T Q c show thesis by (intro that(2) [of tk s3]) simp_all
  qed
qed


lemma contain_loop_spec:
  assumes "mtss_ok s"
  shows "mtss_ok (foldl (contain_step k) s is) \<and> mt_threads (foldl (contain_step k) s is) = mt_threads s \<and>
    mt_tasks (foldl (contain_step k) s is) = mt_tasks s \<and>
    unscheduled (threads_of s k (set is)) s (foldl (contain_step k) s is)"
proof (induction "is" rule: rev_induct)
  case Nil
  then show ?case using assms by (simp add: threads_of_def unscheduled_refl)
next
  case (snoc i xs)
  define t where "t = foldl (contain_step k) s xs"
  note ih = snoc [folded t_def]
  show ?case
  proof (cases "\<exists>th. mt_threads s ! i = Some th \<and> th_task th = k")
    case False
    then have "contain_step k t i = t" using ih by (auto simp: contain_step_def split: option.split)
    moreover have "threads_of s k (set (xs @ [i])) = threads_of s k (set xs)"
      using False by (auto simp: threads_of_def)
    ultimately show ?thesis using ih by (simp add: t_def)
  next
    case True
    then obtain th where th: "mt_threads s ! i = Some th" "th_task th = k" by blast
    then have st: "contain_step k t i = unschedule_thread t (th_id th)" using ih by (simp add: contain_step_def)
    have "threads_of s k (set (xs @ [i])) = threads_of s k (set xs) \<union> {th_id th}"
      using th by (auto simp: threads_of_def)
    with ih unscheduled_trans [OF _ unscheduled_unschedule [of "th_id th" t]] show ?thesis
      by (simp add: t_def [symmetric] st unschedule_ok)
  qed
qed

lemma task_apply_Inr:
  assumes ok: "mtss_ok s" and f: "\<And>tk. task_change tk (fst (f tk))" and eq: "task_apply s k f = (s', Inr x)"
  obtains tk tk' where "task_map s k = Some tk" "f tk = (tk', Inr x)" "task_map s' = (task_map s)(k \<mapsto> tk')"
    "mtss_ok s'" "mt_threads s' = mt_threads s" "mt_run_queue s' = mt_run_queue s" "mt_current s' = mt_current s"
proof -
  have ok': "mtss_ok s'" using task_apply_ok [OF ok f, of k] eq by simp
  note fr = task_apply_Inr_frame [OF eq]
  from mtss_okD(2) [OF ok] task_change_id [OF f] show thesis
  proof (cases rule: task_apply_cases [where k = k])
    case missing
    with eq show thesis by simp
  next
    case (found tk tk' r tasks')
    then have "s' = s\<lparr>mt_tasks := tasks'\<rparr>" "r = Inr x" using eq by simp_all
    with found ok' fr show thesis by (intro that [of tk tk']) simp_all
  qed
qed

lemma contain_change:
  "task_change tk (fst (if tk_state tk \<noteq> TaskBlocked then and_then (task_suspect tk) (\<lambda>tk _. (tk, ok_unit)) else (tk, ok_unit)))"
  "task_change tk (fst (task_contain tk))"
  by (simp_all add: task_ops task_trans_change) (simp add: task_change_def)

lemma contain_task_cases:
  assumes ok: "mtss_ok s"
  obtains (failed) e s' where "contain_task s k = (s', Inl e)" "mtss_ok s'"
    | (contained) s' tk where "contain_task s k = (s', ok_unit)" "mtss_ok s'"
      "task_map s' k = Some tk" "tk_state tk = TaskBlocked" "mt_threads s' = mt_threads s"
      "\<And>t th. thread_map s t = Some th \<Longrightarrow> th_task th = k \<Longrightarrow> \<not> scheduled s' t"
      "\<And>t. (\<forall>th. thread_map s t = Some th \<longrightarrow> th_task th \<noteq> k) \<Longrightarrow> scheduled s' t \<longleftrightarrow> scheduled s t"
proof -
  let ?f = "\<lambda>tk. if tk_state tk \<noteq> TaskBlocked then and_then (task_suspect tk) (\<lambda>tk _. (tk, ok_unit)) else (tk, ok_unit)"
  obtain s1 r1 where s1: "task_apply s k ?f = (s1, r1)" by (cases "task_apply s k ?f")
  have ok1: "mtss_ok s1" using task_apply_ok [OF ok contain_change(1), of k] s1 by simp
  let ?s1 = "emit_task s1 EvTaskSuspect k"
  have ok1': "mtss_ok ?s1" using ok1 by simp
  obtain s2 r2 where s2: "task_apply ?s1 k task_contain = (s2, r2)" by (cases "task_apply ?s1 k task_contain")
  have ok2: "mtss_ok s2" using task_apply_ok [OF ok1' contain_change(2), of k] s2 by simp
  show thesis
  proof (cases "\<exists>e. r1 = Inl e \<or> r2 = Inl e")
    case True
    then have "\<exists>s' e. contain_task s k = (s', Inl e) \<and> mtss_ok s'"
      using s1 s2 ok1 ok2 by (cases r1; cases r2) (auto simp: contain_task_def)
    then show thesis using failed by blast
  next
    case False
    then obtain x where r: "r1 = ok_unit" "r2 = Inr x" by (cases r1; cases r2) auto
    let ?s3 = "foldl (contain_step k) s2 [0..<length (mt_threads s2)]"
    let ?s = "emit_task (count_stat with_containment ?s3) EvTaskContained k"
    have eq: "contain_task s k = (?s, ok_unit)" using s1 s2 r by (simp add: contain_task_def Let_def)
    note loop = contain_loop_spec [OF ok2, of k "[0..<length (mt_threads s2)]"]
    obtain tk tk' where tk: "task_contain tk = (tk', Inr x)" "task_map s2 = (task_map ?s1)(k \<mapsto> tk')"
      using s2 r by (auto elim: task_apply_Inr [OF ok1' contain_change(2)])
    have blocked: "tk_state tk' = TaskBlocked"
      using tk(1) by (auto simp: task_contain_def task_transition_def split: if_splits)
    have th: "mt_threads s2 = mt_threads s"
      using task_apply_Inr_frame(1) [OF s1] task_apply_Inr_frame(1) [OF s2] by simp
    have sched: "scheduled s2 t \<longleftrightarrow> scheduled s t" for t
      using task_apply_Inr_frame(2,3) [OF s1] task_apply_Inr_frame(2,3) [OF s2] by (simp add: scheduled_def queued_def)
    have in_k: "t \<in> threads_of s2 k {0..<length (mt_threads s2)} \<longleftrightarrow> (\<exists>th. thread_map s t = Some th \<and> th_task th = k)" for t
      using threads_of_all [OF mtss_okD(1) [OF ok2], of t k] th by simp
    have sc: "scheduled ?s t \<longleftrightarrow> scheduled s t \<and> \<not> (\<exists>th. thread_map s t = Some th \<and> th_task th = k)" for t
      using loop in_k [of t] sched [of t] by (auto simp: scheduled_def unscheduled_def queued_def)
    show thesis
      by (rule contained [OF eq, of tk']) (use loop tk(2) blocked th sc in auto)
  qed
qed

lemma contain_task_ok: "mtss_ok s \<Longrightarrow> mtss_ok (fst (contain_task s k))"
  by (erule contain_task_cases [where k = k]) simp_all

lemma terminate_task_ok:
  assumes ok: "mtss_ok s"
  shows "mtss_ok (fst (terminate_task s k))"
  using ok by (cases rule: terminate_task_cases [where k = k]) (use ok in simp_all)

lemma reap_task_cases:
  assumes ok: "mtss_ok s"
  obtains (refused) e where "reap_task s k = (s, Inl e)" "\<And>tk. task_map s k = Some tk \<Longrightarrow> tk_state tk \<noteq> TaskExited"
    | (reaped) s' tk where "task_map s k = Some tk" "tk_state tk = TaskExited" "reap_task s k = (s', ok_unit)"
      "mtss_ok s'" "task_map s' = (task_map s)(k := None)"
      "thread_map s' = (\<lambda>t. case thread_map s t of Some th \<Rightarrow> if th_task th = k then None else Some th | None \<Rightarrow> None)"
proof (cases "find_slot (\<lambda>e. tk_id e = k) (mt_tasks s)")
  case None
  then show thesis by (intro refused) (simp_all add: reap_task_def find_task_index_def slot_lookup_def)
next
  case (Some i)
  then obtain tk where i: "i < length (mt_tasks s)" "mt_tasks s ! i = Some tk" "tk_id tk = k"
    by (rule find_slot_SomeE)
  have map: "task_map s k = Some tk" using Some i(2) by (simp add: slot_lookup_def)
  show thesis
  proof (cases "tk_state tk = TaskExited")
    case False
    with Some i map show thesis by (intro refused) (simp_all add: reap_task_def find_task_index_def)
  next
    case True
    let ?s = "s\<lparr>mt_threads := clear_slots (\<lambda>th. th_task th = k) (mt_threads s), mt_tasks := (mt_tasks s)[i := None]\<rparr>"
    let ?s' = "emit_task (count_stat with_reap ?s) EvTaskReaped k"
    have K: "task_map ?s = (task_map s)(k := None)"
      using slot_lookup_update_None [OF mtss_okD(2) [OF ok] i(1,2)] i(3) by simp
    have T: "thread_map ?s = (\<lambda>t. case thread_map s t of Some th \<Rightarrow> if th_task th = k then None else Some th | None \<Rightarrow> None)"
      using slot_lookup_clear [OF mtss_okD(1) [OF ok]] by simp
    have "core_ok (thread_map ?s) (task_map ?s) (queued s) (mt_current s)"
      unfolding K T by (rule core_reap [OF mtss_okD(4) [OF ok] map True])
    then have ok': "mtss_ok ?s"
      using mtss_okD(1-3) [OF ok] by (simp add: mtss_ok_def unique_keys_clear unique_keys_update_None queued_def)
    have "\<not> (th_task th = k \<and> th_state th \<noteq> ThreadDead)" if "Some th \<in> set (mt_threads s)" for th
    proof -
      have "thread_map s (th_id th) = Some th" using that slot_lookup_eq_Some_iff [OF mtss_okD(1) [OF ok]] by simp
      then show ?thesis using mtss_okD(4) [OF ok] map True unfolding core_ok_def by blast
    qed
    then have "find_slot (\<lambda>th. th_task th = k \<and> th_state th \<noteq> ThreadDead) (mt_threads s) = None"
      by (simp only: find_slot_None_iff) blast
    then have "reap_task s k = (?s', ok_unit)"
      using Some i(2) True by (simp add: reap_task_def find_task_index_def task_reap_def task_transition_def)
    then show thesis
      by (rule reaped [OF map True]) (use ok' K T in simp_all)
  qed
qed

lemma reap_task_ok:
  assumes ok: "mtss_ok s"
  shows "mtss_ok (fst (reap_task s k))"
  using ok by (cases rule: reap_task_cases [where k = k]) (use ok in simp_all)

section \<open>Runs\<close>

datatype mtss_op =
    CreateTask TaskId "TaskId option" AddressSpaceId Priority | CreateThread TaskId MtThreadId Priority
  | EnqueueThread MtThreadId | PickNext | TimerTick bool | RescheduleIfNeeded | YieldCurrent | RequeueCurrent
  | MarkTaskRunning TaskId | MarkTaskReady TaskId | BlockTask TaskId
  | BlockThread MtThreadId | WakeThread MtThreadId | SleepThread MtThreadId | ExitThread MtThreadId
  | TerminateTask TaskId | ContainTask TaskId | ReapTask TaskId | DrainEvent

fun mtss_exec :: "Mtss \<Rightarrow> mtss_op \<Rightarrow> Mtss" where
  "mtss_exec s (CreateTask k p a prio) = fst (create_task s k p a prio)"
| "mtss_exec s (CreateThread k t prio) = fst (create_thread s k t prio)"
| "mtss_exec s (EnqueueThread t) = fst (enqueue_thread s t)"
| "mtss_exec s PickNext = fst (pick_next s)"
| "mtss_exec s (TimerTick d) = fst (on_timer_tick_with_preemption_disabled s d)"
| "mtss_exec s RescheduleIfNeeded = fst (reschedule_if_needed s)"
| "mtss_exec s YieldCurrent = fst (yield_current s)"
| "mtss_exec s RequeueCurrent = fst (requeue_current s)"
| "mtss_exec s (MarkTaskRunning k) = fst (mark_task_running s k)"
| "mtss_exec s (MarkTaskReady k) = fst (mark_task_ready s k)"
| "mtss_exec s (BlockTask k) = fst (mtss_block_task s k)"
| "mtss_exec s (BlockThread t) = fst (block_thread s t)"
| "mtss_exec s (WakeThread t) = fst (wake_thread s t)"
| "mtss_exec s (SleepThread t) = fst (sleep_thread s t)"
| "mtss_exec s (ExitThread t) = fst (exit_thread s t)"
| "mtss_exec s (TerminateTask k) = fst (terminate_task s k)"
| "mtss_exec s (ContainTask k) = fst (contain_task s k)"
| "mtss_exec s (ReapTask k) = fst (reap_task s k)"
| "mtss_exec s DrainEvent = fst (drain_event s)"

lemma drain_event_ok: "mtss_ok s \<Longrightarrow> mtss_ok (fst (drain_event s))"
  by (simp add: drain_event_def mtss_ok_def queued_def)

lemmas mtss_op_ok = create_task_ok create_thread_ok enqueue_thread_ok pick_next_ok on_timer_tick_ok
  reschedule_ok yield_current_ok requeue_current_ok mark_task_running_ok mark_task_ready_ok block_task_ok
  block_thread_ok wake_thread_ok sleep_thread_ok exit_thread_ok terminate_task_ok contain_task_ok
  reap_task_ok drain_event_ok

lemma mtss_exec_ok: "mtss_ok s \<Longrightarrow> mtss_ok (mtss_exec s op)"
  by (cases op) (simp_all add: mtss_op_ok)

lemma mtss_new_ok: "mtss_ok (mtss_new a b c d cfg)"
proof -
  have "queued (mtss_new a b c d cfg) = {}" by (auto simp: queued_def mtss_new_def rq_new_def)
  then show ?thesis by (simp add: mtss_ok_def core_ok_def) (simp add: mtss_new_def rq_ok_new)
qed

lemma mtss_run_ok: "mtss_ok s \<Longrightarrow> mtss_ok (foldl mtss_exec s ops)"
  by (induction ops arbitrary: s) (simp_all add: mtss_exec_ok)

end
