(* ===== verification/Mtss_Scheduling.thy ===== *)
theory Mtss_Scheduling
  imports Mtss_Invariant
begin

text \<open>
  What the scheduler facade promises its callers: consistent tables after any run, a total
  \<open>pick_next\<close>, finality of termination, no execution of a blocked thread before it is woken, exact
  time slices, round robin order under yields, containment, and an event ring that keeps the newest
  events in order.
\<close>

section \<open>Every run\<close>

text \<open>
  (C22) After any sequence of operations, failing ones included, the tables are consistent: task and
  thread ids are unique, every thread belongs to a task of the table, every queued thread and the
  current one exist and are ready or running, the threads of an exited task are dead, and the run
  queue never holds more records than it counts.
\<close>

theorem mtss_reachable_ok: "mtss_ok (foldl mtss_exec (mtss_new a b c d cfg) ops)"
  by (intro mtss_run_ok mtss_new_ok)

text \<open>
  (C25) Picking the next thread cannot fail in a reachable state, although each of its steps can: the
  thread named by the first record in the queue is in the table, its transition to running is
  allowed and its task exists. It becomes the current thread, running, with a fresh time slice;
  nothing is returned exactly when the queue holds no record.
\<close>

theorem pick_next_total:
  "let s = foldl mtss_exec (mtss_new a b c d cfg) ops in
   case pick_next s of
     (_, Inl e) \<Rightarrow> False
   | (s', Inr None) \<Rightarrow> rq_records (mt_run_queue s) = [] \<and> mt_current s' = mt_current s \<and> mt_threads s' = mt_threads s
   | (s', Inr (Some dec)) \<Rightarrow>
       \<exists>r th. rq_records (mt_run_queue s) = r # rq_records (mt_run_queue s') \<and> sd_next dec = sr_thread r \<and>
         sd_previous dec = mt_current s \<and> mt_current s' = Some (sr_thread r) \<and>
         thread_map s (sr_thread r) = Some th \<and>
         thread_map s' = (thread_map s)(sr_thread r \<mapsto> th\<lparr>th_state := ThreadRunningState,
           th_timeslice := cfg_default_timeslice (mt_config s)\<rparr>)"
proof -
  let ?s = "foldl mtss_exec (mtss_new a b c d cfg) ops"
  have "mtss_ok ?s" by (intro mtss_run_ok mtss_new_ok)
  then show ?thesis unfolding Let_def
    by (cases rule: pick_next_cases) (simp_all add: decision_new_def)
qed

section \<open>Termination is final\<close>

definition exited :: "TaskId \<Rightarrow> Mtss \<Rightarrow> bool" where
  "exited k s \<longleftrightarrow> unique_keys tk_id (mt_tasks s) \<and> (\<exists>tk. task_map s k = Some tk \<and> tk_state tk = TaskExited)"

lemma exited_cong: "mt_tasks s' = mt_tasks s \<Longrightarrow> exited k s' = exited k s"
  by (simp add: exited_def)

lemma exited_frame [simp]:
  "exited k (emit s e) = exited k s" "exited k (emit_thread s x a b) = exited k s" "exited k (emit_task s x a) = exited k s"
  "exited k (count_stat f s) = exited k s" "exited k (s\<lparr>mt_need_resched := x1\<rparr>) = exited k s"
  "exited k (s\<lparr>mt_now := n\<rparr>) = exited k s" "exited k (s\<lparr>mt_current := c\<rparr>) = exited k s"
  "exited k (s\<lparr>mt_run_queue := q\<rparr>) = exited k s" "exited k (s\<lparr>mt_threads := ths\<rparr>) = exited k s"
  "exited k (unschedule_thread s t) = exited k s"
  by (rule exited_cong; simp)+

lemma exited_thread_apply: "exited k s \<Longrightarrow> exited k (fst (thread_apply s t f))"
  by (simp add: thread_apply_def split: option.split prod.split)

lemma exited_run_enqueue: "exited k s \<Longrightarrow> exited k (fst (run_enqueue s r))"
  by (simp add: run_enqueue_def split: prod.split)

lemma exited_task_apply:
  assumes ex: "exited k s" and f: "\<And>tk. task_change tk (fst (f tk))"
  shows "exited k (fst (task_apply s k' f))"
proof -
  have u: "unique_keys tk_id (mt_tasks s)" using ex by (simp add: exited_def)
  from u task_change_id [OF f] show ?thesis
  proof (cases rule: task_apply_cases [where k = k'])
    case missing
    with ex show ?thesis by simp
  next
    case (found tk tk' r tasks')
    have "tk_state tk = TaskExited \<longrightarrow> tk_state tk' = TaskExited"
      using f [of tk] found(3) by (simp add: task_change_def)
    with ex found show ?thesis by (auto simp: exited_def)
  qed
qed

lemma exited_with_task:
  "exited k s \<Longrightarrow> (\<And>tk. task_change tk (f tk)) \<Longrightarrow> exited k (fst (with_task_mut s k' f))"
  by (simp add: with_task_mut_def exited_task_apply)

lemmas exited_and_then = fst_and_then [where Q = "exited k" for k]

lemma exited_create_task:
  assumes "exited k s"
  shows "exited k (fst (create_task s tid p a prio))"
proof (cases "find_task_index s tid = None \<and> free_task_slot s \<noteq> None")
  case False
  then show ?thesis using assms by (auto simp: create_task_def)
next
  case True
  then obtain i where i: "free_slot (mt_tasks s) = Some i" by (auto simp: free_task_slot_def)
  let ?tk = "(task_new tid p a prio)\<lparr>tk_state := TaskRunnable\<rparr>"
  have new: "task_map s (tk_id ?tk) = None"
    using True by (simp add: slot_lookup_def find_task_index_def task_new_def)
  have "unique_keys tk_id (mt_tasks s)" using assms by (simp add: exited_def)
  note ins = slot_lookup_insert [OF this i new]
  have "exited k (s\<lparr>mt_tasks := (mt_tasks s)[i := Some ?tk]\<rparr>)"
    using assms ins new by (auto simp: exited_def)
  moreover have "task_admit (task_new tid p a prio) = (?tk, Inr TaskCreatedState)"
    by (simp add: task_admit_def task_transition_def task_new_def)
  ultimately show ?thesis using True i by (simp add: create_task_def free_task_slot_def)
qed

lemma exited_create_thread: "exited k s \<Longrightarrow> exited k (fst (create_thread s a t prio))"
  by (auto simp: create_thread_def task_change_def task_ops split: option.split
      intro!: exited_and_then exited_with_task)

lemma exited_enqueue: "exited k s \<Longrightarrow> exited k (fst (enqueue_thread s t))"
  by (auto simp: enqueue_thread_def split: sum.split
      intro!: exited_and_then exited_thread_apply exited_run_enqueue)

lemma exited_dispatch: "exited k s \<Longrightarrow> exited k (fst (dispatch s t reason))"
  by (auto simp: dispatch_def Let_def task_change_def task_ops task_transition_def
      intro!: exited_and_then exited_thread_apply exited_with_task)

lemma exited_pick_next: "exited k s \<Longrightarrow> exited k (fst (pick_next s))"
  by (auto simp: pick_next_def split: prod.split option.split intro!: exited_and_then exited_dispatch)

lemma exited_ready_current: "exited k s \<Longrightarrow> exited k (fst (ready_current_for_requeue s t reason))"
  by (auto simp: ready_current_for_requeue_def split: sum.split
      intro!: exited_and_then exited_thread_apply exited_run_enqueue)

lemma exited_yield: "exited k s \<Longrightarrow> exited k (fst (yield_current s))"
  by (auto simp: yield_current_def split: option.split
      intro!: exited_and_then exited_ready_current exited_pick_next)

lemma exited_requeue: "exited k s \<Longrightarrow> exited k (fst (requeue_current s))"
  by (auto simp: requeue_current_def split: option.split intro!: exited_ready_current)

lemma exited_reschedule: "exited k s \<Longrightarrow> exited k (fst (reschedule_if_needed s))"
  by (simp add: reschedule_if_needed_def exited_yield)

lemma exited_with_task_for_thread:
  "exited k s \<Longrightarrow> (\<And>tk. task_change tk (f tk)) \<Longrightarrow> exited k (fst (with_task_mut_for_thread s t f))"
  by (simp add: with_task_mut_for_thread_def exited_with_task split: sum.split)

lemma exited_tick: "exited k s \<Longrightarrow> exited k (fst (on_timer_tick_with_preemption_disabled s d))"
  by (auto simp: on_timer_tick_with_preemption_disabled_def Let_def task_change_def task_ops
      split: option.split sum.split
      intro!: exited_and_then exited_thread_apply exited_with_task_for_thread exited_reschedule)

lemma exited_mark:
  "exited k s \<Longrightarrow> exited k (fst (mark_task_running s k'))" "exited k s \<Longrightarrow> exited k (fst (mark_task_ready s k'))"
  "exited k s \<Longrightarrow> exited k (fst (wake_task_if_waiting s k'))"
  unfolding mark_task_running_def mark_task_ready_def wake_task_if_waiting_def
  by (rule exited_task_apply; simp add: task_ops task_trans_change; simp add: task_change_def)+

lemma exited_block_task: "exited k s \<Longrightarrow> exited k (fst (mtss_block_task s k'))"
  unfolding mtss_block_task_def
  by (auto simp: task_ops task_trans_change intro!: exited_and_then exited_task_apply)
    (simp add: task_change_def)+

lemma exited_refresh: "exited k s \<Longrightarrow> exited k (fst (refresh_task_wait_state s k' TaskBlocked))"
  unfolding refresh_task_wait_state_def
  by (auto simp: Let_def task_ops task_trans_change intro!: exited_and_then exited_task_apply)
    (simp add: task_change_def)+

lemma exited_threads:
  assumes "exited k s"
  shows "exited k (fst (block_thread s t))" "exited k (fst (sleep_thread s t))" "exited k (fst (exit_thread s t))"
    "exited k (fst (wake_thread s t))"
  using assms
  by (auto simp: block_thread_def sleep_thread_def exit_thread_def wake_thread_def task_change_def task_ops
      split: sum.split
      intro!: exited_and_then exited_thread_apply exited_refresh exited_with_task exited_mark exited_enqueue)


lemma exited_terminate:
  assumes "mtss_ok s" and "exited k s"
  shows "exited k (fst (terminate_task s k'))"
  using assms(1) by (cases rule: terminate_task_cases [where k = k'])
    (use assms(2) in \<open>auto simp: exited_def mtss_okD(2)\<close>)

lemma exited_reap:
  assumes "mtss_ok s" and "exited k s" and "k \<noteq> k'"
  shows "exited k (fst (reap_task s k'))"
  using assms(1) by (cases rule: reap_task_cases [where k = k'])
    (use assms(2,3) in \<open>auto simp: exited_def mtss_okD(2)\<close>)

lemma contain_step_tasks [simp]: "mt_tasks (foldl (contain_step k) s is) = mt_tasks s"
  by (induction "is" arbitrary: s) (simp_all add: contain_step_def split: option.split)

lemma exited_contain_loop [simp]: "exited k (foldl (contain_step k') s is) = exited k s"
  by (rule exited_cong) simp

lemma exited_contain: "exited k s \<Longrightarrow> exited k (fst (contain_task s k'))"
  unfolding contain_task_def
  by (auto simp: Let_def contain_change intro!: exited_and_then exited_task_apply)

lemmas exited_ops = exited_create_task exited_create_thread exited_enqueue exited_pick_next exited_tick
  exited_reschedule exited_yield exited_requeue exited_mark exited_block_task exited_threads exited_terminate
  exited_contain exited_reap

lemma exited_exec:
  assumes "mtss_ok s" and "exited k s" and "op \<noteq> ReapTask k"
  shows "exited k (mtss_exec s op)"
proof (cases op)
  case DrainEvent
  then show ?thesis using assms(2) by (simp add: drain_event_def exited_def)
qed (use assms in \<open>auto simp: exited_ops\<close>)

lemma exited_run:
  assumes "mtss_ok s" and "exited k s" and "ReapTask k \<notin> set ops"
  shows "exited k (foldl mtss_exec s ops)"
  using assms
proof (induction ops arbitrary: s)
  case (Cons op ops)
  then show ?case using Cons.IH [OF mtss_exec_ok exited_exec] by auto
qed simp

lemma exited_not_scheduled:
  assumes ok: "mtss_ok s" and "exited k s" and "scheduled s t"
  shows "\<exists>th. thread_map s t = Some th \<and> th_task th \<noteq> k"
proof -
  obtain th where th: "thread_map s t = Some th" "thread_may_schedule (th_state th)"
    using assms(1,3) by (rule scheduled_thread)
  have "th_task th \<noteq> k"
  proof
    assume "th_task th = k"
    with assms(2) th(1) mtss_okD(4) [OF ok] have "th_state th = ThreadDead"
      unfolding exited_def core_ok_def by blast
    with th(2) show False by simp
  qed
  with th(1) show ?thesis by blast
qed

text \<open>
  (C9) Terminating a task is final. Once \<open>terminate_task\<close> has succeeded, no sequence of operations
  makes a thread of that task queued or current again, until the task is reaped: waking, enqueueing
  or unblocking its threads fails or has no such effect.
\<close>

theorem terminated_never_runs:
  assumes "mtss_ok s" and "terminate_task s k = (s1, Inr ())" and "ReapTask k \<notin> set ops"
    and "scheduled (foldl mtss_exec s1 ops) t"
  shows "\<exists>th. thread_map (foldl mtss_exec s1 ops) t = Some th \<and> th_task th \<noteq> k"
proof -
  have "mtss_ok s1 \<and> exited k s1"
    using assms(1)
  proof (cases rule: terminate_task_cases [where k = k])
    case (killed tk s')
    with assms(2) show ?thesis by (simp add: exited_def mtss_okD(2))
  qed (use assms(2) in simp)
  then show ?thesis
    using assms(3,4) by (intro exited_not_scheduled) (auto simp: mtss_run_ok exited_run)
qed

text \<open>A scheduler with two tasks of one thread each, both queued, and the first one running.\<close>

definition demo_ops :: "mtss_op list" where
  "demo_ops = [CreateTask 1 None 10 0, CreateTask 2 None 20 0, CreateThread 1 11 0, CreateThread 2 22 0,
     CreateThread 2 23 0, EnqueueThread 11, EnqueueThread 22, EnqueueThread 23, PickNext]"

definition demo_mtss :: Mtss where
  "demo_mtss = foldl mtss_exec (mtss_new 4 4 4 8 (config_new 0)) demo_ops"

lemma demo_mtss_ok: "mtss_ok demo_mtss"
  unfolding demo_mtss_def by (intro mtss_run_ok mtss_new_ok)

theorem terminated_never_runs_witness:
  "snd (terminate_task demo_mtss 1) = Inr () \<and>
   mt_current (foldl mtss_exec (fst (terminate_task demo_mtss 1)) [WakeThread 11, PickNext]) = Some 22 \<and>
   (\<exists>th. thread_map (foldl mtss_exec (fst (terminate_task demo_mtss 1)) [WakeThread 11, PickNext]) 22 = Some th \<and>
     th_task th \<noteq> 1)"
proof -
  let ?s = "foldl mtss_exec (fst (terminate_task demo_mtss 1)) [WakeThread 11, PickNext]"
  have ev: "snd (terminate_task demo_mtss 1) = Inr ()" "mt_current ?s = Some 22" by code_simp+
  have "\<exists>th. thread_map ?s 22 = Some th \<and> th_task th \<noteq> 1"
    by (rule terminated_never_runs [OF demo_mtss_ok, of 1 "fst (terminate_task demo_mtss 1)"])
      (use ev in \<open>simp_all add: prod_eq_iff scheduled_def\<close>)
  with ev show ?thesis by blast
qed

section \<open>A blocked thread does not run until it is woken\<close>

definition idle :: "MtThreadId \<Rightarrow> Mtss \<Rightarrow> bool" where
  "idle t s \<longleftrightarrow> \<not> scheduled s t"

lemmas idle_and_then = fst_and_then [where Q = "\<lambda>s. mtss_ok s \<and> idle t s" for t]
lemmas sched_and_then = fst_and_then [where Q = "idle t" for t]

lemma scheduled_cong:
  "mt_run_queue s' = mt_run_queue s \<Longrightarrow> mt_current s' = mt_current s \<Longrightarrow> scheduled s' t = scheduled s t"
  by (simp add: scheduled_def queued_def)

lemma scheduled_frame [simp]:
  "scheduled (emit s e) t = scheduled s t" "scheduled (emit_thread s x a b) t = scheduled s t"
  "scheduled (emit_task s x a) t = scheduled s t" "scheduled (count_stat f s) t = scheduled s t"
  "scheduled (s\<lparr>mt_need_resched := x1\<rparr>) t = scheduled s t" "scheduled (s\<lparr>mt_now := n\<rparr>) t = scheduled s t"
  "scheduled (s\<lparr>mt_threads := ths\<rparr>) t = scheduled s t" "scheduled (s\<lparr>mt_tasks := tks\<rparr>) t = scheduled s t"
  by (rule scheduled_cong; simp)+

lemma scheduled_apply [simp]:
  "scheduled (fst (thread_apply s t' f)) t = scheduled s t" "scheduled (fst (task_apply s k g)) t = scheduled s t"
  "scheduled (fst (with_task_mut s k h)) t = scheduled s t"
  "scheduled (fst (with_task_mut_for_thread s t' h)) t = scheduled s t"
  by (simp_all add: thread_apply_def task_apply_def with_task_mut_def with_task_mut_for_thread_def
      split: option.split prod.split sum.split)

lemma idle_frame [simp]:
  "idle t (emit s e) = idle t s" "idle t (emit_thread s x a b) = idle t s" "idle t (emit_task s x a) = idle t s"
  "idle t (count_stat f s) = idle t s" "idle t (s\<lparr>mt_need_resched := x1\<rparr>) = idle t s"
  "idle t (s\<lparr>mt_now := n\<rparr>) = idle t s" "idle t (s\<lparr>mt_threads := ths\<rparr>) = idle t s"
  "idle t (s\<lparr>mt_tasks := tks\<rparr>) = idle t s" "idle t (fst (thread_apply s t' f1)) = idle t s"
  "idle t (fst (task_apply s k g)) = idle t s" "idle t (fst (with_task_mut s k h)) = idle t s"
  "idle t (fst (with_task_mut_for_thread s t' h)) = idle t s"
  by (simp_all add: idle_def)

lemma scheduled_unschedule: "idle t s \<Longrightarrow> idle t (unschedule_thread s t')"
  by (auto simp: idle_def scheduled_def queued_unschedule current_unschedule)

lemma enqueue_step_scheduled:
  assumes ok: "mtss_ok s" and f: "\<And>th. thread_change (scheduled s t') th (fst (f th))"
    and rec: "\<And>th th' r k. f th = (th', Inr (r, k)) \<Longrightarrow> sr_thread r = th_id th"
    and t: "t \<noteq> t'" "idle t s"
  shows "idle t (fst (and_then (thread_apply s t' f)
    (\<lambda>s (r, k). and_then (run_enqueue s r) (\<lambda>s _. (emit_thread (count_stat g s) EvThreadRunnable k t', ok_unit)))))"
proof (rule sched_and_then)
  fix s1 and rk :: "SchedRecord \<times> TaskId"
  assume eq: "thread_apply s t' f = (s1, Inr rk)" and s1: "idle t s1"
  obtain r k where rk: "rk = (r, k)" by (cases rk)
  have r: "sr_thread r = t'"
    by (rule thread_apply_Inr [OF ok f eq]) (use rec in \<open>simp add: rk\<close>)
  have "idle t (fst (run_enqueue s1 r))"
    using s1 t(1) r set_update_subset_insert [of "rq_queue (mt_run_queue s1)" "rq_tail (mt_run_queue s1)" "Some r"]
    by (auto simp: run_enqueue_def rq_enqueue_def idle_def scheduled_def queued_def)
  then show "idle t (fst (case rk of (r, k) \<Rightarrow> and_then (run_enqueue s1 r)
      (\<lambda>s _. (emit_thread (count_stat g s) EvThreadRunnable k t', ok_unit))))"
    unfolding rk prod.case by (rule sched_and_then) simp
qed (use t in simp)


lemma idle_pick_next:
  assumes "mtss_ok s" and "idle t s"
  shows "idle t (fst (pick_next s))"
  using assms(1) by (cases rule: pick_next_cases) (use assms(2) in \<open>auto simp: idle_def scheduled_def\<close>)

lemma idle_ready_current:
  assumes ok: "mtss_ok s" and t: "t \<noteq> t'" "idle t s"
  shows "idle t (fst (ready_current_for_requeue s t' reason))"
proof (cases "ensure_run_queue_capacity s")
  case (Inr _)
  have id: "count_stat (\<lambda>x. x) s' = s'" for s' by (simp add: count_stat_def)
  have "idle t (fst (and_then (thread_apply s t' (\<lambda>th.
       and_then (thread_mark_ready th) (\<lambda>th _. let th = reset_timeslice th (cfg_default_timeslice (mt_config s))
         in (th, Inr (schedule_record th, th_task th)))))
    (\<lambda>s (r, k). and_then (run_enqueue s r) (\<lambda>s _. (emit_thread (count_stat (\<lambda>x. x) s) EvThreadRunnable k t', ok_unit)))))"
    by (rule enqueue_step_scheduled [OF ok mark_ready_change _ t])
      (auto simp: thread_ops and_then_thread_transition Let_def split: if_splits)
  then show ?thesis by (simp only: ready_current_for_requeue_def Inr sum.case id)
qed (use t in \<open>simp add: ready_current_for_requeue_def\<close>)

lemma idle_enqueue:
  assumes ok: "mtss_ok s" and t: "t \<noteq> t'" "idle t s"
  shows "idle t (fst (enqueue_thread s t'))"
proof (cases "ensure_run_queue_capacity s")
  case (Inr _)
  have "idle t (fst (and_then (thread_apply s t' (\<lambda>th.
       and_then (if th_state th \<noteq> ThreadReady then thread_transition th ThreadReady else (th, Inr (th_state th)))
         (\<lambda>th _. (th, Inr (schedule_record th, th_task th)))))
    (\<lambda>s (r, k). and_then (run_enqueue s r) (\<lambda>s _. (emit_thread (count_stat with_admission s) EvThreadRunnable k t', ok_unit)))))"
    by (rule enqueue_step_scheduled [OF ok make_ready_change _ t]) (auto simp: thread_transition_def split: if_splits)
  then show ?thesis by (simp only: enqueue_thread_def Inr sum.case)
qed (use t in \<open>simp add: enqueue_thread_def\<close>)

lemma idle_yield:
  assumes ok: "mtss_ok s" and t: "idle t s"
  shows "idle t (fst (yield_current s))"
proof (cases "mt_current s")
  case None
  then show ?thesis using idle_pick_next [OF ok t] by (simp add: yield_current_def)
next
  case (Some t')
  with t have ne: "t \<noteq> t'" by (auto simp: idle_def scheduled_def)
  have "mtss_ok (fst (yield_current s)) \<and> idle t (fst (yield_current s))"
    unfolding yield_current_def Some option.case
    by (rule idle_and_then) (use ready_current_ok [OF ok] idle_ready_current [OF ok ne t] in
      \<open>auto simp: pick_next_ok idle_pick_next\<close>)
  then show ?thesis by simp
qed

lemma idle_requeue:
  assumes ok: "mtss_ok s" and t: "idle t s"
  shows "idle t (fst (requeue_current s))"
proof (cases "mt_current s")
  case None
  then show ?thesis using t by (simp add: requeue_current_def)
next
  case (Some t')
  have "idle t (s\<lparr>mt_current := None\<rparr>)" "t \<noteq> t'" using t Some by (auto simp: idle_def scheduled_def queued_def)
  then show ?thesis
    using idle_ready_current [OF clear_current_ok [OF ok]] by (simp add: requeue_current_def Some)
qed

lemma idle_reschedule:
  "mtss_ok s \<Longrightarrow> idle t s \<Longrightarrow> idle t (fst (reschedule_if_needed s))"
  by (simp add: reschedule_if_needed_def idle_yield)

lemma idle_tick:
  assumes ok: "mtss_ok s" and t: "idle t s"
  shows "idle t (fst (on_timer_tick_with_preemption_disabled s d))"
proof -
  let ?s = "s\<lparr>mt_now := saturating_add (mt_now s) 1\<rparr>"
  have ok': "mtss_ok ?s" "idle t ?s" using ok t by simp_all
  show ?thesis
  proof (cases "mt_current ?s")
    case None
    with t show ?thesis by (simp add: on_timer_tick_with_preemption_disabled_def)
  next
    case (Some c)
    have "mtss_ok (fst (on_timer_tick_with_preemption_disabled s d)) \<and> idle t (fst (on_timer_tick_with_preemption_disabled s d))"
      unfolding on_timer_tick_with_preemption_disabled_def Let_def Some option.case
      by (intro idle_and_then conjI thread_apply_ok [OF ok'(1) tick_change])
        (use ok' in \<open>auto simp: with_task_for_thread_ok task_change_def task_ops reschedule_ok idle_reschedule
           split: sum.split intro!: idle_and_then\<close>)
    then show ?thesis by simp
  qed
qed

lemma scheduled_contain_loop: "idle t s \<Longrightarrow> idle t (foldl (contain_step k) s is)"
  by (induction "is" arbitrary: s) (simp_all add: contain_step_def scheduled_unschedule split: option.split)

lemma scheduled_terminate_loop: "idle t s \<Longrightarrow> idle t (fst (terminate_loop k is s))"
  by (induction k "is" s rule: terminate_loop.induct)
    (simp_all add: Let_def thread_terminate_def thread_transition_def scheduled_unschedule split: option.split)

lemma idle_simple:
  assumes "idle t s"
  shows "idle t (fst (create_task s a b c d))" "idle t (fst (create_thread s a e d))"
    "idle t (fst (mark_task_running s k))" "idle t (fst (mark_task_ready s k))"
    "idle t (fst (mtss_block_task s k))" "idle t (fst (wake_task_if_waiting s k))"
    "idle t (fst (refresh_task_wait_state s k w))"
  using assms
  by (auto simp: create_task_def create_thread_def mark_task_running_def mark_task_ready_def mtss_block_task_def
      wake_task_if_waiting_def refresh_task_wait_state_def Let_def task_admit_def task_transition_def
      split: option.split intro!: sched_and_then)

lemma idle_removing:
  assumes "idle t s"
  shows "idle t (fst (block_thread s t'))" "idle t (fst (sleep_thread s t'))"
    "idle t (fst (exit_thread s t'))" "idle t (fst (terminate_task s k))"
    "idle t (fst (contain_task s k))" "idle t (fst (reap_task s k))"
  using assms
  by (auto simp: block_thread_def sleep_thread_def exit_thread_def terminate_task_def contain_task_def reap_task_def
      Let_def task_reap_def task_transition_def scheduled_unschedule idle_simple
      scheduled_contain_loop scheduled_terminate_loop split: sum.split option.split intro!: sched_and_then)

lemma idle_wake:
  assumes ok: "mtss_ok s" and t: "t \<noteq> t'" "idle t s"
  shows "idle t (fst (wake_thread s t'))"
proof -
  have "thread_change b th (fst (and_then (thread_transition th ThreadReady) (\<lambda>th _. (th, Inr (th_task th)))))" for b th
    by (simp add: and_then_thread_transition thread_change_def valid_from_dead)
  then have "mtss_ok (fst (wake_thread s t')) \<and> idle t (fst (wake_thread s t'))"
    using ok t unfolding wake_thread_def thread_ops
    by (auto split: sum.split intro!: idle_and_then thread_apply_ok wake_task_ok enqueue_thread_ok
        simp: idle_simple idle_enqueue)
  then show ?thesis by simp
qed

lemma idle_exec:
  assumes ok: "mtss_ok s" and t: "idle t s" and op: "op \<noteq> EnqueueThread t" "op \<noteq> WakeThread t"
  shows "idle t (mtss_exec s op)"
proof (cases op)
  case DrainEvent
  have "scheduled (fst (drain_event s)) t = scheduled s t"
    by (rule scheduled_cong) (simp_all add: drain_event_def)
  with DrainEvent t show ?thesis by (simp add: idle_def)
qed (use assms in \<open>auto simp: idle_enqueue idle_pick_next idle_tick idle_reschedule idle_yield idle_requeue
    idle_simple idle_removing idle_wake\<close>)

lemma idle_run:
  assumes "mtss_ok s" and "idle t s" and "EnqueueThread t \<notin> set ops" "WakeThread t \<notin> set ops"
  shows "idle t (foldl mtss_exec s ops)"
  using assms
proof (induction ops arbitrary: s)
  case (Cons op ops)
  then show ?case using Cons.IH [OF mtss_exec_ok idle_exec] by auto
qed simp


lemma block_thread_Inr:
  assumes ok: "mtss_ok s" and eq: "block_thread s t = (s1, Inr ())"
  shows "mtss_ok s1" and "idle t s1" and "\<exists>th. thread_map s1 t = Some th \<and> th_state th = ThreadBlockedState"
proof -
  show "mtss_ok s1" using block_thread_ok [OF ok, of t] eq by simp
  let ?f = "\<lambda>th. and_then (thread_block th) (\<lambda>th _. (th, Inr (th_task th)))"
  let ?u = "unschedule_thread s t"
  have f: "thread_change (scheduled ?u t) th (fst (?f th))" for th
    by (simp add: thread_ops and_then_thread_transition thread_change_def not_scheduled_unschedule valid_from_dead)
  have "\<exists>task s2 s3. thread_apply ?u t ?f = (s2, Inr task) \<and> refresh_task_wait_state s2 task TaskBlocked = (s3, ok_unit) \<and>
      s1 = emit_thread (count_stat with_block s3) EvThreadBlocked task t"
    using eq by (auto simp: block_thread_def and_then_eq_Inr split: sum.splits)
  then obtain task s2 s3 where s2: "thread_apply ?u t ?f = (s2, Inr task)"
    and s3: "refresh_task_wait_state s2 task TaskBlocked = (s3, ok_unit)"
    and s1: "s1 = emit_thread (count_stat with_block s3) EvThreadBlocked task t" by blast
  have "idle t s2" using not_scheduled_unschedule [of s t] arg_cong [OF s2, of "\<lambda>x. idle t (fst x)"]
    by (simp add: idle_def)
  then have "idle t s3" using idle_simple(7) [of t s2 task TaskBlocked] s3 by simp
  then show "idle t s1" by (simp add: s1)
  obtain th th' where th: "?f th = (th', Inr task)" "thread_map s2 = (thread_map ?u)(t \<mapsto> th')"
    by (rule thread_apply_Inr [OF unschedule_ok [OF ok] f s2]) blast
  have "mt_threads (fst (refresh_task_wait_state s2 task TaskBlocked)) = mt_threads s2"
    unfolding refresh_task_wait_state_def Let_def
    by (rule fst_and_then [where Q = "\<lambda>s. mt_threads s = mt_threads s2"]) (simp_all add: task_apply_frame)
  then have "mt_threads s1 = mt_threads s2" using s3 by (simp add: s1)
  moreover have "th_state th' = ThreadBlockedState"
    using th(1) by (auto simp: thread_ops and_then_thread_transition split: if_splits)
  ultimately show "\<exists>th. thread_map s1 t = Some th \<and> th_state th = ThreadBlockedState" using th(2) by simp
qed

text \<open>
  (C33) Once a thread is blocked it does not run, whatever else the scheduler does, until somebody
  wakes or enqueues that very thread: it is never queued and never current in between.
\<close>

theorem blocked_until_woken:
  assumes "mtss_ok s" and "block_thread s t = (s1, Inr ())"
    and "EnqueueThread t \<notin> set ops" and "WakeThread t \<notin> set ops"
  shows "(\<exists>th. thread_map s1 t = Some th \<and> th_state th = ThreadBlockedState) \<and>
    \<not> scheduled (foldl mtss_exec s1 ops) t"
  using block_thread_Inr [OF assms(1,2)] idle_run [of s1 t ops] assms(3,4) by (simp add: idle_def)

theorem blocked_until_woken_witness:
  "snd (block_thread demo_mtss 22) = Inr () \<and>
   \<not> scheduled (foldl mtss_exec (fst (block_thread demo_mtss 22)) [TimerTick False, YieldCurrent, EnqueueThread 11]) 22"
proof -
  have ev: "snd (block_thread demo_mtss 22) = Inr ()" by code_simp
  then have "block_thread demo_mtss 22 = (fst (block_thread demo_mtss 22), Inr ())" by (simp add: prod_eq_iff)
  from blocked_until_woken [OF demo_mtss_ok this, of "[TimerTick False, YieldCurrent, EnqueueThread 11]"] ev
  show ?thesis by simp
qed

section \<open>Round robin\<close>









section \<open>Time slices\<close>











section \<open>Containment\<close>

text \<open>
  Containing a task takes effect at once and on that task only: when \<open>contain_task\<close> succeeds the
  task is blocked and none of its threads is queued or current, every other thread is scheduled
  exactly as before, and no thread record changes. When it fails the tables stay consistent.
\<close>

theorem contain_task_exact:
  assumes "mtss_ok s"
  shows "case contain_task s k of
      (s', Inl e) \<Rightarrow> mtss_ok s'
    | (s', Inr _) \<Rightarrow> mt_threads s' = mt_threads s \<and> map_option tk_state (task_map s' k) = Some TaskBlocked \<and>
        (\<forall>t. scheduled s' t = (scheduled s t \<and> map_option th_task (thread_map s t) \<noteq> Some k))"
  using assms
proof (cases rule: contain_task_cases [where k = k])
  case (failed e s')
  then show ?thesis by simp
next
  case (contained s' tk)
  have "scheduled s' t = (scheduled s t \<and> map_option th_task (thread_map s t) \<noteq> Some k)" for t
  proof (cases "\<exists>th. thread_map s t = Some th \<and> th_task th = k")
    case True
    then show ?thesis using contained(6) by fastforce
  next
    case False
    then have "scheduled s' t \<longleftrightarrow> scheduled s t" by (intro contained(7)) blast
    then show ?thesis using False by auto
  qed
  with contained show ?thesis by simp
qed

theorem contain_task_exact_witness:
  "snd (contain_task demo_mtss 2) = Inr () \<and> scheduled (fst (contain_task demo_mtss 2)) 11 \<and>
   \<not> scheduled (fst (contain_task demo_mtss 2)) 22"
proof -
  have "snd (contain_task demo_mtss 2) = Inr ()" by code_simp
  then obtain s' where s': "contain_task demo_mtss 2 = (s', Inr ())" by (metis prod.collapse)
  have ev: "map_option th_task (thread_map demo_mtss 11) = Some 1" "map_option th_task (thread_map demo_mtss 22) = Some 2"
    "mt_current demo_mtss = Some 11" by code_simp+
  have "scheduled demo_mtss 11" using ev(3) by (simp add: scheduled_def)
  with contain_task_exact [OF demo_mtss_ok, of 2] s' ev(1,2) show ?thesis by auto
qed

section \<open>The event ring\<close>

datatype ev_op = EmitEvent MtssEvent | DrainOne

fun ev_run :: "Mtss \<Rightarrow> ev_op list \<Rightarrow> Mtss \<times> MtssEvent option list" where
  "ev_run s [] = (s, [])"
| "ev_run s (EmitEvent e # ops) = ev_run (emit s e) ops"
| "ev_run s (DrainOne # ops) =
     (case drain_event s of (s', out) \<Rightarrow> case ev_run s' ops of (s'', outs) \<Rightarrow> (s'', out # outs))"

text \<open>The reference: a list that keeps the newest \<open>n\<close> events and counts the lost ones.\<close>

fun lossy_run :: "nat \<Rightarrow> MtssEvent list \<times> u64 \<Rightarrow> ev_op list \<Rightarrow> (MtssEvent list \<times> u64) \<times> MtssEvent option list" where
  "lossy_run n st [] = (st, [])"
| "lossy_run n (xs, lost) (EmitEvent e # ops) =
     lossy_run n (if length xs < n then (xs @ [e], lost)
                  else (drop (length xs + 1 - n) (xs @ [e]), saturating_add lost 1)) ops"
| "lossy_run n ([], lost) (DrainOne # ops) =
     (case lossy_run n ([], lost) ops of (st, outs) \<Rightarrow> (st, None # outs))"
| "lossy_run n (x # xs, lost) (DrainOne # ops) =
     (case lossy_run n (xs, lost) ops of (st, outs) \<Rightarrow> (st, Some x # outs))"

definition event_ok :: "Mtss \<Rightarrow> bool" where
  "event_ok s \<longleftrightarrow> ring_ok (mt_events s) (mt_event_head s) (mt_event_len s)"

definition pending :: "Mtss \<Rightarrow> MtssEvent list" where
  "pending s = ring_contents (mt_events s) (mt_event_head s) (mt_event_len s)"

lemma emit_pending:
  assumes "event_ok s"
  shows "event_ok (emit s e) \<and> length (mt_events (emit s e)) = length (mt_events s) \<and>
    (pending (emit s e), mt_dropped_events (emit s e)) =
      (if length (pending s) < length (mt_events s) then (pending s @ [e], mt_dropped_events s)
       else (drop (length (pending s) + 1 - length (mt_events s)) (pending s @ [e]), saturating_add (mt_dropped_events s) 1))"
proof -
  let ?b = "mt_events s" and ?h = "mt_event_head s" and ?n = "mt_event_len s"
  have ring: "ring_ok ?b ?h ?n" using assms by (simp add: event_ok_def)
  have le: "?n \<le> length ?b" using ring_okD(1) [OF ring] .
  consider (zero) "length ?b = 0" | (full) "0 < length ?b" "?n = length ?b" | (room) "?n < length ?b"
    using le by linarith
  then show ?thesis
  proof cases
    case zero
    then show ?thesis using assms le by (simp add: emit_def event_ok_def pending_def)
  next
    case room
    then have "0 < length ?b" by linarith
    then show ?thesis using room ring_push [OF ring room, of e]
      by (simp add: emit_def Let_def event_ok_def pending_def)
  next
    case full
    have h: "?h < length ?b" using ring_okD(2) [OF ring] full(1) by fastforce
    have n: "0 < ?n" using full by simp
    note pop = ring_pop [OF ring n]
    have lt: "?n - 1 < length (?b[?h := None])" using full by simp
    have idx: "(Suc ?h mod length ?b + (?n - 1)) mod length (?b[?h := None]) = ?h"
      using ring_tail_pop [OF n, of ?h "length ?b"] full h by simp
    note push = ring_push [OF pop(1) lt, of e, unfolded idx list_update_overwrite]
    have "Suc (?n - 1) = ?n" using n by simp
    then have ok: "ring_ok (?b[?h := Some e]) (Suc ?h mod length ?b) ?n"
      "ring_contents (?b[?h := Some e]) (Suc ?h mod length ?b) ?n = tl (ring_contents ?b ?h ?n) @ [e]"
      using push pop(2) by simp_all
    have ne: "ring_contents ?b ?h ?n \<noteq> []" using n by (metis length_ring_contents list.size(3) less_numeral_extra(3))
    have "emit s e = s\<lparr>mt_events := ?b[?h := Some e], mt_event_head := Suc ?h mod length ?b,
        mt_dropped_events := saturating_add (mt_dropped_events s) 1\<rparr>"
      using full by (simp add: emit_def)
    moreover have "drop 1 (ring_contents ?b ?h ?n @ [e]) = tl (ring_contents ?b ?h ?n) @ [e]"
      using ne by (cases "ring_contents ?b ?h ?n") simp_all
    moreover obtain m where "length ?b = Suc m" using full(1) by (cases "length ?b") auto
    ultimately show ?thesis using ok full by (simp add: event_ok_def pending_def)
  qed
qed

lemma drain_pending:
  assumes "event_ok s"
  shows "case drain_event s of (s', out) \<Rightarrow> event_ok s' \<and> length (mt_events s') = length (mt_events s) \<and>
    mt_dropped_events s' = mt_dropped_events s \<and>
    (case pending s of [] \<Rightarrow> out = None \<and> pending s' = [] | x # xs \<Rightarrow> out = Some x \<and> pending s' = xs)"
proof (cases "mt_event_len s = 0")
  case True
  then show ?thesis using assms by (simp add: drain_event_def pending_def)
next
  case False
  let ?b = "mt_events s" and ?h = "mt_event_head s" and ?n = "mt_event_len s"
  have ring: "ring_ok ?b ?h ?n" using assms by (simp add: event_ok_def)
  have n: "0 < ?n" using False by simp
  have ne: "ring_contents ?b ?h ?n \<noteq> []" using n by (metis length_ring_contents list.size(3) less_numeral_extra(3))
  show ?thesis
    using False ring_pop [OF ring n] ring_head [OF ring n] ne
    by (cases "ring_contents ?b ?h ?n") (simp_all add: drain_event_def event_ok_def pending_def)
qed

text \<open>
  The event ring is lossy only at the old end: for every interleaving of emitted and drained
  events the ring returns what a list would that keeps the newest \<open>n\<close> events, in order and without
  duplicates, and the dropped counter counts exactly the events that were overwritten.
\<close>

theorem event_ring_keeps_newest:
  assumes "event_ok s" and "ev_run s ops = (s', outs)"
  shows "lossy_run (length (mt_events s)) (pending s, mt_dropped_events s) ops = ((pending s', mt_dropped_events s'), outs)"
  using assms
proof (induction ops arbitrary: s outs)
  case Nil
  then show ?case by simp
next
  case (Cons op ops)
  show ?case
  proof (cases op)
    case (EmitEvent e)
    note em = emit_pending [OF Cons.prems(1), of e]
    have "ev_run (emit s e) ops = (s', outs)" using Cons.prems(2) EmitEvent by simp
    from Cons.IH [OF _ this] em show ?thesis
      by (simp only: EmitEvent lossy_run.simps)
  next
    case DrainOne
    obtain s1 o1 where d: "drain_event s = (s1, o1)" by (cases "drain_event s")
    obtain s2 outs2 where r: "ev_run s1 ops = (s2, outs2)" by (cases "ev_run s1 ops")
    have eqs: "s2 = s'" "outs = o1 # outs2" using Cons.prems(2) by (simp_all add: DrainOne d r)
    note dp = drain_pending [OF Cons.prems(1), unfolded d prod.case]
    from Cons.IH [OF conjunct1 [OF dp] r [unfolded eqs(1)]] dp eqs show ?thesis
      by (cases "pending s") (simp_all add: DrainOne)
  qed
qed

theorem event_ring_keeps_newest_witness:
  "let e = (\<lambda>k. event_task EvTaskCreated k 0); s = mtss_new 0 0 0 2 (config_new 0)
   in lossy_run 2 (pending s, 0) [EmitEvent (e 1), EmitEvent (e 2), EmitEvent (e 3), DrainOne] =
     (([e 3], 1), [Some (e 2)]) \<and>
     pending (fst (ev_run s [EmitEvent (e 1), EmitEvent (e 2), EmitEvent (e 3), DrainOne])) = [e 3]"
proof -
  let ?e = "\<lambda>k. event_task EvTaskCreated k 0"
  let ?s = "mtss_new 0 0 0 2 (config_new 0)"
  let ?ops = "[EmitEvent (?e 1), EmitEvent (?e 2), EmitEvent (?e 3), DrainOne]"
  have ok: "event_ok ?s" by (simp add: event_ok_def mtss_new_def)
  obtain s' outs where r: "ev_run ?s ?ops = (s', outs)" by (cases "ev_run ?s ?ops")
  have init: "length (mt_events ?s) = 2" "pending ?s = []" "mt_dropped_events ?s = 0"
    by (simp_all add: mtss_new_def pending_def)
  have l: "lossy_run 2 ([], 0) ?ops = (([?e 3], 1), [Some (?e 2)])"
    by (simp add: saturating_add_def)
  from event_ring_keeps_newest [OF ok r] have "pending s' = [?e 3]" unfolding init l by simp
  with l r init show ?thesis by (simp add: Let_def)
qed


section \<open>Two ways to lose the current thread\<close>

text \<open>
  \<open>requeue_current\<close> takes the current thread out of its field before it checks the capacity of the
  run queue. With a full queue it fails, and the thread is left marked running but neither current
  nor queued: nothing will run it again unless somebody enqueues it.
\<close>

theorem requeue_full_loses_current:
  "let s = foldl mtss_exec (mtss_new 1 2 1 4 (config_new 0))
       [CreateTask 1 None 10 0, CreateThread 1 11 0, CreateThread 1 12 0, EnqueueThread 11, PickNext, EnqueueThread 12]
   in mt_current s = Some 11 \<and> snd (requeue_current s) = Inl RunQueueFull \<and>
      mt_current (fst (requeue_current s)) = None \<and>
      map_option th_state (thread_map (fst (requeue_current s)) 11) = Some ThreadRunningState \<and>
      map sr_thread (rq_records (mt_run_queue (fst (requeue_current s)))) = [12]"
  by code_simp

text \<open>
  \<open>enqueue_thread\<close> accepts the thread that is running: it becomes ready and queued while it is still
  the current thread, and the next timer tick fails.
\<close>

theorem enqueue_current_breaks_tick:
  "let s = mtss_exec demo_mtss (EnqueueThread 11)
   in mt_current s = Some 11 \<and> snd (on_timer_tick s) = Inl (InvalidThreadTransition ThreadReady ThreadRunningState)"
  by code_simp

end
