(* ===== verification/Core_Mtss.thy ===== *)
theory Core_Mtss
  imports Mtss_Types Ring_Queue
begin

text \<open>
  The fixed-capacity MTSS core that launches the first user programs: tables of tasks and
  threads, a ring of ready threads and one idle thread per CPU. Source:
  \<open>src/crates/mirage-mtss/src/task_core.rs\<close>.

  The three array sizes are parameters of \<open>cmtss_new\<close>. A function that borrows a record
  mutably, such as \<open>thread_mut\<close>, takes the update as an argument. The invariant \<open>cmtss_ok\<close>
  holds in every reachable state as long as the id counters have not saturated: ready
  threads are queued once, at most one thread runs and it is the current one, and the idle
  thread exists exactly when the core is initialised.
\<close>

section \<open>Data\<close>

datatype TaskKind = KindKernel | KindUserspace

record StackRange =
  sk_bottom :: u64
  sk_top :: u64

definition stack_len :: "StackRange \<Rightarrow> u64" where
  "stack_len self = saturating_sub (sk_top self) (sk_bottom self)"

definition stack_is_valid :: "StackRange \<Rightarrow> bool" where
  "stack_is_valid self \<longleftrightarrow> sk_bottom self < sk_top self"

record SavedRegisters =
  reg_rax :: u64
  reg_rbx :: u64
  reg_rcx :: u64
  reg_rdx :: u64
  reg_rsi :: u64
  reg_rdi :: u64
  reg_rbp :: u64
  reg_r8 :: u64
  reg_r9 :: u64
  reg_r10 :: u64
  reg_r11 :: u64
  reg_r12 :: u64
  reg_r13 :: u64
  reg_r14 :: u64
  reg_r15 :: u64

definition zeroed :: SavedRegisters where
  "zeroed = \<lparr>reg_rax = 0, reg_rbx = 0, reg_rcx = 0, reg_rdx = 0, reg_rsi = 0, reg_rdi = 0, reg_rbp = 0,
     reg_r8 = 0, reg_r9 = 0, reg_r10 = 0, reg_r11 = 0, reg_r12 = 0, reg_r13 = 0, reg_r14 = 0, reg_r15 = 0\<rparr>"

record CpuContext =
  cx_rip :: u64
  cx_rsp :: u64
  cx_rflags :: u64
  cx_cr3 :: u64
  cx_regs :: SavedRegisters

definition USER_RFLAGS :: u64 where "USER_RFLAGS = 0x202"

definition kernel_placeholder :: "u64 \<Rightarrow> u64 \<Rightarrow> CpuContext" where
  "kernel_placeholder rip rsp =
     \<lparr>cx_rip = rip, cx_rsp = rsp, cx_rflags = USER_RFLAGS, cx_cr3 = 0, cx_regs = zeroed\<rparr>"

definition userspace_entry :: "u64 \<Rightarrow> u64 \<Rightarrow> u64 \<Rightarrow> CpuContext" where
  "userspace_entry entry user_stack_top cr3 =
     \<lparr>cx_rip = entry, cx_rsp = user_stack_top, cx_rflags = USER_RFLAGS, cx_cr3 = cr3, cx_regs = zeroed\<rparr>"

record CoreTask =
  ct_id :: TaskId
  ct_kind :: TaskKind
  ct_state :: TaskState
  ct_address_space :: "AddressSpaceId option"
  ct_main_thread :: MtThreadId
  ct_name :: string

record CoreThread =
  cth_id :: MtThreadId
  cth_task :: TaskId
  cth_state :: ThreadState
  cth_kernel_stack :: StackRange
  cth_user_stack :: "StackRange option"
  cth_context :: CpuContext

record UserProgramImage =
  up_entry :: u64
  up_address_space :: AddressSpaceId
  up_user_stack :: StackRange
  up_cr3 :: u64

record UserThreadPreflight =
  pf_canonical_rip :: bool
  pf_canonical_rsp :: bool
  pf_executable_user_rip_mapping :: bool
  pf_writable_user_stack_mapping :: bool
  pf_valid_user_cs :: bool
  pf_valid_user_ss :: bool
  pf_valid_kernel_stack :: bool
  pf_valid_tss_rsp0 :: bool
  pf_valid_address_space :: bool
  pf_valid_cr3 :: bool

definition preflight_complete :: "UserThreadPreflight \<Rightarrow> bool" where
  "preflight_complete self \<longleftrightarrow>
     pf_canonical_rip self \<and> pf_canonical_rsp self \<and> pf_executable_user_rip_mapping self \<and>
     pf_writable_user_stack_mapping self \<and> pf_valid_user_cs self \<and> pf_valid_user_ss self \<and>
     pf_valid_kernel_stack self \<and> pf_valid_tss_rsp0 self \<and> pf_valid_address_space self \<and> pf_valid_cr3 self"

datatype CoreMtssError =
    CoreTaskTableFull | CoreThreadTableFull | CoreReadyQueueFull | CoreReadyQueueEmpty
  | CoreInvalidAddressSpace | CoreInvalidEntry | CoreInvalidStack | CoreUnknownTask | CoreUnknownThread

record CoreMtss =
  cm_next_pid :: u64
  cm_next_tid :: u64
  cm_tasks :: "CoreTask slots"
  cm_threads :: "CoreThread slots"
  cm_ready :: "MtThreadId slots"
  cm_ready_head :: nat
  cm_ready_tail :: nat
  cm_ready_len :: nat
  cm_current :: "MtThreadId option"
  cm_per_cpu_idle_thread :: "MtThreadId option"
  cm_initialized :: bool

definition cmtss_new :: "nat \<Rightarrow> nat \<Rightarrow> nat \<Rightarrow> CoreMtss" where
  "cmtss_new ntasks nthreads nready =
     \<lparr>cm_next_pid = 1, cm_next_tid = 1, cm_tasks = replicate ntasks None, cm_threads = replicate nthreads None,
      cm_ready = replicate nready None, cm_ready_head = 0, cm_ready_tail = 0, cm_ready_len = 0,
      cm_current = None, cm_per_cpu_idle_thread = None, cm_initialized = False\<rparr>"

definition is_canonical_user :: "u64 \<Rightarrow> bool" where
  "is_canonical_user address \<longleftrightarrow> address < 0x0000800000000000"

section \<open>Tables and the ready ring\<close>

definition cm_task :: "CoreMtss \<Rightarrow> TaskId \<Rightarrow> CoreTask option" where
  "cm_task self k = slot_lookup ct_id (cm_tasks self) k"

definition cm_thread :: "CoreMtss \<Rightarrow> MtThreadId \<Rightarrow> CoreThread option" where
  "cm_thread self t = slot_lookup cth_id (cm_threads self) t"

text \<open>Both borrows do nothing when the record is missing, as the \<open>if let\<close> around each of them.\<close>

definition cm_task_mut :: "CoreMtss \<Rightarrow> TaskId \<Rightarrow> (CoreTask \<Rightarrow> CoreTask) \<Rightarrow> CoreMtss" where
  "cm_task_mut self k f =
     (case find_slot (\<lambda>task. ct_id task = k) (cm_tasks self) of
        None \<Rightarrow> self
      | Some i \<Rightarrow> self\<lparr>cm_tasks := (cm_tasks self)[i := map_option f (cm_tasks self ! i)]\<rparr>)"

definition cm_thread_mut :: "CoreMtss \<Rightarrow> MtThreadId \<Rightarrow> (CoreThread \<Rightarrow> CoreThread) \<Rightarrow> CoreMtss" where
  "cm_thread_mut self t f =
     (case find_slot (\<lambda>thread. cth_id thread = t) (cm_threads self) of
        None \<Rightarrow> self
      | Some i \<Rightarrow> self\<lparr>cm_threads := (cm_threads self)[i := map_option f (cm_threads self ! i)]\<rparr>)"

definition allocate_pid :: "CoreMtss \<Rightarrow> CoreMtss \<times> TaskId" where
  "allocate_pid self = (self\<lparr>cm_next_pid := saturating_add (cm_next_pid self) 1\<rparr>, cm_next_pid self)"

definition allocate_tid :: "CoreMtss \<Rightarrow> CoreMtss \<times> MtThreadId" where
  "allocate_tid self = (self\<lparr>cm_next_tid := saturating_add (cm_next_tid self) 1\<rparr>, cm_next_tid self)"

definition insert_task :: "CoreMtss \<Rightarrow> CoreTask \<Rightarrow> (CoreMtss, CoreMtssError, unit) op_result" where
  "insert_task self task =
     (case free_slot (cm_tasks self) of
        Some i \<Rightarrow> (self\<lparr>cm_tasks := (cm_tasks self)[i := Some task]\<rparr>, ok_unit)
      | None \<Rightarrow> (self, Inl CoreTaskTableFull))"

definition insert_thread :: "CoreMtss \<Rightarrow> CoreThread \<Rightarrow> (CoreMtss, CoreMtssError, unit) op_result" where
  "insert_thread self thread =
     (case free_slot (cm_threads self) of
        Some i \<Rightarrow> (self\<lparr>cm_threads := (cm_threads self)[i := Some thread]\<rparr>, ok_unit)
      | None \<Rightarrow> (self, Inl CoreThreadTableFull))"

definition cm_enqueue :: "CoreMtss \<Rightarrow> MtThreadId \<Rightarrow> (CoreMtss, CoreMtssError, unit) op_result" where
  "cm_enqueue self thread =
     (if cm_ready_len self = length (cm_ready self) then (self, Inl CoreReadyQueueFull)
      else (self\<lparr>cm_ready := (cm_ready self)[cm_ready_tail self := Some thread],
                 cm_ready_tail := (cm_ready_tail self + 1) mod length (cm_ready self),
                 cm_ready_len := cm_ready_len self + 1\<rparr>, ok_unit))"

definition cm_dequeue :: "CoreMtss \<Rightarrow> (CoreMtss, CoreMtssError, MtThreadId) op_result" where
  "cm_dequeue self =
     (if cm_ready_len self = 0 then (self, Inl CoreReadyQueueEmpty)
      else case cm_ready self ! cm_ready_head self of
             None \<Rightarrow> (self, Inl CoreReadyQueueEmpty)
           | Some thread \<Rightarrow>
               (self\<lparr>cm_ready := (cm_ready self)[cm_ready_head self := None],
                     cm_ready_head := (cm_ready_head self + 1) mod length (cm_ready self),
                     cm_ready_len := cm_ready_len self - 1\<rparr>, Inr thread))"

section \<open>Operations\<close>

definition init_with_idle :: "CoreMtss \<Rightarrow> StackRange \<Rightarrow> (CoreMtss, CoreMtssError, unit) op_result" where
  "init_with_idle self kernel_stack =
     (if cm_initialized self then (self, ok_unit)
      else if \<not> stack_is_valid kernel_stack then (self, Inl CoreInvalidStack)
      else
        let idle_task = \<lparr>ct_id = 0, ct_kind = KindKernel, ct_state = TaskRunnable, ct_address_space = None,
              ct_main_thread = 0, ct_name = ''idle''\<rparr>;
            per_cpu_idle_thread = \<lparr>cth_id = 0, cth_task = 0, cth_state = ThreadReady,
              cth_kernel_stack = kernel_stack, cth_user_stack = None,
              cth_context = kernel_placeholder 0 (sk_top kernel_stack)\<rparr>
        in and_then (insert_task self idle_task) (\<lambda>self _.
           and_then (insert_thread self per_cpu_idle_thread) (\<lambda>self _.
             (self\<lparr>cm_per_cpu_idle_thread := Some 0, cm_initialized := True\<rparr>, ok_unit))))"

text \<open>The second half of \<open>spawn_userspace\<close>, after task and thread have been inserted.\<close>

definition spawn_ready ::
  "CoreMtss \<Rightarrow> TaskId \<Rightarrow> MtThreadId \<Rightarrow> UserThreadPreflight \<Rightarrow> (CoreMtss, CoreMtssError, TaskId) op_result" where
  "spawn_ready self task_id thread_id preflight =
     (if \<not> preflight_complete preflight
      then (self, Inl (if \<not> pf_valid_address_space preflight \<or> \<not> pf_valid_cr3 preflight
                       then CoreInvalidAddressSpace
                       else if \<not> pf_canonical_rip preflight \<or> \<not> pf_executable_user_rip_mapping preflight
                       then CoreInvalidEntry else CoreInvalidStack))
      else if cm_ready_len self = length (cm_ready self) then (self, Inl CoreReadyQueueFull)
      else
        let self = cm_task_mut self task_id (\<lambda>task. task\<lparr>ct_state := TaskRunnable\<rparr>);
            self = cm_thread_mut self thread_id (\<lambda>thread. thread\<lparr>cth_state := ThreadReady\<rparr>)
        in and_then (cm_enqueue self thread_id) (\<lambda>self _. (self, Inr task_id)))"

definition spawn_userspace ::
  "CoreMtss \<Rightarrow> string \<Rightarrow> UserProgramImage \<Rightarrow> StackRange \<Rightarrow> UserThreadPreflight \<Rightarrow>
     (CoreMtss, CoreMtssError, TaskId) op_result" where
  "spawn_userspace self name program kernel_stack preflight =
     (if up_address_space program = 0 \<or> up_cr3 program = 0 then (self, Inl CoreInvalidAddressSpace)
      else if \<not> is_canonical_user (up_entry program) then (self, Inl CoreInvalidEntry)
      else if \<not> stack_is_valid (up_user_stack program) \<or> \<not> is_canonical_user (sk_top (up_user_stack program))
      then (self, Inl CoreInvalidStack)
      else if \<not> stack_is_valid kernel_stack \<or> \<not> pf_valid_kernel_stack preflight then (self, Inl CoreInvalidStack)
      else
        let (self, task_id) = allocate_pid self;
            (self, thread_id) = allocate_tid self;
            task = \<lparr>ct_id = task_id, ct_kind = KindUserspace, ct_state = TaskCreatedState,
              ct_address_space = Some (up_address_space program), ct_main_thread = thread_id, ct_name = name\<rparr>;
            thread = \<lparr>cth_id = thread_id, cth_task = task_id, cth_state = ThreadNew,
              cth_kernel_stack = kernel_stack, cth_user_stack = Some (up_user_stack program),
              cth_context = userspace_entry (up_entry program) (sk_top (up_user_stack program)) (up_cr3 program)\<rparr>
        in and_then (insert_task self task) (\<lambda>self _.
           and_then (insert_thread self thread) (\<lambda>self _.
             spawn_ready self task_id thread_id preflight)))"

definition return_current_to_ready_queue :: "CoreMtss \<Rightarrow> (CoreMtss, CoreMtssError, unit) op_result" where
  "return_current_to_ready_queue self =
     (case cm_current self of
        None \<Rightarrow> (self, ok_unit)
      | Some current \<Rightarrow>
          let is_idle = (Some current = cm_per_cpu_idle_thread self)
          in case cm_thread self current of
               None \<Rightarrow> (self, ok_unit)
             | Some thread \<Rightarrow>
                 if cth_state thread \<noteq> ThreadRunningState then (self, ok_unit)
                 else
                   let self = cm_thread_mut self current (\<lambda>thread. thread\<lparr>cth_state := ThreadReady\<rparr>)
                   in and_then (if is_idle then (self, ok_unit) else cm_enqueue self current) (\<lambda>self _.
                        (cm_task_mut self (cth_task thread) (\<lambda>task. task\<lparr>ct_state := TaskRunnable\<rparr>), ok_unit)))"

text \<open>The loop over at most as many candidates as were queued when it started.\<close>

fun dequeue_loop :: "nat \<Rightarrow> CoreMtss \<Rightarrow> (CoreMtss, CoreMtssError, MtThreadId option) op_result" where
  "dequeue_loop 0 self = (self, Inr None)"
| "dequeue_loop (Suc n) self =
     and_then (cm_dequeue self) (\<lambda>self thread_id.
       if Some thread_id = cm_per_cpu_idle_thread self then dequeue_loop n self
       else if (case cm_thread self thread_id of Some thread \<Rightarrow> cth_state thread = ThreadReady | None \<Rightarrow> False)
       then (self, Inr (Some thread_id))
       else dequeue_loop n self)"

definition dequeue_non_idle_runnable :: "CoreMtss \<Rightarrow> (CoreMtss, CoreMtssError, MtThreadId option) op_result" where
  "dequeue_non_idle_runnable self = dequeue_loop (cm_ready_len self) self"

definition mark_thread_running :: "CoreMtss \<Rightarrow> MtThreadId \<Rightarrow> (CoreMtss, CoreMtssError, unit) op_result" where
  "mark_thread_running self thread_id =
     (case cm_thread self thread_id of
        None \<Rightarrow> (self, Inl CoreUnknownThread)
      | Some thread \<Rightarrow>
          let self = cm_thread_mut self thread_id (\<lambda>thread. thread\<lparr>cth_state := ThreadRunningState\<rparr>)
          in (cm_task_mut self (cth_task thread) (\<lambda>task. task\<lparr>ct_state := TaskRunning\<rparr>), ok_unit))"

definition schedule_next :: "CoreMtss \<Rightarrow> (CoreMtss, CoreMtssError, MtThreadId option) op_result" where
  "schedule_next self =
     and_then (return_current_to_ready_queue self) (\<lambda>self _.
     and_then (dequeue_non_idle_runnable self) (\<lambda>self found.
       case (case found of Some t \<Rightarrow> Some t | None \<Rightarrow> cm_per_cpu_idle_thread self) of
         None \<Rightarrow> (self, Inr None)
       | Some t \<Rightarrow>
           and_then (mark_thread_running self t) (\<lambda>self _.
             (self\<lparr>cm_current := Some t\<rparr>, Inr (Some t)))))"

definition cm_on_timer_tick :: "CoreMtss \<Rightarrow> (CoreMtss, CoreMtssError, MtThreadId option) op_result" where
  "cm_on_timer_tick self = schedule_next self"

definition exit_current :: "CoreMtss \<Rightarrow> int \<Rightarrow> (CoreMtss, CoreMtssError, MtThreadId option) op_result" where
  "exit_current self status =
     (case cm_current self of
        None \<Rightarrow> (self, Inr None)
      | Some current \<Rightarrow>
          let self = self\<lparr>cm_current := None\<rparr>
          in case cm_thread self current of
               None \<Rightarrow> (self, Inl CoreUnknownThread)
             | Some thread \<Rightarrow>
                 let self = cm_thread_mut self current (\<lambda>thread. thread\<lparr>cth_state := ThreadZombie\<rparr>)
                 in (cm_task_mut self (cth_task thread) (\<lambda>task. task\<lparr>ct_state := TaskExited\<rparr>), Inr (Some current)))"

section \<open>What the operations do to threads and the queue\<close>

definition cring_ok :: "CoreMtss \<Rightarrow> bool" where
  "cring_ok c \<longleftrightarrow> ring_ok (cm_ready c) (cm_ready_head c) (cm_ready_len c) \<and>
     cm_ready_tail c = (cm_ready_head c + cm_ready_len c) mod length (cm_ready c)"

definition cqueue :: "CoreMtss \<Rightarrow> MtThreadId list" where
  "cqueue c = ring_contents (cm_ready c) (cm_ready_head c) (cm_ready_len c)"

definition cstate :: "CoreMtss \<Rightarrow> MtThreadId \<Rightarrow> ThreadState option" where
  "cstate c t = map_option cth_state (cm_thread c t)"

text \<open>What every operation but the insertions and the two counters leaves alone.\<close>

definition same_rest :: "CoreMtss \<Rightarrow> CoreMtss \<Rightarrow> bool" where
  "same_rest c c' \<longleftrightarrow> cm_next_tid c' = cm_next_tid c \<and> cm_per_cpu_idle_thread c' = cm_per_cpu_idle_thread c \<and>
     cm_initialized c' = cm_initialized c \<and> length (cm_ready c') = length (cm_ready c)"

lemma same_rest_refl [simp]: "same_rest c c"
  by (simp add: same_rest_def)

lemma same_rest_trans [trans]: "same_rest a b \<Longrightarrow> same_rest b c \<Longrightarrow> same_rest a c"
  by (simp add: same_rest_def)

lemma length_cqueue [simp]: "length (cqueue c) = cm_ready_len c"
  by (simp add: cqueue_def)

lemma cm_enqueue_room:
  assumes ok: "cring_ok c" and room: "cm_ready_len c < length (cm_ready c)"
  obtains c' where "cm_enqueue c t = (c', ok_unit)" "cring_ok c'" "cqueue c' = cqueue c @ [t]" "cm_threads c' = cm_threads c"
    "cm_current c' = cm_current c" "same_rest c c'"
proof -
  let ?c = "fst (cm_enqueue c t)"
  note r = ring_push [OF conjunct1 [OF ok [unfolded cring_ok_def]] room, of t]
  have "cm_enqueue c t = (?c, ok_unit)" using room by (simp add: cm_enqueue_def)
  moreover have "cring_ok ?c" "cqueue ?c = cqueue c @ [t]"
    using r ok room by (simp_all add: cm_enqueue_def cring_ok_def cqueue_def mod_Suc_eq)
  ultimately show thesis using room by (intro that [of ?c]) (simp_all add: cm_enqueue_def same_rest_def)
qed

lemma cm_dequeue_Cons:
  assumes ok: "cring_ok c" and q: "cqueue c = t # ts"
  obtains c' where "cm_dequeue c = (c', Inr t)" "cring_ok c'" "cqueue c' = ts" "cm_threads c' = cm_threads c"
    "cm_current c' = cm_current c" "same_rest c c'"
proof -
  have n: "0 < cm_ready_len c" using arg_cong [OF q, of length] by simp
  note ok' = conjunct1 [OF ok [unfolded cring_ok_def]]
  have hd: "cm_ready c ! cm_ready_head c = Some t" using ring_head [OF ok' n] q by (simp add: cqueue_def)
  let ?c = "fst (cm_dequeue c)"
  have "cm_dequeue c = (?c, Inr t)" using n hd by (simp add: cm_dequeue_def)
  moreover have "cring_ok ?c"
    using ring_pop(1) [OF ok' n] ring_tail_pop [OF n, of "cm_ready_head c" "length (cm_ready c)"] ok n hd
    by (simp add: cm_dequeue_def cring_ok_def)
  moreover have "cqueue ?c = ts" using ring_pop(2) [OF ok' n] q n hd by (simp add: cm_dequeue_def cqueue_def)
  ultimately show thesis using n hd by (intro that [of ?c]) (simp_all add: cm_dequeue_def same_rest_def)
qed

lemma cm_task_mut_simps [simp]:
  "cm_threads (cm_task_mut c k f) = cm_threads c" "cm_current (cm_task_mut c k f) = cm_current c"
  "cqueue (cm_task_mut c k f) = cqueue c" "cring_ok (cm_task_mut c k f) = cring_ok c"
  "same_rest d (cm_task_mut c k f) = same_rest d c" "cm_thread (cm_task_mut c k f) = cm_thread c"
  "cstate (cm_task_mut c k f) = cstate c" "cm_ready_len (cm_task_mut c k f) = cm_ready_len c"
  "cm_ready (cm_task_mut c k f) = cm_ready c"
  by (cases "find_slot (\<lambda>task. ct_id task = k) (cm_tasks c)",
      simp_all add: cm_task_mut_def cqueue_def cring_ok_def same_rest_def cm_thread_def cstate_def fun_eq_iff)+

lemma cm_thread_mut_simps [simp]:
  "cm_current (cm_thread_mut c t f) = cm_current c" "cqueue (cm_thread_mut c t f) = cqueue c"
  "cring_ok (cm_thread_mut c t f) = cring_ok c" "same_rest d (cm_thread_mut c t f) = same_rest d c"
  "cm_ready_len (cm_thread_mut c t f) = cm_ready_len c" "cm_ready (cm_thread_mut c t f) = cm_ready c"
  by (cases "find_slot (\<lambda>thread. cth_id thread = t) (cm_threads c)",
      simp_all add: cm_thread_mut_def cqueue_def cring_ok_def same_rest_def)+

lemma cm_thread_mut:
  assumes u: "unique_keys cth_id (cm_threads c)" and key: "\<And>th. cth_id (f th) = cth_id th"
  shows "cm_thread (cm_thread_mut c t f) = (cm_thread c)(t := map_option f (cm_thread c t))"
    and "unique_keys cth_id (cm_threads (cm_thread_mut c t f))"
proof -
  have "cm_thread (cm_thread_mut c t f) = (cm_thread c)(t := map_option f (cm_thread c t)) \<and>
    unique_keys cth_id (cm_threads (cm_thread_mut c t f))"
  proof (cases "find_slot (\<lambda>thread. cth_id thread = t) (cm_threads c)")
    case None
    then show ?thesis using u by (auto simp: cm_thread_mut_def cm_thread_def slot_lookup_def)
  next
    case (Some i)
    then obtain th where th: "i < length (cm_threads c)" "cm_threads c ! i = Some th" "cth_id th = t"
      by (rule find_slot_SomeE)
    then have l: "slot_lookup cth_id (cm_threads c) t = Some th" using Some by (simp add: slot_lookup_def)
    show ?thesis
      using slot_lookup_replace [OF u th(1,2) key [of th]] unique_keys_update_same [OF u th(1,2) key [of th]] th l Some
      by (simp add: cm_thread_mut_def cm_thread_def key fun_eq_iff)
  qed
  then show "cm_thread (cm_thread_mut c t f) = (cm_thread c)(t := map_option f (cm_thread c t))"
    "unique_keys cth_id (cm_threads (cm_thread_mut c t f))" by auto
qed

lemma cm_thread_threads: "cm_threads c' = cm_threads c \<Longrightarrow> cm_thread c' = cm_thread c"
  by (simp add: cm_thread_def fun_eq_iff)

lemma cstate_thread: "cm_thread c' = cm_thread c \<Longrightarrow> cstate c' = cstate c"
  by (simp add: cstate_def fun_eq_iff)

lemma cstate_eq_SomeD: "cstate c t = Some x \<Longrightarrow> \<exists>th. cm_thread c t = Some th \<and> cth_state th = x"
  by (auto simp: cstate_def)

section \<open>Invariant\<close>

text \<open>
  Thread ids are unique and below the counter; the queue holds distinct ready threads other than
  the idle one; the current thread is ready or running and not queued; only the current thread
  runs; the idle thread exists exactly when the core is initialised.
\<close>

definition cmtss_ok :: "CoreMtss \<Rightarrow> bool" where
  "cmtss_ok c \<longleftrightarrow> cring_ok c \<and> unique_keys cth_id (cm_threads c) \<and>
     0 < cm_next_tid c \<and> (\<forall>th \<in> set (slot_values (cm_threads c)). cth_id th < cm_next_tid c) \<and>
     distinct (cqueue c) \<and> 0 \<notin> set (cqueue c) \<and> (\<forall>t \<in> set (cqueue c). cstate c t = Some ThreadReady) \<and>
     (case cm_current c of None \<Rightarrow> True
      | Some t \<Rightarrow> t \<notin> set (cqueue c) \<and> cstate c t \<in> {Some ThreadReady, Some ThreadRunningState}) \<and>
     (\<forall>th \<in> set (slot_values (cm_threads c)). cth_state th = ThreadRunningState \<longrightarrow> cm_current c = Some (cth_id th)) \<and>
     (if cm_initialized c then cm_per_cpu_idle_thread c = Some 0 \<and> cm_thread c 0 \<noteq> None
      else cm_per_cpu_idle_thread c = None \<and> cm_thread c 0 = None)"

lemma cmtss_ok_iff:
  "cmtss_ok c \<longleftrightarrow> cring_ok c \<and> unique_keys cth_id (cm_threads c) \<and>
     0 < cm_next_tid c \<and> (\<forall>t. cstate c t \<noteq> None \<longrightarrow> t < cm_next_tid c) \<and>
     distinct (cqueue c) \<and> 0 \<notin> set (cqueue c) \<and> (\<forall>t \<in> set (cqueue c). cstate c t = Some ThreadReady) \<and>
     (case cm_current c of None \<Rightarrow> True
      | Some t \<Rightarrow> t \<notin> set (cqueue c) \<and> cstate c t \<in> {Some ThreadReady, Some ThreadRunningState}) \<and>
     (\<forall>t. cstate c t = Some ThreadRunningState \<longrightarrow> cm_current c = Some t) \<and>
     (if cm_initialized c then cm_per_cpu_idle_thread c = Some 0 \<and> cstate c 0 \<noteq> None
      else cm_per_cpu_idle_thread c = None \<and> cstate c 0 = None)"
proof (cases "unique_keys cth_id (cm_threads c)")
  case True
  have "cstate c t = Some x \<longleftrightarrow> (\<exists>th. Some th \<in> set (cm_threads c) \<and> cth_id th = t \<and> cth_state th = x)" for t x
    by (auto simp: cstate_def cm_thread_def slot_lookup_eq_Some_iff [OF True])
  then have "(\<forall>t. cstate c t \<noteq> None \<longrightarrow> t < cm_next_tid c) \<longleftrightarrow>
      (\<forall>th \<in> set (slot_values (cm_threads c)). cth_id th < cm_next_tid c)"
    "(\<forall>t. cstate c t = Some ThreadRunningState \<longrightarrow> cm_current c = Some t) \<longleftrightarrow>
      (\<forall>th \<in> set (slot_values (cm_threads c)). cth_state th = ThreadRunningState \<longrightarrow> cm_current c = Some (cth_id th))"
    by (auto simp: Ball_def)
  moreover have "cstate c 0 = None \<longleftrightarrow> cm_thread c 0 = None" by (simp add: cstate_def)
  ultimately show ?thesis unfolding cmtss_ok_def by simp
qed (simp add: cmtss_ok_def)

lemma cmtss_new_ok: "cmtss_ok (cmtss_new a b n)"
  by (simp add: cmtss_ok_def cmtss_new_def cring_ok_def cqueue_def cm_thread_def)

section \<open>Scheduling\<close>

text \<open>The thread that goes back to the queue, and the state of every thread once nothing runs.\<close>

definition returning :: "CoreMtss \<Rightarrow> MtThreadId list" where
  "returning c = (case cm_current c of
      Some t \<Rightarrow> if cstate c t = Some ThreadRunningState \<and> cm_per_cpu_idle_thread c \<noteq> Some t then [t] else []
    | None \<Rightarrow> [])"

definition stopped :: "ThreadState option \<Rightarrow> ThreadState option" where
  "stopped x = (if x = Some ThreadRunningState then Some ThreadReady else x)"

lemma cstate_mut:
  assumes "unique_keys cth_id (cm_threads c)" and "cstate c t \<noteq> None"
  shows "cstate (cm_thread_mut c t (\<lambda>th. th\<lparr>cth_state := x\<rparr>)) = (cstate c)(t \<mapsto> x)"
  using assms(2) cm_thread_mut(1) [OF assms(1), where f = "\<lambda>th. th\<lparr>cth_state := x\<rparr>" and t = t]
  by (auto simp: cstate_def fun_eq_iff)

lemma cmtss_okD:
  assumes "cmtss_ok c"
  shows "cring_ok c" "unique_keys cth_id (cm_threads c)" "distinct (cqueue c)" "0 \<notin> set (cqueue c)"
    and "t \<in> set (cqueue c) \<Longrightarrow> cstate c t = Some ThreadReady"
    and "cm_current c = Some t \<Longrightarrow> t \<notin> set (cqueue c) \<and> cstate c t \<in> {Some ThreadReady, Some ThreadRunningState}"
    and "cstate c t = Some ThreadRunningState \<Longrightarrow> cm_current c = Some t"
    and "cm_per_cpu_idle_thread c = (if cstate c 0 = None then None else Some 0)"
    and "cstate c t \<noteq> None \<Longrightarrow> t < cm_next_tid c"
    and "cm_ready_len c \<le> length (cm_ready c)"
proof -
  have "ring_ok (cm_ready c) (cm_ready_head c) (cm_ready_len c)" using assms by (simp add: cmtss_ok_def cring_ok_def)
  from ring_okD(1) [OF this] show "cm_ready_len c \<le> length (cm_ready c)" .
  show "cstate c t \<noteq> None \<Longrightarrow> t < cm_next_tid c" using assms unfolding cmtss_ok_iff by blast
qed (use assms in \<open>auto simp: cmtss_ok_iff split: if_splits\<close>)

lemma return_current_to_ready_queue_cases:
  assumes ok: "cmtss_ok c"
  obtains c' r where "return_current_to_ready_queue c = (c', r)" "cring_ok c'" "unique_keys cth_id (cm_threads c')"
    "cstate c' = stopped \<circ> cstate c" "cm_current c' = cm_current c" "same_rest c c'"
    "r = Inl CoreReadyQueueFull \<and> returning c \<noteq> [] \<and> cm_ready_len c = length (cm_ready c) \<and> cqueue c' = cqueue c \<or>
     r = ok_unit \<and> cqueue c' = cqueue c @ returning c"
proof (cases "\<exists>t. cm_current c = Some t \<and> cstate c t = Some ThreadRunningState")
  case False
  then have nr: "cstate c t \<noteq> Some ThreadRunningState" for t using cmtss_okD(7) [OF ok] by blast
  have "return_current_to_ready_queue c = (c, ok_unit)"
    using nr by (auto simp: return_current_to_ready_queue_def cstate_def split: option.split)
  moreover have "returning c = []" "stopped \<circ> cstate c = cstate c"
    using nr by (auto simp: returning_def stopped_def fun_eq_iff split: option.split)
  ultimately show thesis using cmtss_okD(1,2) [OF ok] by (intro that [of c ok_unit]) simp_all
next
  case True
  then obtain t th where t: "cm_current c = Some t" "cm_thread c t = Some th" "cth_state th = ThreadRunningState"
    by (auto dest: cstate_eq_SomeD)
  then have st: "cstate c t = Some ThreadRunningState" by (simp add: cstate_def)
  define d where "d = cm_thread_mut c t (\<lambda>th. th\<lparr>cth_state := ThreadReady\<rparr>)"
  have "cstate c u \<noteq> Some ThreadRunningState" if "u \<noteq> t" for u
    using that cmtss_okD(7) [OF ok, of u] t(1) by auto
  then have dst: "cstate d = stopped \<circ> cstate c"
    using cstate_mut [OF cmtss_okD(2) [OF ok], of t ThreadReady] st unfolding d_def
    by (auto simp: fun_eq_iff stopped_def)
  have d: "cring_ok d" "unique_keys cth_id (cm_threads d)" "cm_current d = cm_current c" "same_rest c d" "cqueue d = cqueue c"
    "cm_ready_len d = cm_ready_len c" "cm_ready d = cm_ready c"
    using cmtss_okD(1,2) [OF ok] cm_thread_mut(2) [where f = "\<lambda>th. th\<lparr>cth_state := ThreadReady\<rparr>"]
    by (simp_all add: d_def)
  have eq: "return_current_to_ready_queue c = and_then (if cm_per_cpu_idle_thread c = Some t then (d, ok_unit) else cm_enqueue d t)
     (\<lambda>self _. (cm_task_mut self (cth_task th) (\<lambda>task. task\<lparr>ct_state := TaskRunnable\<rparr>), ok_unit))"
    using t by (simp add: return_current_to_ready_queue_def Let_def d_def eq_commute [of "Some t"])
  let ?done = "\<lambda>c. cm_task_mut c (cth_task th) (\<lambda>task. task\<lparr>ct_state := TaskRunnable\<rparr>)"
  consider (idle) "cm_per_cpu_idle_thread c = Some t"
    | (full) "cm_per_cpu_idle_thread c \<noteq> Some t" "cm_ready_len d = length (cm_ready d)"
    | (room) "cm_per_cpu_idle_thread c \<noteq> Some t" "cm_ready_len d < length (cm_ready d)"
    using cmtss_okD(10) [OF ok] d(6,7) by fastforce
  then show thesis
  proof cases
    case idle
    then have "return_current_to_ready_queue c = (?done d, ok_unit)" "returning c = []"
      using eq t by (simp_all add: returning_def)
    with d dst show thesis by (intro that [of "?done d" ok_unit]) simp_all
  next
    case full
    then have "return_current_to_ready_queue c = (d, Inl CoreReadyQueueFull)" "returning c = [t]"
      using eq t st by (simp_all add: returning_def cm_enqueue_def)
    with full d dst show thesis by (intro that [of d "Inl CoreReadyQueueFull"]) simp_all
  next
    case room
    from d(1) room(2) obtain e where e: "cm_enqueue d t = (e, ok_unit)" "cring_ok e" "cqueue e = cqueue d @ [t]"
      "cm_threads e = cm_threads d" "cm_current e = cm_current d" "same_rest d e" by (rule cm_enqueue_room)
    have "cstate e = cstate d" using e(4) by (intro cstate_thread cm_thread_threads)
    moreover have "return_current_to_ready_queue c = (?done e, ok_unit)" "returning c = [t]"
      using eq t st room e(1) by (simp_all add: returning_def)
    moreover have "same_rest c e" using d(4) e(6) by (rule same_rest_trans)
    ultimately show thesis using d e dst by (intro that [of "?done e" ok_unit]) simp_all
  qed
qed

lemma dequeue_non_idle_runnable_hd:
  assumes "cring_ok c" and rdy: "\<forall>t \<in> set (cqueue c). cstate c t = Some ThreadReady \<and> cm_per_cpu_idle_thread c \<noteq> Some t"
  obtains (empty) "dequeue_non_idle_runnable c = (c, Inr None)" "cqueue c = []"
  | (found) c' t where "dequeue_non_idle_runnable c = (c', Inr (Some t))" "cring_ok c'" "cqueue c = t # cqueue c'"
    "cm_threads c' = cm_threads c" "cm_current c' = cm_current c" "same_rest c c'"
proof (cases "cqueue c")
  case Nil
  then have "cm_ready_len c = 0" by (metis length_cqueue list.size(3))
  then show thesis using Nil by (intro empty) (simp_all add: dequeue_non_idle_runnable_def)
next
  case (Cons t ts)
  from arg_cong [OF Cons, of length] obtain n where n: "cm_ready_len c = Suc n" by auto
  from assms(1) Cons obtain c' where c': "cm_dequeue c = (c', Inr t)" "cring_ok c'" "cqueue c' = ts"
    "cm_threads c' = cm_threads c" "cm_current c' = cm_current c" "same_rest c c'" by (rule cm_dequeue_Cons)
  obtain th where "cm_thread c t = Some th" "cth_state th = ThreadReady"
    using rdy Cons by (auto dest: cstate_eq_SomeD)
  moreover have "cm_thread c' = cm_thread c" "cm_per_cpu_idle_thread c' \<noteq> Some t"
    using c'(4,6) rdy Cons by (auto simp: same_rest_def intro: cm_thread_threads)
  ultimately have "dequeue_non_idle_runnable c = (c', Inr (Some t))"
    using n c'(1) by (auto simp: dequeue_non_idle_runnable_def)
  with c' Cons show thesis by (intro found) simp_all
qed

lemma mark_thread_running_known:
  assumes "unique_keys cth_id (cm_threads c)" and "cstate c t \<noteq> None"
  obtains c' where "mark_thread_running c t = (c', ok_unit)" "cstate c' = (cstate c)(t \<mapsto> ThreadRunningState)"
    "unique_keys cth_id (cm_threads c')" "cring_ok c' = cring_ok c" "cqueue c' = cqueue c" "same_rest c c'"
proof -
  obtain th where th: "cm_thread c t = Some th" using assms(2) by (auto simp: cstate_def)
  let ?c = "fst (mark_thread_running c t)"
  show thesis
    by (rule that [of ?c])
      (use assms th cm_thread_mut(2) [OF assms(1), where f = "\<lambda>th. th\<lparr>cth_state := ThreadRunningState\<rparr>"] in
        \<open>simp_all add: mark_thread_running_def Let_def cstate_mut\<close>)
qed

lemma schedule_next_cases:
  assumes ok: "cmtss_ok c"
  obtains (full) c' where "schedule_next c = (c', Inl CoreReadyQueueFull)" "returning c \<noteq> []"
      "cm_ready_len c = length (cm_ready c)" "cqueue c' = cqueue c" "cm_current c' = cm_current c"
      "cstate c' = stopped \<circ> cstate c" "cring_ok c'" "unique_keys cth_id (cm_threads c')" "same_rest c c'"
  | (none) c' where "schedule_next c = (c', Inr None)" "cqueue c @ returning c = []" "cm_per_cpu_idle_thread c = None"
      "cqueue c' = cqueue c" "cm_current c' = cm_current c"
      "cstate c' = stopped \<circ> cstate c" "cring_ok c'" "unique_keys cth_id (cm_threads c')" "same_rest c c'"
  | (some) c' t where "schedule_next c = (c', Inr (Some t))" "cm_current c' = Some t"
      "case cqueue c @ returning c of [] \<Rightarrow> cm_per_cpu_idle_thread c = Some t \<and> cqueue c' = [] | u # us \<Rightarrow> t = u \<and> cqueue c' = us"
      "cstate c' = (stopped \<circ> cstate c)(t \<mapsto> ThreadRunningState)" "cring_ok c'" "unique_keys cth_id (cm_threads c')" "same_rest c c'"
proof -
  from ok obtain d r where d: "return_current_to_ready_queue c = (d, r)" "cring_ok d" "unique_keys cth_id (cm_threads d)"
    "cstate d = stopped \<circ> cstate c" "cm_current d = cm_current c" "same_rest c d"
    and r: "r = Inl CoreReadyQueueFull \<and> returning c \<noteq> [] \<and> cm_ready_len c = length (cm_ready c) \<and> cqueue d = cqueue c \<or>
     r = ok_unit \<and> cqueue d = cqueue c @ returning c" by (rule return_current_to_ready_queue_cases)
  have idle: "cm_per_cpu_idle_thread d = cm_per_cpu_idle_thread c" using d(6) by (simp add: same_rest_def)
  from r consider (f) "r = Inl CoreReadyQueueFull" "returning c \<noteq> []" "cm_ready_len c = length (cm_ready c)" "cqueue d = cqueue c"
    | (o) "r = ok_unit" "cqueue d = cqueue c @ returning c" by blast
  then show thesis
  proof cases
    case f
    with d show thesis by (intro full [of d]) (simp_all add: schedule_next_def)
  next
    case o
    have "cstate d t = Some ThreadReady \<and> cm_per_cpu_idle_thread d \<noteq> Some t" if "t \<in> set (cqueue d)" for t
      using that cmtss_okD(4,8) [OF ok] cmtss_okD(5) [OF ok, of t] unfolding o d(4) idle
      by (auto simp: returning_def stopped_def split: option.splits if_splits)
    then have ready: "\<forall>t \<in> set (cqueue d). cstate d t = Some ThreadReady \<and> cm_per_cpu_idle_thread d \<noteq> Some t" by blast
    have run: thesis if e: "dequeue_non_idle_runnable d = (e, Inr found)" "cring_ok e" "cm_threads e = cm_threads d" "same_rest d e"
      and t: "(case found of Some t \<Rightarrow> Some t | None \<Rightarrow> cm_per_cpu_idle_thread e) = Some t" "cstate d t \<noteq> None"
      and q: "case cqueue c @ returning c of [] \<Rightarrow> cm_per_cpu_idle_thread c = Some t \<and> cqueue e = [] | u # us \<Rightarrow> t = u \<and> cqueue e = us"
      for e found t
    proof -
      have ce: "cstate e = cstate d" using e(3) by (intro cstate_thread cm_thread_threads)
      have "unique_keys cth_id (cm_threads e)" "cstate e t \<noteq> None" using d(3) e(3) t(2) ce by simp_all
      then obtain g where g: "mark_thread_running e t = (g, ok_unit)" "cstate g = (cstate e)(t \<mapsto> ThreadRunningState)"
        "unique_keys cth_id (cm_threads g)" "cring_ok g = cring_ok e" "cqueue g = cqueue e" "same_rest e g"
        by (rule mark_thread_running_known)
      let ?g = "g\<lparr>cm_current := Some t\<rparr>"
      have eq: "schedule_next c = (?g, Inr (Some t))"
        unfolding schedule_next_def d(1) o(1) and_then_Inr e(1) t(1) by (simp add: g(1))
      have gs: "cstate ?g = cstate g" "cqueue ?g = cqueue g" "cring_ok ?g = cring_ok g" "same_rest e ?g"
        using g(6) by (simp_all add: cstate_def cm_thread_def cqueue_def cring_ok_def same_rest_def fun_eq_iff)
      have "same_rest c ?g" using same_rest_trans [OF same_rest_trans [OF d(6) e(4)] gs(4)] .
      have "case cqueue c @ returning c of [] \<Rightarrow> cm_per_cpu_idle_thread c = Some t \<and> cqueue ?g = [] | u # us \<Rightarrow> t = u \<and> cqueue ?g = us"
        unfolding gs(2) g(5) by (rule q)
      then show thesis using eq gs(1,3) g(2,3,4) ce d(4) e(2) \<open>same_rest c ?g\<close> by (intro some [of ?g t]) simp_all
    qed
    from d(2) ready show thesis
    proof (cases rule: dequeue_non_idle_runnable_hd)
      case empty
      show thesis
      proof (cases "cm_per_cpu_idle_thread c")
        case None
        with empty d o idle show thesis by (intro none [of d]) (simp_all add: schedule_next_def)
      next
        case (Some i)
        have "cstate d i \<noteq> None" using Some cmtss_okD(8) [OF ok] d(4) by (auto simp: stopped_def split: if_splits)
        with run [OF empty(1) d(2), of i] Some empty(2) o(2) idle show thesis by simp
      qed
    next
      case (found e t)
      have "cstate d t \<noteq> None" using ready found(3) by simp
      with run [OF found(1,2,4,6), of t] found(3) o(2) show thesis by simp
    qed
  qed
qed

section \<open>Every operation keeps the invariant\<close>

lemma stopped_simps [simp]:
  "stopped x = None \<longleftrightarrow> x = None" "stopped x \<noteq> Some ThreadRunningState"
  "stopped (Some ThreadReady) = Some ThreadReady" "stopped (Some ThreadRunningState) = Some ThreadReady"
  by (auto simp: stopped_def)

lemma cmtss_ok_step:
  assumes ok: "cmtss_ok c" and rest: "same_rest c c'" and "cring_ok c'" "unique_keys cth_id (cm_threads c')"
    and dom: "\<And>t. cstate c' t = None \<longleftrightarrow> cstate c t = None"
    and "distinct (cqueue c')" "0 \<notin> set (cqueue c')" "\<And>t. t \<in> set (cqueue c') \<Longrightarrow> cstate c' t = Some ThreadReady"
    and "\<And>t. cm_current c' = Some t \<Longrightarrow> t \<notin> set (cqueue c') \<and> cstate c' t \<in> {Some ThreadReady, Some ThreadRunningState}"
    and "\<And>t. cstate c' t = Some ThreadRunningState \<Longrightarrow> cm_current c' = Some t"
  shows "cmtss_ok c'"
proof -
  have idle: "0 < cm_next_tid c'" "if cm_initialized c' then cm_per_cpu_idle_thread c' = Some 0 \<and> cstate c' 0 \<noteq> None
      else cm_per_cpu_idle_thread c' = None \<and> cstate c' 0 = None"
    using ok rest dom [of 0] unfolding cmtss_ok_iff same_rest_def by simp_all
  have "t < cm_next_tid c'" if "cstate c' t \<noteq> None" for t
    using that dom [of t] cmtss_okD(9) [OF ok, of t] rest by (simp add: same_rest_def)
  moreover have "case cm_current c' of None \<Rightarrow> True
      | Some t \<Rightarrow> t \<notin> set (cqueue c') \<and> cstate c' t \<in> {Some ThreadReady, Some ThreadRunningState}"
    using assms(9) by (cases "cm_current c'") simp_all
  ultimately show ?thesis unfolding cmtss_ok_iff using idle assms(3,4,6,7,8,10) by blast
qed

lemma schedule_next_ok:
  assumes ok: "cmtss_ok c"
  shows "cmtss_ok (fst (schedule_next c))"
proof -
  have stopping: "cmtss_ok c'" if "cqueue c' = cqueue c" "cm_current c' = cm_current c" "cstate c' = stopped \<circ> cstate c"
    "cring_ok c'" "unique_keys cth_id (cm_threads c')" "same_rest c c'" for c'
    by (rule cmtss_ok_step [OF ok]) (use that cmtss_okD(3-6) [OF ok] in auto)
  from ok show ?thesis
  proof (cases rule: schedule_next_cases)
    case (full c')
    then show ?thesis using stopping [of c'] by simp
  next
    case (none c')
    then show ?thesis using stopping [of c'] by simp
  next
    case (some c' t)
    have ret: "x \<in> set (returning c) \<Longrightarrow> cm_current c = Some x \<and> cstate c x = Some ThreadRunningState \<and> x \<noteq> 0" for x
      using cmtss_okD(8) [OF ok] by (auto simp: returning_def split: option.splits if_splits)
    have "distinct (returning c)" by (simp add: returning_def split: option.split)
    then have dist: "distinct (cqueue c @ returning c)" using ret cmtss_okD(3,6) [OF ok] by auto
    have rdy: "stopped (cstate c x) = Some ThreadReady \<and> x \<noteq> 0" if "x \<in> set (cqueue c @ returning c)" for x
      using that ret [of x] cmtss_okD(4) [OF ok] cmtss_okD(5) [OF ok, of x] by auto
    have t: "cstate c t \<noteq> None"
    proof
      assume "cstate c t = None"
      then show False
        using some(3) rdy [of t] cmtss_okD(8) [OF ok]
        by (cases "cqueue c @ returning c") (auto simp: stopped_def split: if_splits)
    qed
    have q: "distinct (cqueue c')" "t \<notin> set (cqueue c')" "\<And>x. x \<in> set (cqueue c') \<Longrightarrow> x \<in> set (cqueue c @ returning c)"
      using some(3) dist by (cases "cqueue c @ returning c"; auto)+
    have qr: "stopped (cstate c x) = Some ThreadReady" "x \<noteq> 0" if "x \<in> set (cqueue c')" for x
      using rdy [OF q(3) [OF that]] by auto
    have "cmtss_ok c'"
      by (rule cmtss_ok_step [OF ok some(7,5,6)]) (use some(2,4) q(1,2) qr t in \<open>auto split: if_splits\<close>)
    then show ?thesis using some(1) by simp
  qed
qed

lemma exit_current_cases:
  assumes ok: "cmtss_ok c"
  obtains (idle) "exit_current c status = (c, Inr None)" "cm_current c = None"
  | (exited) c' t where "exit_current c status = (c', Inr (Some t))" "cm_current c = Some t" "cm_current c' = None"
    "cstate c' = (cstate c)(t \<mapsto> ThreadZombie)" "cqueue c' = cqueue c" "cring_ok c'" "unique_keys cth_id (cm_threads c')" "same_rest c c'"
proof (cases "cm_current c")
  case None
  then show thesis by (intro idle) (simp_all add: exit_current_def)
next
  case (Some t)
  with cmtss_okD(6) [OF ok, of t] obtain th where th: "cm_thread c t = Some th" by (auto dest: cstate_eq_SomeD)
  let ?d = "c\<lparr>cm_current := None\<rparr>"
  have d: "cm_threads ?d = cm_threads c" "cqueue ?d = cqueue c" "cring_ok ?d = cring_ok c" "same_rest c ?d"
    by (simp_all add: cqueue_def cring_ok_def same_rest_def)
  have dt: "cm_thread ?d = cm_thread c" using d(1) by (rule cm_thread_threads)
  then have ds: "cstate ?d = cstate c" by (rule cstate_thread)
  have u: "unique_keys cth_id (cm_threads ?d)" using cmtss_okD(2) [OF ok] by simp
  let ?e = "fst (exit_current c status)"
  show thesis
    by (rule exited [of ?e t])
      (use Some th d dt ds cmtss_okD(1) [OF ok] cstate_mut [OF u, of t ThreadZombie]
         cm_thread_mut(2) [OF u, where f = "\<lambda>th. th\<lparr>cth_state := ThreadZombie\<rparr>"]
       in \<open>simp_all add: exit_current_def Let_def cstate_def\<close>)
qed

lemma exit_current_ok:
  assumes ok: "cmtss_ok c"
  shows "cmtss_ok (fst (exit_current c status))"
  using ok
proof (cases rule: exit_current_cases [where status = status])
  case (exited c' t)
  have t: "t \<notin> set (cqueue c)" "cstate c t \<noteq> None" using cmtss_okD(6) [OF ok exited(2)] by auto
  have run: "u = t" if "cstate c u = Some ThreadRunningState" for u using cmtss_okD(7) [OF ok that] exited(2) by simp
  have "cmtss_ok c'"
    by (rule cmtss_ok_step [OF ok exited(8,6,7)])
      (use exited(3,4,5) t cmtss_okD(3-5) [OF ok] run in \<open>auto split: if_splits\<close>)
  then show ?thesis using exited(1) by simp
qed (use ok in simp)

section \<open>Spawning\<close>

definition spawn_valid :: "UserProgramImage \<Rightarrow> StackRange \<Rightarrow> UserThreadPreflight \<Rightarrow> bool" where
  "spawn_valid program kernel_stack preflight \<longleftrightarrow>
     up_address_space program \<noteq> 0 \<and> up_cr3 program \<noteq> 0 \<and> is_canonical_user (up_entry program) \<and>
     stack_is_valid (up_user_stack program) \<and> is_canonical_user (sk_top (up_user_stack program)) \<and>
     stack_is_valid kernel_stack \<and> preflight_complete preflight"

definition spawn_room :: "CoreMtss \<Rightarrow> bool" where
  "spawn_room c \<longleftrightarrow> None \<in> set (cm_tasks c) \<and> None \<in> set (cm_threads c) \<and> cm_ready_len c < length (cm_ready c)"

definition spawned_thread :: "CoreMtss \<Rightarrow> UserProgramImage \<Rightarrow> StackRange \<Rightarrow> ThreadState \<Rightarrow> CoreThread" where
  "spawned_thread c program kernel_stack state =
     \<lparr>cth_id = cm_next_tid c, cth_task = cm_next_pid c, cth_state = state, cth_kernel_stack = kernel_stack,
      cth_user_stack = Some (up_user_stack program),
      cth_context = userspace_entry (up_entry program) (sk_top (up_user_stack program)) (up_cr3 program)\<rparr>"

definition tid_taken :: "CoreMtss \<Rightarrow> CoreMtss" where
  "tid_taken c = c\<lparr>cm_next_tid := saturating_add (cm_next_tid c) 1\<rparr>"

lemma preflight_kernel_stack: "preflight_complete pf \<Longrightarrow> pf_valid_kernel_stack pf"
  by (simp add: preflight_complete_def)

lemma spawn_ready_cases:
  assumes ring: "cring_ok c" and u: "unique_keys cth_id (cm_threads c)" and len: "cm_ready_len c \<le> length (cm_ready c)"
    and th: "cm_thread c t = Some th"
  obtains (refused) e where "spawn_ready c k t pf = (c, Inl e)" "\<not> (preflight_complete pf \<and> cm_ready_len c < length (cm_ready c))"
  | (spawned) c' where "spawn_ready c k t pf = (c', Inr k)" "preflight_complete pf" "cm_ready_len c < length (cm_ready c)"
      "cqueue c' = cqueue c @ [t]" "cm_current c' = cm_current c" "cring_ok c'" "unique_keys cth_id (cm_threads c')"
      "cm_thread c' = (cm_thread c)(t \<mapsto> th\<lparr>cth_state := ThreadReady\<rparr>)" "same_rest c c'"
proof (cases "preflight_complete pf \<and> cm_ready_len c \<noteq> length (cm_ready c)")
  case False
  then have "\<exists>e. spawn_ready c k t pf = (c, Inl e)" by (cases "preflight_complete pf") (simp_all add: spawn_ready_def)
  then obtain e where "spawn_ready c k t pf = (c, Inl e)" ..
  with False len show thesis by (intro refused) auto
next
  case True
  define d where "d = cm_thread_mut (cm_task_mut c k (\<lambda>task. task\<lparr>ct_state := TaskRunnable\<rparr>)) t (\<lambda>th. th\<lparr>cth_state := ThreadReady\<rparr>)"
  have d: "cring_ok d" "cm_ready_len d < length (cm_ready d)" "cqueue d = cqueue c" "cm_current d = cm_current c" "same_rest c d"
    using ring True len by (simp_all add: d_def)
  have th': "cm_thread d = (cm_thread c)(t \<mapsto> th\<lparr>cth_state := ThreadReady\<rparr>)" "unique_keys cth_id (cm_threads d)"
    using u th cm_thread_mut [where f = "\<lambda>th. th\<lparr>cth_state := ThreadReady\<rparr>" and t = t and
        c = "cm_task_mut c k (\<lambda>task. task\<lparr>ct_state := TaskRunnable\<rparr>)"]
    by (simp_all add: d_def)
  from d(1,2) obtain e where e: "cm_enqueue d t = (e, ok_unit)" "cring_ok e" "cqueue e = cqueue d @ [t]"
    "cm_threads e = cm_threads d" "cm_current e = cm_current d" "same_rest d e" by (rule cm_enqueue_room)
  have "spawn_ready c k t pf = (e, Inr k)" using True e(1) by (simp add: spawn_ready_def Let_def d_def)
  with True len d e th' cm_thread_threads [OF e(4)] same_rest_trans [OF d(5) e(6)] show thesis
    by (intro spawned [of e]) simp_all
qed

lemma insert_task_cases:
  obtains (full) "insert_task c k = (c, Inl CoreTaskTableFull)" "None \<notin> set (cm_tasks c)"
  | (inserted) c' where "insert_task c k = (c', ok_unit)" "None \<in> set (cm_tasks c)" "cqueue c' = cqueue c"
    "cring_ok c' = cring_ok c" "cm_current c' = cm_current c" "cm_threads c' = cm_threads c" "same_rest c c'"
    "cm_ready_len c' = cm_ready_len c" "cm_ready c' = cm_ready c"
proof (cases "free_slot (cm_tasks c)")
  case None
  then show thesis by (intro full) (simp_all add: insert_task_def free_slot_None_iff [symmetric])
next
  case (Some i)
  then have "None \<in> set (cm_tasks c)" using free_slot_None_iff [of "cm_tasks c"] by auto
  with Some show thesis
    by (intro inserted [of "fst (insert_task c k)"]) (simp_all add: insert_task_def cqueue_def cring_ok_def same_rest_def)
qed

lemma insert_thread_cases:
  assumes u: "unique_keys cth_id (cm_threads c)" and fresh: "cm_thread c (cth_id th) = None"
  obtains (full) "insert_thread c th = (c, Inl CoreThreadTableFull)" "None \<notin> set (cm_threads c)"
  | (inserted) c' where "insert_thread c th = (c', ok_unit)" "None \<in> set (cm_threads c)" "cqueue c' = cqueue c"
    "cring_ok c' = cring_ok c" "cm_current c' = cm_current c" "cm_thread c' = (cm_thread c)(cth_id th \<mapsto> th)"
    "unique_keys cth_id (cm_threads c')" "same_rest c c'" "cm_ready_len c' = cm_ready_len c" "cm_ready c' = cm_ready c"
proof (cases "free_slot (cm_threads c)")
  case None
  then show thesis by (intro full) (simp_all add: insert_thread_def free_slot_None_iff [symmetric])
next
  case (Some i)
  then have "None \<in> set (cm_threads c)" using free_slot_None_iff [of "cm_threads c"] by auto
  moreover note slot_lookup_insert [OF u Some fresh [unfolded cm_thread_def]]
  ultimately show thesis using Some
    by (intro inserted [of "fst (insert_thread c th)"])
      (simp_all add: insert_thread_def cqueue_def cring_ok_def same_rest_def cm_thread_def fun_eq_iff)
qed

lemma spawn_guards:
  assumes "\<not> (up_address_space p \<noteq> 0 \<and> up_cr3 p \<noteq> 0 \<and> is_canonical_user (up_entry p) \<and> stack_is_valid (up_user_stack p) \<and>
    is_canonical_user (sk_top (up_user_stack p)) \<and> stack_is_valid ks \<and> pf_valid_kernel_stack pf)"
  obtains e where "spawn_userspace c name p ks pf = (c, Inl e)" "\<not> spawn_valid p ks pf"
proof -
  have "fst (spawn_userspace c name p ks pf) = c" "isl (snd (spawn_userspace c name p ks pf))" "\<not> spawn_valid p ks pf"
    using assms preflight_kernel_stack [of pf] by (auto simp: spawn_userspace_def spawn_valid_def)
  moreover from this obtain e where "spawn_userspace c name p ks pf = (c, Inl e)"
    by (cases "spawn_userspace c name p ks pf"; cases "snd (spawn_userspace c name p ks pf)") auto
  ultimately show thesis by (intro that)
qed

lemma spawn_userspace_cases:
  assumes ok: "cmtss_ok c"
  obtains (refused) c' e where "spawn_userspace c name p ks pf = (c', Inl e)" "\<not> (spawn_valid p ks pf \<and> spawn_room c)"
      "cqueue c' = cqueue c" "cm_current c' = cm_current c" "cring_ok c'" "unique_keys cth_id (cm_threads c')"
      "cm_thread c' = cm_thread c \<and> same_rest c c' \<or>
       cm_thread c' \<in> {cm_thread c, (cm_thread c)(cm_next_tid c \<mapsto> spawned_thread c p ks ThreadNew)} \<and> same_rest (tid_taken c) c'"
  | (spawned) c' where "spawn_userspace c name p ks pf = (c', Inr (cm_next_pid c))" "spawn_valid p ks pf" "spawn_room c"
      "cqueue c' = cqueue c @ [cm_next_tid c]" "cm_current c' = cm_current c" "cring_ok c'" "unique_keys cth_id (cm_threads c')"
      "cm_thread c' = (cm_thread c)(cm_next_tid c \<mapsto> spawned_thread c p ks ThreadReady)" "same_rest (tid_taken c) c'"
proof (cases "up_address_space p \<noteq> 0 \<and> up_cr3 p \<noteq> 0 \<and> is_canonical_user (up_entry p) \<and> stack_is_valid (up_user_stack p) \<and>
    is_canonical_user (sk_top (up_user_stack p)) \<and> stack_is_valid ks \<and> pf_valid_kernel_stack pf")
  case False
  then obtain e where "spawn_userspace c name p ks pf = (c, Inl e)" "\<not> spawn_valid p ks pf" by (rule spawn_guards)
  then show thesis using cmtss_okD(1,2) [OF ok] by (intro refused [of c e]) simp_all
next
  case g: True
  define c1 where "c1 = c\<lparr>cm_next_pid := saturating_add (cm_next_pid c) 1, cm_next_tid := saturating_add (cm_next_tid c) 1\<rparr>"
  define task where "task = \<lparr>ct_id = cm_next_pid c, ct_kind = KindUserspace, ct_state = TaskCreatedState,
      ct_address_space = Some (up_address_space p), ct_main_thread = cm_next_tid c, ct_name = name\<rparr>"
  let ?th = "spawned_thread c p ks"
  have c1: "cqueue c1 = cqueue c" "cring_ok c1" "cm_current c1 = cm_current c" "cm_threads c1 = cm_threads c"
    "cm_tasks c1 = cm_tasks c" "same_rest (tid_taken c) c1" "cm_ready_len c1 = cm_ready_len c" "cm_ready c1 = cm_ready c"
    using cmtss_okD(1) [OF ok] by (simp_all add: c1_def cqueue_def cring_ok_def same_rest_def tid_taken_def)
  have eq: "spawn_userspace c name p ks pf = and_then (insert_task c1 task) (\<lambda>self _.
      and_then (insert_thread self (?th ThreadNew)) (\<lambda>self _. spawn_ready self (cm_next_pid c) (cm_next_tid c) pf))"
    using g by (simp add: spawn_userspace_def Let_def allocate_pid_def allocate_tid_def c1_def task_def spawned_thread_def)
  note u = cmtss_okD(2) [OF ok]
  show thesis
  proof (cases rule: insert_task_cases [of c1 task])
    case full
    then show thesis using c1 u cm_thread_threads [OF c1(4)]
      by (intro refused [of c1 CoreTaskTableFull]) (simp_all add: eq spawn_room_def)
  next
    case t2: (inserted c2)
    have "cm_threads c2 = cm_threads c" using t2(6) c1(4) by simp
    then have th2: "cm_thread c2 = cm_thread c" "cm_threads c2 = cm_threads c" by (simp_all add: cm_thread_threads [of c2 c])
    have r2: "same_rest (tid_taken c) c2" using c1(6) t2(7) by (rule same_rest_trans)
    have "cm_thread c (cm_next_tid c) = None" using cmtss_okD(9) [OF ok, of "cm_next_tid c"] by (cases "cm_thread c (cm_next_tid c)") (simp_all add: cstate_def)
    then have fresh: "unique_keys cth_id (cm_threads c2)" "cm_thread c2 (cth_id (?th ThreadNew)) = None"
      using u th2 by (simp_all add: spawned_thread_def)
    from fresh show thesis
    proof (cases rule: insert_thread_cases)
      case full
      then show thesis using c1 u th2 t2 r2
        by (intro refused [of c2 CoreThreadTableFull]) (simp_all add: eq spawn_room_def)
    next
      case t3: (inserted c3)
      have th3: "cm_thread c3 = (cm_thread c)(cm_next_tid c \<mapsto> ?th ThreadNew)" using t3(6) th2 by (simp add: spawned_thread_def)
      have r3: "same_rest (tid_taken c) c3" using r2 t3(8) by (rule same_rest_trans)
      have c3: "cring_ok c3" "cqueue c3 = cqueue c" "cm_current c3 = cm_current c" "cm_ready_len c3 = cm_ready_len c" "cm_ready c3 = cm_ready c"
        using t3 t2 c1 by simp_all
      have eq3: "spawn_userspace c name p ks pf = spawn_ready c3 (cm_next_pid c) (cm_next_tid c) pf"
        unfolding eq t2(1) t3(1) and_then_Inr ..
      have pre: "cm_ready_len c3 \<le> length (cm_ready c3)" "cm_thread c3 (cm_next_tid c) = Some (?th ThreadNew)"
        using cmtss_okD(10) [OF ok] c3 th3 by simp_all
      from c3(1) t3(7) pre show thesis
      proof (cases rule: spawn_ready_cases [where k = "cm_next_pid c" and pf = pf])
        case (refused e)
        then have "\<not> (spawn_valid p ks pf \<and> spawn_room c)" using c3(4,5) by (auto simp: spawn_valid_def spawn_room_def)
        with refused(1) eq3 c3 t3(7) th3 r3 show thesis by (intro that(1) [of c3 e]) simp_all
      next
        case (spawned c4)
        have "spawn_valid p ks pf" "spawn_room c"
          using g spawned(2,3) t2(2) t3(2) c1(5) th2(2) c3(4,5) by (simp_all add: spawn_valid_def spawn_room_def)
        moreover have "cm_thread c4 = (cm_thread c)(cm_next_tid c \<mapsto> ?th ThreadReady)"
          using spawned(8) th3 by (simp add: spawned_thread_def)
        moreover have "same_rest (tid_taken c) c4" using r3 spawned(9) by (rule same_rest_trans)
        ultimately show thesis using eq3 spawned c3 by (intro that(2) [of c4]) simp_all
      qed
    qed
  qed
qed

lemma next_tid_step:
  assumes "cm_next_tid c \<noteq> max_word_of"
  shows "unat (cm_next_tid (tid_taken c)) = unat (cm_next_tid c) + 1" and "cm_next_tid c < cm_next_tid (tid_taken c)"
  using unat_saturating_inc [OF assms] by (simp_all add: tid_taken_def word_less_nat_alt)

lemma tid_taken_simps [simp]:
  "cm_thread (tid_taken c) = cm_thread c" "cqueue (tid_taken c) = cqueue c" "cm_current (tid_taken c) = cm_current c"
  "cstate (tid_taken c) = cstate c" "cring_ok (tid_taken c) = cring_ok c" "cm_threads (tid_taken c) = cm_threads c"
  "cm_initialized (tid_taken c) = cm_initialized c" "cm_per_cpu_idle_thread (tid_taken c) = cm_per_cpu_idle_thread c"
  by (simp_all add: tid_taken_def cm_thread_def cqueue_def cstate_def cring_ok_def fun_eq_iff)

lemma tid_taken_ok:
  assumes ok: "cmtss_ok c" and "cm_next_tid c \<noteq> max_word_of"
  shows "cmtss_ok (tid_taken c)"
proof -
  note lt = next_tid_step(2) [OF assms(2)]
  have "0 < cm_next_tid (tid_taken c)" "\<forall>t. cstate c t \<noteq> None \<longrightarrow> t < cm_next_tid (tid_taken c)"
    using ok lt unfolding cmtss_ok_iff by (auto intro: less_trans)
  then show ?thesis using ok unfolding cmtss_ok_iff tid_taken_simps by blast
qed

text \<open>Adding a thread with a fresh id that is new, or ready and queued.\<close>

lemma cmtss_ok_add:
  assumes ok: "cmtss_ok c" and max: "cm_next_tid c \<noteq> max_word_of" and rest: "same_rest (tid_taken c) c'"
    and "cring_ok c'" "unique_keys cth_id (cm_threads c')" and cur: "cm_current c' = cm_current c"
    and th: "cstate c' = (cstate c)(cm_next_tid c \<mapsto> x)"
    and x: "x = ThreadNew \<and> cqueue c' = cqueue c \<or> x = ThreadReady \<and> cqueue c' = cqueue c @ [cm_next_tid c]"
  shows "cmtss_ok c'"
proof -
  let ?t = "cm_next_tid c"
  note lt = next_tid_step(2) [OF max]
  have pos: "0 < ?t" using ok by (simp add: cmtss_ok_def)
  have fresh: "cstate c ?t = None" using cmtss_okD(9) [OF ok, of ?t] by (cases "cstate c ?t") simp_all
  then have nq: "?t \<notin> set (cqueue c)" using cmtss_okD(5) [OF ok, of ?t] by auto
  have nc: "cm_current c \<noteq> Some ?t" using cmtss_okD(6) [OF ok, of ?t] fresh by auto
  have q: "distinct (cqueue c')" "0 \<notin> set (cqueue c')" "\<And>u. u \<in> set (cqueue c') \<Longrightarrow> cstate c' u = Some ThreadReady"
    using x cmtss_okD(3-5) [OF ok] nq pos th by auto
  have bound: "u < cm_next_tid c'" if "cstate c' u \<noteq> None" for u
  proof -
    have "u = ?t \<or> u < ?t" using that th cmtss_okD(9) [OF ok, of u] by (auto split: if_splits)
    then have "u < cm_next_tid (tid_taken c)" using lt by auto
    then show ?thesis using rest by (simp add: same_rest_def)
  qed
  have "case cm_current c' of None \<Rightarrow> True
      | Some u \<Rightarrow> u \<notin> set (cqueue c') \<and> cstate c' u \<in> {Some ThreadReady, Some ThreadRunningState}"
    using cmtss_okD(6) [OF ok] x nc th cur by (cases "cm_current c") auto
  moreover have "cm_current c' = Some u" if "cstate c' u = Some ThreadRunningState" for u
    using that th x cmtss_okD(7) [OF ok, of u] cur by (auto split: if_splits)
  moreover have "0 < cm_next_tid c'" "if cm_initialized c' then cm_per_cpu_idle_thread c' = Some 0 \<and> cstate c' 0 \<noteq> None
      else cm_per_cpu_idle_thread c' = None \<and> cstate c' 0 = None"
    using ok rest lt pos th unfolding cmtss_ok_iff same_rest_def by (auto simp: tid_taken_def split: if_splits)
  ultimately show ?thesis unfolding cmtss_ok_iff using assms(4,5) q bound by blast
qed

lemma same_rest_ok:
  assumes "cmtss_ok c" "same_rest c c'" "cm_thread c' = cm_thread c" "cqueue c' = cqueue c" "cm_current c' = cm_current c"
    "cring_ok c'" "unique_keys cth_id (cm_threads c')"
  shows "cmtss_ok c'"
proof -
  note st = cstate_thread [OF assms(3)] and ok = assms(1)
  show ?thesis
    by (rule cmtss_ok_step [OF ok assms(2,6,7)]) (use cmtss_okD(3-6) [OF ok] in \<open>auto simp: st assms(4,5) dest: cmtss_okD(7) [OF ok]\<close>)
qed

lemma cstate_spawned:
  "cm_thread c' = (cm_thread c)(cm_next_tid c \<mapsto> spawned_thread c p ks x) \<Longrightarrow> cstate c' = (cstate c)(cm_next_tid c \<mapsto> x)"
  by (auto simp: cstate_def spawned_thread_def fun_eq_iff)

lemma spawn_userspace_ok:
  assumes ok: "cmtss_ok c" and max: "cm_next_tid c \<noteq> max_word_of"
  shows "cmtss_ok (fst (spawn_userspace c name p ks pf))"
  using ok
proof (cases rule: spawn_userspace_cases [where name = name and p = p and ks = ks and pf = pf])
  case (refused c' e)
  from refused(7) have "cmtss_ok c'"
  proof (elim disjE conjE)
    assume "cm_thread c' = cm_thread c" "same_rest c c'"
    with refused(3-6) show ?thesis by (intro same_rest_ok [OF ok])
  next
    assume th: "cm_thread c' \<in> {cm_thread c, (cm_thread c)(cm_next_tid c \<mapsto> spawned_thread c p ks ThreadNew)}"
      and rest: "same_rest (tid_taken c) c'"
    from th consider "cm_thread c' = cm_thread c" | "cm_thread c' = (cm_thread c)(cm_next_tid c \<mapsto> spawned_thread c p ks ThreadNew)"
      by blast
    then show ?thesis
    proof cases
      case 1
      then show ?thesis using refused(3-6) rest by (intro same_rest_ok [OF tid_taken_ok [OF ok max]]) simp_all
    next
      case 2
      from cmtss_ok_add [OF ok max rest refused(5,6,4) cstate_spawned [OF 2]] refused(3) show ?thesis by simp
    qed
  qed
  then show ?thesis using refused(1) by simp
next
  case (spawned c')
  from cmtss_ok_add [OF ok max spawned(9,6,7,5) cstate_spawned [OF spawned(8)]] spawned(1,4) show ?thesis by simp
qed

text \<open>Adding the ready idle thread to a core that was not initialised.\<close>

lemma cmtss_ok_idle:
  assumes ok: "cmtss_ok c" and none: "cstate c 0 = None" and st: "cstate c' = (cstate c)(0 \<mapsto> ThreadReady)"
    and q: "cqueue c' = cqueue c" and cur: "cm_current c' = cm_current c" and "cring_ok c'" "unique_keys cth_id (cm_threads c')"
    and tid: "cm_next_tid c' = cm_next_tid c" and idle: "cm_per_cpu_idle_thread c' = Some 0" "cm_initialized c'"
  shows "cmtss_ok c'"
proof -
  have pos: "0 < cm_next_tid c'" using ok tid by (simp add: cmtss_ok_def)
  have "t < cm_next_tid c'" if "cstate c' t \<noteq> None" for t
    using that pos st tid cmtss_okD(9) [OF ok, of t] by (cases "t = 0") simp_all
  moreover have "case cm_current c' of None \<Rightarrow> True
      | Some u \<Rightarrow> u \<notin> set (cqueue c') \<and> cstate c' u \<in> {Some ThreadReady, Some ThreadRunningState}"
    using cmtss_okD(6) [OF ok] st by (simp add: cur q split: option.split)
  moreover have "cm_current c' = Some t" if "cstate c' t = Some ThreadRunningState" for t
    using that st cmtss_okD(7) [OF ok, of t] by (cases "t = 0") (simp_all add: cur)
  moreover have "\<forall>t \<in> set (cqueue c'). cstate c' t = Some ThreadReady"
    using cmtss_okD(5) [OF ok] by (simp add: q st)
  ultimately show ?thesis
    unfolding cmtss_ok_iff using assms(6,7) pos idle st cmtss_okD(3,4) [OF ok] by (simp add: q)
qed

lemma init_with_idle_ok:
  assumes ok: "cmtss_ok c"
  shows "cmtss_ok (fst (init_with_idle c ks))"
proof (cases "cm_initialized c \<or> \<not> stack_is_valid ks")
  case True
  then show ?thesis using ok by (auto simp: init_with_idle_def)
next
  case False
  define task where "task = \<lparr>ct_id = 0, ct_kind = KindKernel, ct_state = TaskRunnable, ct_address_space = None,
              ct_main_thread = 0, ct_name = ''idle''\<rparr>"
  define th where "th = \<lparr>cth_id = 0, cth_task = 0, cth_state = ThreadReady, cth_kernel_stack = ks, cth_user_stack = None,
              cth_context = kernel_placeholder 0 (sk_top ks)\<rparr>"
  have eq: "init_with_idle c ks = and_then (insert_task c task) (\<lambda>self _. and_then (insert_thread self th) (\<lambda>self _.
             (self\<lparr>cm_per_cpu_idle_thread := Some 0, cm_initialized := True\<rparr>, ok_unit)))"
    using False by (simp add: init_with_idle_def Let_def task_def th_def)
  have none: "cm_thread c 0 = None" using ok False by (auto simp: cmtss_ok_def)
  show ?thesis
  proof (cases rule: insert_task_cases [of c task])
    case full
    then show ?thesis using eq ok by simp
  next
    case (inserted c2)
    have th2: "cm_thread c2 = cm_thread c" using inserted(6) by (rule cm_thread_threads)
    have ok2: "cmtss_ok c2"
      using inserted cmtss_okD(1,2) [OF ok] th2 by (intro same_rest_ok [OF ok]) simp_all
    have "cm_thread c2 (cth_id th) = None" using none th2 by (simp add: th_def)
    with cmtss_okD(2) [OF ok2] show ?thesis
    proof (cases rule: insert_thread_cases)
      case full
      then show ?thesis using eq inserted(1) ok2 by simp
    next
      case t3: (inserted c3)
      let ?c = "c3\<lparr>cm_per_cpu_idle_thread := Some 0, cm_initialized := True\<rparr>"
      have "cm_thread ?c = cm_thread c3" by (simp add: cm_thread_def fun_eq_iff)
      then have st: "cstate ?c = (cstate c2)(0 \<mapsto> ThreadReady)" using t3(6) by (auto simp: cstate_def th_def fun_eq_iff)
      have c: "cqueue ?c = cqueue c2" "cm_current ?c = cm_current c2" "cring_ok ?c" "unique_keys cth_id (cm_threads ?c)"
        "cm_next_tid ?c = cm_next_tid c2"
        using t3 cmtss_okD(1) [OF ok2] by (simp_all add: cqueue_def cring_ok_def same_rest_def)
      have n2: "cstate c2 0 = None" using none th2 by (simp add: cstate_def)
      have "cmtss_ok ?c" by (rule cmtss_ok_idle [OF ok2 n2 st c]) simp_all
      then show ?thesis using eq inserted(1) t3(1) by simp
    qed
  qed
qed

section \<open>Runs\<close>

datatype core_op =
    InitWithIdle StackRange
  | SpawnUserspace string UserProgramImage StackRange UserThreadPreflight
  | TimerTick
  | ScheduleNext
  | ExitCurrent int

fun core_exec :: "CoreMtss \<Rightarrow> core_op \<Rightarrow> CoreMtss" where
  "core_exec c (InitWithIdle ks) = fst (init_with_idle c ks)"
| "core_exec c (SpawnUserspace name p ks pf) = fst (spawn_userspace c name p ks pf)"
| "core_exec c TimerTick = fst (cm_on_timer_tick c)"
| "core_exec c ScheduleNext = fst (schedule_next c)"
| "core_exec c (ExitCurrent status) = fst (exit_current c status)"

lemma spawn_next_tid:
  assumes "cmtss_ok c"
  shows "cm_next_tid (fst (spawn_userspace c name p ks pf)) \<in> {cm_next_tid c, cm_next_tid (tid_taken c)}"
  using assms
  by (cases rule: spawn_userspace_cases [where name = name and p = p and ks = ks and pf = pf]) (auto simp: same_rest_def)

lemma init_next_tid: "cm_next_tid (fst (init_with_idle c ks)) = cm_next_tid c"
  by (simp add: init_with_idle_def insert_task_def insert_thread_def Let_def split: option.split)

lemma schedule_next_tid: "cmtss_ok c \<Longrightarrow> cm_next_tid (fst (schedule_next c)) = cm_next_tid c"
  by (erule schedule_next_cases) (simp_all add: same_rest_def)

lemma exit_next_tid: "cmtss_ok c \<Longrightarrow> cm_next_tid (fst (exit_current c status)) = cm_next_tid c"
  by (erule exit_current_cases [where status = status]) (simp_all add: same_rest_def)

lemma core_exec_ok:
  assumes ok: "cmtss_ok c" and room: "unat (cm_next_tid c) + 1 < 2 ^ LENGTH(64)"
  shows "cmtss_ok (core_exec c op) \<and> unat (cm_next_tid (core_exec c op)) \<le> unat (cm_next_tid c) + 1"
proof -
  have max: "cm_next_tid c \<noteq> max_word_of" using room by (auto simp: unat_max_word_of)
  show ?thesis
  proof (cases op)
    case (SpawnUserspace name p ks pf)
    then show ?thesis
      using spawn_userspace_ok [OF ok max] spawn_next_tid [OF ok, of name p ks pf] next_tid_step(1) [OF max] by auto
  qed (simp_all add: cm_on_timer_tick_def init_with_idle_ok [OF ok] schedule_next_ok [OF ok] exit_current_ok [OF ok]
      init_next_tid schedule_next_tid [OF ok] exit_next_tid [OF ok])
qed

lemma core_run_ok:
  assumes "cmtss_ok c" and "unat (cm_next_tid c) + length ops < 2 ^ LENGTH(64)"
  shows "cmtss_ok (foldl core_exec c ops)"
  using assms
proof (induction ops arbitrary: c)
  case (Cons op ops)
  from core_exec_ok [OF Cons.prems(1), of op] Cons show ?case by simp
qed simp

definition demo_program :: UserProgramImage where
  "demo_program = \<lparr>up_entry = 0x400000, up_address_space = 7, up_user_stack = \<lparr>sk_bottom = 0x7000, sk_top = 0x8000\<rparr>, up_cr3 = 0x1000\<rparr>"

definition demo_stack :: StackRange where "demo_stack = \<lparr>sk_bottom = 0x10000, sk_top = 0x14000\<rparr>"

definition demo_preflight :: UserThreadPreflight where
  "demo_preflight = \<lparr>pf_canonical_rip = True, pf_canonical_rsp = True, pf_executable_user_rip_mapping = True,
     pf_writable_user_stack_mapping = True, pf_valid_user_cs = True, pf_valid_user_ss = True,
     pf_valid_kernel_stack = True, pf_valid_tss_rsp0 = True, pf_valid_address_space = True, pf_valid_cr3 = True\<rparr>"

text \<open>Three programs on an initialised core; the first one runs.\<close>

definition demo_core :: CoreMtss where
  "demo_core = foldl core_exec (cmtss_new 4 4 3)
     [InitWithIdle demo_stack, SpawnUserspace ''a'' demo_program demo_stack demo_preflight,
      SpawnUserspace ''b'' demo_program demo_stack demo_preflight,
      SpawnUserspace ''c'' demo_program demo_stack demo_preflight, ScheduleNext]"

lemma demo_core_ok: "cmtss_ok demo_core"
  unfolding demo_core_def by (rule core_run_ok) (simp_all add: cmtss_new_ok, simp add: cmtss_new_def)

text \<open>One program waiting while the idle thread runs.\<close>

definition demo_idle_core :: CoreMtss where
  "demo_idle_core = foldl core_exec (cmtss_new 2 2 1)
     [InitWithIdle demo_stack, ScheduleNext, SpawnUserspace ''a'' demo_program demo_stack demo_preflight]"

lemma demo_idle_core_ok: "cmtss_ok demo_idle_core"
  unfolding demo_idle_core_def by (rule core_run_ok) (simp_all add: cmtss_new_ok, simp add: cmtss_new_def)

text \<open>
  (C28) In every state the core reaches by less than \<open>2\<^sup>6\<^sup>4 - 1\<close> operations, failing ones included,
  thread ids are unique, the ready ring holds distinct ready threads and never the idle one, the
  current thread is ready or running and not in the ring, no other thread is marked running, and
  the idle thread exists exactly when the core is initialised. Nothing is said of task ids, which
  \<open>retried_init_repeats_task_id\<close> shows can repeat.
\<close>

theorem core_reachable_ok:
  assumes "length ops < 2 ^ 64 - 1"
  shows "cmtss_ok (foldl core_exec (cmtss_new ntasks nthreads nready) ops)"
  using assms by (intro core_run_ok cmtss_new_ok) (simp add: cmtss_new_def)

theorem core_reachable_ok_witness:
  "length [InitWithIdle demo_stack, ScheduleNext, ExitCurrent 0] < 2 ^ 64 - 1 \<and>
   cmtss_ok (foldl core_exec (cmtss_new 1 1 1) [InitWithIdle demo_stack, ScheduleNext, ExitCurrent 0])"
  using core_reachable_ok [of "[InitWithIdle demo_stack, ScheduleNext, ExitCurrent 0]" 1 1 1] by simp

text \<open>
  What \<open>schedule_next\<close> decides. The candidates are the ring followed by the thread that was
  running, unless that is the idle one. The first candidate becomes the only running thread and
  leaves the others in order; without candidates the idle thread runs, or nothing when there is
  none. The only error is a full ring that cannot take the running thread back.
\<close>

theorem schedule_next_exact:
  assumes "cmtss_ok c"
  shows "case schedule_next c of
      (c', Inl e) \<Rightarrow> e = CoreReadyQueueFull \<and> returning c \<noteq> [] \<and> length (cqueue c) = length (cm_ready c)
    | (c', Inr None) \<Rightarrow> cqueue c @ returning c = [] \<and> cm_per_cpu_idle_thread c = None \<and> cm_current c' = cm_current c
    | (c', Inr (Some t)) \<Rightarrow> cm_current c' = Some t \<and> cstate c' = (stopped \<circ> cstate c)(t \<mapsto> ThreadRunningState) \<and>
        (case cqueue c @ returning c of
           [] \<Rightarrow> cm_per_cpu_idle_thread c = Some t \<and> cqueue c' = []
         | u # us \<Rightarrow> t = u \<and> cqueue c' = us)"
  using assms by (cases rule: schedule_next_cases) simp_all

theorem schedule_next_exact_witness:
  "cqueue demo_core @ returning demo_core = [2, 3, 1] \<and>
   (case schedule_next demo_core of
      (c', Inr (Some t)) \<Rightarrow> cm_current c' = Some t \<and> t = 2 \<and> cqueue c' = [3, 1]
    | _ \<Rightarrow> False)"
proof -
  have q: "cqueue demo_core @ returning demo_core = [2, 3, 1]" "length (cqueue demo_core) \<noteq> length (cm_ready demo_core)"
    by code_simp+
  from schedule_next_exact [OF demo_core_ok] q show ?thesis by (auto split: prod.splits sum.splits option.splits)
qed

text \<open>
  (C35) \<open>spawn_userspace\<close> succeeds exactly for a valid program, with complete preflight checks and
  room in both tables and the ring. Then one ready thread with the program's entry point, stack and
  page table joins the end of the ring. When it fails, the ring, the current thread and all other
  threads are as before; at most a thread that is not schedulable was added.
\<close>

theorem spawn_userspace_exact:
  assumes "cmtss_ok c"
  shows "case spawn_userspace c name p ks pf of
      (c', Inr pid) \<Rightarrow> spawn_valid p ks pf \<and> spawn_room c \<and> pid = cm_next_pid c \<and>
        cqueue c' = cqueue c @ [cm_next_tid c] \<and> cm_current c' = cm_current c \<and>
        cm_thread c' = (cm_thread c)(cm_next_tid c \<mapsto> spawned_thread c p ks ThreadReady)
    | (c', Inl e) \<Rightarrow> \<not> (spawn_valid p ks pf \<and> spawn_room c) \<and> cqueue c' = cqueue c \<and> cm_current c' = cm_current c \<and>
        cm_thread c' \<in> {cm_thread c, (cm_thread c)(cm_next_tid c \<mapsto> spawned_thread c p ks ThreadNew)}"
  using assms
  by (cases rule: spawn_userspace_cases [where name = name and p = p and ks = ks and pf = pf]) auto

theorem spawn_userspace_exact_witness:
  "spawn_valid demo_program demo_stack demo_preflight \<and> \<not> spawn_room demo_core \<and>
   spawn_room (fst (init_with_idle (cmtss_new 2 2 1) demo_stack)) \<and>
   (case spawn_userspace (fst (init_with_idle (cmtss_new 2 2 1) demo_stack)) ''a'' demo_program demo_stack demo_preflight of
      (c', Inr pid) \<Rightarrow> pid = 1 \<and> cqueue c' = [1] | _ \<Rightarrow> False)"
proof -
  let ?c = "fst (init_with_idle (cmtss_new 2 2 1) demo_stack)"
  have ev: "spawn_valid demo_program demo_stack demo_preflight" "\<not> spawn_room demo_core" "spawn_room ?c"
    "cm_next_pid ?c = 1" "cm_next_tid ?c = 1" "cqueue ?c = []" by code_simp+
  from spawn_userspace_exact [OF init_with_idle_ok [OF cmtss_new_ok, of 2 2 1 demo_stack],
      where name = "''a''" and p = demo_program and ks = demo_stack and pf = demo_preflight] ev
  show ?thesis by (auto split: prod.splits sum.splits)
qed

section \<open>Round robin\<close>

definition core_ticks :: "nat \<Rightarrow> CoreMtss \<Rightarrow> CoreMtss" where
  "core_ticks n c = ((\<lambda>c. fst (cm_on_timer_tick c)) ^^ n) c"

text \<open>
  The threads a tick chooses from, in the order it considers them: the ring, then the user thread
  that is running, if any. A tick has room when the ring can take that thread back.
\<close>

definition core_candidates :: "CoreMtss \<Rightarrow> MtThreadId list" where
  "core_candidates c = cqueue c @ returning c"

definition tick_room :: "CoreMtss \<Rightarrow> bool" where
  "tick_room c \<longleftrightarrow> returning c = [] \<or> length (cqueue c) < length (cm_ready c)"

lemma tick_rotates:
  assumes ok: "cmtss_ok c" and room: "tick_room c"
  shows "\<exists>c'. cm_on_timer_tick c =
      (c', Inr (case core_candidates c of [] \<Rightarrow> cm_per_cpu_idle_thread c | t # _ \<Rightarrow> Some t)) \<and>
    cmtss_ok c' \<and> tick_room c' \<and> cm_per_cpu_idle_thread c' = cm_per_cpu_idle_thread c \<and>
    core_candidates c' = rotate1 (core_candidates c)"
proof -
  have ok': "cmtss_ok (fst (schedule_next c))" by (rule schedule_next_ok [OF ok])
  have not_running: "returning d = []" if "cstate d = stopped \<circ> cstate c" for d
    using that by (auto simp: returning_def split: option.split)
  from ok show ?thesis
  proof (cases rule: schedule_next_cases)
    case (some c' t)
    have idle: "cm_per_cpu_idle_thread c' = cm_per_cpu_idle_thread c" using some(7) by (simp add: same_rest_def)
    show ?thesis
    proof (cases "core_candidates c")
      case Nil
      then show ?thesis
        using some ok' idle by (auto simp: cm_on_timer_tick_def core_candidates_def tick_room_def returning_def)
    next
      case (Cons u us)
      then have tu: "t = u" "cqueue c' = us" using some(3) by (simp_all add: core_candidates_def)
      have "u \<in> set (core_candidates c)" using Cons by simp
      then have "cm_per_cpu_idle_thread c \<noteq> Some u"
        using cmtss_okD(4,8) [OF ok] by (auto simp: core_candidates_def returning_def split: if_splits option.splits)
      then have "returning c' = [u]" using some(2,4) idle tu by (simp add: returning_def)
      moreover have "length us < length (cm_ready c')"
        using arg_cong [OF Cons, of length] room cmtss_okD(10) [OF ok] some(7)
        by (auto simp: core_candidates_def tick_room_def same_rest_def returning_def split: option.splits if_splits)
      ultimately show ?thesis
        using some(1) ok' idle tu Cons by (simp add: cm_on_timer_tick_def core_candidates_def tick_room_def del: length_cqueue)
    qed
  qed (use ok' room not_running in \<open>auto simp: cm_on_timer_tick_def core_candidates_def tick_room_def same_rest_def\<close>)
qed

text \<open>
  (C26) Timer ticks are round robin among user threads, whether a user thread or the idle thread runs
  at the start: provided the ring can take back the running user thread, no tick fails, after \<open>n\<close>
  ticks the candidates are the original ones rotated \<open>n\<close> times, and the next tick runs the first of
  them. So every candidate runs before any runs twice, and the idle thread is chosen only when there
  is no candidate at all.
\<close>

theorem core_round_robin:
  assumes "cmtss_ok c" and "returning c = [] \<or> length (cqueue c) < length (cm_ready c)"
  shows "core_candidates (core_ticks n c) = rotate n (core_candidates c) \<and>
    snd (cm_on_timer_tick (core_ticks n c)) =
      Inr (case rotate n (core_candidates c) of [] \<Rightarrow> cm_per_cpu_idle_thread c | t # _ \<Rightarrow> Some t)"
proof -
  have "cmtss_ok (core_ticks n c) \<and> tick_room (core_ticks n c) \<and>
    cm_per_cpu_idle_thread (core_ticks n c) = cm_per_cpu_idle_thread c \<and>
    core_candidates (core_ticks n c) = rotate n (core_candidates c)"
  proof (induction n)
    case 0
    then show ?case using assms by (simp add: core_ticks_def tick_room_def)
  next
    case (Suc n)
    then show ?case using tick_rotates [of "core_ticks n c"] by (auto simp: core_ticks_def)
  qed
  then show ?thesis using tick_rotates [of "core_ticks n c"] by (auto split: list.splits)
qed

theorem core_round_robin_witness:
  "core_candidates demo_core = [2, 3, 1] \<and> core_candidates (core_ticks 2 demo_core) = [1, 2, 3] \<and>
   snd (cm_on_timer_tick (core_ticks 2 demo_core)) = Inr (Some 1) \<and>
   core_candidates demo_idle_core = [1] \<and> cm_current demo_idle_core = Some 0 \<and>
   snd (cm_on_timer_tick (core_ticks 5 demo_idle_core)) = Inr (Some 1)"
proof -
  have ev: "length (cqueue demo_core) < length (cm_ready demo_core)" "core_candidates demo_core = [2, 3, 1]"
    "returning demo_idle_core = []" "core_candidates demo_idle_core = [1]" "cm_current demo_idle_core = Some 0"
    by code_simp+
  from core_round_robin [OF demo_core_ok, of 2] core_round_robin [OF demo_idle_core_ok, of 5] ev
  show ?thesis by (simp add: numeral_2_eq_2)
qed

section \<open>Three failures that leave a trace\<close>

text \<open>
  \<open>return_current_to_ready_queue\<close> marks the running thread ready before it tries to enqueue it. When
  the ring is full the call fails, and the next call forgets the thread: it is ready, but neither
  queued nor current.
\<close>

theorem schedule_full_loses_current:
  "let c = foldl core_exec (cmtss_new 3 3 1)
       [InitWithIdle demo_stack, SpawnUserspace ''a'' demo_program demo_stack demo_preflight, ScheduleNext,
        SpawnUserspace ''b'' demo_program demo_stack demo_preflight];
       c' = fst (schedule_next (fst (schedule_next c)))
   in cm_current c = Some 1 \<and> snd (schedule_next c) = Inl CoreReadyQueueFull \<and>
      cm_current c' = Some 2 \<and> cqueue c' = [] \<and> cstate c' 1 = Some ThreadReady"
  by code_simp

text \<open>A program that fails its preflight checks keeps the table entries it was given.\<close>

theorem failed_spawn_keeps_slots:
  "let c = fst (init_with_idle (cmtss_new 2 2 1) demo_stack);
       bad = demo_preflight\<lparr>pf_valid_user_cs := False\<rparr>;
       c' = fst (spawn_userspace c ''a'' demo_program demo_stack bad)
   in snd (spawn_userspace c ''a'' demo_program demo_stack bad) = Inl CoreInvalidStack \<and>
      snd (spawn_userspace c ''b'' demo_program demo_stack demo_preflight) = Inr 1 \<and>
      snd (spawn_userspace c' ''b'' demo_program demo_stack demo_preflight) = Inl CoreTaskTableFull"
  by code_simp

text \<open>
  \<open>init_with_idle\<close> inserts the idle task before it finds the thread table full, and does not take it
  back: every further attempt adds another task with the id 0.
\<close>

theorem retried_init_repeats_task_id:
  "let c = foldl core_exec (cmtss_new 3 1 1)
       [SpawnUserspace ''a'' demo_program demo_stack demo_preflight, InitWithIdle demo_stack, InitWithIdle demo_stack]
   in snd (init_with_idle c demo_stack) = Inl CoreTaskTableFull \<and> \<not> cm_initialized c \<and>
      map ct_id (slot_values (cm_tasks c)) = [1, 0, 0]"
  by code_simp

end
