(* ===== verification/Heap_Regions.thy ===== *)
theory Heap_Regions
  imports Slot_Table Memory_Types
begin

text \<open>
  The regions of the kernel heap: the part of \<open>MemoryManager\<close> of \<open>src/src/kernel/memory.rs\<close> that
  hands out and takes back offsets. Allocations and free regions are slot tables; a bump pointer
  separates the offsets that were handed out at least once from the untouched rest.

  \<open>usize\<close> quantities are natural numbers, with the checks of \<open>checked_add\<close> against \<open>2^64\<close> written
  out. The address of the static heap, which the linker decides, is a field of the state.
\<close>

unbundle bit_operations_syntax

section \<open>State\<close>

datatype BackingStore = BsStatic | BsVirtual nat nat nat nat | BsDisabled

record AllocationRecord =
  ar_owner :: ProcessId
  ar_offset :: nat
  ar_size :: nat
  ar_kind :: AllocationKind
  ar_protection :: MemoryProtection

record FreeRegion =
  fr_offset :: nat
  fr_size :: nat

definition region :: "nat \<Rightarrow> nat \<Rightarrow> FreeRegion" where
  "region offset len = \<lparr>fr_offset = offset, fr_size = len\<rparr>"

definition fr_end :: "FreeRegion \<Rightarrow> nat" where
  "fr_end self = fr_offset self + fr_size self"

record MemoryManager =
  mm_heap_address :: nat
  mm_heap_size :: nat
  mm_bump_offset :: nat
  mm_allocations :: "AllocationRecord slots"
  mm_free_regions :: "FreeRegion slots"
  mm_allocated_bytes :: nat
  mm_peak_bytes :: nat
  mm_backing :: BackingStore

definition mm_new :: "nat \<Rightarrow> nat \<Rightarrow> nat \<Rightarrow> MemoryManager" where
  "mm_new heap_address heap_size max_areas =
     \<lparr>mm_heap_address = heap_address, mm_heap_size = heap_size, mm_bump_offset = 0,
      mm_allocations = replicate max_areas None, mm_free_regions = replicate max_areas None,
      mm_allocated_bytes = 0, mm_peak_bytes = 0, mm_backing = BsStatic\<rparr>"

definition mm_capacity :: "MemoryManager \<Rightarrow> nat" where
  "mm_capacity self = (case mm_backing self of
     BsStatic \<Rightarrow> mm_heap_size self | BsVirtual base capacity committed frames \<Rightarrow> capacity | BsDisabled \<Rightarrow> 0)"

definition base_address :: "MemoryManager \<Rightarrow> nat" where
  "base_address self = (case mm_backing self of
     BsStatic \<Rightarrow> mm_heap_address self | BsVirtual base capacity committed frames \<Rightarrow> base | BsDisabled \<Rightarrow> 0)"

definition promote_to_virtual_heap :: "MemoryManager \<Rightarrow> nat \<Rightarrow> nat \<Rightarrow> nat \<Rightarrow> nat \<Rightarrow> MemoryManager" where
  "promote_to_virtual_heap self base capacity committed frames =
     (if mm_allocated_bytes self \<noteq> 0 \<or> mm_bump_offset self \<noteq> 0 \<or> capacity = 0 \<or> committed > capacity then self
      else self\<lparr>mm_backing := BsVirtual base capacity committed frames\<rparr>)"

definition disable_static_heap :: "MemoryManager \<Rightarrow> MemoryManager" where
  "disable_static_heap self = (case mm_backing self of BsStatic \<Rightarrow> self\<lparr>mm_backing := BsDisabled\<rparr> | _ \<Rightarrow> self)"

section \<open>Alignment\<close>

definition checked_add :: "nat \<Rightarrow> nat \<Rightarrow> nat option" where
  "checked_add a b = (if a + b < 2 ^ 64 then Some (a + b) else None)"

definition is_power_of_two :: "nat \<Rightarrow> bool" where
  "is_power_of_two n \<longleftrightarrow> (\<exists>k \<in> set [0..<64]. n = 2 ^ k)"

definition valid_alignment :: "nat \<Rightarrow> bool" where
  "valid_alignment align \<longleftrightarrow> align \<noteq> 0 \<and> is_power_of_two align"

definition align_up :: "nat \<Rightarrow> nat \<Rightarrow> nat option" where
  "align_up v align =
     (if \<not> valid_alignment align then None
      else let m = align - 1
           in map_option (\<lambda>aligned. unat (word_of_nat aligned AND NOT (word_of_nat m) :: u64)) (checked_add v m))"

definition aligned_heap_offset :: "MemoryManager \<Rightarrow> nat \<Rightarrow> nat \<Rightarrow> nat option" where
  "aligned_heap_offset self minimum_offset align =
     (if \<not> valid_alignment align then None
      else
        let base_remainder = base_address self mod align;
            offset_remainder = minimum_offset mod align;
            current_remainder =
              (if offset_remainder = 0 then base_remainder
               else if base_remainder \<ge> align - offset_remainder then base_remainder - (align - offset_remainder)
               else base_remainder + offset_remainder);
            padding = (align - current_remainder) mod align
        in checked_add minimum_offset padding)"

section \<open>Free regions\<close>

definition merge_region :: "FreeRegion slots \<times> FreeRegion \<Rightarrow> nat \<Rightarrow> FreeRegion slots \<times> FreeRegion" where
  "merge_region = (\<lambda>(slots, merged) idx.
     case slots ! idx of
       Some existing \<Rightarrow>
         if fr_end existing = fr_offset merged
         then (slots[idx := None], region (fr_offset existing) (fr_size existing + fr_size merged))
         else if fr_end merged = fr_offset existing
         then (slots[idx := None], region (fr_offset merged) (fr_size merged + fr_size existing))
         else (slots, merged)
     | None \<Rightarrow> (slots, merged))"

definition insert_free_region :: "MemoryManager \<Rightarrow> FreeRegion \<Rightarrow> MemoryManager" where
  "insert_free_region self r =
     (if fr_size r = 0 then self
      else
        let (slots, merged) = foldl merge_region (mm_free_regions self, r) [0..<length (mm_free_regions self)]
        in self\<lparr>mm_free_regions :=
             (case free_slot slots of Some idx \<Rightarrow> slots[idx := Some merged] | None \<Rightarrow> slots)\<rparr>)"

fun reserve_loop :: "MemoryManager \<Rightarrow> nat \<Rightarrow> nat \<Rightarrow> nat list \<Rightarrow> (MemoryManager, unit, nat) op_result" where
  "reserve_loop self len align [] = (self, Inl ())"
| "reserve_loop self len align (idx # idxs) =
     (case mm_free_regions self ! idx of
        None \<Rightarrow> reserve_loop self len align idxs
      | Some r \<Rightarrow>
          (case aligned_heap_offset self (fr_offset r) align of
             None \<Rightarrow> (self, Inl ())
           | Some aligned_start \<Rightarrow>
               (case checked_add aligned_start len of
                  None \<Rightarrow> (self, Inl ())
                | Some stop \<Rightarrow>
                    if stop \<le> fr_end r
                    then
                      let self = self\<lparr>mm_free_regions := (mm_free_regions self)[idx := None]\<rparr>;
                          self = (if aligned_start > fr_offset r
                                  then insert_free_region self (region (fr_offset r) (aligned_start - fr_offset r)) else self);
                          self = (if stop < fr_end r
                                  then insert_free_region self (region stop (fr_end r - stop)) else self)
                      in (self, Inr aligned_start)
                    else reserve_loop self len align idxs)))"

definition reserve_from_free_list :: "MemoryManager \<Rightarrow> nat \<Rightarrow> nat \<Rightarrow> (MemoryManager, unit, nat) op_result" where
  "reserve_from_free_list self len align = reserve_loop self len align [0..<length (mm_free_regions self)]"

definition reserve :: "MemoryManager \<Rightarrow> nat \<Rightarrow> nat \<Rightarrow> (MemoryManager, unit, nat) op_result" where
  "reserve self len align =
     (case reserve_from_free_list self len align of
        (self, Inr offset) \<Rightarrow> (self, Inr offset)
      | (self, Inl _) \<Rightarrow>
          (case aligned_heap_offset self (mm_bump_offset self) align of
             None \<Rightarrow> (self, Inl ())
           | Some aligned_offset \<Rightarrow>
               (case checked_add aligned_offset len of
                  None \<Rightarrow> (self, Inl ())
                | Some stop \<Rightarrow>
                    if stop > mm_capacity self then (self, Inl ())
                    else (self\<lparr>mm_bump_offset := stop\<rparr>, Inr aligned_offset))))"

section \<open>Allocation records\<close>

definition record_allocation :: "MemoryManager \<Rightarrow> AllocationRecord \<Rightarrow> (MemoryManager, unit, unit) op_result" where
  "record_allocation self r =
     (case free_slot (mm_allocations self) of
        Some idx \<Rightarrow> (self\<lparr>mm_allocations := (mm_allocations self)[idx := Some r]\<rparr>, ok_unit)
      | None \<Rightarrow> (self, Inl ()))"

definition find_allocation_index :: "MemoryManager \<Rightarrow> ProcessId \<Rightarrow> nat \<Rightarrow> nat option" where
  "find_allocation_index self owner offset =
     find_slot (\<lambda>r. ar_owner r = owner \<and> ar_offset r = offset) (mm_allocations self)"

definition remove_allocation ::
  "MemoryManager \<Rightarrow> ProcessId \<Rightarrow> nat \<Rightarrow> AllocationKind option \<Rightarrow> nat option \<Rightarrow>
     (MemoryManager, unit, AllocationRecord) op_result" where
  "remove_allocation self owner offset expected_kind minimum_length =
     (case find_slot (\<lambda>r. ar_owner r = owner \<and> ar_offset r = offset) (mm_allocations self) of
        None \<Rightarrow> (self, Inl ())
      | Some idx \<Rightarrow>
          (case mm_allocations self ! idx of
             None \<Rightarrow> (self, Inl ())
           | Some r \<Rightarrow>
               if (case expected_kind of Some kind \<Rightarrow> ar_kind r \<noteq> kind | None \<Rightarrow> False) then (self, Inl ())
               else if (case minimum_length of Some n \<Rightarrow> ar_size r < n | None \<Rightarrow> False) then (self, Inl ())
               else (self\<lparr>mm_allocations := (mm_allocations self)[idx := None]\<rparr>, Inr r)))"

definition update_stats_on_alloc :: "MemoryManager \<Rightarrow> nat \<Rightarrow> MemoryManager" where
  "update_stats_on_alloc self len =
     (let allocated = min (mm_allocated_bytes self + len) (2 ^ 64 - 1)
      in self\<lparr>mm_allocated_bytes := allocated,
           mm_peak_bytes := (if allocated > mm_peak_bytes self then allocated else mm_peak_bytes self)\<rparr>)"

definition update_stats_on_free :: "MemoryManager \<Rightarrow> nat \<Rightarrow> MemoryManager" where
  "update_stats_on_free self len = self\<lparr>mm_allocated_bytes := mm_allocated_bytes self - len\<rparr>"

definition offset_for_ptr :: "MemoryManager \<Rightarrow> nat \<Rightarrow> nat option" where
  "offset_for_ptr self addr =
     (let base = base_address self
      in if addr < base \<or> addr \<ge> min (base + mm_capacity self) (2 ^ 64 - 1) then None else Some (addr - base))"

definition ptr_for_offset :: "MemoryManager \<Rightarrow> nat \<Rightarrow> nat" where
  "ptr_for_offset self offset = base_address self + offset"

definition mm_release ::
  "MemoryManager \<Rightarrow> ProcessId \<Rightarrow> nat \<Rightarrow> AllocationKind option \<Rightarrow> nat option \<Rightarrow> MemoryManager \<times> bool" where
  "mm_release self owner ptr expected_kind minimum_length =
     (case offset_for_ptr self ptr of
        None \<Rightarrow> (self, False)
      | Some offset \<Rightarrow>
          (case remove_allocation self owner offset expected_kind minimum_length of
             (self, Inr r) \<Rightarrow>
               (update_stats_on_free (insert_free_region self (region (ar_offset r) (ar_size r))) (ar_size r), True)
           | (self, Inl _) \<Rightarrow> (self, False)))"

definition free_for :: "MemoryManager \<Rightarrow> ProcessId \<Rightarrow> nat \<Rightarrow> MemoryManager \<times> bool" where
  "free_for self owner ptr = mm_release self owner ptr (Some AkHeap) None"

definition munmap_ptr_for :: "MemoryManager \<Rightarrow> ProcessId \<Rightarrow> nat \<Rightarrow> nat \<Rightarrow> MemoryManager \<times> bool" where
  "munmap_ptr_for self owner ptr len = mm_release self owner ptr (Some AkMapping) (Some len)"

definition release_slot :: "ProcessId \<Rightarrow> MemoryManager \<Rightarrow> nat \<Rightarrow> MemoryManager" where
  "release_slot owner self idx =
     (case mm_allocations self ! idx of
        Some r \<Rightarrow>
          if ar_owner r = owner
          then update_stats_on_free
                 (insert_free_region (self\<lparr>mm_allocations := (mm_allocations self)[idx := None]\<rparr>)
                    (region (ar_offset r) (ar_size r))) (ar_size r)
          else self
      | None \<Rightarrow> self)"

definition mm_release_process :: "MemoryManager \<Rightarrow> ProcessId \<Rightarrow> MemoryManager" where
  "mm_release_process self owner = foldl (release_slot owner) self [0..<length (mm_allocations self)]"

record AllocationStats =
  as_allocated_bytes :: nat
  as_peak_allocated_bytes :: nat

definition statistics :: "MemoryManager \<Rightarrow> AllocationStats" where
  "statistics self = \<lparr>as_allocated_bytes = mm_allocated_bytes self, as_peak_allocated_bytes = mm_peak_bytes self\<rparr>"

record HeapStats =
  hs_base :: nat
  hs_end :: nat
  hs_committed_bytes :: nat
  hs_reserved_bytes :: nat

definition heap_statistics :: "MemoryManager \<Rightarrow> HeapStats" where
  "heap_statistics self =
     (let base = base_address self;
          reserved = mm_capacity self
      in \<lparr>hs_base = base, hs_end = min (base + reserved) (2 ^ 64 - 1),
          hs_committed_bytes = (case mm_backing self of
            BsStatic \<Rightarrow> reserved | BsVirtual _ _ committed _ \<Rightarrow> committed | BsDisabled \<Rightarrow> 0),
          hs_reserved_bytes = reserved\<rparr>)"

end
