(* ===== verification/Paging.thy ===== *)
theory Paging
  imports Frame_Allocator Memory_Types
begin

text \<open>
  The x86-64 page tables of \<open>src/src/arch/x86_64/paging.rs\<close>. The tables live in memory that the
  kernel reads and writes through pointers, so the model has an explicit store: \<open>pg_mem t i\<close> is
  entry \<open>i\<close> of the table at virtual address \<open>t\<close>. A null pointer is address 0.

  The record holds the statics of the module, the register CR3, and the physical frame allocator,
  which the module reaches through \<open>allocate_physical_frame\<close> and \<open>deallocate_physical_frame\<close> of
  \<open>src/src/kernel/memory.rs\<close>. The translation cache of the processor is not modelled, so
  \<open>invalidate_page\<close> does nothing. Functions that return \<open>Option\<close> have the error \<open>()\<close>.
\<close>

unbundle bit_operations_syntax

section \<open>Constants and flags\<close>

definition PRESENT :: u64 where "PRESENT = 0x1"
definition WRITABLE :: u64 where "WRITABLE = 0x2"
definition USER_ACCESSIBLE :: u64 where "USER_ACCESSIBLE = 0x4"
definition WRITE_THROUGH :: u64 where "WRITE_THROUGH = 0x8"
definition CACHE_DISABLE :: u64 where "CACHE_DISABLE = 0x10"
definition GLOBAL :: u64 where "GLOBAL = 0x100"
definition NO_EXECUTE :: u64 where "NO_EXECUTE = 0x8000000000000000"
definition ADDRESS_MASK :: u64 where "ADDRESS_MASK = 0x000ffffffffff000"
definition SUPPORTED_PAGE_FLAGS :: u64 where
  "SUPPORTED_PAGE_FLAGS =
     PRESENT OR WRITABLE OR USER_ACCESSIBLE OR NO_EXECUTE OR GLOBAL OR WRITE_THROUGH OR CACHE_DISABLE"
definition DEFAULT_IDENTITY_LIMIT :: u64 where "DEFAULT_IDENTITY_LIMIT = 0x1000000"
definition ENTRY_COUNT :: nat where "ENTRY_COUNT = 512"
definition MAX_TABLES :: nat where "MAX_TABLES = 128"

datatype PagingError =
    PgNotInitialized | MissingHhdm | InvalidAlignment | AddressOverflow | OutOfPageTables | NotMapped
  | UnsupportedFlags

type_synonym PageFlags = u64
type_synonym MappingFlags = u64

definition flags_from_bits :: "u64 \<Rightarrow> PageFlags option" where
  "flags_from_bits bits = (if bits AND NOT SUPPORTED_PAGE_FLAGS = 0 then Some bits else None)"

definition kernel_table_flags :: PageFlags where "kernel_table_flags = PRESENT OR WRITABLE"

definition ensure_present :: "PageFlags \<Rightarrow> PageFlags" where
  "ensure_present self = self OR PRESENT"

definition MF_READ_ONLY :: MappingFlags where "MF_READ_ONLY = PRESENT"
definition MF_WRITABLE :: MappingFlags where "MF_WRITABLE = PRESENT OR WRITABLE"
definition MF_WRITABLE_NO_EXECUTE :: MappingFlags where
  "MF_WRITABLE_NO_EXECUTE = PRESENT OR WRITABLE OR NO_EXECUTE"

definition flags_from_protection :: "MemoryProtection \<Rightarrow> MappingFlags" where
  "flags_from_protection protection =
     (let flags = PRESENT;
          flags = (if prot_write protection then flags OR WRITABLE else flags)
      in if \<not> prot_execute protection then flags OR NO_EXECUTE else flags)"

definition user_flags_from_protection :: "MemoryProtection \<Rightarrow> MappingFlags" where
  "user_flags_from_protection protection =
     (let flags = PRESENT OR USER_ACCESSIBLE;
          flags = (if prot_write protection then flags OR WRITABLE else flags)
      in if \<not> prot_execute protection then flags OR NO_EXECUTE else flags)"

section \<open>State\<close>

type_synonym table_mem = "u64 \<Rightarrow> nat \<Rightarrow> u64"

record Paging =
  pg_mem :: table_mem
  pg_pool_base :: u64
  pg_pool_next :: nat
  pg_translator :: AddressTranslator
  pg_active_pml4 :: u64
  pg_kernel_pml4 :: u64
  pg_current_root :: u64
  pg_cr3 :: u64
  pg_installed :: bool
  pg_frame_ready :: bool
  pg_frames :: PhysicalFrameAllocator

definition read_entry :: "Paging \<Rightarrow> u64 \<Rightarrow> nat \<Rightarrow> u64" where
  "read_entry s table i = pg_mem s table i"

definition write_entry :: "Paging \<Rightarrow> u64 \<Rightarrow> nat \<Rightarrow> u64 \<Rightarrow> Paging" where
  "write_entry s table i v = s\<lparr>pg_mem := (pg_mem s)(table := (pg_mem s table)(i := v))\<rparr>"

definition fill_zero :: "Paging \<Rightarrow> u64 \<Rightarrow> Paging" where
  "fill_zero s table = s\<lparr>pg_mem := (pg_mem s)(table := (\<lambda>_. 0))\<rparr>"

definition table_for_physical :: "Paging \<Rightarrow> u64 \<Rightarrow> u64" where
  "table_for_physical s physical = virtual_for_physical (pg_translator s) physical"

definition load_cr3 :: "Paging \<Rightarrow> u64 \<Rightarrow> Paging" where
  "load_cr3 s pml4_physical = s\<lparr>pg_cr3 := pml4_physical\<rparr>"

definition pg_index :: "u64 \<Rightarrow> nat \<Rightarrow> nat" where
  "pg_index address shift = unat (drop_bit shift address AND 0x1ff)"

definition align_down :: "u64 \<Rightarrow> u64" where
  "align_down address = address AND NOT (PAGE_SIZE - 1)"

definition checked_add64 :: "u64 \<Rightarrow> u64 \<Rightarrow> u64 option" where
  "checked_add64 a b = (if uint a + uint b < 2 ^ 64 then Some (a + b) else None)"

definition checked_mul64 :: "u64 \<Rightarrow> u64 \<Rightarrow> u64 option" where
  "checked_mul64 a b = (if uint a * uint b < 2 ^ 64 then Some (a * b) else None)"

definition align_up_checked :: "u64 \<Rightarrow> PagingError + u64" where
  "align_up_checked address =
     ok_or AddressOverflow (map_option (\<lambda>v. v AND NOT (PAGE_SIZE - 1)) (checked_add64 address (PAGE_SIZE - 1)))"

definition validate_page_alignment :: "u64 \<Rightarrow> u64 \<Rightarrow> PagingError + unit" where
  "validate_page_alignment va pa =
     (if va AND (PAGE_SIZE - 1) \<noteq> 0 \<or> pa AND (PAGE_SIZE - 1) \<noteq> 0 then Inl InvalidAlignment else ok_unit)"

text \<open>The physical allocator, as \<open>src/src/kernel/memory.rs\<close> offers it.\<close>

definition allocate_physical_frame :: "Paging \<Rightarrow> (Paging, unit, u64) op_result" where
  "allocate_physical_frame s =
     (case allocate_frame (pg_frames s) of
        (fa, Inl _) \<Rightarrow> (s\<lparr>pg_frames := fa\<rparr>, Inl ())
      | (fa, Inr f) \<Rightarrow> (s\<lparr>pg_frames := fa\<rparr>, Inr (pf_start f)))"

definition deallocate_physical_frame :: "Paging \<Rightarrow> u64 \<Rightarrow> Paging" where
  "deallocate_physical_frame s frame =
     (case from_start_address frame of
        Inl _ \<Rightarrow> s
      | Inr f \<Rightarrow> s\<lparr>pg_frames := fst (free_frame (pg_frames s) f)\<rparr>)"

section \<open>Building tables\<close>

definition pool_table :: "Paging \<Rightarrow> nat \<Rightarrow> u64" where
  "pool_table s i = pg_pool_base s + word_of_nat i * PAGE_SIZE"

definition pool_reset :: "Paging \<Rightarrow> Paging" where
  "pool_reset s = (foldl (\<lambda>s i. fill_zero s (pool_table s i)) s [0..<MAX_TABLES])\<lparr>pg_pool_next := 1\<rparr>"

definition pool_allocate :: "Paging \<Rightarrow> (Paging, unit, u64) op_result" where
  "pool_allocate s =
     (if pg_pool_next s \<ge> MAX_TABLES then (s, Inl ())
      else let table = pool_table s (pg_pool_next s)
           in (fill_zero (s\<lparr>pg_pool_next := pg_pool_next s + 1\<rparr>) table, Inr table))"

definition allocate_page_table :: "Paging \<Rightarrow> AddressTranslator \<Rightarrow> (Paging, PagingError, u64 \<times> u64) op_result" where
  "allocate_page_table s translator =
     (if pg_frame_ready s
      then (case allocate_physical_frame s of
              (s, Inl _) \<Rightarrow> (s, Inl OutOfPageTables)
            | (s, Inr physical) \<Rightarrow> (s, Inr (virtual_for_physical translator physical, physical)))
      else (case pool_allocate s of
              (s, Inl _) \<Rightarrow> (s, Inl OutOfPageTables)
            | (s, Inr table) \<Rightarrow> (s, Inr (table, physical_for_virtual translator table))))"

definition next_table :: "Paging \<Rightarrow> AddressTranslator \<Rightarrow> u64 \<Rightarrow> nat \<Rightarrow> (Paging, PagingError, u64) op_result" where
  "next_table s translator parent i =
     and_then
       (if read_entry s parent i AND PRESENT = 0
        then and_then (allocate_page_table s translator) (\<lambda>s (table, physical).
               (write_entry (fill_zero s table) parent i ((physical AND ADDRESS_MASK) OR kernel_table_flags), ok_unit))
        else (s, ok_unit))
       (\<lambda>s _. (s, Inr (virtual_for_physical translator (read_entry s parent i AND ADDRESS_MASK))))"

definition map_page_inner ::
  "Paging \<Rightarrow> u64 \<Rightarrow> AddressTranslator \<Rightarrow> u64 \<Rightarrow> u64 \<Rightarrow> MappingFlags \<Rightarrow> (Paging, PagingError, unit) op_result" where
  "map_page_inner s pml4 translator physical va flags =
     and_then (next_table s translator pml4 (pg_index va 39)) (\<lambda>s pdpt.
     and_then (next_table s translator pdpt (pg_index va 30)) (\<lambda>s pd.
     and_then (next_table s translator pd (pg_index va 21)) (\<lambda>s pt.
       (write_entry s pt (pg_index va 12) ((physical AND ADDRESS_MASK) OR flags), ok_unit))))"

lemma and_then_cong [fundef_cong]:
  "r = r' \<Longrightarrow> (\<And>s x. r' = (s, Inr x) \<Longrightarrow> k s x = k' s x) \<Longrightarrow> and_then r k = and_then r' k'"
  by (cases r'; cases "snd r'") (auto simp: and_then_def)

function map_range_loop ::
  "u64 \<Rightarrow> AddressTranslator \<Rightarrow> u64 \<Rightarrow> MappingFlags \<Rightarrow> Paging \<Rightarrow> u64 \<Rightarrow> u64 \<Rightarrow> (Paging, PagingError, unit) op_result" where
  "map_range_loop pml4 translator stop flags s physical va =
     (if va < stop
      then and_then (map_page_inner s pml4 translator physical va flags) (\<lambda>s _.
             case checked_add64 physical PAGE_SIZE of
               None \<Rightarrow> (s, Inl AddressOverflow)
             | Some physical \<Rightarrow>
                 (case checked_add64 va PAGE_SIZE of
                    None \<Rightarrow> (s, Inl AddressOverflow)
                  | Some va \<Rightarrow> map_range_loop pml4 translator stop flags s physical va))
      else (s, ok_unit))"
  by pat_completeness auto

lemma checked_add64_Some: "checked_add64 a b = Some c \<longleftrightarrow> unat c = unat a + unat b"
proof -
  have "unat a + unat b < 2 ^ LENGTH(64) \<longleftrightarrow> int (unat a + unat b) < int (2 ^ LENGTH(64))"
    by (simp only: of_nat_less_iff)
  then have eq: "uint a + uint b < 2 ^ 64 \<longleftrightarrow> unat a + unat b < 2 ^ LENGTH(64)" by simp
  have lt: "unat c < 2 ^ LENGTH(64)" by (rule unsigned_less)
  have add: "unat (a + b) = unat a + unat b" if "unat a + unat b < 2 ^ LENGTH(64)"
    using that by (simp add: unat_word_ariths)
  show ?thesis
  proof (cases "unat a + unat b < 2 ^ LENGTH(64)")
    case True
    then show ?thesis using add [OF True] unat_inj [of c "a + b"] unfolding checked_add64_def eq by auto
  next
    case False
    then show ?thesis using lt unfolding checked_add64_def eq by auto
  qed
qed

termination map_range_loop
  by (relation "measure (\<lambda>(_, _, stop, _, _, _, va). unat stop - unat va)")
    (auto simp: checked_add64_Some word_less_nat_alt PAGE_SIZE_def)

definition map_range_inner ::
  "Paging \<Rightarrow> u64 \<Rightarrow> AddressTranslator \<Rightarrow> u64 \<Rightarrow> u64 \<Rightarrow> u64 \<Rightarrow> MappingFlags \<Rightarrow> (Paging, PagingError, unit) op_result" where
  "map_range_inner s pml4 translator physical_start virtual_start len flags =
     (case checked_add64 virtual_start len of
        None \<Rightarrow> (s, Inl AddressOverflow)
      | Some limit \<Rightarrow>
          (case align_up_checked limit of
             Inl e \<Rightarrow> (s, Inl e)
           | Inr stop \<Rightarrow>
               map_range_loop pml4 translator stop flags s (align_down physical_start) (align_down virtual_start)))"

section \<open>Boot\<close>

fun is_early_identity_region :: "MemoryRegionKind \<Rightarrow> bool" where
  "is_early_identity_region BootUsable = True"
| "is_early_identity_region BootBootloaderReclaimable = True"
| "is_early_identity_region BootKernelAndModules = True"
| "is_early_identity_region BootFramebuffer = True"
| "is_early_identity_region BootAcpiReclaimable = True"
| "is_early_identity_region _ = False"

fun map_identity_entries ::
  "u64 \<Rightarrow> AddressTranslator \<Rightarrow> MemoryMapEntry option list \<Rightarrow> Paging \<Rightarrow> bool \<Rightarrow> (Paging, PagingError, bool) op_result" where
  "map_identity_entries pml4 translator [] s mapped_any = (s, Inr mapped_any)"
| "map_identity_entries pml4 translator (None # es) s mapped_any = map_identity_entries pml4 translator es s mapped_any"
| "map_identity_entries pml4 translator (Some e # es) s mapped_any =
     (if \<not> is_early_identity_region (mme_kind e) then map_identity_entries pml4 translator es s mapped_any
      else
        let start = align_down (mme_base e)
        in case checked_add64 (mme_base e) (mme_length e) of
             None \<Rightarrow> (s, Inl AddressOverflow)
           | Some limit \<Rightarrow>
               (case align_up_checked limit of
                  Inl err \<Rightarrow> (s, Inl err)
                | Inr stop \<Rightarrow>
                    let capped = min stop DEFAULT_IDENTITY_LIMIT
                    in if start < capped
                       then and_then (map_range_inner s pml4 translator start start (saturating_sub capped start)
                                        MF_WRITABLE_NO_EXECUTE)
                              (\<lambda>s _. map_identity_entries pml4 translator es s True)
                       else map_identity_entries pml4 translator es s mapped_any))"

definition map_early_identity_ranges ::
  "Paging \<Rightarrow> u64 \<Rightarrow> AddressTranslator \<Rightarrow> BootInfo \<Rightarrow> (Paging, PagingError, unit) op_result" where
  "map_early_identity_ranges s pml4 translator boot =
     and_then (case bi_memory_map boot of
                 None \<Rightarrow> (s, Inr False)
               | Some entries \<Rightarrow> map_identity_entries pml4 translator entries s False)
       (\<lambda>s mapped_any.
          if \<not> mapped_any
          then map_range_inner s pml4 translator 0 0 DEFAULT_IDENTITY_LIMIT MF_WRITABLE_NO_EXECUTE
          else (s, ok_unit))"

text \<open>The linker sections of the kernel image that are mapped one by one.\<close>

record KernelSections =
  sec_text :: VirtualRange
  sec_rodata :: VirtualRange
  sec_data :: VirtualRange
  sec_bss :: VirtualRange

definition map_virtual_section ::
  "Paging \<Rightarrow> u64 \<Rightarrow> AddressTranslator \<Rightarrow> u64 \<Rightarrow> u64 \<Rightarrow> MappingFlags \<Rightarrow> (Paging, PagingError, unit) op_result" where
  "map_virtual_section s pml4 translator virtual_start len flags =
     (if len = 0 then (s, ok_unit)
      else map_range_inner s pml4 translator (physical_for_virtual translator virtual_start) virtual_start len flags)"

definition map_kernel_image ::
  "Paging \<Rightarrow> u64 \<Rightarrow> AddressTranslator \<Rightarrow> BootInfo \<Rightarrow> KernelSections \<Rightarrow> (Paging, PagingError, unit) op_result" where
  "map_kernel_image s pml4 translator boot sections =
     and_then (case bi_kernel_load_range boot of
                 None \<Rightarrow> (s, ok_unit)
               | Some load \<Rightarrow> map_range_inner s pml4 translator (klr_physical_start load) (klr_virtual_start load)
                                (klr_length load) MF_WRITABLE) (\<lambda>s _.
     and_then (map_virtual_section s pml4 translator (vr_start (sec_text sections)) (vr_length (sec_text sections))
                 MF_READ_ONLY) (\<lambda>s _.
     and_then (map_virtual_section s pml4 translator (vr_start (sec_rodata sections)) (vr_length (sec_rodata sections))
                 (MF_READ_ONLY OR NO_EXECUTE)) (\<lambda>s _.
     and_then (map_virtual_section s pml4 translator (vr_start (sec_data sections)) (vr_length (sec_data sections))
                 MF_WRITABLE_NO_EXECUTE) (\<lambda>s _.
       map_virtual_section s pml4 translator (vr_start (sec_bss sections)) (vr_length (sec_bss sections))
         MF_WRITABLE_NO_EXECUTE))))"

definition map_framebuffer ::
  "Paging \<Rightarrow> u64 \<Rightarrow> AddressTranslator \<Rightarrow> BootInfo \<Rightarrow> (Paging, PagingError, unit) op_result" where
  "map_framebuffer s pml4 translator boot =
     (case bi_framebuffer boot of
        None \<Rightarrow> (s, ok_unit)
      | Some fb \<Rightarrow>
          (case checked_mul64 (fb_pitch fb) (fb_height fb) of
             None \<Rightarrow> (s, Inl AddressOverflow)
           | Some len \<Rightarrow>
               map_range_inner s pml4 translator (physical_for_virtual translator (fb_address fb)) (fb_address fb) len
                 MF_WRITABLE_NO_EXECUTE))"

definition paging_initialize :: "Paging \<Rightarrow> BootInfo \<Rightarrow> KernelSections \<Rightarrow> Paging" where
  "paging_initialize s boot sections =
     (let translator = translator_new boot;
          s = s\<lparr>pg_translator := translator\<rparr>
      in if bi_hhdm_offset boot \<noteq> None
         then let root = pg_cr3 s
              in s\<lparr>pg_kernel_pml4 := root, pg_current_root := root,
                   pg_active_pml4 := virtual_for_physical translator root, pg_installed := True\<rparr>
         else
           let s = pool_reset s;
               pml4 = pool_table s 0;
               s = fst (map_early_identity_ranges s pml4 translator boot);
               s = fst (map_kernel_image s pml4 translator boot sections);
               s = fst (map_framebuffer s pml4 translator boot);
               root = physical_for_virtual translator pml4
           in (load_cr3 (s\<lparr>pg_active_pml4 := pml4, pg_kernel_pml4 := root, pg_current_root := root\<rparr>) root)
                \<lparr>pg_installed := True\<rparr>)"

definition enable_frame_backed_mapping :: "Paging \<Rightarrow> BootInfo \<Rightarrow> (Paging, PagingError, unit) op_result" where
  "enable_frame_backed_mapping s boot =
     (if bi_hhdm_offset boot = None then (s, Inl MissingHhdm)
      else
        let s = s\<lparr>pg_translator := translator_new boot\<rparr>;
            s = (if pg_kernel_pml4 s = 0 then s\<lparr>pg_kernel_pml4 := pg_cr3 s, pg_current_root := pg_cr3 s\<rparr> else s)
        in (s\<lparr>pg_active_pml4 := virtual_for_physical (pg_translator s) (pg_kernel_pml4 s), pg_frame_ready := True\<rparr>,
            ok_unit))"

section \<open>Kernel mappings\<close>

definition leaf_table :: "Paging \<Rightarrow> u64 \<Rightarrow> u64 \<Rightarrow> u64 option" where
  "leaf_table s pml4 va =
     (let pml4e = read_entry s pml4 (pg_index va 39)
      in if pml4e AND PRESENT = 0 then None
         else
           let pdpte = read_entry s (table_for_physical s (pml4e AND ADDRESS_MASK)) (pg_index va 30)
           in if pdpte AND PRESENT = 0 then None
              else
                let pde = read_entry s (table_for_physical s (pdpte AND ADDRESS_MASK)) (pg_index va 21)
                in if pde AND PRESENT = 0 then None
                   else Some (table_for_physical s (pde AND ADDRESS_MASK)))"

definition map_page :: "Paging \<Rightarrow> u64 \<Rightarrow> u64 \<Rightarrow> PageFlags \<Rightarrow> (Paging, PagingError, unit) op_result" where
  "map_page s virt phys flags =
     (case validate_page_alignment virt phys of
        Inl e \<Rightarrow> (s, Inl e)
      | Inr _ \<Rightarrow>
          if flags AND NOT SUPPORTED_PAGE_FLAGS \<noteq> 0 then (s, Inl UnsupportedFlags)
          else if pg_active_pml4 s = 0 then (s, Inl PgNotInitialized)
          else map_page_inner s (pg_active_pml4 s) (pg_translator s) phys virt (ensure_present flags))"

definition map_kernel_page :: "Paging \<Rightarrow> u64 \<Rightarrow> u64 \<Rightarrow> MemoryProtection \<Rightarrow> (Paging, unit, unit) op_result" where
  "map_kernel_page s physical va protection =
     (case map_page s va physical (flags_from_protection protection) of
        (s, Inl _) \<Rightarrow> (s, Inl ()) | (s, Inr _) \<Rightarrow> (s, ok_unit))"

definition unmap_page :: "Paging \<Rightarrow> u64 \<Rightarrow> (Paging, PagingError, u64) op_result" where
  "unmap_page s virt =
     (case validate_page_alignment virt 0 of
        Inl e \<Rightarrow> (s, Inl e)
      | Inr _ \<Rightarrow>
          if pg_active_pml4 s = 0 then (s, Inl PgNotInitialized)
          else (case leaf_table s (pg_active_pml4 s) virt of
                  None \<Rightarrow> (s, Inl NotMapped)
                | Some pt \<Rightarrow>
                    let slot = pg_index virt 12;
                        entry = read_entry s pt slot
                    in if entry AND PRESENT = 0 then (s, Inl NotMapped)
                       else (write_entry s pt slot 0, Inr (entry AND ADDRESS_MASK))))"

record PageTableWalk =
  ptw_cr3 :: u64
  ptw_pml4e :: u64
  ptw_pdpte :: u64
  ptw_pde :: u64
  ptw_pte :: u64
  ptw_physical :: "u64 option"

definition walk_kernel_page_tables :: "Paging \<Rightarrow> u64 \<Rightarrow> PageTableWalk option" where
  "walk_kernel_page_tables s va =
     (if pg_active_pml4 s = 0 then None
      else
        let pml4e = read_entry s (pg_active_pml4 s) (pg_index va 39);
            w = \<lparr>ptw_cr3 = pg_current_root s, ptw_pml4e = pml4e, ptw_pdpte = 0, ptw_pde = 0, ptw_pte = 0, ptw_physical = None\<rparr>
        in if pml4e AND PRESENT = 0 then Some w
           else
             let pdpte = read_entry s (table_for_physical s (pml4e AND ADDRESS_MASK)) (pg_index va 30);
                 w = w\<lparr>ptw_pdpte := pdpte\<rparr>
             in if pdpte AND PRESENT = 0 then Some w
                else
                  let pde = read_entry s (table_for_physical s (pdpte AND ADDRESS_MASK)) (pg_index va 21);
                      w = w\<lparr>ptw_pde := pde\<rparr>
                  in if pde AND PRESENT = 0 then Some w
                     else
                       let pte = read_entry s (table_for_physical s (pde AND ADDRESS_MASK)) (pg_index va 12)
                       in Some (w\<lparr>ptw_pte := pte,
                                  ptw_physical := (if pte AND PRESENT \<noteq> 0
                                                   then Some ((pte AND ADDRESS_MASK) OR (va AND (PAGE_SIZE - 1)))
                                                   else None)\<rparr>))"

definition translate_virt :: "Paging \<Rightarrow> u64 \<Rightarrow> u64 option" where
  "translate_virt s virt =
     (if pg_active_pml4 s = 0 then None
      else case leaf_table s (pg_active_pml4 s) virt of
             None \<Rightarrow> None
           | Some pt \<Rightarrow>
               let pte = read_entry s pt (pg_index virt 12)
               in if pte AND PRESENT = 0 then None
                  else Some ((pte AND ADDRESS_MASK) OR (virt AND (PAGE_SIZE - 1))))"

function map_range_offsets ::
  "u64 \<Rightarrow> u64 \<Rightarrow> u64 \<Rightarrow> PageFlags \<Rightarrow> Paging \<Rightarrow> u64 \<Rightarrow> (Paging, PagingError, unit) op_result" where
  "map_range_offsets virt_start phys_start len flags s offset =
     (if offset < len
      then and_then (map_page s (virt_start + offset) (phys_start + offset) flags) (\<lambda>s _.
             case checked_add64 offset PAGE_SIZE of
               None \<Rightarrow> (s, Inl AddressOverflow)
             | Some offset \<Rightarrow> map_range_offsets virt_start phys_start len flags s offset)
      else (s, ok_unit))"
  by pat_completeness auto

termination map_range_offsets
  by (relation "measure (\<lambda>(_, _, len, _, _, offset). unat len - unat offset)")
    (auto simp: checked_add64_Some word_less_nat_alt PAGE_SIZE_def)

definition map_range :: "Paging \<Rightarrow> u64 \<Rightarrow> u64 \<Rightarrow> u64 \<Rightarrow> PageFlags \<Rightarrow> (Paging, PagingError, unit) op_result" where
  "map_range s virt_start phys_start len flags =
     (case validate_page_alignment virt_start phys_start of
        Inl e \<Rightarrow> (s, Inl e)
      | Inr _ \<Rightarrow>
          if len = 0 \<or> len AND (PAGE_SIZE - 1) \<noteq> 0 then (s, Inl InvalidAlignment)
          else if checked_add64 virt_start len = None then (s, Inl AddressOverflow)
          else if checked_add64 phys_start len = None then (s, Inl AddressOverflow)
          else map_range_offsets virt_start phys_start len flags s 0)"

definition hhdm_virt_for_phys :: "Paging \<Rightarrow> u64 \<Rightarrow> u64 option" where
  "hhdm_virt_for_phys s physical =
     (case at_hhdm_offset (pg_translator s) of None \<Rightarrow> None | Some offset \<Rightarrow> checked_add64 physical offset)"

definition hhdm_phys_for_virt :: "Paging \<Rightarrow> u64 \<Rightarrow> u64 option" where
  "hhdm_phys_for_virt s va =
     (case at_hhdm_offset (pg_translator s) of
        None \<Rightarrow> None
      | Some offset \<Rightarrow> if va \<ge> offset then Some (va - offset) else None)"

section \<open>User address spaces\<close>

definition switch_address_space :: "Paging \<Rightarrow> u64 \<Rightarrow> (Paging, unit, unit) op_result" where
  "switch_address_space s root =
     (let target = (if root = 0 then pg_kernel_pml4 s else root)
      in if target = 0 then (s, Inl ())
         else if pg_current_root s \<noteq> target then ((load_cr3 s target)\<lparr>pg_current_root := target\<rparr>, ok_unit)
         else (s, ok_unit))"

definition create_user_address_space :: "Paging \<Rightarrow> (Paging, unit, u64) op_result" where
  "create_user_address_space s =
     and_then (allocate_physical_frame s) (\<lambda>s frame.
       let pml4 = table_for_physical s frame;
           s = fill_zero s pml4;
           s = (if pg_active_pml4 s \<noteq> 0
                then foldl (\<lambda>s idx. write_entry s pml4 idx (read_entry s (pg_active_pml4 s) idx)) s [256..<ENTRY_COUNT]
                else s)
       in (s, Inr frame))"

text \<open>The three nested loops of \<open>destroy_user_address_space\<close>, from the inside out.\<close>

definition destroy_pd :: "Paging \<Rightarrow> u64 \<Rightarrow> Paging" where
  "destroy_pd s pd =
     foldl (\<lambda>s idx. let pde = read_entry s pd idx
                    in if pde AND PRESENT \<noteq> 0 then deallocate_physical_frame s (pde AND ADDRESS_MASK) else s)
       s [0..<ENTRY_COUNT]"

definition destroy_pdpt :: "Paging \<Rightarrow> u64 \<Rightarrow> Paging" where
  "destroy_pdpt s pdpt =
     foldl (\<lambda>s idx. let pdpte = read_entry s pdpt idx
                    in if pdpte AND PRESENT \<noteq> 0
                       then deallocate_physical_frame (destroy_pd s (table_for_physical s (pdpte AND ADDRESS_MASK)))
                              (pdpte AND ADDRESS_MASK)
                       else s)
       s [0..<ENTRY_COUNT]"

definition destroy_user_address_space :: "Paging \<Rightarrow> u64 \<Rightarrow> Paging" where
  "destroy_user_address_space s root =
     (if root = 0 \<or> root = pg_kernel_pml4 s then s
      else
        let pml4 = table_for_physical s root;
            s = foldl (\<lambda>s idx. let pml4e = read_entry s pml4 idx
                               in if pml4e AND PRESENT \<noteq> 0
                                  then deallocate_physical_frame
                                         (destroy_pdpt s (table_for_physical s (pml4e AND ADDRESS_MASK)))
                                         (pml4e AND ADDRESS_MASK)
                                  else s)
                  s [0..<256]
        in deallocate_physical_frame s root)"

definition user_next_table :: "Paging \<Rightarrow> u64 \<Rightarrow> nat \<Rightarrow> (Paging, unit, u64) op_result" where
  "user_next_table s parent slot =
     and_then
       (if read_entry s parent slot AND PRESENT = 0
        then and_then (allocate_physical_frame s) (\<lambda>s frame.
               let table = table_for_physical s frame
               in (write_entry (fill_zero s table) parent slot
                     ((frame AND ADDRESS_MASK) OR PRESENT OR WRITABLE OR USER_ACCESSIBLE), ok_unit))
        else (s, ok_unit))
       (\<lambda>s _. (s, Inr (table_for_physical s (read_entry s parent slot AND ADDRESS_MASK))))"

definition map_user_page :: "Paging \<Rightarrow> u64 \<Rightarrow> u64 \<Rightarrow> u64 \<Rightarrow> MemoryProtection \<Rightarrow> (Paging, unit, unit) op_result" where
  "map_user_page s root va physical protection =
     (if root = 0 \<or> va \<ge> 0x0000800000000000 \<or> va AND (PAGE_SIZE - 1) \<noteq> 0 then (s, Inl ())
      else
        let pml4 = table_for_physical s root
        in and_then (user_next_table s pml4 (pg_index va 39)) (\<lambda>s pdpt.
           and_then (user_next_table s pdpt (pg_index va 30)) (\<lambda>s pd.
           and_then (user_next_table s pd (pg_index va 21)) (\<lambda>s pt.
             (write_entry s pt (pg_index va 12)
                ((physical AND ADDRESS_MASK) OR user_flags_from_protection protection), ok_unit)))))"

definition user_leaf_table :: "Paging \<Rightarrow> u64 \<Rightarrow> u64 \<Rightarrow> u64 option" where
  "user_leaf_table s root va =
     (if root = 0 \<or> va \<ge> 0x0000800000000000 then None
      else leaf_table s (table_for_physical s root) va)"

definition unmap_user_page :: "Paging \<Rightarrow> u64 \<Rightarrow> u64 \<Rightarrow> (Paging, unit, u64) op_result" where
  "unmap_user_page s root va =
     (case user_leaf_table s root va of
        None \<Rightarrow> (s, Inl ())
      | Some pt \<Rightarrow>
          let slot = pg_index va 12;
              entry = read_entry s pt slot
          in if entry AND PRESENT = 0 then (s, Inl ())
             else (write_entry s pt slot 0, Inr (entry AND ADDRESS_MASK)))"

definition translate_user_page :: "Paging \<Rightarrow> u64 \<Rightarrow> u64 \<Rightarrow> bool \<Rightarrow> u64 option" where
  "translate_user_page s root va write =
     (case user_leaf_table s root va of
        None \<Rightarrow> None
      | Some pt \<Rightarrow>
          let entry = read_entry s pt (pg_index va 12)
          in if entry AND PRESENT = 0 \<or> entry AND USER_ACCESSIBLE = 0 then None
             else if write \<and> entry AND WRITABLE = 0 then None
             else Some ((entry AND ADDRESS_MASK) OR (va AND (PAGE_SIZE - 1))))"

end
