(* ===== verification/Kernel_Heap.thy ===== *)
theory Kernel_Heap
  imports Heap_Regions Paging
begin

text \<open>
  The kernel heap on top of the page tables: \<open>src/src/kernel/memory/heap.rs\<close>, which commits pages of
  a reserved virtual range, and the allocation methods of \<open>MemoryManager\<close> in
  \<open>src/src/kernel/memory.rs\<close>, which call it. The state combines the manager, the paging state with its
  physical allocator, the commit layout, and the bytes of the kernel's virtual memory, which only
  \<open>realloc\<close> copies.

  The \<open>usize\<close> values of \<open>heap.rs\<close> are 64-bit words, since its loops rely on saturating addition.
\<close>

unbundle bit_operations_syntax

section \<open>Committing pages\<close>

definition EARLY_HEAP_BYTES :: u64 where "EARLY_HEAP_BYTES = 16 * 1024 * 1024"
definition EARLY_HEAP_BASE :: u64 where "EARLY_HEAP_BASE = 0xffff900000000000"
definition KERNEL_HEAP_BASE :: u64 where "KERNEL_HEAP_BASE = EARLY_HEAP_BASE"
definition KERNEL_HEAP_RESERVED_BYTES :: u64 where "KERNEL_HEAP_RESERVED_BYTES = EARLY_HEAP_BYTES"
definition INITIAL_HEAP_COMMIT_BYTES :: u64 where "INITIAL_HEAP_COMMIT_BYTES = 128 * 1024"
definition KERNEL_PROCESS_ID :: ProcessId where "KERNEL_PROCESS_ID = 0"

record KernelHeapLayout =
  hl_base :: u64
  hl_reserved_bytes :: u64
  hl_committed_bytes :: u64
  hl_frame_count :: u64

datatype KernelHeapError =
    PhysicalAllocatorNotInitialized | FrameBackedMapperNotInitialized | HeapInvalidRange | HeapAddressOverflow
  | OutOfFrames | MapFailed PagingError

definition page_flags_from_protection :: "MemoryProtection \<Rightarrow> PageFlags" where
  "page_flags_from_protection protection =
     (let flags = GLOBAL;
          flags = (if prot_write protection then flags OR WRITABLE else flags)
      in if \<not> prot_execute protection then flags OR NO_EXECUTE else flags)"

definition heap_align_up :: "u64 \<Rightarrow> u64 option" where
  "heap_align_up v = map_option (\<lambda>added. added AND NOT (PAGE_SIZE - 1)) (checked_add64 v (PAGE_SIZE - 1))"

lemma saturating_step: "next_page < (limit :: u64) \<Longrightarrow> next_page < saturating_add next_page PAGE_SIZE"
proof -
  assume lt: "next_page < limit"
  have "unat limit < 2 ^ LENGTH(64)" by (rule unsigned_less)
  then have "unat next_page < 2 ^ 64 - 1" using lt by (simp add: word_less_nat_alt)
  then show ?thesis by (simp add: word_less_nat_alt unat_saturating_add PAGE_SIZE_def)
qed

function rollback_committed_pages :: "u64 \<Rightarrow> u64 \<Rightarrow> Paging \<Rightarrow> u64 \<Rightarrow> Paging" where
  "rollback_committed_pages base limit pg offset =
     (if offset < limit
      then let pg = (case unmap_page pg (base + offset) of
                       (pg, Inr physical) \<Rightarrow> deallocate_physical_frame pg physical
                     | (pg, Inl _) \<Rightarrow> pg)
           in rollback_committed_pages base limit pg (saturating_add offset PAGE_SIZE)
      else pg)"
  by pat_completeness auto

termination rollback_committed_pages
proof (relation "measure (\<lambda>(_, limit, _, offset). unat limit - unat offset)", goal_cases)
  case (2 base limit pg offset x)
  then show ?case using saturating_step [of offset limit] by (simp add: word_less_nat_alt)
qed simp

function commit_loop :: "u64 \<Rightarrow> u64 \<Rightarrow> u64 \<Rightarrow> PageFlags \<Rightarrow> Paging \<Rightarrow> u64 \<Rightarrow> u64 \<Rightarrow> (Paging, KernelHeapError, u64) op_result" where
  "commit_loop base current_committed target_committed flags pg next_page frames =
     (if next_page < target_committed
      then
        (case allocate_physical_frame pg of
           (pg, Inl _) \<Rightarrow> (rollback_committed_pages base next_page pg current_committed, Inl OutOfFrames)
         | (pg, Inr physical) \<Rightarrow>
             (case checked_add64 base next_page of
                None \<Rightarrow> (rollback_committed_pages base next_page (deallocate_physical_frame pg physical) current_committed,
                         Inl HeapAddressOverflow)
              | Some virtual_address \<Rightarrow>
                  (case map_page pg virtual_address physical flags of
                     (pg, Inl err) \<Rightarrow>
                       (rollback_committed_pages base next_page (deallocate_physical_frame pg physical) current_committed,
                        Inl (MapFailed err))
                   | (pg, Inr _) \<Rightarrow>
                       commit_loop base current_committed target_committed flags pg
                         (saturating_add next_page PAGE_SIZE) (saturating_add frames 1))))
      else (pg, Inr frames))"
  by pat_completeness auto

termination commit_loop
proof (relation "measure (\<lambda>(_, _, limit, _, _, next_page, _). unat limit - unat next_page)", goal_cases)
  case (2 base current target flags pg next_page frames)
  then show ?case using saturating_step [of next_page target] by (simp add: word_less_nat_alt)
qed simp

definition commit_range ::
  "Paging \<Rightarrow> u64 \<Rightarrow> u64 \<Rightarrow> u64 \<Rightarrow> MemoryProtection \<Rightarrow> (Paging, KernelHeapError, u64) op_result" where
  "commit_range pg base current_committed target_committed protection =
     (if target_committed < current_committed \<or> current_committed mod PAGE_SIZE \<noteq> 0 \<or> target_committed mod PAGE_SIZE \<noteq> 0
      then (pg, Inl HeapInvalidRange)
      else commit_loop base current_committed target_committed (page_flags_from_protection protection) pg current_committed 0)"

text \<open>The state of the module \<open>memory\<close>: its locks are the fields.\<close>

record KernelMemory =
  km_paging :: Paging
  km_layout :: "KernelHeapLayout option"
  km_manager :: MemoryManager
  km_bytes :: "nat \<Rightarrow> u8"

definition physical_allocator_initialized :: "Paging \<Rightarrow> bool" where
  "physical_allocator_initialized pg = pfa_initialized (pg_frames pg)"

definition frame_backed_mapping_enabled :: "Paging \<Rightarrow> bool" where
  "frame_backed_mapping_enabled pg = pg_frame_ready pg"

definition heap_initialize :: "KernelMemory \<Rightarrow> (KernelMemory, KernelHeapError, KernelHeapLayout) op_result" where
  "heap_initialize km =
     (if \<not> physical_allocator_initialized (km_paging km) then (km, Inl PhysicalAllocatorNotInitialized)
      else if \<not> frame_backed_mapping_enabled (km_paging km) then (km, Inl FrameBackedMapperNotInitialized)
      else
        (case heap_align_up INITIAL_HEAP_COMMIT_BYTES of
           None \<Rightarrow> (km, Inl HeapAddressOverflow)
         | Some committed \<Rightarrow>
             if committed = 0 \<or> committed > KERNEL_HEAP_RESERVED_BYTES then (km, Inl HeapInvalidRange)
             else
               (case commit_range (km_paging km) KERNEL_HEAP_BASE 0 committed read_write of
                  (pg, Inl e) \<Rightarrow> (km\<lparr>km_paging := pg\<rparr>, Inl e)
                | (pg, Inr frames) \<Rightarrow>
                    let layout = \<lparr>hl_base = KERNEL_HEAP_BASE, hl_reserved_bytes = KERNEL_HEAP_RESERVED_BYTES,
                                  hl_committed_bytes = committed, hl_frame_count = frames\<rparr>
                    in (km\<lparr>km_paging := pg, km_layout := Some layout\<rparr>, Inr layout))))"

definition grow_committed ::
  "KernelMemory \<Rightarrow> u64 \<Rightarrow> u64 \<Rightarrow> u64 \<Rightarrow> u64 \<Rightarrow> MemoryProtection \<Rightarrow> (KernelMemory, KernelHeapError, KernelHeapLayout) op_result"
where
  "grow_committed km base reserved_bytes current_committed target_committed protection =
     (if target_committed \<le> current_committed then (km, ok_or HeapInvalidRange (km_layout km))
      else if base \<noteq> KERNEL_HEAP_BASE \<or> reserved_bytes \<noteq> KERNEL_HEAP_RESERVED_BYTES then (km, Inl HeapInvalidRange)
      else if target_committed > reserved_bytes then (km, Inl HeapInvalidRange)
      else if \<not> physical_allocator_initialized (km_paging km) then (km, Inl PhysicalAllocatorNotInitialized)
      else if \<not> frame_backed_mapping_enabled (km_paging km) then (km, Inl FrameBackedMapperNotInitialized)
      else
        (case heap_align_up target_committed of
           None \<Rightarrow> (km, Inl HeapAddressOverflow)
         | Some target \<Rightarrow>
             (case heap_align_up current_committed of
                None \<Rightarrow> (km, Inl HeapAddressOverflow)
              | Some current \<Rightarrow>
                  (case commit_range (km_paging km) base current target protection of
                     (pg, Inl e) \<Rightarrow> (km\<lparr>km_paging := pg\<rparr>, Inl e)
                   | (pg, Inr added_frames) \<Rightarrow>
                       let layout = (case km_layout km of
                                       Some l \<Rightarrow> l
                                     | None \<Rightarrow> \<lparr>hl_base = base, hl_reserved_bytes = reserved_bytes,
                                                hl_committed_bytes = current, hl_frame_count = current div PAGE_SIZE\<rparr>);
                           layout = layout\<lparr>hl_committed_bytes := target,
                                           hl_frame_count := saturating_add (hl_frame_count layout) added_frames\<rparr>
                       in (km\<lparr>km_paging := pg, km_layout := Some layout\<rparr>, Inr layout)))))"

section \<open>Allocation\<close>

definition ensure_backing ::
  "KernelMemory \<Rightarrow> nat \<Rightarrow> nat \<Rightarrow> MemoryProtection \<Rightarrow> (KernelMemory, unit, unit) op_result" where
  "ensure_backing km offset len protection =
     (case mm_backing (km_manager km) of
        BsStatic \<Rightarrow> (km, ok_unit)
      | BsDisabled \<Rightarrow> (km, Inl ())
      | BsVirtual base capacity committed frames \<Rightarrow>
          (case checked_add offset len of
             None \<Rightarrow> (km, Inl ())
           | Some required \<Rightarrow>
               if required > capacity then (km, Inl ())
               else
                 (case align_up required 4096 of
                    None \<Rightarrow> (km, Inl ())
                  | Some target \<Rightarrow>
                      (case grow_committed km (word_of_nat base) (word_of_nat capacity) (word_of_nat committed)
                              (word_of_nat target) protection of
                         (km, Inl _) \<Rightarrow> (km, Inl ())
                       | (km, Inr layout) \<Rightarrow>
                           (km\<lparr>km_manager := (km_manager km)\<lparr>mm_backing :=
                              BsVirtual base capacity (unat (hl_committed_bytes layout)) (unat (hl_frame_count layout))\<rparr>\<rparr>,
                            ok_unit)))))"

text \<open>The tail that \<open>malloc_for\<close>, \<open>malloc_aligned_for\<close> and \<open>mmap_for\<close> share, from the call of \<open>reserve\<close> on.\<close>

definition place_allocation ::
  "KernelMemory \<Rightarrow> ProcessId \<Rightarrow> nat \<Rightarrow> nat \<Rightarrow> AllocationKind \<Rightarrow> MemoryProtection \<Rightarrow> (KernelMemory, unit, nat) op_result"
where
  "place_allocation km owner actual_size align kind protection =
     (case reserve (km_manager km) actual_size align of
        (mm, Inl _) \<Rightarrow> (km\<lparr>km_manager := mm\<rparr>, Inl ())
      | (mm, Inr offset) \<Rightarrow>
          (case ensure_backing (km\<lparr>km_manager := mm\<rparr>) offset actual_size protection of
             (km, Inl _) \<Rightarrow> (km\<lparr>km_manager := insert_free_region (km_manager km) (region offset actual_size)\<rparr>, Inl ())
           | (km, Inr _) \<Rightarrow>
               (case record_allocation (km_manager km)
                       \<lparr>ar_owner = owner, ar_offset = offset, ar_size = actual_size, ar_kind = kind, ar_protection = protection\<rparr> of
                  (mm, Inl _) \<Rightarrow> (km\<lparr>km_manager := insert_free_region mm (region offset actual_size)\<rparr>, Inl ())
                | (mm, Inr _) \<Rightarrow>
                    let mm = update_stats_on_alloc mm actual_size
                    in (km\<lparr>km_manager := mm\<rparr>, Inr (ptr_for_offset mm offset)))))"

definition malloc_for :: "KernelMemory \<Rightarrow> ProcessId \<Rightarrow> nat \<Rightarrow> (KernelMemory, unit, nat) op_result" where
  "malloc_for km owner len =
     (if len = 0 then (km, Inl ())
      else case align_up len 8 of
             None \<Rightarrow> (km, Inl ())
           | Some actual_size \<Rightarrow> place_allocation km owner actual_size 8 AkHeap read_write)"

definition malloc_aligned_for :: "KernelMemory \<Rightarrow> ProcessId \<Rightarrow> nat \<Rightarrow> nat \<Rightarrow> (KernelMemory, unit, nat) op_result" where
  "malloc_aligned_for km owner len align =
     (if len = 0 \<or> \<not> valid_alignment align then (km, Inl ())
      else
        let actual_align = max align 8
        in case align_up len 8 of
             None \<Rightarrow> (km, Inl ())
           | Some actual_size \<Rightarrow> place_allocation km owner actual_size actual_align AkHeap read_write)"

record MappedRegion =
  mr_owner :: ProcessId
  mr_ptr :: nat
  mr_length :: nat
  mr_requested :: nat
  mr_protection :: MemoryProtection
  mr_kind :: AllocationKind

definition mmap_for ::
  "KernelMemory \<Rightarrow> ProcessId \<Rightarrow> nat \<Rightarrow> MemoryProtection \<Rightarrow> (KernelMemory, unit, MappedRegion) op_result" where
  "mmap_for km owner len protection =
     (if len = 0 then (km, Inl ())
      else case align_up len 4096 of
             None \<Rightarrow> (km, Inl ())
           | Some actual_size \<Rightarrow>
               (case place_allocation km owner actual_size 4096 AkMapping protection of
                  (km, Inl _) \<Rightarrow> (km, Inl ())
                | (km, Inr ptr) \<Rightarrow>
                    (km, Inr \<lparr>mr_owner = owner, mr_ptr = ptr, mr_length = actual_size, mr_requested = len,
                              mr_protection = protection, mr_kind = AkMapping\<rparr>)))"

definition km_free_for :: "KernelMemory \<Rightarrow> ProcessId \<Rightarrow> nat \<Rightarrow> KernelMemory \<times> bool" where
  "km_free_for km owner ptr =
     (let (mm, freed) = free_for (km_manager km) owner ptr in (km\<lparr>km_manager := mm\<rparr>, freed))"

definition km_munmap_ptr_for :: "KernelMemory \<Rightarrow> ProcessId \<Rightarrow> nat \<Rightarrow> nat \<Rightarrow> KernelMemory \<times> bool" where
  "km_munmap_ptr_for km owner ptr len =
     (let (mm, freed) = munmap_ptr_for (km_manager km) owner ptr len in (km\<lparr>km_manager := mm\<rparr>, freed))"

definition km_munmap :: "KernelMemory \<Rightarrow> MappedRegion \<Rightarrow> KernelMemory \<times> bool" where
  "km_munmap km r = km_munmap_ptr_for km (mr_owner r) (mr_ptr r) (mr_length r)"

definition copy_bytes :: "KernelMemory \<Rightarrow> nat \<Rightarrow> nat \<Rightarrow> nat \<Rightarrow> KernelMemory" where
  "copy_bytes km src dst len =
     km\<lparr>km_bytes := (\<lambda>a. if dst \<le> a \<and> a < dst + len then km_bytes km (src + (a - dst)) else km_bytes km a)\<rparr>"

definition realloc_for :: "KernelMemory \<Rightarrow> ProcessId \<Rightarrow> nat option \<Rightarrow> nat \<Rightarrow> (KernelMemory, unit, nat) op_result" where
  "realloc_for km owner ptr new_size =
     (case ptr of
        None \<Rightarrow> if new_size = 0 then (km, Inl ()) else malloc_for km owner new_size
      | Some p \<Rightarrow>
          if new_size = 0 then (fst (km_free_for km owner p), Inl ())
          else
            let mm = km_manager km in
            case offset_for_ptr mm p of
              None \<Rightarrow> (km, Inl ())
            | Some offset \<Rightarrow>
                (case find_allocation_index mm owner offset of
                   None \<Rightarrow> (km, Inl ())
                 | Some idx \<Rightarrow>
                     (case mm_allocations mm ! idx of
                        None \<Rightarrow> (km, Inl ())
                      | Some r \<Rightarrow>
                          if ar_kind r \<noteq> AkHeap then (km, Inl ())
                          else
                            (case align_up new_size 8 of
                               None \<Rightarrow> (km, Inl ())
                             | Some aligned_new \<Rightarrow>
                                 if aligned_new \<le> ar_size r
                                 then
                                   let leftover = ar_size r - aligned_new;
                                       mm = (if leftover > 0
                                             then update_stats_on_free
                                                    (insert_free_region mm (region (ar_offset r + aligned_new) leftover)) leftover
                                             else mm);
                                       mm = mm\<lparr>mm_allocations := (mm_allocations mm)[idx := Some (r\<lparr>ar_size := aligned_new\<rparr>)]\<rparr>
                                   in (km\<lparr>km_manager := mm\<rparr>, Inr p)
                                 else
                                   let copy_len = min (ar_size r) new_size
                                   in and_then (malloc_for km owner new_size) (\<lambda>km new_ptr.
                                        (fst (km_free_for (copy_bytes km p new_ptr copy_len) owner p), Inr new_ptr))))))"

definition km_release_process :: "KernelMemory \<Rightarrow> ProcessId \<Rightarrow> KernelMemory" where
  "km_release_process km owner = km\<lparr>km_manager := mm_release_process (km_manager km) owner\<rparr>"

text \<open>The global allocator of the Rust library, for a layout of size and alignment; address 0 is null.\<close>

definition global_alloc :: "KernelMemory \<Rightarrow> nat \<Rightarrow> nat \<Rightarrow> KernelMemory \<times> nat" where
  "global_alloc km len align =
     (if len = 0 then (km, 1)
      else case malloc_aligned_for km KERNEL_PROCESS_ID len align of (km, Inr p) \<Rightarrow> (km, p) | (km, Inl _) \<Rightarrow> (km, 0))"

definition global_dealloc :: "KernelMemory \<Rightarrow> nat \<Rightarrow> KernelMemory" where
  "global_dealloc km ptr = (if ptr = 0 then km else fst (km_free_for km KERNEL_PROCESS_ID ptr))"

definition global_realloc :: "KernelMemory \<Rightarrow> nat \<Rightarrow> nat \<Rightarrow> KernelMemory \<times> nat" where
  "global_realloc km ptr new_size =
     (if ptr = 0 then global_alloc km new_size 8
      else case realloc_for km KERNEL_PROCESS_ID (Some ptr) new_size of (km, Inr p) \<Rightarrow> (km, p) | (km, Inl _) \<Rightarrow> (km, 0))"

section \<open>Boot\<close>

definition initialize_from_boot_info :: "KernelMemory \<Rightarrow> BootInfo \<Rightarrow> u64 \<times> u64 \<Rightarrow> u64 \<Rightarrow> KernelMemory" where
  "initialize_from_boot_info km boot tables stack =
     (let disabled = (\<lambda>km. km\<lparr>km_manager := disable_static_heap (km_manager km)\<rparr>) in
      case ingest_boot_info (pg_frames (km_paging km)) boot tables stack of
        (fa, Inl _) \<Rightarrow> disabled (km\<lparr>km_paging := (km_paging km)\<lparr>pg_frames := fa\<rparr>\<rparr>)
      | (fa, Inr _) \<Rightarrow>
          (case enable_frame_backed_mapping ((km_paging km)\<lparr>pg_frames := fa\<rparr>) boot of
             (pg, Inl _) \<Rightarrow> disabled (km\<lparr>km_paging := pg\<rparr>)
           | (pg, Inr _) \<Rightarrow>
               (case heap_initialize (km\<lparr>km_paging := pg\<rparr>) of
                  (km, Inl _) \<Rightarrow> disabled km
                | (km, Inr layout) \<Rightarrow>
                    km\<lparr>km_manager := promote_to_virtual_heap (km_manager km) (unat (hl_base layout))
                         (unat (hl_reserved_bytes layout)) (unat (hl_committed_bytes layout)) (unat (hl_frame_count layout))\<rparr>)))"

end
