(* ===== verification/User_Memory.thy ===== *)
theory User_Memory
  imports Kernel_Heap
begin

text \<open>
  User address spaces and user mappings, the last part of \<open>src/src/kernel/memory.rs\<close>: the table of
  address spaces with their reference counts, the table of mappings from user ranges to kernel heap
  memory, and the copies between kernel and user memory. The functions of \<open>paging.rs\<close> with the same
  names are in theory \<open>Paging\<close>; those of this module carry the prefix \<open>us\<close>.
\<close>

unbundle bit_operations_syntax

section \<open>Tables\<close>

record AddressSpace =
  sp_owner :: ProcessId
  sp_root :: u64
  sp_references :: nat

record UserMappingRecord =
  um_owner :: ProcessId
  um_root :: u64
  um_user_start :: u64
  um_kernel_start :: nat
  um_length :: nat
  um_protection :: MemoryProtection

definition um_contains :: "UserMappingRecord \<Rightarrow> u64 \<Rightarrow> u64 \<Rightarrow> nat \<Rightarrow> bool \<Rightarrow> bool" where
  "um_contains self root address len write =
     (if um_root self \<noteq> root \<or> write \<and> \<not> prot_write (um_protection self) then False
      else case checked_add64 address (word_of_nat len) of
             None \<Rightarrow> False
           | Some stop \<Rightarrow> address \<ge> um_user_start self \<and> stop \<le> saturating_add (um_user_start self) (word_of_nat (um_length self)))"

record UserMemory =
  us_kernel :: KernelMemory
  us_spaces :: "AddressSpace slots"
  us_mappings :: "UserMappingRecord slots"

abbreviation us_paging :: "UserMemory \<Rightarrow> Paging" where
  "us_paging us \<equiv> km_paging (us_kernel us)"

abbreviation us_set_paging :: "Paging \<Rightarrow> UserMemory \<Rightarrow> UserMemory" where
  "us_set_paging pg us \<equiv> us\<lparr>us_kernel := (us_kernel us)\<lparr>km_paging := pg\<rparr>\<rparr>"

section \<open>Address spaces\<close>

definition us_create_user_address_space :: "UserMemory \<Rightarrow> ProcessId \<Rightarrow> (UserMemory, unit, u64) op_result" where
  "us_create_user_address_space us owner =
     (case create_user_address_space (us_paging us) of
        (pg, Inl _) \<Rightarrow> (us_set_paging pg us, Inl ())
      | (pg, Inr root) \<Rightarrow>
          (case free_slot (us_spaces us) of
             Some idx \<Rightarrow>
               (us_set_paging pg us\<lparr>us_spaces := (us_spaces us)[idx := Some \<lparr>sp_owner = owner, sp_root = root, sp_references = 1\<rparr>]\<rparr>,
                Inr root)
           | None \<Rightarrow> (us_set_paging (destroy_user_address_space pg root) us, Inl ())))"

definition share_user_address_space :: "UserMemory \<Rightarrow> u64 \<Rightarrow> (UserMemory, unit, u64) op_result" where
  "share_user_address_space us root =
     (if root = 0 then (us, Inl ())
      else case find_slot (\<lambda>space. sp_root space = root) (us_spaces us) of
             Some idx \<Rightarrow>
               (us\<lparr>us_spaces := (us_spaces us)[idx :=
                  map_option (\<lambda>space. space\<lparr>sp_references := min (sp_references space + 1) (2 ^ 64 - 1)\<rparr>) (us_spaces us ! idx)]\<rparr>,
                Inr root)
           | None \<Rightarrow> (us, Inl ()))"

definition release_mapping :: "u64 \<Rightarrow> UserMemory \<Rightarrow> nat \<Rightarrow> UserMemory" where
  "release_mapping root us idx =
     (case us_mappings us ! idx of
        None \<Rightarrow> us
      | Some mapping \<Rightarrow>
          if um_root mapping \<noteq> root then us
          else
            let us = us\<lparr>us_mappings := (us_mappings us)[idx := None]\<rparr>
            in if um_kernel_start mapping = 0 then us
               else us\<lparr>us_kernel := fst (km_munmap_ptr_for (us_kernel us) (um_owner mapping) (um_kernel_start mapping) (um_length mapping))\<rparr>)"

definition release_mappings :: "UserMemory \<Rightarrow> u64 \<Rightarrow> UserMemory" where
  "release_mappings us root = foldl (release_mapping root) us [0..<length (us_mappings us)]"

definition us_destroy_user_address_space :: "UserMemory \<Rightarrow> u64 \<Rightarrow> UserMemory" where
  "us_destroy_user_address_space us root =
     (if root = 0 then us
      else case find_slot (\<lambda>space. sp_root space = root) (us_spaces us) of
             None \<Rightarrow> release_mappings us root
           | Some idx \<Rightarrow>
               (case us_spaces us ! idx of
                  None \<Rightarrow> release_mappings us root
                | Some space \<Rightarrow>
                    if sp_references space > 1
                    then us\<lparr>us_spaces := (us_spaces us)[idx := Some (space\<lparr>sp_references := sp_references space - 1\<rparr>)]\<rparr>
                    else
                      let us = release_mappings (us\<lparr>us_spaces := (us_spaces us)[idx := None]\<rparr>) root
                      in us_set_paging (destroy_user_address_space (us_paging us) root) us))"

section \<open>Mappings\<close>

definition translate_kernel_address :: "Paging \<Rightarrow> u64 \<Rightarrow> u64 option" where
  "translate_kernel_address pg va = translate_virt pg va"

definition kernel_physical :: "Paging \<Rightarrow> u64 \<Rightarrow> u64" where
  "kernel_physical pg kernel_va =
     (case translate_kernel_address pg kernel_va of
        Some physical \<Rightarrow> physical
      | None \<Rightarrow> physical_for_virtual (pg_translator pg) kernel_va)"

function map_user_loop ::
  "u64 \<Rightarrow> u64 \<Rightarrow> nat \<Rightarrow> nat \<Rightarrow> MemoryProtection \<Rightarrow> Paging \<Rightarrow> nat \<Rightarrow> (Paging, unit, unit) op_result" where
  "map_user_loop root virtual_address ptr actual_size protection pg offset =
     (if offset < actual_size
      then
        let physical = kernel_physical pg (word_of_nat ptr + word_of_nat offset)
        in and_then (map_user_page pg root (virtual_address + word_of_nat offset) physical protection)
             (\<lambda>pg _. map_user_loop root virtual_address ptr actual_size protection pg (offset + 4096))
      else (pg, ok_unit))"
  by pat_completeness auto

termination map_user_loop
  by (relation "measure (\<lambda>(_, _, _, actual_size, _, _, offset). actual_size - offset)") auto

definition mmap_user_fixed ::
  "UserMemory \<Rightarrow> ProcessId \<Rightarrow> u64 \<Rightarrow> u64 \<Rightarrow> nat \<Rightarrow> MemoryProtection \<Rightarrow> (UserMemory, unit, MappedRegion) op_result" where
  "mmap_user_fixed us owner root virtual_address len protection =
     (if root = 0 \<or> len = 0 \<or> virtual_address AND (PAGE_SIZE - 1) \<noteq> 0 \<or>
         (case checked_add64 virtual_address (word_of_nat len) of None \<Rightarrow> True | Some stop \<Rightarrow> stop > 0x0000800000000000)
      then (us, Inl ())
      else
        let actual_size = unat (align_up_u64 (word_of_nat len))
        in case mmap_for (us_kernel us) owner actual_size protection of
             (km, Inl _) \<Rightarrow> (us\<lparr>us_kernel := km\<rparr>, Inl ())
           | (km, Inr r) \<Rightarrow>
               (case map_user_loop root virtual_address (mr_ptr r) actual_size protection (km_paging km) 0 of
                  (pg, Inl _) \<Rightarrow> (us\<lparr>us_kernel := fst (km_munmap (km\<lparr>km_paging := pg\<rparr>) r)\<rparr>, Inl ())
                | (pg, Inr _) \<Rightarrow>
                    (case free_slot (us_mappings us) of
                       Some idx \<Rightarrow>
                         (us\<lparr>us_kernel := km\<lparr>km_paging := pg\<rparr>, us_mappings := (us_mappings us)[idx := Some
                             \<lparr>um_owner = owner, um_root = root, um_user_start = virtual_address, um_kernel_start = mr_ptr r,
                              um_length = actual_size, um_protection = protection\<rparr>]\<rparr>,
                          Inr r)
                     | None \<Rightarrow> (us\<lparr>us_kernel := fst (km_munmap (km\<lparr>km_paging := pg\<rparr>) r)\<rparr>, Inl ()))))"

text \<open>The loop of \<open>clone_user_address_space\<close> over a copy of the mapping table.\<close>

fun clone_mappings ::
  "ProcessId \<Rightarrow> u64 \<Rightarrow> u64 \<Rightarrow> UserMemory \<Rightarrow> UserMappingRecord slots \<Rightarrow> (UserMemory, unit, unit) op_result" where
  "clone_mappings owner parent_root child_root us [] = (us, ok_unit)"
| "clone_mappings owner parent_root child_root us (slot # slots) =
     (case slot of
        None \<Rightarrow> clone_mappings owner parent_root child_root us slots
      | Some mapping \<Rightarrow>
          if um_root mapping \<noteq> parent_root then clone_mappings owner parent_root child_root us slots
          else and_then (mmap_user_fixed us owner child_root (um_user_start mapping) (um_length mapping) (um_protection mapping))
                 (\<lambda>us child.
                    clone_mappings owner parent_root child_root
                      (us\<lparr>us_kernel := copy_bytes (us_kernel us) (um_kernel_start mapping) (mr_ptr child) (um_length mapping)\<rparr>) slots))"

definition clone_user_address_space :: "UserMemory \<Rightarrow> ProcessId \<Rightarrow> u64 \<Rightarrow> (UserMemory, unit, u64) op_result" where
  "clone_user_address_space us owner parent_root =
     (if parent_root = 0 then us_create_user_address_space us owner
      else and_then (us_create_user_address_space us owner) (\<lambda>us child_root.
             and_then (clone_mappings owner parent_root child_root us (us_mappings us)) (\<lambda>us _. (us, Inr child_root))))"

definition find_user_mapping :: "UserMemory \<Rightarrow> u64 \<Rightarrow> u64 \<Rightarrow> nat \<Rightarrow> bool \<Rightarrow> MappedRegion option" where
  "find_user_mapping us root user_address len write =
     (case find_slot (\<lambda>mapping. um_contains mapping root user_address len write) (us_mappings us) of
        None \<Rightarrow> None
      | Some idx \<Rightarrow>
          (case us_mappings us ! idx of
             None \<Rightarrow> None
           | Some mapping \<Rightarrow>
               if um_kernel_start mapping = 0 then None
               else Some \<lparr>mr_owner = um_owner mapping, mr_ptr = um_kernel_start mapping, mr_length = um_length mapping,
                          mr_requested = um_length mapping, mr_protection = um_protection mapping, mr_kind = AkMapping\<rparr>))"

definition find_user_mapping_protection :: "UserMemory \<Rightarrow> u64 \<Rightarrow> u64 \<Rightarrow> nat \<Rightarrow> MemoryProtection option" where
  "find_user_mapping_protection us root user_address len =
     (case find_slot (\<lambda>mapping. um_contains mapping root user_address len False) (us_mappings us) of
        None \<Rightarrow> None
      | Some idx \<Rightarrow> map_option um_protection (us_mappings us ! idx))"

definition us_release_process :: "UserMemory \<Rightarrow> ProcessId \<Rightarrow> UserMemory" where
  "us_release_process us owner =
     (let roots = map sp_root (filter (\<lambda>space. sp_owner space = owner) (slot_values (us_spaces us)));
          us = foldl us_destroy_user_address_space us roots
      in us\<lparr>us_kernel := km_release_process (us_kernel us) owner\<rparr>)"

section \<open>Access from the kernel\<close>

text \<open>The address 1 stands for the dangling pointer that an empty slice gets.\<close>

definition active_translated_slice :: "UserMemory \<Rightarrow> u64 \<Rightarrow> u64 \<Rightarrow> nat \<Rightarrow> bool \<Rightarrow> nat option" where
  "active_translated_slice us root ptr len write =
     (if len = 0 then Some 1
      else case find_slot (\<lambda>mapping. um_contains mapping root ptr len write) (us_mappings us) of
             None \<Rightarrow> None
           | Some idx \<Rightarrow>
               (case us_mappings us ! idx of
                  None \<Rightarrow> None
                | Some mapping \<Rightarrow>
                    let address = um_kernel_start mapping + unat (saturating_sub ptr (um_user_start mapping))
                    in if address = 0 then None else Some address))"

definition validate_user_range :: "UserMemory \<Rightarrow> u64 \<Rightarrow> u64 \<Rightarrow> nat \<Rightarrow> bool \<Rightarrow> bool" where
  "validate_user_range us root ptr len write =
     (if len = 0 then True else active_translated_slice us root ptr len write \<noteq> None)"

definition copy_from_user :: "UserMemory \<Rightarrow> u64 \<Rightarrow> u64 \<Rightarrow> nat \<Rightarrow> u8 list option" where
  "copy_from_user us root ptr len =
     map_option (\<lambda>src. map (\<lambda>i. km_bytes (us_kernel us) (src + i)) [0..<len]) (active_translated_slice us root ptr len False)"

definition copy_to_user :: "UserMemory \<Rightarrow> u64 \<Rightarrow> u64 \<Rightarrow> u8 list \<Rightarrow> UserMemory \<times> bool" where
  "copy_to_user us root ptr input =
     (case active_translated_slice us root ptr (length input) True of
        None \<Rightarrow> (us, False)
      | Some dst \<Rightarrow>
          (us\<lparr>us_kernel := (us_kernel us)\<lparr>km_bytes :=
             (\<lambda>a. if dst \<le> a \<and> a < dst + length input then input ! (a - dst) else km_bytes (us_kernel us) a)\<rparr>\<rparr>, True))"

end
