(* ===== verification/Heap_Safety.thy ===== *)
theory Heap_Safety
  imports Heap_Regions "HOL-Library.Disjoint_Sets"
begin

text \<open>
  The invariant of the heap regions. A slot table of blocks is read as a family of sets of offsets,
  one for each slot. Live allocations and free regions form one disjoint family below the bump
  pointer, and the statistics count the live offsets. Every operation of \<open>Heap_Regions\<close> keeps this.
\<close>

unbundle bit_operations_syntax

section \<open>Tables of disjoint blocks\<close>

definition slot_block :: "('a \<Rightarrow> nat set) \<Rightarrow> 'a slots \<Rightarrow> nat \<Rightarrow> nat set" where
  "slot_block g xs i = (case xs ! i of Some a \<Rightarrow> g a | None \<Rightarrow> {})"

definition disjoint_slots :: "('a \<Rightarrow> nat set) \<Rightarrow> 'a slots \<Rightarrow> bool" where
  "disjoint_slots g xs \<longleftrightarrow> disjoint_family_on (slot_block g xs) {..<length xs}"

definition slot_bytes :: "('a \<Rightarrow> nat set) \<Rightarrow> 'a slots \<Rightarrow> nat set" where
  "slot_bytes g xs = (\<Union>i < length xs. slot_block g xs i)"

lemma slot_bytes_iff: "x \<in> slot_bytes g xs \<longleftrightarrow> (\<exists>a. Some a \<in> set xs \<and> x \<in> g a)"
  by (auto simp: slot_bytes_def slot_block_def in_set_conv_nth split: option.splits)

lemma slot_bytes_member: "Some a \<in> set xs \<Longrightarrow> g a \<subseteq> slot_bytes g xs"
  by (auto simp: slot_bytes_iff)

lemma slot_block_update: "i < length xs \<Longrightarrow> slot_block g (xs[i := y]) j = (if j = i then (case y of Some a \<Rightarrow> g a | None \<Rightarrow> {}) else slot_block g xs j)"
  by (simp add: slot_block_def)

lemma disjoint_slots_replicate [simp]: "disjoint_slots g (replicate n None)" "slot_bytes g (replicate n None) = {}"
  by (auto simp: disjoint_slots_def disjoint_family_on_def slot_block_def slot_bytes_iff)

lemma disjoint_slots_clear: "disjoint_slots g xs \<Longrightarrow> disjoint_slots g (xs[i := None])"
  by (cases "i < length xs") (auto simp: disjoint_slots_def disjoint_family_on_def slot_block_update list_update_beyond)

lemma slot_bytes_clear:
  assumes "disjoint_slots g xs" "i < length xs" "xs ! i = Some a"
  shows "slot_bytes g (xs[i := None]) = slot_bytes g xs - g a"
proof -
  have g: "slot_block g xs i = g a" using assms(3) by (simp add: slot_block_def)
  have "slot_block g xs j \<inter> g a = {}" if "j < length xs" "j \<noteq> i" for j
    using assms(1,2) that g unfolding disjoint_slots_def disjoint_family_on_def by auto
  then show ?thesis
    using assms(2) g unfolding slot_bytes_def by (auto simp: slot_block_update split: if_splits)
qed

lemma disjoint_slots_put:
  assumes "disjoint_slots g xs" "i < length xs" "xs ! i = None" "g a \<inter> slot_bytes g xs = {}"
  shows "disjoint_slots g (xs[i := Some a])" "slot_bytes g (xs[i := Some a]) = slot_bytes g xs \<union> g a"
proof -
  have "slot_block g xs j \<inter> g a = {}" if "j < length xs" for j
    using assms(4) that by (auto simp: slot_bytes_def)
  then show "disjoint_slots g (xs[i := Some a])"
    using assms(1,2) unfolding disjoint_slots_def disjoint_family_on_def by (auto simp: slot_block_update)
  have "slot_block g xs i = {}" using assms(3) by (simp add: slot_block_def)
  then show "slot_bytes g (xs[i := Some a]) = slot_bytes g xs \<union> g a"
    using assms(2) unfolding slot_bytes_def by (auto simp: slot_block_update split: if_splits)
qed

text \<open>Two slots that share an offset are the same slot.\<close>

lemma disjoint_slotsD:
  assumes "disjoint_slots g xs" "i < length xs" "j < length xs" "xs ! i = Some a" "xs ! j = Some b" "x \<in> g a" "x \<in> g b"
  shows "i = j"
proof (rule ccontr)
  assume "i \<noteq> j"
  then have "slot_block g xs i \<inter> slot_block g xs j = {}"
    using assms(1-3) unfolding disjoint_slots_def disjoint_family_on_def by simp
  then show False using assms(4-7) by (auto simp: slot_block_def)
qed

lemma disjoint_slots_members:
  assumes "disjoint_slots g xs" "Some a \<in> set xs" "Some b \<in> set xs" "a \<noteq> b"
  shows "g a \<inter> g b = {}"
proof -
  obtain i j where "i < length xs" "xs ! i = Some a" "j < length xs" "xs ! j = Some b" using assms(2,3) by (auto simp: in_set_conv_nth)
  then show ?thesis using disjoint_slotsD [OF assms(1)] assms(4) by (metis disjoint_iff option.inject)
qed

section \<open>Alignment\<close>

lemma valid_alignmentE:
  assumes "valid_alignment align"
  obtains k where "align = 2 ^ k" "k < 64"
  using assms by (auto simp: valid_alignment_def is_power_of_two_def)

lemma and_not_low_mask:
  assumes "k < 64"
  shows "unat (w AND NOT (word_of_nat (2 ^ k - 1)) :: u64) = unat w div 2 ^ k * 2 ^ k"
proof -
  have "word_of_nat (2 ^ k - 1) = (mask k :: u64)"
    by (simp add: mask_eq_exp_minus_1 of_nat_diff)
  moreover have "w AND NOT (mask k) = push_bit k (drop_bit k w)"
    by (rule bit_eqI) (auto simp: bit_simps)
  moreover have "unat (push_bit k (drop_bit k w)) = unat w div 2 ^ k * 2 ^ k"
  proof -
    have "unat w < 2 ^ LENGTH(64)" by (rule unsigned_less)
    then have "unat w div 2 ^ k * 2 ^ k < 2 ^ LENGTH(64)"
      using div_times_less_eq_dividend [of "unat w" "2 ^ k"] by linarith
    moreover have "unat (2 ^ k :: u64) = 2 ^ k"
    proof -
      have "(2 :: nat) ^ k < 2 ^ LENGTH(64)" using assms by (intro power_strict_increasing) simp_all
      then have "unat (word_of_nat (2 ^ k) :: u64) = 2 ^ k" by (simp only: unat_of_nat mod_less)
      then show ?thesis by simp
    qed
    ultimately show ?thesis by (simp only: push_bit_eq_mult drop_bit_eq_div unat_word_ariths(2) unat_div mod_less)
  qed
  ultimately show ?thesis by simp
qed

lemma align_up_Some:
  assumes "align_up v align = Some r"
  shows "valid_alignment align" "v \<le> r" "r mod align = 0" "r < v + align" "r < 2 ^ 64"
proof -
  show valid: "valid_alignment align" using assms by (auto simp: align_up_def split: if_splits)
  then obtain k where k: "align = 2 ^ k" "k < 64" by (rule valid_alignmentE)
  have sum: "v + (align - 1) < 2 ^ 64" using assms valid by (auto simp: align_up_def checked_add_def Let_def split: if_splits)
  have "unat (word_of_nat (v + (align - 1)) :: u64) = v + (align - 1)"
    using sum by (simp only: unat_of_nat) simp
  then have r: "r = (v + (align - 1)) div align * align"
    using assms valid sum and_not_low_mask [OF k(2), of "word_of_nat (v + (align - 1))"]
    by (simp add: align_up_def checked_add_def Let_def k(1))
  have pos: "0 < align" using k by simp
  have split: "v + (align - 1) = r + (v + (align - 1)) mod align" unfolding r by simp
  have "(v + (align - 1)) mod align < align" using pos by simp
  then show "v \<le> r" using split pos by linarith
  show "r mod align = 0" unfolding r by simp
  show "r < v + align" using split pos by linarith
  then show "r < 2 ^ 64" using split sum by linarith
qed

lemma aligned_heap_offset_Some:
  assumes "aligned_heap_offset self m align = Some r"
  shows "valid_alignment align" "m \<le> r" "(base_address self + r) mod align = 0" "r < m + align"
proof -
  let ?b = "base_address self" and ?a = align
  show valid: "valid_alignment align" using assms by (auto simp: aligned_heap_offset_def split: if_splits)
  then have pos: "0 < ?a" by (simp add: valid_alignment_def)
  define cur where "cur = (if m mod ?a = 0 then ?b mod ?a
     else if ?b mod ?a \<ge> ?a - m mod ?a then ?b mod ?a - (?a - m mod ?a) else ?b mod ?a + m mod ?a)"
  have r: "r = m + (?a - cur) mod ?a"
    using assms valid unfolding aligned_heap_offset_def checked_add_def Let_def cur_def by (auto split: if_splits)
  have lt: "m mod ?a < ?a" "?b mod ?a < ?a" using pos by simp_all
  have curlt: "cur < ?a" unfolding cur_def using lt pos by (simp, linarith)
  have add: "(x + y) mod ?a = (if x + y < ?a then x + y else x + y - ?a)" if "x < ?a" "y < ?a" for x y
    using that by (simp add: le_mod_geq)
  have "cur = (?b mod ?a + m mod ?a) mod ?a"
    unfolding cur_def add [OF lt(2,1)] using lt by auto
  then have cur: "cur = (?b + m) mod ?a" by (simp add: mod_add_eq)
  have "(?b + r) mod ?a = ((?b + m) + (?a - cur) mod ?a) mod ?a" by (simp add: r add.assoc)
  also have "\<dots> = (cur + (?a - cur)) mod ?a" unfolding cur by (simp add: mod_add_left_eq mod_add_right_eq)
  finally show "(?b + r) mod ?a = 0" using curlt by simp
  show "m \<le> r" by (simp add: r)
  show "r < m + ?a" using pos by (simp add: r)
qed

section \<open>Free regions\<close>

abbreviation fspan :: "FreeRegion \<Rightarrow> nat set" where
  "fspan r \<equiv> {fr_offset r..<fr_end r}"

abbreviation aspan :: "AllocationRecord \<Rightarrow> nat set" where
  "aspan r \<equiv> {ar_offset r..<ar_offset r + ar_size r}"

definition free_bytes :: "MemoryManager \<Rightarrow> nat set" where
  "free_bytes self = slot_bytes fspan (mm_free_regions self)"

definition live_bytes :: "MemoryManager \<Rightarrow> nat set" where
  "live_bytes self = slot_bytes aspan (mm_allocations self)"

definition free_table :: "FreeRegion slots \<Rightarrow> bool" where
  "free_table F \<longleftrightarrow> disjoint_slots fspan F \<and> (\<forall>r. Some r \<in> set F \<longrightarrow> 0 < fr_size r)"

lemma fspan_region [simp]: "fspan (region off len) = {off..<off + len}" "fr_size (region off len) = len" "fr_offset (region off len) = off"
  "fr_end (region off len) = off + len"
  by (simp_all add: region_def fr_end_def)

text \<open>One step of the coalescing pass moves a region from the table into the merged one.\<close>

lemma merge_region_step:
  assumes F: "free_table F" and r: "0 < fr_size r" "fspan r \<inter> slot_bytes fspan F = {}" and i: "i < length F"
    and step: "merge_region (F, r) i = (F', r')"
  shows "free_table F'" "0 < fr_size r'" "fspan r' \<inter> slot_bytes fspan F' = {}" "length F' = length F"
    "slot_bytes fspan F' \<union> fspan r' = slot_bytes fspan F \<union> fspan r" "None \<in> set F \<Longrightarrow> None \<in> set F'"
proof -
  have dis: "disjoint_slots fspan F" and pos: "\<And>e. Some e \<in> set F \<Longrightarrow> 0 < fr_size e" using F by (auto simp: free_table_def)
  have *: "free_table F' \<and> 0 < fr_size r' \<and> fspan r' \<inter> slot_bytes fspan F' = {} \<and> length F' = length F \<and>
    slot_bytes fspan F' \<union> fspan r' = slot_bytes fspan F \<union> fspan r \<and> (None \<in> set F \<longrightarrow> None \<in> set F')"
  proof (cases "F ! i")
    case None
    then show ?thesis using step assms by (simp add: merge_region_def)
  next
    case (Some e)
    have mem: "Some e \<in> set F" using Some i nth_mem by metis
    have sub: "fspan e \<subseteq> slot_bytes fspan F" using slot_bytes_member [OF mem, of fspan] by simp
    have clear: "slot_bytes fspan (F[i := None]) = slot_bytes fspan F - fspan e" by (rule slot_bytes_clear [OF dis i Some])
    have tab: "free_table (F[i := None])"
      using disjoint_slots_clear [OF dis] pos by (auto simp: free_table_def dest: set_update_subset_insert [THEN subsetD])
    have none: "None \<in> set (F[i := None])" using i by (simp add: set_update_memI)
    have moved: ?thesis if "F' = F[i := None]" "fspan r' = fspan e \<union> fspan r" "0 < fr_size r'"
      using that tab none clear sub r(2) by auto
    show ?thesis
    proof (cases "fr_end e = fr_offset r \<or> fr_end r = fr_offset e")
      case True
      then show ?thesis
        using step Some pos [OF mem] r(1) by (intro moved) (auto simp: merge_region_def fr_end_def region_def split: if_splits)
    next
      case False
      then show ?thesis using step Some assms by (simp add: merge_region_def)
    qed
  qed
  then show "free_table F'" "0 < fr_size r'" "fspan r' \<inter> slot_bytes fspan F' = {}" "length F' = length F"
    "slot_bytes fspan F' \<union> fspan r' = slot_bytes fspan F \<union> fspan r" "None \<in> set F \<Longrightarrow> None \<in> set F'" by blast+
qed

lemma merge_free_regions:
  assumes "free_table F" "0 < fr_size r" "fspan r \<inter> slot_bytes fspan F = {}" "set idxs \<subseteq> {..<length F}"
    and "foldl merge_region (F, r) idxs = (F', r')"
  shows "free_table F' \<and> 0 < fr_size r' \<and> fspan r' \<inter> slot_bytes fspan F' = {} \<and> length F' = length F \<and>
    slot_bytes fspan F' \<union> fspan r' = slot_bytes fspan F \<union> fspan r \<and> (None \<in> set F \<longrightarrow> None \<in> set F')"
  using assms
proof (induction idxs arbitrary: F r)
  case (Cons i idxs)
  obtain F1 r1 where s1: "merge_region (F, r) i = (F1, r1)" by (cases "merge_region (F, r) i")
  have i: "i < length F" using Cons.prems(4) by simp
  note step = merge_region_step [OF Cons.prems(1-3) i s1]
  show ?case using Cons.IH [of F1 r1] step Cons.prems(4,5) s1 by auto
qed simp

text \<open>
  Inserting a region changes the free table only. The new free offsets are the old ones and the
  region, unless the table is full; then nothing but these can be free.
\<close>

lemma insert_free_region_spec:
  assumes F: "free_table (mm_free_regions s)" and r: "fspan r \<inter> free_bytes s = {}"
  obtains F' where "insert_free_region s r = s\<lparr>mm_free_regions := F'\<rparr>" "free_table F'" "length F' = length (mm_free_regions s)"
    "slot_bytes fspan F' \<subseteq> free_bytes s \<union> fspan r"
    "None \<in> set (mm_free_regions s) \<Longrightarrow> slot_bytes fspan F' = free_bytes s \<union> fspan r"
proof (cases "fr_size r = 0")
  case True
  then have "insert_free_region s r = s\<lparr>mm_free_regions := mm_free_regions s\<rparr>" "fspan r = {}"
    by (simp_all add: insert_free_region_def fr_end_def)
  then show thesis using F by (intro that [of "mm_free_regions s"]) (auto simp: free_bytes_def)
next
  case False
  let ?F = "mm_free_regions s"
  obtain F1 r1 where fold: "foldl merge_region (?F, r) [0..<length ?F] = (F1, r1)" by (cases "foldl merge_region (?F, r) [0..<length ?F]")
  have m: "free_table F1 \<and> 0 < fr_size r1 \<and> fspan r1 \<inter> slot_bytes fspan F1 = {} \<and> length F1 = length ?F \<and>
    slot_bytes fspan F1 \<union> fspan r1 = slot_bytes fspan ?F \<union> fspan r \<and> (None \<in> set ?F \<longrightarrow> None \<in> set F1)"
    using False r by (intro merge_free_regions [OF F _ _ _ fold]) (auto simp: free_bytes_def)
  show thesis
  proof (cases "free_slot F1")
    case None
    then show thesis using m fold False free_slot_None_iff [of F1]
      by (intro that [of F1]) (auto simp: insert_free_region_def free_bytes_def)
  next
    case (Some i)
    note fs = free_slot_SomeD [OF Some]
    have dis: "disjoint_slots fspan F1" using m by (simp add: free_table_def)
    note put = disjoint_slots_put [OF dis fs(1), of r1]
    have "free_table (F1[i := Some r1])"
      using put(1) fs m by (auto simp: free_table_def dest: set_update_subset_insert [THEN subsetD])
    then show thesis
      using put fs m fold False Some by (intro that [of "F1[i := Some r1]"]) (auto simp: insert_free_region_def free_bytes_def)
  qed
qed

section \<open>The invariant\<close>

definition mm_ok :: "MemoryManager \<Rightarrow> bool" where
  "mm_ok s \<longleftrightarrow>
     disjoint_slots aspan (mm_allocations s) \<and> (\<forall>r. Some r \<in> set (mm_allocations s) \<longrightarrow> 0 < ar_size r) \<and>
     free_table (mm_free_regions s) \<and> live_bytes s \<inter> free_bytes s = {} \<and>
     live_bytes s \<union> free_bytes s \<subseteq> {..<mm_bump_offset s} \<and> mm_bump_offset s \<le> mm_capacity s \<and>
     base_address s + mm_capacity s < 2 ^ 64 \<and>
     mm_allocated_bytes s = card (live_bytes s) \<and> mm_allocated_bytes s \<le> mm_peak_bytes s"

lemma mm_okD:
  assumes "mm_ok s"
  shows "disjoint_slots aspan (mm_allocations s)" "Some r \<in> set (mm_allocations s) \<Longrightarrow> 0 < ar_size r"
    "free_table (mm_free_regions s)" "live_bytes s \<inter> free_bytes s = {}" "live_bytes s \<subseteq> {..<mm_bump_offset s}"
    "free_bytes s \<subseteq> {..<mm_bump_offset s}" "mm_bump_offset s \<le> mm_capacity s" "base_address s + mm_capacity s < 2 ^ 64"
    "mm_allocated_bytes s = card (live_bytes s)" "mm_allocated_bytes s \<le> mm_peak_bytes s"
  using assms unfolding mm_ok_def by simp_all

lemma live_bytes_finite: "mm_ok s \<Longrightarrow> finite (live_bytes s)"
  using mm_okD(5) finite_subset by blast

lemma mm_fields [simp]:
  "mm_capacity (s\<lparr>mm_free_regions := F\<rparr>) = mm_capacity s" "base_address (s\<lparr>mm_free_regions := F\<rparr>) = base_address s"
  "mm_capacity (s\<lparr>mm_bump_offset := n\<rparr>) = mm_capacity s" "base_address (s\<lparr>mm_bump_offset := n\<rparr>) = base_address s"
  "mm_capacity (s\<lparr>mm_allocations := A\<rparr>) = mm_capacity s" "base_address (s\<lparr>mm_allocations := A\<rparr>) = base_address s"
  "mm_capacity (s\<lparr>mm_allocated_bytes := n\<rparr>) = mm_capacity s" "base_address (s\<lparr>mm_allocated_bytes := n\<rparr>) = base_address s"
  "mm_capacity (s\<lparr>mm_peak_bytes := n\<rparr>) = mm_capacity s" "base_address (s\<lparr>mm_peak_bytes := n\<rparr>) = base_address s"
  "live_bytes (s\<lparr>mm_free_regions := F\<rparr>) = live_bytes s" "live_bytes (s\<lparr>mm_bump_offset := n\<rparr>) = live_bytes s"
  "live_bytes (s\<lparr>mm_allocated_bytes := n\<rparr>) = live_bytes s" "live_bytes (s\<lparr>mm_peak_bytes := n\<rparr>) = live_bytes s"
  "free_bytes (s\<lparr>mm_bump_offset := n\<rparr>) = free_bytes s" "free_bytes (s\<lparr>mm_allocations := A\<rparr>) = free_bytes s"
  "free_bytes (s\<lparr>mm_allocated_bytes := n\<rparr>) = free_bytes s" "free_bytes (s\<lparr>mm_peak_bytes := n\<rparr>) = free_bytes s"
  "free_bytes (s\<lparr>mm_free_regions := F\<rparr>) = slot_bytes fspan F" "live_bytes (s\<lparr>mm_allocations := A\<rparr>) = slot_bytes aspan A"
  by (simp_all add: mm_capacity_def base_address_def live_bytes_def free_bytes_def split: BackingStore.splits)

lemma mm_new_ok: "a + n < 2 ^ 64 \<Longrightarrow> mm_ok (mm_new a n k)"
  by (simp add: mm_ok_def mm_new_def free_table_def live_bytes_def free_bytes_def mm_capacity_def base_address_def)

text \<open>
  A reservation: only the free table and the bump pointer change, and the block is disjoint from
  everything that is live or free, below the bump pointer, and aligned as an address.
\<close>

definition reserved :: "MemoryManager \<Rightarrow> nat \<Rightarrow> nat \<Rightarrow> MemoryManager \<Rightarrow> nat \<Rightarrow> bool" where
  "reserved s len align s' off \<longleftrightarrow>
     (\<exists>F b. s' = s\<lparr>mm_free_regions := F, mm_bump_offset := b\<rparr> \<and> mm_bump_offset s \<le> b) \<and> mm_ok s' \<and>
     {off..<off + len} \<inter> (live_bytes s \<union> free_bytes s') = {} \<and> off + len \<le> mm_bump_offset s' \<and>
     (base_address s + off) mod align = 0"

lemma mm_ok_free_table:
  assumes "mm_ok s" "free_table F" "slot_bytes fspan F \<subseteq> free_bytes s" "mm_bump_offset s \<le> b" "b \<le> mm_capacity s"
  shows "mm_ok (s\<lparr>mm_free_regions := F, mm_bump_offset := b\<rparr>)"
  using assms unfolding mm_ok_def by auto

text \<open>Cutting a block out of a free region gives back what is before and after it.\<close>

lemma cut_region:
  assumes ok: "mm_ok s" and i: "i < length (mm_free_regions s)" "mm_free_regions s ! i = Some r"
    and lo: "fr_offset r \<le> a" and hi: "a + len \<le> fr_end r"
    and s1: "s1 = s\<lparr>mm_free_regions := (mm_free_regions s)[i := None]\<rparr>"
    and s2: "s2 = (if a > fr_offset r then insert_free_region s1 (region (fr_offset r) (a - fr_offset r)) else s1)"
    and s3: "s3 = (if a + len < fr_end r then insert_free_region s2 (region (a + len) (fr_end r - (a + len))) else s2)"
  shows "\<exists>F. s3 = s\<lparr>mm_free_regions := F\<rparr> \<and> free_table F \<and> slot_bytes fspan F \<subseteq> free_bytes s - {a..<a + len}"
proof -
  let ?F = "mm_free_regions s" and ?before = "{fr_offset r..<a}" and ?after = "{a + len..<fr_end r}"
  note d = mm_okD [OF ok]
  have dis: "disjoint_slots fspan ?F" using d(3) by (simp add: free_table_def)
  have mem: "fspan r \<subseteq> free_bytes s"
    using slot_bytes_member [of r ?F fspan] i nth_mem [OF i(1)] by (simp add: free_bytes_def)
  have b1: "slot_bytes fspan (?F[i := None]) = free_bytes s - fspan r"
    using slot_bytes_clear [OF dis i] by (simp add: free_bytes_def)
  have t1: "free_table (?F[i := None])"
    using disjoint_slots_clear [OF dis] d(3) by (auto simp: free_table_def dest: set_update_subset_insert [THEN subsetD])
  obtain F2 where F2: "s2 = s\<lparr>mm_free_regions := F2\<rparr>" "free_table F2" "slot_bytes fspan F2 \<subseteq> (free_bytes s - fspan r) \<union> ?before"
  proof (cases "a > fr_offset r")
    case True
    have dj: "fspan (region (fr_offset r) (a - fr_offset r)) \<inter> free_bytes s1 = {}" using b1 hi by (auto simp: s1)
    show thesis
      by (rule insert_free_region_spec [OF _ dj]) (use t1 b1 True s2 that in \<open>auto simp: s1\<close>)
  next
    case False
    then show thesis using that [of "?F[i := None]"] s2 s1 t1 b1 by auto
  qed
  have rest: "X \<subseteq> free_bytes s - {a..<a + len}" if "X \<subseteq> (free_bytes s - fspan r) \<union> ?before \<union> ?after" for X
  proof -
    have "?before \<subseteq> fspan r - {a..<a + len}" "?after \<subseteq> fspan r - {a..<a + len}" "{a..<a + len} \<subseteq> fspan r" using lo hi by auto
    then show ?thesis using that mem by blast
  qed
  show ?thesis
  proof (cases "a + len < fr_end r")
    case True
    have dj: "fspan (region (a + len) (fr_end r - (a + len))) \<inter> free_bytes s2 = {}" using F2(3) True lo by (auto simp: F2(1))
    obtain F3 where "insert_free_region s2 (region (a + len) (fr_end r - (a + len))) = s2\<lparr>mm_free_regions := F3\<rparr>"
      "free_table F3" "slot_bytes fspan F3 \<subseteq> free_bytes s2 \<union> fspan (region (a + len) (fr_end r - (a + len)))"
      by (rule insert_free_region_spec [OF _ dj]) (use F2 in auto)
    moreover from this(3) F2(3) True have "slot_bytes fspan F3 \<subseteq> (free_bytes s - fspan r) \<union> ?before \<union> ?after" by (auto simp: F2(1))
    ultimately show ?thesis using F2(1) s3 True rest by (intro exI [of _ F3]) auto
  next
    case False
    then show ?thesis using F2 s3 rest [of "slot_bytes fspan F2"] by (intro exI [of _ F2]) auto
  qed
qed

lemma reserve_loop_spec:
  assumes ok: "mm_ok s" and idxs: "set idxs \<subseteq> {..<length (mm_free_regions s)}"
  shows "(\<exists>s' off. reserve_loop s len align idxs = (s', Inr off) \<and> reserved s len align s' off) \<or> reserve_loop s len align idxs = (s, Inl ())"
  using idxs
proof (induction idxs)
  case (Cons i idxs)
  have i: "i < length (mm_free_regions s)" using Cons.prems by simp
  show ?case
  proof (cases "mm_free_regions s ! i")
    case None
    then show ?thesis using Cons by simp
  next
    case (Some r)
    show ?thesis
    proof (cases "\<exists>a. aligned_heap_offset s (fr_offset r) align = Some a \<and> checked_add a len = Some (a + len) \<and> a + len \<le> fr_end r")
      case False
      then show ?thesis using Cons Some by (auto simp: checked_add_def split: option.splits)
    next
      case True
      then obtain a where a: "aligned_heap_offset s (fr_offset r) align = Some a" "checked_add a len = Some (a + len)" "a + len \<le> fr_end r" by blast
      note al = aligned_heap_offset_Some [OF a(1)]
      obtain F where F: "reserve_loop s len align (i # idxs) = (s\<lparr>mm_free_regions := F\<rparr>, Inr a)" "free_table F"
        "slot_bytes fspan F \<subseteq> free_bytes s - {a..<a + len}"
        using cut_region [OF ok i Some al(2) a(3) refl refl refl] Some a by (auto simp: Let_def)
      have sub: "fspan r \<subseteq> free_bytes s"
        using slot_bytes_member [of r "mm_free_regions s" fspan] Some nth_mem [OF i] by (simp add: free_bytes_def)
      note d = mm_okD [OF ok]
      have "fr_end r \<le> mm_bump_offset s"
      proof -
        have "fr_end r - 1 \<in> fspan r"
          using d(3) Some nth_mem [OF i] by (auto simp: free_table_def fr_end_def)
        then have "fr_end r - 1 < mm_bump_offset s" using sub d(6) by blast
        then show ?thesis by simp
      qed
      moreover have "mm_ok (s\<lparr>mm_free_regions := F, mm_bump_offset := mm_bump_offset s\<rparr>)"
        using F(3) by (intro mm_ok_free_table [OF ok F(2)]) (auto simp: d(7))
      moreover have "{a..<a + len} \<inter> live_bytes s = {}"
        using sub d(4) al(2) a(3) by fastforce
      moreover have "s\<lparr>mm_free_regions := F\<rparr> = s\<lparr>mm_free_regions := F, mm_bump_offset := mm_bump_offset s\<rparr>" by simp
      ultimately have "reserved s len align (s\<lparr>mm_free_regions := F\<rparr>) a"
        using F(3) al(3) a(3) unfolding reserved_def by (auto intro!: exI [of _ F] exI [of _ "mm_bump_offset s"])
      then show ?thesis using F(1) by blast
    qed
  qed
qed simp

text \<open>Every reservation is fresh, aligned and below the capacity; a failed one changes nothing.\<close>

lemma reserve_spec:
  assumes ok: "mm_ok s"
  shows "(\<exists>s' off. reserve s len align = (s', Inr off) \<and> reserved s len align s' off) \<or> reserve s len align = (s, Inl ())"
proof -
  note d = mm_okD [OF ok]
  consider (free) s' off where "reserve_from_free_list s len align = (s', Inr off)" "reserved s len align s' off"
    | (bump) "reserve_from_free_list s len align = (s, Inl ())"
    using reserve_loop_spec [OF ok, of "[0..<length (mm_free_regions s)]" len align]
    by (auto simp: reserve_from_free_list_def atLeast0LessThan)
  then show ?thesis
  proof cases
    case free
    then show ?thesis by (simp add: reserve_def)
  next
    case bump
    show ?thesis
    proof (cases "\<exists>a. aligned_heap_offset s (mm_bump_offset s) align = Some a \<and> checked_add a len = Some (a + len) \<and> a + len \<le> mm_capacity s")
      case False
      then show ?thesis using bump
        by (cases "aligned_heap_offset s (mm_bump_offset s) align") (auto simp: reserve_def checked_add_def)
    next
      case True
      then obtain a where a: "aligned_heap_offset s (mm_bump_offset s) align = Some a" "checked_add a len = Some (a + len)" "a + len \<le> mm_capacity s" by blast
      note al = aligned_heap_offset_Some [OF a(1)]
      have "mm_ok (s\<lparr>mm_free_regions := mm_free_regions s, mm_bump_offset := a + len\<rparr>)"
        using al(2) a(3) by (intro mm_ok_free_table [OF ok d(3)]) (auto simp: free_bytes_def)
      moreover have "{a..<a + len} \<inter> (live_bytes s \<union> free_bytes s) = {}" using d(5,6) al(2) by fastforce
      ultimately have "reserved s len align (s\<lparr>mm_bump_offset := a + len\<rparr>) a"
        using al(2,3) unfolding reserved_def by (auto intro!: exI [of _ "mm_free_regions s"] exI [of _ "a + len"])
      then show ?thesis using bump a by (simp add: reserve_def)
    qed
  qed
qed

lemma reservedD:
  assumes "reserved s len align s' off"
  shows "mm_ok s'" "mm_allocations s' = mm_allocations s" "mm_backing s' = mm_backing s" "mm_allocated_bytes s' = mm_allocated_bytes s"
    "mm_peak_bytes s' = mm_peak_bytes s" "base_address s' = base_address s" "mm_capacity s' = mm_capacity s" "live_bytes s' = live_bytes s"
    "{off..<off + len} \<inter> live_bytes s' = {}" "{off..<off + len} \<inter> free_bytes s' = {}" "off + len \<le> mm_bump_offset s'"
    "(base_address s + off) mod align = 0" "mm_heap_address s' = mm_heap_address s" "mm_heap_size s' = mm_heap_size s"
    "length (mm_allocations s') = length (mm_allocations s)"
  using assms unfolding reserved_def by auto

section \<open>Recording and releasing\<close>

text \<open>A reserved block becomes live.\<close>

lemma record_reserved:
  assumes ok: "mm_ok s" and r: "aspan r \<inter> live_bytes s = {}" "aspan r \<inter> free_bytes s = {}" "ar_offset r + ar_size r \<le> mm_bump_offset s" "0 < ar_size r"
    and rec: "record_allocation s r = (s1, ok_unit)" and s': "s' = update_stats_on_alloc s1 (ar_size r)"
  shows "mm_ok s'" "\<exists>i. free_slot (mm_allocations s) = Some i \<and> mm_allocations s' = (mm_allocations s)[i := Some r]"
    "live_bytes s' = live_bytes s \<union> aspan r" "mm_backing s' = mm_backing s" "mm_heap_address s' = mm_heap_address s"
    "mm_heap_size s' = mm_heap_size s"
proof -
  note d = mm_okD [OF ok]
  obtain i where f: "free_slot (mm_allocations s) = Some i" and s1: "s1 = s\<lparr>mm_allocations := (mm_allocations s)[i := Some r]\<rparr>"
    using rec by (auto simp: record_allocation_def split: option.splits)
  note i = free_slot_SomeD(1,2) [OF f]
  note put = disjoint_slots_put [OF d(1) i, of r]
  have live: "slot_bytes aspan ((mm_allocations s)[i := Some r]) = live_bytes s \<union> aspan r"
    using put(2) r(1) by (simp add: live_bytes_def)
  have card: "card (live_bytes s \<union> aspan r) = mm_allocated_bytes s + ar_size r"
    using r(1) d(9) live_bytes_finite [OF ok] by (subst card_Un_disjoint) auto
  have "live_bytes s \<union> aspan r \<subseteq> {..<mm_bump_offset s}" using d(5) r(3) by auto
  then have "card (live_bytes s \<union> aspan r) \<le> mm_bump_offset s" using card_mono [of "{..<mm_bump_offset s}"] by auto
  then have small: "mm_allocated_bytes s + ar_size r < 2 ^ 64" using card d(7,8) by linarith
  have allocs: "mm_allocations s' = (mm_allocations s)[i := Some r]" by (simp add: s' s1 update_stats_on_alloc_def Let_def)
  with f show "\<exists>i. free_slot (mm_allocations s) = Some i \<and> mm_allocations s' = (mm_allocations s)[i := Some r]" by blast
  show "live_bytes s' = live_bytes s \<union> aspan r" using live allocs by (simp add: live_bytes_def)
  show "mm_backing s' = mm_backing s" "mm_heap_address s' = mm_heap_address s" "mm_heap_size s' = mm_heap_size s"
    by (simp_all add: s' s1 update_stats_on_alloc_def Let_def)
  have pos: "\<forall>x. Some x \<in> set ((mm_allocations s)[i := Some r]) \<longrightarrow> 0 < ar_size x"
    using d(2) r(4) by (auto dest: set_update_subset_insert [THEN subsetD])
  show "mm_ok s'"
    using d put(1) r pos live card small
    unfolding mm_ok_def s' s1 update_stats_on_alloc_def Let_def by (auto simp: live_bytes_def)
qed

text \<open>A live block, or its tail, is given back.\<close>

lemma shrink_live:
  assumes ok: "mm_ok s" and i: "i < length (mm_allocations s)" "mm_allocations s ! i = Some r"
    and keep: "case y of None \<Rightarrow> n = 0 | Some x \<Rightarrow> aspan x = {ar_offset r..<ar_offset r + n} \<and> 0 < n \<and> ar_size x = n" and n: "n < ar_size r"
    and s1: "s1 = s\<lparr>mm_allocations := (mm_allocations s)[i := y]\<rparr>"
    and s': "s' = update_stats_on_free (insert_free_region s1 (region (ar_offset r + n) (ar_size r - n))) (ar_size r - n)"
  shows "mm_ok s'" "mm_allocations s' = (mm_allocations s)[i := y]" "live_bytes s' = live_bytes s - {ar_offset r + n..<ar_offset r + ar_size r}"
    "mm_backing s' = mm_backing s" "mm_heap_address s' = mm_heap_address s" "mm_heap_size s' = mm_heap_size s"
    "None \<in> set (mm_free_regions s) \<Longrightarrow> free_bytes s' = free_bytes s \<union> {ar_offset r + n..<ar_offset r + ar_size r}"
proof -
  let ?A = "mm_allocations s" and ?gone = "{ar_offset r + n..<ar_offset r + ar_size r}"
  note d = mm_okD [OF ok]
  have mem: "Some r \<in> set ?A" using i nth_mem by metis
  have sub: "aspan r \<subseteq> live_bytes s" using slot_bytes_member [OF mem, of aspan] by (simp add: live_bytes_def)
  have b0: "slot_bytes aspan (?A[i := None]) = live_bytes s - aspan r"
    using slot_bytes_clear [OF d(1) i] by (simp add: live_bytes_def)
  have A': "disjoint_slots aspan (?A[i := y]) \<and> slot_bytes aspan (?A[i := y]) = live_bytes s - ?gone"
  proof (cases y)
    case None
    then show ?thesis using keep b0 disjoint_slots_clear [OF d(1)] by simp
  next
    case (Some x)
    then have x: "aspan x = {ar_offset r..<ar_offset r + n}" using keep by auto
    have upd: "?A[i := y] = (?A[i := None])[i := Some x]" using Some by simp
    have dj: "aspan x \<inter> slot_bytes aspan (?A[i := None]) = {}" using x b0 n by auto
    have "slot_bytes aspan (?A[i := y]) = (live_bytes s - aspan r) \<union> aspan x"
      using disjoint_slots_put(2) [OF disjoint_slots_clear [OF d(1)] _ _ dj, where i = i] i(1) b0 by (simp add: upd)
    moreover have "(live_bytes s - aspan r) \<union> aspan x = live_bytes s - ?gone" using x n sub by fastforce
    ultimately show ?thesis
      using disjoint_slots_put(1) [OF disjoint_slots_clear [OF d(1)] _ _ dj, where i = i] i(1) by (simp add: upd)
  qed
  have gone: "?gone \<subseteq> live_bytes s" using sub by auto
  have reg: "fspan (region (ar_offset r + n) (ar_size r - n)) = ?gone" using n by simp
  have fr: "free_bytes s1 = free_bytes s" by (simp add: s1)
  have dj: "fspan (region (ar_offset r + n) (ar_size r - n)) \<inter> free_bytes s1 = {}"
    unfolding reg fr using gone d(4) by blast
  obtain F where F: "insert_free_region s1 (region (ar_offset r + n) (ar_size r - n)) = s1\<lparr>mm_free_regions := F\<rparr>" "free_table F"
    "slot_bytes fspan F \<subseteq> free_bytes s1 \<union> fspan (region (ar_offset r + n) (ar_size r - n))"
    "None \<in> set (mm_free_regions s1) \<Longrightarrow> slot_bytes fspan F = free_bytes s1 \<union> fspan (region (ar_offset r + n) (ar_size r - n))"
    by (rule insert_free_region_spec [OF _ dj]) (use d(3) in \<open>simp_all add: s1\<close>)
  have s'_eq: "s' = s\<lparr>mm_allocations := ?A[i := y], mm_free_regions := F, mm_allocated_bytes := mm_allocated_bytes s - (ar_size r - n)\<rparr>"
    unfolding s' F(1) update_stats_on_free_def by (simp add: s1)
  have Fsub: "slot_bytes fspan F \<subseteq> free_bytes s \<union> ?gone" using F(3) unfolding reg fr .
  have card: "card (live_bytes s - ?gone) = mm_allocated_bytes s - (ar_size r - n)"
    using gone d(9) by (subst card_Diff_subset) auto
  show "mm_allocations s' = ?A[i := y]" "mm_backing s' = mm_backing s" "mm_heap_address s' = mm_heap_address s" "mm_heap_size s' = mm_heap_size s"
    "live_bytes s' = live_bytes s - ?gone"
    using A' by (simp_all add: s'_eq live_bytes_def)
  show "None \<in> set (mm_free_regions s) \<Longrightarrow> free_bytes s' = free_bytes s \<union> ?gone"
    using F(4) n unfolding s'_eq fr reg by (simp add: s1)
  have pos: "\<forall>x. Some x \<in> set (?A[i := y]) \<longrightarrow> 0 < ar_size x"
    using d(2) keep by (auto dest!: set_update_subset_insert [THEN subsetD] split: option.splits)
  have "(live_bytes s - ?gone) \<inter> slot_bytes fspan F = {}" using d(4) Fsub by blast
  moreover have "(live_bytes s - ?gone) \<union> slot_bytes fspan F \<subseteq> {..<mm_bump_offset s}" using d(5,6) Fsub gone by blast
  ultimately show "mm_ok s'"
    using d(7-10) A' F(2) pos card unfolding mm_ok_def s'_eq by simp
qed

text \<open>What a successful release has removed.\<close>

definition released :: "MemoryManager \<Rightarrow> nat \<Rightarrow> AllocationRecord \<Rightarrow> MemoryManager \<Rightarrow> bool" where
  "released s i r s' \<longleftrightarrow>
     i < length (mm_allocations s) \<and> mm_allocations s ! i = Some r \<and> mm_ok s' \<and>
     mm_allocations s' = (mm_allocations s)[i := None] \<and> live_bytes s' = live_bytes s - aspan r \<and>
     mm_backing s' = mm_backing s \<and> mm_heap_address s' = mm_heap_address s \<and> mm_heap_size s' = mm_heap_size s \<and>
     (None \<in> set (mm_free_regions s) \<longrightarrow> free_bytes s' = free_bytes s \<union> aspan r)"

lemma release_record:
  assumes ok: "mm_ok s" and i: "i < length (mm_allocations s)" "mm_allocations s ! i = Some r"
  shows "released s i r (update_stats_on_free (insert_free_region (s\<lparr>mm_allocations := (mm_allocations s)[i := None]\<rparr>)
     (region (ar_offset r) (ar_size r))) (ar_size r))"
proof -
  have "0 < ar_size r" using mm_okD(2) [OF ok] i nth_mem by metis
  from shrink_live [OF ok i _ this refl refl, of None] i show ?thesis by (simp add: released_def)
qed

lemma mm_release_spec:
  assumes ok: "mm_ok s"
  obtains (refused) "mm_release s owner ptr kind minimum = (s, False)"
    | (taken) i r s' where "mm_release s owner ptr kind minimum = (s', True)" "released s i r s'" "ar_owner r = owner"
      "ptr = base_address s + ar_offset r" "\<And>k. kind = Some k \<Longrightarrow> ar_kind r = k" "\<And>n. minimum = Some n \<Longrightarrow> n \<le> ar_size r"
proof (cases "offset_for_ptr s ptr")
  case None
  then show thesis using refused by (simp add: mm_release_def)
next
  case (Some off)
  have ptr: "ptr = base_address s + off" using Some by (auto simp: offset_for_ptr_def Let_def split: if_splits)
  show thesis
  proof (cases "find_slot (\<lambda>r. ar_owner r = owner \<and> ar_offset r = off) (mm_allocations s)")
    case None
    then show thesis using refused Some by (simp add: mm_release_def remove_allocation_def)
  next
    case (Some i)
    then obtain r where i: "i < length (mm_allocations s)" "mm_allocations s ! i = Some r" "ar_owner r = owner" "ar_offset r = off"
      using find_slot_SomeD(1,2) [OF Some] by blast
    let ?bad = "(case kind of Some k \<Rightarrow> ar_kind r \<noteq> k | None \<Rightarrow> False) \<or> (case minimum of Some n \<Rightarrow> ar_size r < n | None \<Rightarrow> False)"
    show thesis
    proof (cases ?bad)
      case True
      then have "remove_allocation s owner off kind minimum = (s, Inl ())"
        using Some i by (auto simp: remove_allocation_def)
      then show thesis using refused \<open>offset_for_ptr s ptr = Some off\<close> by (simp add: mm_release_def)
    next
      case False
      then have "mm_release s owner ptr kind minimum =
          (update_stats_on_free (insert_free_region (s\<lparr>mm_allocations := (mm_allocations s)[i := None]\<rparr>)
             (region (ar_offset r) (ar_size r))) (ar_size r), True)"
        using Some \<open>offset_for_ptr s ptr = Some off\<close> i by (simp add: mm_release_def remove_allocation_def)
      then show thesis
        using release_record [OF ok i(1,2)] i ptr False by (intro taken) (auto split: option.splits)
    qed
  qed
qed

lemma releasedD:
  assumes "released s i r s'"
  shows "i < length (mm_allocations s)" "mm_allocations s ! i = Some r" "mm_ok s'" "mm_allocations s' = (mm_allocations s)[i := None]"
    "live_bytes s' = live_bytes s - aspan r" "mm_backing s' = mm_backing s" "base_address s' = base_address s" "mm_capacity s' = mm_capacity s"
    "length (mm_allocations s') = length (mm_allocations s)"
  using assms unfolding released_def by (auto simp: base_address_def mm_capacity_def split: BackingStore.splits)

lemma release_slots_spec:
  assumes "mm_ok s" "set idxs \<subseteq> {..<length (mm_allocations s)}"
  shows "mm_ok (foldl (release_slot owner) s idxs) \<and> mm_backing (foldl (release_slot owner) s idxs) = mm_backing s \<and>
    length (mm_allocations (foldl (release_slot owner) s idxs)) = length (mm_allocations s) \<and>
    base_address (foldl (release_slot owner) s idxs) = base_address s \<and>
    (\<forall>j < length (mm_allocations s). mm_allocations (foldl (release_slot owner) s idxs) ! j =
       (case mm_allocations s ! j of Some r \<Rightarrow> if j \<in> set idxs \<and> ar_owner r = owner then None else Some r | None \<Rightarrow> None))"
  using assms
proof (induction idxs arbitrary: s)
  case Nil
  then show ?case by (auto split: option.splits)
next
  case (Cons i idxs)
  have i: "i < length (mm_allocations s)" using Cons.prems(2) by simp
  show ?case
  proof (cases "\<exists>r. mm_allocations s ! i = Some r \<and> ar_owner r = owner")
    case True
    then obtain r where r: "mm_allocations s ! i = Some r" "ar_owner r = owner" by blast
    let ?s = "release_slot owner s i"
    have "released s i r ?s" using release_record [OF Cons.prems(1) i r(1)] r by (simp add: release_slot_def)
    note rel = releasedD [OF this]
    have idxs: "set idxs \<subseteq> {..<length (mm_allocations ?s)}" using Cons.prems(2) rel(9) by simp
    have "mm_allocations ?s ! j = (if j = i then None else mm_allocations s ! j)" if "j < length (mm_allocations s)" for j
      using rel(4) that i by simp
    then show ?thesis using Cons.IH [OF rel(3) idxs] rel(6-9) r by (auto split: option.splits)
  next
    case False
    then have "release_slot owner s i = s" by (auto simp: release_slot_def split: option.splits)
    then show ?thesis using Cons False by (auto split: option.splits)
  qed
qed

lemma mm_release_process_spec:
  assumes "mm_ok s"
  shows "mm_ok (mm_release_process s owner)" "mm_allocations (mm_release_process s owner) = clear_slots (\<lambda>r. ar_owner r = owner) (mm_allocations s)"
    "mm_backing (mm_release_process s owner) = mm_backing s" "base_address (mm_release_process s owner) = base_address s"
proof -
  have sub: "set [0..<length (mm_allocations s)] \<subseteq> {..<length (mm_allocations s)}" by auto
  note sp = release_slots_spec [OF assms sub, of owner, folded mm_release_process_def]
  show "mm_ok (mm_release_process s owner)" "mm_backing (mm_release_process s owner) = mm_backing s"
    "base_address (mm_release_process s owner) = base_address s" using sp by blast+
  show "mm_allocations (mm_release_process s owner) = clear_slots (\<lambda>r. ar_owner r = owner) (mm_allocations s)"
    using sp by (intro nth_equalityI) (auto simp: clear_slots_def split: option.splits)
qed

end
