(* ===== verification/Heap_Allocation.thy ===== *)
theory Heap_Allocation
  imports Kernel_Heap Heap_Safety "HOL-Library.Code_Target_Nat"
begin

text \<open>
  What the allocation functions of \<open>src/src/kernel/memory.rs\<close> promise their callers: blocks are
  disjoint and inside the heap, pointers are aligned, only the owner of a block can give it back, and
  \<open>realloc\<close> keeps the contents. None of this depends on how pages are committed.
\<close>

section \<open>Backing\<close>

text \<open>Growing the committed part changes the paging state, the layout, and two counters of the manager.\<close>

definition rebacked :: "KernelMemory \<Rightarrow> KernelMemory \<Rightarrow> bool" where
  "rebacked km km' \<longleftrightarrow>
     (\<exists>B. km_manager km' = (km_manager km)\<lparr>mm_backing := B\<rparr>) \<and> km_bytes km' = km_bytes km \<and>
     mm_capacity (km_manager km') = mm_capacity (km_manager km) \<and> base_address (km_manager km') = base_address (km_manager km)"

lemma grow_committed_manager:
  "grow_committed km base cap cur tgt prot = (km', res) \<Longrightarrow> km_manager km' = km_manager km \<and> km_bytes km' = km_bytes km"
  by (auto simp: grow_committed_def Let_def split: if_splits option.splits prod.splits sum.splits)

lemma ensure_backing_rebacked: "ensure_backing km off len prot = (km', res) \<Longrightarrow> rebacked km km'"
proof (cases "mm_backing (km_manager km)")
  case (BsVirtual base capacity committed frames)
  assume call: "ensure_backing km off len prot = (km', res)"
  have same: "rebacked km k" if "km_manager k = km_manager km" "km_bytes k = km_bytes km" for k
    using that unfolding rebacked_def by (auto intro: exI [of _ "mm_backing (km_manager km)"])
  have virt: "rebacked km (k\<lparr>km_manager := (km_manager k)\<lparr>mm_backing := BsVirtual base capacity c f\<rparr>\<rparr>)"
    if "km_manager k = km_manager km" "km_bytes k = km_bytes km" for k c f
    using that BsVirtual unfolding rebacked_def by (auto simp: mm_capacity_def base_address_def)
  show ?thesis
    using call BsVirtual same virt grow_committed_manager
    by (auto simp: ensure_backing_def split: option.splits if_splits prod.splits sum.splits)
qed (auto simp: ensure_backing_def rebacked_def intro: exI [of _ "mm_backing (km_manager km)"])

lemma mm_backing_fields [simp]:
  "live_bytes (s\<lparr>mm_backing := B\<rparr>) = live_bytes s" "free_bytes (s\<lparr>mm_backing := B\<rparr>) = free_bytes s"
  by (simp_all add: live_bytes_def free_bytes_def)

lemma rebacked_ok: "rebacked km km' \<Longrightarrow> mm_ok (km_manager km) \<Longrightarrow> mm_ok (km_manager km')"
  unfolding rebacked_def mm_ok_def by auto

lemma rebackedD:
  assumes "rebacked km km'"
  shows "mm_allocations (km_manager km') = mm_allocations (km_manager km)" "mm_free_regions (km_manager km') = mm_free_regions (km_manager km)"
    "mm_bump_offset (km_manager km') = mm_bump_offset (km_manager km)" "mm_allocated_bytes (km_manager km') = mm_allocated_bytes (km_manager km)"
    "mm_peak_bytes (km_manager km') = mm_peak_bytes (km_manager km)" "km_bytes km' = km_bytes km"
    "base_address (km_manager km') = base_address (km_manager km)" "mm_capacity (km_manager km') = mm_capacity (km_manager km)"
    "live_bytes (km_manager km') = live_bytes (km_manager km)" "free_bytes (km_manager km') = free_bytes (km_manager km)"
  using assms unfolding rebacked_def by auto

section \<open>Placing a block\<close>

text \<open>Nothing that a caller can observe has changed: the records, the statistics, the bytes.\<close>

definition same_allocations :: "KernelMemory \<Rightarrow> KernelMemory \<Rightarrow> bool" where
  "same_allocations km km' \<longleftrightarrow>
     mm_allocations (km_manager km') = mm_allocations (km_manager km) \<and>
     mm_allocated_bytes (km_manager km') = mm_allocated_bytes (km_manager km) \<and>
     mm_peak_bytes (km_manager km') = mm_peak_bytes (km_manager km) \<and> km_bytes km' = km_bytes km \<and>
     base_address (km_manager km') = base_address (km_manager km) \<and> mm_capacity (km_manager km') = mm_capacity (km_manager km)"

text \<open>A new block: fresh, aligned, inside the heap, recorded in a free slot; all other records stay.\<close>

definition placed :: "KernelMemory \<Rightarrow> AllocationRecord \<Rightarrow> nat \<Rightarrow> KernelMemory \<Rightarrow> bool" where
  "placed km r align km' \<longleftrightarrow>
     mm_ok (km_manager km') \<and> aspan r \<inter> live_bytes (km_manager km) = {} \<and>
     live_bytes (km_manager km') = live_bytes (km_manager km) \<union> aspan r \<and>
     ar_offset r + ar_size r \<le> mm_capacity (km_manager km) \<and> (base_address (km_manager km) + ar_offset r) mod align = 0 \<and>
     (\<exists>i. free_slot (mm_allocations (km_manager km)) = Some i \<and>
        mm_allocations (km_manager km') = (mm_allocations (km_manager km))[i := Some r]) \<and>
     km_bytes km' = km_bytes km \<and> base_address (km_manager km') = base_address (km_manager km) \<and>
     mm_capacity (km_manager km') = mm_capacity (km_manager km)"

text \<open>A reserved block is put back into the free table.\<close>

lemma give_back:
  assumes ok: "mm_ok s" and blk: "{off..<off + len} \<inter> live_bytes s = {}" "{off..<off + len} \<inter> free_bytes s = {}"
    and le: "off + len \<le> mm_bump_offset s"
  obtains F where "insert_free_region s (region off len) = s\<lparr>mm_free_regions := F\<rparr>" "mm_ok (s\<lparr>mm_free_regions := F\<rparr>)"
proof -
  note d = mm_okD [OF ok]
  have dj: "fspan (region off len) \<inter> free_bytes s = {}" using blk(2) by simp
  show thesis
  proof (rule insert_free_region_spec [OF d(3) dj])
    fix F assume F: "insert_free_region s (region off len) = s\<lparr>mm_free_regions := F\<rparr>" "free_table F"
      "slot_bytes fspan F \<subseteq> free_bytes s \<union> fspan (region off len)"
    then have sub: "slot_bytes fspan F \<subseteq> free_bytes s \<union> {off..<off + len}" by simp
    have "live_bytes s \<inter> slot_bytes fspan F = {}" using sub d(4) blk(1) by blast
    moreover have "{off..<off + len} \<subseteq> {..<mm_bump_offset s}" using le by auto
    then have "live_bytes s \<union> slot_bytes fspan F \<subseteq> {..<mm_bump_offset s}" using sub d(5,6) by blast
    ultimately have "mm_ok (s\<lparr>mm_free_regions := F\<rparr>)" using d F(2) unfolding mm_ok_def by simp
    with F(1) show thesis by (rule that)
  qed
qed

lemma place_allocation_cases:
  assumes ok: "mm_ok (km_manager km)" and len: "0 < len"
  obtains (fail) km' where "place_allocation km owner len align kind prot = (km', Inl ())" "mm_ok (km_manager km')" "same_allocations km km'"
    | (placed) km' off r where "place_allocation km owner len align kind prot = (km', Inr (base_address (km_manager km) + off))"
      "r = \<lparr>ar_owner = owner, ar_offset = off, ar_size = len, ar_kind = kind, ar_protection = prot\<rparr>" "placed km r align km'"
proof -
  consider (none) "reserve (km_manager km) len align = (km_manager km, Inl ())"
    | (res) mm off where "reserve (km_manager km) len align = (mm, Inr off)" "reserved (km_manager km) len align mm off"
    using reserve_spec [OF ok, of len align] by blast
  then show thesis
  proof cases
    case none
    then show thesis using ok by (intro fail [of km]) (simp_all add: place_allocation_def same_allocations_def)
  next
    case (res mm off)
    note rd = reservedD [OF res(2)]
    let ?km = "km\<lparr>km_manager := mm\<rparr>" and ?r = "\<lparr>ar_owner = owner, ar_offset = off, ar_size = len, ar_kind = kind, ar_protection = prot\<rparr>"
    obtain km1 rb where eb: "ensure_backing ?km off len prot = (km1, rb)" by (cases "ensure_backing ?km off len prot")
    have rb: "rebacked ?km km1" by (rule ensure_backing_rebacked [OF eb])
    note bd = rebackedD [OF rb]
    have ok1: "mm_ok (km_manager km1)" using rebacked_ok [OF rb] rd(1) by simp
    have blk: "{off..<off + len} \<inter> live_bytes (km_manager km1) = {}" "{off..<off + len} \<inter> free_bytes (km_manager km1) = {}"
      "off + len \<le> mm_bump_offset (km_manager km1)" using rd(9-11) bd by simp_all
    have undo: thesis if "place_allocation km owner len align kind prot =
        (km1\<lparr>km_manager := insert_free_region (km_manager km1) (region off len)\<rparr>, Inl ())"
      by (rule give_back [OF ok1 blk]) (use that rd bd in \<open>auto intro!: fail simp: same_allocations_def\<close>)
    show thesis
    proof (cases rb)
      case (Inl e)
      then show thesis using res(1) eb by (intro undo) (simp add: place_allocation_def)
    next
      case (Inr u)
      show thesis
      proof (cases "free_slot (mm_allocations (km_manager km1))")
        case None
        then show thesis using res(1) eb Inr by (intro undo) (simp add: place_allocation_def record_allocation_def)
      next
        case (Some i)
        obtain mm1 where rec: "record_allocation (km_manager km1) ?r = (mm1, ok_unit)" using Some by (simp add: record_allocation_def)
        let ?s = "update_stats_on_alloc mm1 len"
        note new = record_reserved [OF ok1 _ _ _ _ rec, of ?s]
        have fields: "base_address ?s = base_address (km_manager km)" "mm_capacity ?s = mm_capacity (km_manager km)"
          using new(4-6) blk len rd bd by (simp_all add: base_address_def mm_capacity_def split: BackingStore.splits)
        have "placed km ?r align (km1\<lparr>km_manager := ?s\<rparr>)"
          using new(1-3) blk len rd bd fields mm_okD(7) [OF ok1] unfolding placed_def by auto
        then show thesis
          using res(1) eb Inr rec fields by (intro placed [of _ off ?r]) (simp_all add: place_allocation_def ptr_for_offset_def Let_def)
      qed
    qed
  qed
qed

section \<open>Blocks by address\<close>

definition heap_block :: "KernelMemory \<Rightarrow> nat \<Rightarrow> AllocationRecord option" where
  "heap_block km = slot_lookup (\<lambda>r. base_address (km_manager km) + ar_offset r) (mm_allocations (km_manager km))"

lemma heap_unique:
  assumes ok: "mm_ok s"
  shows "unique_keys (\<lambda>r. b + ar_offset r) (mm_allocations s)"
  unfolding unique_keys_def
proof (intro allI impI)
  fix i j a c assume h: "i < length (mm_allocations s)" "j < length (mm_allocations s)" "mm_allocations s ! i = Some a"
    "mm_allocations s ! j = Some c" "b + ar_offset a = b + ar_offset c"
  have "Some a \<in> set (mm_allocations s)" "Some c \<in> set (mm_allocations s)" using h(1-4) nth_mem by metis+
  then have "0 < ar_size a" "0 < ar_size c" using mm_okD(2) [OF ok] by blast+
  then have "ar_offset a \<in> aspan a" "ar_offset a \<in> aspan c" using h(5) by simp_all
  with h(1-4) show "i = j" by (rule disjoint_slotsD [OF mm_okD(1) [OF ok]])
qed

lemma heap_block_iff:
  assumes "mm_ok (km_manager km)"
  shows "heap_block km p = Some r \<longleftrightarrow> Some r \<in> set (mm_allocations (km_manager km)) \<and> base_address (km_manager km) + ar_offset r = p"
  unfolding heap_block_def by (rule slot_lookup_eq_Some_iff [OF heap_unique [OF assms]])

lemma heap_blockD:
  assumes ok: "mm_ok (km_manager km)" and r: "heap_block km p = Some r"
  shows "0 < ar_size r" "base_address (km_manager km) \<le> p" "p + ar_size r \<le> base_address (km_manager km) + mm_capacity (km_manager km)"
    "aspan r \<subseteq> live_bytes (km_manager km)" "p = base_address (km_manager km) + ar_offset r"
proof -
  note d = mm_okD [OF ok]
  have mem: "Some r \<in> set (mm_allocations (km_manager km))" and p: "p = base_address (km_manager km) + ar_offset r"
    using r heap_block_iff [OF ok] by auto
  show pos: "0 < ar_size r" using d(2) mem .
  show "base_address (km_manager km) \<le> p" "p = base_address (km_manager km) + ar_offset r" using p by simp_all
  show sub: "aspan r \<subseteq> live_bytes (km_manager km)" using slot_bytes_member [OF mem, of aspan] by (simp add: live_bytes_def)
  have "ar_offset r + ar_size r - 1 \<in> aspan r" using pos by simp
  then have "ar_offset r + ar_size r - 1 < mm_bump_offset (km_manager km)" using sub d(5) by blast
  then show "p + ar_size r \<le> base_address (km_manager km) + mm_capacity (km_manager km)" using p d(7) pos by linarith
qed

lemma heap_blocks_disjoint:
  assumes ok: "mm_ok (km_manager km)" and r: "heap_block km p = Some r" "heap_block km q = Some r'" and ne: "p \<noteq> q"
  shows "{p..<p + ar_size r} \<inter> {q..<q + ar_size r'} = {}"
proof -
  have mem: "Some r \<in> set (mm_allocations (km_manager km))" "Some r' \<in> set (mm_allocations (km_manager km))"
    and p: "p = base_address (km_manager km) + ar_offset r" "q = base_address (km_manager km) + ar_offset r'"
    using r heap_block_iff [OF ok] by auto
  have "r \<noteq> r'" using ne p by auto
  then have "aspan r \<inter> aspan r' = {}" by (rule disjoint_slots_members [OF mm_okD(1) [OF ok] mem])
  then show ?thesis using p by auto
qed

lemma same_blocks: "same_allocations km km' \<Longrightarrow> heap_block km' = heap_block km"
  by (simp add: same_allocations_def heap_block_def)

lemma placed_blocks:
  assumes ok: "mm_ok (km_manager km)" and pl: "placed km r align km'"
  shows "heap_block km (base_address (km_manager km) + ar_offset r) = None"
    "heap_block km' = (heap_block km)(base_address (km_manager km) + ar_offset r \<mapsto> r)"
proof -
  obtain i where f: "free_slot (mm_allocations (km_manager km)) = Some i"
    and A: "mm_allocations (km_manager km') = (mm_allocations (km_manager km))[i := Some r]"
    using pl unfolding placed_def by blast
  have ok': "mm_ok (km_manager km')" and fresh: "aspan r \<inter> live_bytes (km_manager km) = {}"
    and base: "base_address (km_manager km') = base_address (km_manager km)" using pl unfolding placed_def by auto
  have "Some r \<in> set (mm_allocations (km_manager km'))" using A free_slot_SomeD(1) [OF f] by (simp add: set_update_memI)
  then have pos: "0 < ar_size r" by (rule mm_okD(2) [OF ok'])
  show none: "heap_block km (base_address (km_manager km) + ar_offset r) = None"
  proof (rule ccontr)
    assume "heap_block km (base_address (km_manager km) + ar_offset r) \<noteq> None"
    then obtain x where x: "heap_block km (base_address (km_manager km) + ar_offset r) = Some x" by blast
    have "ar_offset r \<in> aspan x" using heap_blockD(1,5) [OF ok x] by simp
    then have "ar_offset r \<in> live_bytes (km_manager km)" using heap_blockD(4) [OF ok x] by blast
    moreover have "ar_offset r \<in> aspan r" using pos by simp
    ultimately show False using fresh by blast
  qed
  show "heap_block km' = (heap_block km)(base_address (km_manager km) + ar_offset r \<mapsto> r)"
    using slot_lookup_insert(1) [OF heap_unique [OF ok] f, of "base_address (km_manager km)" r] none
    unfolding heap_block_def base A by simp
qed

section \<open>Releasing a block\<close>

lemma offset_for_live:
  assumes ok: "mm_ok s" and r: "Some r \<in> set (mm_allocations s)"
  shows "offset_for_ptr s (base_address s + ar_offset r) = Some (ar_offset r)"
proof -
  have "aspan r \<subseteq> live_bytes s" using slot_bytes_member [OF r, of aspan] by (simp add: live_bytes_def)
  moreover have "0 < ar_size r" by (rule mm_okD(2) [OF ok r])
  then have "ar_offset r + ar_size r - 1 \<in> aspan r" by simp
  ultimately have "ar_offset r + ar_size r - 1 < mm_bump_offset s" using mm_okD(5) [OF ok] by blast
  with \<open>0 < ar_size r\<close> show ?thesis using mm_okD(7,8) [OF ok] by (simp add: offset_for_ptr_def Let_def)
qed

lemma find_live:
  assumes ok: "mm_ok s" and r: "Some r \<in> set (mm_allocations s)"
  obtains i where "find_slot (\<lambda>x. ar_owner x = ar_owner r \<and> ar_offset x = ar_offset r) (mm_allocations s) = Some i" "mm_allocations s ! i = Some r"
    "i < length (mm_allocations s)"
proof (cases "find_slot (\<lambda>x. ar_owner x = ar_owner r \<and> ar_offset x = ar_offset r) (mm_allocations s)")
  case None
  then show thesis using r by (auto simp: find_slot_None_iff)
next
  case (Some i)
  then obtain x where x: "i < length (mm_allocations s)" "mm_allocations s ! i = Some x" "ar_offset x = ar_offset r"
    by (auto elim: find_slot_SomeE)
  then have "Some x \<in> set (mm_allocations s)" using nth_mem by metis
  then have "x = r" using unique_keys_values_eq [OF heap_unique [OF ok, of 0] _ r] x(3) by simp
  with Some x show thesis using that by blast
qed

text \<open>The exact effect of a release: it succeeds for a block of the caller of the right kind and length, and removes that block only.\<close>

definition may_release :: "ProcessId \<Rightarrow> AllocationKind \<Rightarrow> nat option \<Rightarrow> AllocationRecord \<Rightarrow> bool" where
  "may_release owner kind minimum r \<longleftrightarrow> ar_owner r = owner \<and> ar_kind r = kind \<and> (case minimum of Some n \<Rightarrow> n \<le> ar_size r | None \<Rightarrow> True)"

lemma release_blocks:
  assumes ok: "mm_ok (km_manager km)" and call: "mm_release (km_manager km) owner ptr (Some kind) minimum = (mm, freed)"
    and km': "km' = km\<lparr>km_manager := mm\<rparr>"
  shows "mm_ok (km_manager km')" "freed \<longleftrightarrow> (\<exists>r. heap_block km ptr = Some r \<and> may_release owner kind minimum r)"
    "heap_block km' = (if freed then (heap_block km)(ptr := None) else heap_block km)" "\<not> freed \<Longrightarrow> km' = km"
    "base_address mm = base_address (km_manager km)" "mm_capacity mm = mm_capacity (km_manager km)"
    "mm_backing mm = mm_backing (km_manager km)"
proof -
  have able: freed if r: "heap_block km ptr = Some r" "may_release owner kind minimum r" for r
  proof -
    have mem: "Some r \<in> set (mm_allocations (km_manager km))" and p: "base_address (km_manager km) + ar_offset r = ptr"
      using r(1) heap_block_iff [OF ok] by auto
    obtain i where i: "find_slot (\<lambda>x. ar_owner x = ar_owner r \<and> ar_offset x = ar_offset r) (mm_allocations (km_manager km)) = Some i"
      "mm_allocations (km_manager km) ! i = Some r" by (rule find_live [OF ok mem])
    show ?thesis using call offset_for_live [OF ok mem, unfolded p] i r(2)
      by (auto simp: mm_release_def remove_allocation_def may_release_def split: option.splits)
  qed
  show "mm_ok (km_manager km')" "freed \<longleftrightarrow> (\<exists>r. heap_block km ptr = Some r \<and> may_release owner kind minimum r)"
    "heap_block km' = (if freed then (heap_block km)(ptr := None) else heap_block km)" "\<not> freed \<Longrightarrow> km' = km"
    "base_address mm = base_address (km_manager km)" "mm_capacity mm = mm_capacity (km_manager km)"
    "mm_backing mm = mm_backing (km_manager km)"
  proof (atomize (full), rule mm_release_spec [OF ok, of owner ptr "Some kind" minimum], goal_cases)
    case 1
    then show ?case using call ok able by (auto simp: km')
  next
    case (2 i r s')
    note rel = releasedD [OF 2(2)]
    have b: "heap_block km ptr = Some r" using rel(1,2) 2(4) heap_block_iff [OF ok] nth_mem by metis
    have "slot_lookup (\<lambda>x. base_address (km_manager km) + ar_offset x) ((mm_allocations (km_manager km))[i := None]) =
        (heap_block km)(ptr := None)"
      using slot_lookup_update_None [OF heap_unique [OF ok] rel(1,2), of "base_address (km_manager km)"] 2(4) by (simp add: heap_block_def)
    moreover have "may_release owner kind minimum r" using 2(3,5,6) by (simp add: may_release_def split: option.splits)
    ultimately show ?case using call 2(1) rel b by (simp add: km' heap_block_def)
  qed
qed

section \<open>The allocation functions\<close>

text \<open>The three allocating functions differ in rounding and alignment only.\<close>

lemma place_rounded:
  assumes ok: "mm_ok (km_manager km)" and len: "len \<noteq> 0" and up: "align_up len unit = Some n"
  obtains (fail) km' where "place_allocation km owner n align kind prot = (km', Inl ())" "mm_ok (km_manager km')" "same_allocations km km'"
    | (placed) km' r where "place_allocation km owner n align kind prot = (km', Inr (base_address (km_manager km) + ar_offset r))"
      "placed km r align km'" "ar_owner r = owner" "ar_kind r = kind" "ar_protection r = prot" "ar_size r = n" "len \<le> n" "n < len + unit"
proof -
  note n = align_up_Some(2,4) [OF up]
  have "0 < n" using n(1) len by simp
  then show thesis
  proof (rule place_allocation_cases [OF ok, of n owner align kind prot])
    fix km' off r assume "place_allocation km owner n align kind prot = (km', Inr (base_address (km_manager km) + off))"
      "r = \<lparr>ar_owner = owner, ar_offset = off, ar_size = n, ar_kind = kind, ar_protection = prot\<rparr>" "placed km r align km'"
    with n show thesis by (intro placed [of km' r]) simp_all
  qed (rule fail)
qed

lemma malloc_for_cases:
  assumes ok: "mm_ok (km_manager km)"
  obtains (fail) km' where "malloc_for km owner len = (km', Inl ())" "mm_ok (km_manager km')" "same_allocations km km'"
    | (placed) km' r where "malloc_for km owner len = (km', Inr (base_address (km_manager km) + ar_offset r))"
      "placed km r 8 km'" "ar_owner r = owner" "ar_kind r = AkHeap" "len \<le> ar_size r" "ar_size r < len + 8"
proof (cases "len = 0 \<or> align_up len 8 = None")
  case True
  then show thesis using ok by (intro fail [of km]) (auto simp: malloc_for_def same_allocations_def)
next
  case False
  then obtain n where n: "len \<noteq> 0" "align_up len 8 = Some n" by auto
  show thesis
    by (rule place_rounded [OF ok n, of owner 8 AkHeap read_write]) (use n fail placed in \<open>auto simp: malloc_for_def\<close>)
qed

lemma malloc_aligned_for_cases:
  assumes ok: "mm_ok (km_manager km)"
  obtains (fail) km' where "malloc_aligned_for km owner len align = (km', Inl ())" "mm_ok (km_manager km')" "same_allocations km km'"
    | (placed) km' r where "malloc_aligned_for km owner len align = (km', Inr (base_address (km_manager km) + ar_offset r))"
      "placed km r (max align 8) km'" "ar_owner r = owner" "ar_kind r = AkHeap" "len \<le> ar_size r" "ar_size r < len + 8" "valid_alignment align"
proof (cases "len = 0 \<or> align_up len 8 = None \<or> \<not> valid_alignment align")
  case True
  then show thesis using ok by (intro fail [of km]) (auto simp: malloc_aligned_for_def same_allocations_def Let_def)
next
  case False
  then obtain n where n: "len \<noteq> 0" "align_up len 8 = Some n" and a: "valid_alignment align" by auto
  show thesis
    by (rule place_rounded [OF ok n, of owner "max align 8" AkHeap read_write])
      (use n a fail placed in \<open>auto simp: malloc_aligned_for_def Let_def\<close>)
qed

lemma mmap_for_cases:
  assumes ok: "mm_ok (km_manager km)"
  obtains (fail) km' where "mmap_for km owner len prot = (km', Inl ())" "mm_ok (km_manager km')" "same_allocations km km'"
    | (placed) km' r where "mmap_for km owner len prot =
        (km', Inr \<lparr>mr_owner = owner, mr_ptr = base_address (km_manager km) + ar_offset r, mr_length = ar_size r,
                  mr_requested = len, mr_protection = prot, mr_kind = AkMapping\<rparr>)"
      "placed km r 4096 km'" "ar_owner r = owner" "ar_kind r = AkMapping" "ar_protection r = prot" "len \<le> ar_size r" "ar_size r < len + 4096"
      "ar_size r mod 4096 = 0"
proof (cases "len = 0 \<or> align_up len 4096 = None")
  case True
  then show thesis using ok by (intro fail [of km]) (auto simp: mmap_for_def same_allocations_def)
next
  case False
  then obtain n where n: "len \<noteq> 0" "align_up len 4096 = Some n" by auto
  show thesis
    by (rule place_rounded [OF ok n, of owner 4096 AkMapping prot])
      (use n align_up_Some(3) [OF n(2)] fail placed in \<open>auto simp: mmap_for_def\<close>)
qed

section \<open>Shrinking and moving\<close>

lemma insert_free_region_allocations:
  "insert_free_region (s\<lparr>mm_allocations := A\<rparr>) x = (insert_free_region s x)\<lparr>mm_allocations := A\<rparr>"
  by (simp add: insert_free_region_def Let_def split: prod.splits option.splits)

lemma shrink_blocks:
  assumes ok: "mm_ok (km_manager km)" and i: "i < length (mm_allocations (km_manager km))" "mm_allocations (km_manager km) ! i = Some r"
    and p: "p = base_address (km_manager km) + ar_offset r" and n: "0 < n" "n \<le> ar_size r"
    and mm: "mm = (if 0 < ar_size r - n then update_stats_on_free (insert_free_region (km_manager km)
                (region (ar_offset r + n) (ar_size r - n))) (ar_size r - n) else km_manager km)"
    and km': "km' = km\<lparr>km_manager := mm\<lparr>mm_allocations := (mm_allocations mm)[i := Some (r\<lparr>ar_size := n\<rparr>)]\<rparr>\<rparr>"
  shows "mm_ok (km_manager km')" "heap_block km' = (heap_block km)(p \<mapsto> r\<lparr>ar_size := n\<rparr>)"
    "base_address (km_manager km') = base_address (km_manager km)" "mm_capacity (km_manager km') = mm_capacity (km_manager km)"
    "mm_backing (km_manager km') = mm_backing (km_manager km)"
    "mm_allocations (km_manager km') = (mm_allocations (km_manager km))[i := Some (r\<lparr>ar_size := n\<rparr>)]"
proof -
  let ?A = "mm_allocations (km_manager km)" and ?r = "r\<lparr>ar_size := n\<rparr>"
  have core: "mm_ok (km_manager km') \<and> mm_allocations (km_manager km') = ?A[i := Some ?r] \<and>
      mm_backing (km_manager km') = mm_backing (km_manager km) \<and> mm_heap_address (km_manager km') = mm_heap_address (km_manager km) \<and>
      mm_heap_size (km_manager km') = mm_heap_size (km_manager km)"
  proof (cases "n < ar_size r")
    case True
    let ?s1 = "(km_manager km)\<lparr>mm_allocations := ?A[i := Some ?r]\<rparr>"
    let ?s = "update_stats_on_free (insert_free_region ?s1 (region (ar_offset r + n) (ar_size r - n))) (ar_size r - n)"
    have "mm_allocations (insert_free_region (km_manager km) x) = ?A" for x
      by (simp add: insert_free_region_def Let_def split: prod.splits option.splits)
    then have eq: "km_manager km' = ?s"
      using True by (simp add: km' mm insert_free_region_allocations update_stats_on_free_def)
    have keep: "case Some ?r of None \<Rightarrow> n = 0 | Some x \<Rightarrow> aspan x = {ar_offset r..<ar_offset r + n} \<and> 0 < n \<and> ar_size x = n"
      using n by simp
    note sl = shrink_live [OF ok i keep True refl refl]
    show ?thesis unfolding eq by (intro conjI sl(1,2,4-6))
  next
    case False
    then have "n = ar_size r" using n by simp
    then have "?r = r" by simp
    then have id: "?A[i := Some ?r] = ?A" using i(2) list_update_id by metis
    then have "km_manager km' = km_manager km" using \<open>n = ar_size r\<close> by (simp add: km' mm)
    with ok id show ?thesis by simp
  qed
  then show "mm_ok (km_manager km')" "mm_backing (km_manager km') = mm_backing (km_manager km)"
    "mm_allocations (km_manager km') = ?A[i := Some ?r]" by blast+
  show base: "base_address (km_manager km') = base_address (km_manager km)" "mm_capacity (km_manager km') = mm_capacity (km_manager km)"
    using core by (simp_all add: base_address_def mm_capacity_def split: BackingStore.splits)
  show "heap_block km' = (heap_block km)(p \<mapsto> ?r)"
    using core slot_lookup_replace [OF heap_unique [OF ok] i, of "base_address (km_manager km)" ?r] base
    by (simp add: heap_block_def p)
qed

lemma placed_disjoint:
  assumes ok: "mm_ok (km_manager km)" and pl: "placed km r align km'" and x: "heap_block km p = Some x"
    and q: "q = base_address (km_manager km) + ar_offset r"
  shows "p \<noteq> q" "{p..<p + ar_size x} \<inter> {q..<q + ar_size r} = {}"
proof -
  note b = placed_blocks [OF ok pl]
  show ne: "p \<noteq> q" using x b(1) q by auto
  have ok': "mm_ok (km_manager km')" using pl by (simp add: placed_def)
  show "{p..<p + ar_size x} \<inter> {q..<q + ar_size r} = {}"
    by (rule heap_blocks_disjoint [OF ok']) (use b(2) x q ne in simp_all)
qed

text \<open>The part of \<open>realloc_for\<close> that allocates, copies and frees.\<close>

lemma realloc_move_cases:
  assumes ok: "mm_ok (km_manager km)" and b: "heap_block km p = Some r" "ar_owner r = owner" "ar_kind r = AkHeap"
    and c: "c \<le> new_size"
    and e: "e = and_then (malloc_for km owner new_size) (\<lambda>km q. (fst (km_free_for (copy_bytes km p q c) owner p), Inr q))"
  obtains (refused) km' where "e = (km', Inl ())" "mm_ok (km_manager km')" "same_allocations km km'"
    | (moved) km1 km' r' q where "e = (km', Inr q)" "placed km r' 8 km1" "q = base_address (km_manager km) + ar_offset r'"
      "ar_owner r' = owner" "ar_kind r' = AkHeap" "new_size \<le> ar_size r'" "mm_ok (km_manager km')"
      "heap_block km' = (heap_block km)(q \<mapsto> r', p := None)" "km_bytes km' = km_bytes (copy_bytes km p q c)"
proof (rule malloc_for_cases [OF ok, of owner new_size])
  fix km' assume "malloc_for km owner new_size = (km', Inl ())" "mm_ok (km_manager km')" "same_allocations km km'"
  then show thesis by (intro refused [of km']) (simp_all add: e)
next
  fix km1 r' assume h: "malloc_for km owner new_size = (km1, Inr (base_address (km_manager km) + ar_offset r'))" "placed km r' 8 km1"
    "ar_owner r' = owner" "ar_kind r' = AkHeap" "new_size \<le> ar_size r'" "ar_size r' < new_size + 8"
  let ?q = "base_address (km_manager km) + ar_offset r'"
  have ok1: "mm_ok (km_manager (copy_bytes km1 p ?q c))" and bytes: "km_bytes km1 = km_bytes km"
    using h(2) by (simp_all add: placed_def copy_bytes_def)
  obtain mm freed where fr: "free_for (km_manager km1) owner p = (mm, freed)" by (cases "free_for (km_manager km1) owner p")
  then have call: "mm_release (km_manager (copy_bytes km1 p ?q c)) owner p (Some AkHeap) None = (mm, freed)"
    by (simp add: free_for_def copy_bytes_def)
  note rel = release_blocks [OF ok1 call refl]
  have blocks: "heap_block (copy_bytes km1 p ?q c) = (heap_block km)(?q \<mapsto> r')"
    using placed_blocks(2) [OF ok h(2)] by (simp add: heap_block_def copy_bytes_def)
  have "p \<noteq> ?q" by (rule placed_disjoint(1) [OF ok h(2) b(1) refl])
  then have freed using rel(2) blocks b by (auto simp: may_release_def)
  then show thesis
    using h(1) bytes rel(1,3) blocks fr
    by (intro moved [OF _ h(2) refl h(3-5), of "(copy_bytes km1 p ?q c)\<lparr>km_manager := mm\<rparr>"])
      (simp_all add: e km_free_for_def copy_bytes_def cong: if_cong)
qed

text \<open>The lookup that \<open>realloc_for\<close> does, on the blocks by address.\<close>

lemma realloc_for_lookup:
  assumes ok: "mm_ok (km_manager km)" and new: "new_size \<noteq> 0"
  obtains (refused) "realloc_for km owner (Some p) new_size = (km, Inl ())"
    | (found) i r n where "offset_for_ptr (km_manager km) p = Some (ar_offset r)"
      "find_allocation_index (km_manager km) owner (ar_offset r) = Some i" "i < length (mm_allocations (km_manager km))"
      "mm_allocations (km_manager km) ! i = Some r" "heap_block km p = Some r" "ar_owner r = owner" "ar_kind r = AkHeap"
      "p = base_address (km_manager km) + ar_offset r" "align_up new_size 8 = Some n"
proof (cases "offset_for_ptr (km_manager km) p")
  case None
  then show thesis using new by (intro refused) (simp add: realloc_for_def Let_def)
next
  case off: (Some off)
  have p: "p = base_address (km_manager km) + off" using off by (auto simp: offset_for_ptr_def Let_def split: if_splits)
  show thesis
  proof (cases "find_allocation_index (km_manager km) owner off")
    case None
    then show thesis using new off by (intro refused) (simp add: realloc_for_def Let_def)
  next
    case find: (Some i)
    then obtain r where r: "i < length (mm_allocations (km_manager km))" "mm_allocations (km_manager km) ! i = Some r"
      "ar_owner r = owner" "ar_offset r = off" by (auto simp: find_allocation_index_def elim: find_slot_SomeE)
    have b: "heap_block km p = Some r" using r p heap_block_iff [OF ok] nth_mem by metis
    show thesis
    proof (cases "ar_kind r = AkHeap \<and> align_up new_size 8 \<noteq> None")
      case False
      then show thesis using new off find r by (intro refused) (auto simp: realloc_for_def Let_def)
    next
      case True
      then show thesis using off find r b p by (auto intro: found)
    qed
  qed
qed

lemma realloc_for_cases:
  assumes ok: "mm_ok (km_manager km)" and new: "new_size \<noteq> 0"
  obtains (refused) km' where "realloc_for km owner (Some p) new_size = (km', Inl ())" "mm_ok (km_manager km')" "same_allocations km km'"
    | (shrunk) km' r n where "realloc_for km owner (Some p) new_size = (km', Inr p)" "heap_block km p = Some r"
      "ar_owner r = owner" "ar_kind r = AkHeap" "new_size \<le> n" "n \<le> ar_size r" "mm_ok (km_manager km')"
      "heap_block km' = (heap_block km)(p \<mapsto> r\<lparr>ar_size := n\<rparr>)" "km_bytes km' = km_bytes km"
    | (moved) km1 km' r r' q where "realloc_for km owner (Some p) new_size = (km', Inr q)" "heap_block km p = Some r"
      "ar_owner r = owner" "ar_kind r = AkHeap" "placed km r' 8 km1" "q = base_address (km_manager km) + ar_offset r'"
      "ar_owner r' = owner" "ar_kind r' = AkHeap" "new_size \<le> ar_size r'" "mm_ok (km_manager km')"
      "heap_block km' = (heap_block km)(q \<mapsto> r', p := None)" "km_bytes km' = km_bytes (copy_bytes km p q (min (ar_size r) new_size))"
proof (rule realloc_for_lookup [OF ok new, of owner p])
  assume "realloc_for km owner (Some p) new_size = (km, Inl ())"
  with ok show thesis by (intro refused [of km]) (simp_all add: same_allocations_def)
next
  fix i r n assume h: "offset_for_ptr (km_manager km) p = Some (ar_offset r)"
    "find_allocation_index (km_manager km) owner (ar_offset r) = Some i" "i < length (mm_allocations (km_manager km))"
    "mm_allocations (km_manager km) ! i = Some r" "heap_block km p = Some r" "ar_owner r = owner" "ar_kind r = AkHeap"
    "p = base_address (km_manager km) + ar_offset r" "align_up new_size 8 = Some n"
  have nn: "new_size \<le> n" "0 < n" using align_up_Some(2) [OF h(9)] new by simp_all
  let ?e = "and_then (malloc_for km owner new_size)
    (\<lambda>km q. (fst (km_free_for (copy_bytes km p q (min (ar_size r) new_size)) owner p), Inr q))"
  show thesis
  proof (cases "n \<le> ar_size r")
    case le: True
    note sh = shrink_blocks [OF ok h(3,4,8) nn(2) le refl refl]
    show thesis by (rule shrunk [OF _ h(5-7) nn(1) le sh(1,2)]) (use h new le in \<open>simp_all add: realloc_for_def Let_def\<close>)
  next
    case False
    then have eq: "realloc_for km owner (Some p) new_size = ?e" using h(1-7,9) new by (simp add: realloc_for_def Let_def)
    show thesis by (rule realloc_move_cases [OF ok h(5-7) min.cobounded2 eq]) (fact refused, fact moved [OF _ h(5-7)])
  qed
qed

section \<open>Runs of the allocator\<close>

datatype HeapEvent =
    EvMalloc ProcessId nat
  | EvMallocAligned ProcessId nat nat
  | EvRealloc ProcessId "nat option" nat
  | EvFree ProcessId nat
  | EvMmap ProcessId nat MemoryProtection
  | EvMunmap ProcessId nat nat
  | EvReleaseProcess ProcessId

primrec heap_exec :: "KernelMemory \<Rightarrow> HeapEvent \<Rightarrow> KernelMemory" where
  "heap_exec km (EvMalloc owner len) = fst (malloc_for km owner len)"
| "heap_exec km (EvMallocAligned owner len align) = fst (malloc_aligned_for km owner len align)"
| "heap_exec km (EvRealloc owner ptr new_size) = fst (realloc_for km owner ptr new_size)"
| "heap_exec km (EvFree owner ptr) = fst (km_free_for km owner ptr)"
| "heap_exec km (EvMmap owner len prot) = fst (mmap_for km owner len prot)"
| "heap_exec km (EvMunmap owner ptr len) = fst (km_munmap_ptr_for km owner ptr len)"
| "heap_exec km (EvReleaseProcess owner) = km_release_process km owner"

lemma placed_ok: "placed km r align km' \<Longrightarrow> mm_ok (km_manager km')"
  by (simp add: placed_def)

lemma release_ok:
  assumes "mm_ok (km_manager km)"
  shows "mm_ok (km_manager (fst (km_free_for km owner ptr)))" "mm_ok (km_manager (fst (km_munmap_ptr_for km owner ptr len)))"
  using release_blocks(1) [OF assms _ refl]
  by (auto simp: km_free_for_def free_for_def km_munmap_ptr_for_def munmap_ptr_for_def split: prod.splits)

lemma realloc_for_ok:
  assumes ok: "mm_ok (km_manager km)"
  shows "mm_ok (km_manager (fst (realloc_for km owner ptr new_size)))"
proof (cases "new_size = 0 \<or> ptr = None")
  case True
  then show ?thesis
    using ok release_ok(1) [OF ok]
    by (cases rule: malloc_for_cases [OF ok, of owner new_size]) (auto simp: realloc_for_def placed_ok split: option.splits)
next
  case False
  then obtain p where p: "ptr = Some p" "new_size \<noteq> 0" by auto
  show ?thesis by (cases rule: realloc_for_cases [OF ok p(2), of owner p]) (simp_all add: p)
qed

lemma heap_exec_ok: "mm_ok (km_manager km) \<Longrightarrow> mm_ok (km_manager (heap_exec km ev))"
proof (induction ev)
  case (EvMalloc owner len)
  then show ?case by (cases rule: malloc_for_cases [OF EvMalloc, of owner len]) (simp_all add: placed_ok)
next
  case (EvMallocAligned owner len align)
  then show ?case by (cases rule: malloc_aligned_for_cases [OF EvMallocAligned, of owner len align]) (simp_all add: placed_ok)
next
  case (EvMmap owner len prot)
  then show ?case by (cases rule: mmap_for_cases [OF EvMmap, of owner len prot]) (simp_all add: placed_ok)
qed (simp_all add: realloc_for_ok release_ok km_release_process_def mm_release_process_spec(1))

lemma heap_run_ok: "mm_ok (km_manager km) \<Longrightarrow> mm_ok (km_manager (foldl heap_exec km evs))"
  by (induction evs arbitrary: km) (simp_all add: heap_exec_ok)

section \<open>Boot\<close>

lemma heap_initialize_layout:
  assumes "heap_initialize km = (km', Inr l)"
  shows "hl_base l = KERNEL_HEAP_BASE" "hl_reserved_bytes l = KERNEL_HEAP_RESERVED_BYTES" "km_manager km' = km_manager km"
  using assms by (auto simp: heap_initialize_def Let_def split: if_splits option.splits prod.splits sum.splits)

lemma heap_initialize_manager: "km_manager (fst (heap_initialize km)) = km_manager km"
  by (auto simp: heap_initialize_def Let_def split: option.splits prod.splits sum.splits)

text \<open>Before the first allocation the backing may be replaced.\<close>

lemma switch_backing_ok:
  assumes ok: "mm_ok s" and idle: "mm_allocated_bytes s = 0" "mm_bump_offset s = 0"
  shows "base + capacity < 2 ^ 64 \<Longrightarrow> mm_ok (promote_to_virtual_heap s base capacity committed frames)" "mm_ok (disable_static_heap s)"
proof -
  have "base_address (s\<lparr>mm_backing := B\<rparr>) + mm_capacity (s\<lparr>mm_backing := B\<rparr>) < 2 ^ 64 \<Longrightarrow> mm_ok (s\<lparr>mm_backing := B\<rparr>)" for B
    using ok idle unfolding mm_ok_def by simp
  from this [of BsDisabled] this [of "BsVirtual base capacity committed frames"] ok
  show "base + capacity < 2 ^ 64 \<Longrightarrow> mm_ok (promote_to_virtual_heap s base capacity committed frames)" "mm_ok (disable_static_heap s)"
    by (simp_all add: promote_to_virtual_heap_def disable_static_heap_def base_address_def mm_capacity_def split: BackingStore.split)
qed

lemma initialize_from_boot_info_ok:
  assumes "mm_ok (km_manager km)" "mm_allocated_bytes (km_manager km) = 0" "mm_bump_offset (km_manager km) = 0"
  shows "mm_ok (km_manager (initialize_from_boot_info km boot tables stack))"
proof -
  have "unat KERNEL_HEAP_BASE + unat KERNEL_HEAP_RESERVED_BYTES < 2 ^ 64"
    by (simp add: KERNEL_HEAP_BASE_def KERNEL_HEAP_RESERVED_BYTES_def EARLY_HEAP_BASE_def EARLY_HEAP_BYTES_def)
  then have "mm_ok (promote_to_virtual_heap (km_manager km) (unat KERNEL_HEAP_BASE) (unat KERNEL_HEAP_RESERVED_BYTES) c f)" for c f
    by (rule switch_backing_ok(1) [OF assms])
  moreover have "heap_initialize k = (k', x) \<Longrightarrow> km_manager k' = km_manager k" for k k' x
    using heap_initialize_manager [of k] by simp
  ultimately show ?thesis
    using switch_backing_ok(2) [OF assms] heap_initialize_layout
    by (auto simp: initialize_from_boot_info_def Let_def split: prod.splits sum.splits)
qed

section \<open>What callers may rely on\<close>

lemma allocated_total:
  assumes ok: "mm_ok s"
  shows "mm_allocated_bytes s = sum_list (map ar_size (slot_values (mm_allocations s)))"
proof -
  let ?A = "mm_allocations s" and ?n = "\<lambda>x. case x of Some r \<Rightarrow> ar_size r | None \<Rightarrow> 0"
  have sizes: "sum_list (map ?n xs) = sum_list (map ar_size (slot_values xs))" for xs
    by (induction xs) (auto split: option.splits)
  have card: "card (slot_block aspan ?A i) = ?n (?A ! i)" and fin: "finite (slot_block aspan ?A i)" for i
    by (simp_all add: slot_block_def split: option.split)
  have "card (live_bytes s) = (\<Sum>i < length ?A. card (slot_block aspan ?A i))"
    unfolding live_bytes_def slot_bytes_def
    using mm_okD(1) [OF ok] fin by (intro card_UN_disjoint) (auto simp: disjoint_slots_def disjoint_family_on_def)
  also have "\<dots> = (\<Sum>i < length ?A. ?n (?A ! i))" by (simp only: card)
  also have "\<dots> = sum_list (map ?n ?A)" by (simp add: sum_list_sum_nth atLeast0LessThan)
  also have "\<dots> = sum_list (map ar_size (slot_values ?A))" by (rule sizes)
  finally show ?thesis using mm_okD(9) [OF ok] by simp
qed

lemma max_alignment:
  assumes "valid_alignment align" and m: "p mod max align 8 = 0"
  shows "p mod align = 0" "p mod 8 = (0::nat)"
proof -
  obtain k where k: "align = 2 ^ k" using assms(1) by (rule valid_alignmentE)
  have 8: "(8::nat) = 2 ^ 3" by simp
  have "max align 8 = 2 ^ max k 3" unfolding k 8 by (simp add: max_def del: power_increasing_iff) (simp only: 8 power_increasing_iff, simp)
  then have "align dvd max align 8" "8 dvd max align 8" unfolding k 8 by (simp_all only: le_imp_power_dvd max.cobounded1 max.cobounded2)
  then show "p mod align = 0" "p mod 8 = 0" using m by (auto intro: dvd_trans)
qed

text \<open>A static heap of 256 bytes at address 4096, with three slots in each table.\<close>

definition demo_heap :: KernelMemory where
  "demo_heap = \<lparr>km_paging = \<lparr>pg_mem = (\<lambda>_ _. 0), pg_pool_base = 0, pg_pool_next = 0,
     pg_translator = \<lparr>at_hhdm_offset = None, at_kernel_physical_start = 0, at_kernel_virtual_start = 0, at_kernel_length = 0\<rparr>,
     pg_active_pml4 = 0, pg_kernel_pml4 = 0, pg_current_root = 0, pg_cr3 = 0, pg_installed = False, pg_frame_ready = False,
     pg_frames = pfa_new 0\<rparr>, km_layout = None, km_manager = mm_new 4096 256 3, km_bytes = (\<lambda>a. word_of_nat a)\<rparr>"

lemma demo_heap_ok: "mm_ok (km_manager (foldl heap_exec demo_heap evs))"
  by (rule heap_run_ok) (simp add: demo_heap_def mm_new_ok)

text \<open>
  (C5) From an empty heap, with or without the boot step that moves the heap to its virtual range, any
  sequence of allocations, reallocations, frees, mappings, unmappings and process exits, by any
  processes, keeps every live block inside the heap, keeps the blocks pairwise disjoint, and keeps the
  statistics equal to the total length of the live blocks.
\<close>

theorem heap_blocks_safe:
  assumes empty: "km_manager km = mm_new addr len slots" "addr + len < 2 ^ 64"
    and start: "km0 = km \<or> km0 = initialize_from_boot_info km boot tables stack"
    and run: "km' = foldl heap_exec km0 evs"
    and blocks: "heap_block km' p = Some r" "heap_block km' q = Some x" "p \<noteq> q"
  shows "{p..<p + ar_size r} \<inter> {q..<q + ar_size x} = {} \<and> 0 < ar_size r \<and>
    base_address (km_manager km') \<le> p \<and> p + ar_size r \<le> base_address (km_manager km') + mm_capacity (km_manager km') \<and>
    as_allocated_bytes (statistics (km_manager km')) = sum_list (map ar_size (slot_values (mm_allocations (km_manager km'))))"
proof -
  have ok: "mm_ok (km_manager km)" using mm_new_ok [OF empty(2)] empty(1) by simp
  have "mm_ok (km_manager km0)"
    using start ok initialize_from_boot_info_ok [OF ok, of boot tables stack] empty(1) by (auto simp: mm_new_def)
  then have ok': "mm_ok (km_manager km')" unfolding run by (rule heap_run_ok)
  show ?thesis
    using heap_blocks_disjoint [OF ok' blocks] heap_blockD(1-3) [OF ok' blocks(1)] allocated_total [OF ok'] by (simp add: statistics_def)
qed

lemma heap_blocks_safe_witness:
  "\<exists>r x. heap_block (foldl heap_exec demo_heap [EvMalloc 7 10, EvMalloc 8 20, EvFree 7 4096, EvMallocAligned 9 30 64]) 4112 = Some r \<and>
     heap_block (foldl heap_exec demo_heap [EvMalloc 7 10, EvMalloc 8 20, EvFree 7 4096, EvMallocAligned 9 30 64]) 4160 = Some x \<and>
     {4112..<4112 + ar_size r} \<inter> {4160..<4160 + ar_size x} = {}"
proof -
  let ?run = "foldl heap_exec demo_heap [EvMalloc 7 10, EvMalloc 8 20, EvFree 7 4096, EvMallocAligned 9 30 64]"
  let ?r = "\<lparr>ar_owner = 8, ar_offset = 16, ar_size = 24, ar_kind = AkHeap, ar_protection = read_write\<rparr>"
  let ?x = "\<lparr>ar_owner = 9, ar_offset = 64, ar_size = 32, ar_kind = AkHeap, ar_protection = read_write\<rparr>"
  have b: "heap_block ?run 4112 = Some ?r" "heap_block ?run 4160 = Some ?x" by code_simp+
  have "{4112..<4112 + ar_size ?r} \<inter> {4160..<4160 + ar_size ?x} = {}"
    using heap_blocks_safe [of demo_heap 4096 256 3 demo_heap, OF _ _ disjI1 refl b] by (simp add: demo_heap_def)
  with b show ?thesis by blast
qed

text \<open>
  (C18) An aligned allocation either hands out a block at a fresh address, aligned as requested and to
  8 bytes, at least as long as requested, recorded for its owner and disjoint from every live block,
  with all other blocks as before; or it fails and leaves the live blocks and the statistics as they
  were. No byte changes. A failing call can still change the free space: the range it had
  reserved goes to the free list while that has room, the alignment bytes before it are lost, and
  pages committed for it stay committed.
\<close>

theorem malloc_aligned_for_fresh:
  assumes ok: "mm_ok (km_manager km)" and call: "malloc_aligned_for km owner len align = (km', res)"
  shows "mm_ok (km_manager km') \<and> km_bytes km' = km_bytes km \<and>
    (case res of
       Inr p \<Rightarrow> p mod align = 0 \<and> p mod 8 = 0 \<and> heap_block km p = None \<and>
         (\<exists>r. heap_block km' = (heap_block km)(p \<mapsto> r) \<and> ar_owner r = owner \<and> ar_kind r = AkHeap \<and> len \<le> ar_size r \<and>
            (\<forall>q x. heap_block km q = Some x \<longrightarrow> {q..<q + ar_size x} \<inter> {p..<p + ar_size r} = {}))
     | Inl _ \<Rightarrow> heap_block km' = heap_block km \<and> statistics (km_manager km') = statistics (km_manager km))"
proof (cases rule: malloc_aligned_for_cases [OF ok, of owner len align, case_names fail placed])
  case (fail k)
  then show ?thesis using call same_blocks [of km k] by (auto simp: same_allocations_def statistics_def)
next
  case (placed k r)
  let ?p = "base_address (km_manager km) + ar_offset r"
  have res: "km' = k" "res = Inr ?p" using call placed(1) by simp_all
  have pl: "mm_ok (km_manager k)" "km_bytes k = km_bytes km" "?p mod max align 8 = 0" using placed(2) by (simp_all add: placed_def)
  note b = placed_blocks [OF ok placed(2)] and dj = placed_disjoint(2) [OF ok placed(2) _ refl]
  show ?thesis using res pl(1,2) max_alignment [OF placed(7) pl(3)] b dj placed(3-5) by auto
qed

lemma malloc_aligned_for_fresh_witness:
  "snd (malloc_aligned_for (heap_exec demo_heap (EvMalloc 7 10)) 9 30 64) = Inr 4160 \<and>
     (\<exists>r. heap_block (fst (malloc_aligned_for (heap_exec demo_heap (EvMalloc 7 10)) 9 30 64)) 4160 = Some r \<and> ar_owner r = 9 \<and> 30 \<le> ar_size r)"
proof -
  let ?km = "heap_exec demo_heap (EvMalloc 7 10)"
  have r: "snd (malloc_aligned_for ?km 9 30 64) = Inr 4160" by code_simp
  have "mm_ok (km_manager ?km)" using demo_heap_ok [of "[EvMalloc 7 10]"] by simp
  from malloc_aligned_for_fresh [OF this, of 9 30 64, OF prod.collapse [symmetric]] show ?thesis unfolding r by auto
qed

text \<open>
  (C19) A free succeeds exactly when the caller owns a heap block at that address; then that block and no
  other is gone, the statistics go down by its length, and no process can free the address again. A
  refused free changes nothing.
\<close>

theorem free_for_exact:
  assumes ok: "mm_ok (km_manager km)" and call: "km_free_for km owner ptr = (km', freed)"
  shows "(freed \<longleftrightarrow> (\<exists>r. heap_block km ptr = Some r \<and> ar_owner r = owner \<and> ar_kind r = AkHeap)) \<and>
    (if freed then heap_block km' = (heap_block km)(ptr := None) \<and> \<not> snd (km_free_for km' anyone ptr) \<and>
       as_allocated_bytes (statistics (km_manager km)) =
         as_allocated_bytes (statistics (km_manager km')) + ar_size (the (heap_block km ptr))
     else km' = km)"
proof -
  obtain mm where mm: "mm_release (km_manager km) owner ptr (Some AkHeap) None = (mm, freed)" and km': "km' = km\<lparr>km_manager := mm\<rparr>"
    using call by (auto simp: km_free_for_def free_for_def split: prod.splits)
  note rel = release_blocks [OF ok mm km']
  have again: "\<not> snd (km_free_for km' anyone ptr)" if freed
  proof -
    obtain m f where m: "mm_release (km_manager km') anyone ptr (Some AkHeap) None = (m, f)"
      by (cases "mm_release (km_manager km') anyone ptr (Some AkHeap) None")
    have "\<not> f" using release_blocks(2) [OF rel(1) m refl] rel(3) that by simp
    then show ?thesis using m by (simp add: km_free_for_def free_for_def)
  qed
  have total: "as_allocated_bytes (statistics (km_manager km)) =
      as_allocated_bytes (statistics (km_manager km')) + ar_size (the (heap_block km ptr))" if freed
    using that mm
  proof (cases rule: mm_release_spec [OF ok, of owner ptr "Some AkHeap" None, case_names refused taken])
    case (taken i r s')
    have b: "heap_block km ptr = Some r" using releasedD(1,2) [OF taken(2)] taken(4) heap_block_iff [OF ok] nth_mem by metis
    have sub: "aspan r \<subseteq> live_bytes (km_manager km)" by (rule heap_blockD(4) [OF ok b])
    have "card (live_bytes (km_manager km) - aspan r) = card (live_bytes (km_manager km)) - ar_size r"
      using sub by (subst card_Diff_subset) auto
    moreover have "ar_size r \<le> card (live_bytes (km_manager km))"
      using card_mono [OF live_bytes_finite [OF ok] sub] by simp
    ultimately show ?thesis
      using taken(1) mm b mm_okD(9) [OF ok] mm_okD(9) [OF rel(1)] releasedD(5) [OF taken(2)] by (simp add: km' statistics_def)
  qed simp
  show ?thesis using rel(2-4) again total by (auto simp: may_release_def)
qed

lemma free_for_exact_witness:
  "snd (km_free_for (heap_exec demo_heap (EvMalloc 7 10)) 7 4096) \<and> \<not> snd (km_free_for (heap_exec demo_heap (EvMalloc 7 10)) 8 4096) \<and>
     \<not> snd (km_free_for (fst (km_free_for (heap_exec demo_heap (EvMalloc 7 10)) 7 4096)) 7 4096)"
proof -
  let ?km = "heap_exec demo_heap (EvMalloc 7 10)"
  have ok: "mm_ok (km_manager ?km)" using demo_heap_ok [of "[EvMalloc 7 10]"] by simp
  have f: "snd (km_free_for ?km 7 4096)" by code_simp
  have g: "\<not> snd (km_free_for ?km 8 4096)" by code_simp
  from free_for_exact [OF ok, of 7 4096, OF prod.collapse [symmetric], of 7] f g show ?thesis by (simp del: heap_exec.simps)
qed

text \<open>
  (C17) A reallocation that returns an address keeps the contents: the first bytes of the new block, as
  many as the old length and the new length have in common, are those of the old block. The new block
  has the requested length and the same owner, every other block keeps its place and its bytes, and
  source and destination of the copy do not overlap. A failed reallocation leaves every block and byte as it was.
\<close>

theorem realloc_for_keeps_contents:
  assumes ok: "mm_ok (km_manager km)" and new: "new_size \<noteq> 0" and call: "realloc_for km owner (Some p) new_size = (km', res)"
  shows "mm_ok (km_manager km') \<and>
    (case res of
       Inr q \<Rightarrow> \<exists>r x. heap_block km p = Some r \<and> ar_owner r = owner \<and> ar_kind r = AkHeap \<and>
         heap_block km' q = Some x \<and> ar_owner x = owner \<and> new_size \<le> ar_size x \<and>
         (\<forall>i < min (ar_size r) new_size. km_bytes km' (q + i) = km_bytes km (p + i)) \<and>
         (q \<noteq> p \<longrightarrow> heap_block km' p = None \<and> {p..<p + ar_size r} \<inter> {q..<q + ar_size x} = {}) \<and>
         (\<forall>a y. a \<noteq> p \<longrightarrow> heap_block km a = Some y \<longrightarrow>
            heap_block km' a = Some y \<and> (\<forall>i < ar_size y. km_bytes km' (a + i) = km_bytes km (a + i)))
     | Inl _ \<Rightarrow> heap_block km' = heap_block km \<and> km_bytes km' = km_bytes km)"
proof (cases rule: realloc_for_cases [OF ok new, of owner p, case_names refused shrunk moved])
  case (refused k)
  then show ?thesis using call same_blocks [of km k] by (auto simp: same_allocations_def)
next
  case (shrunk k r n)
  then show ?thesis using call by auto
next
  case (moved km1 k r x q)
  have res: "km' = k" "res = Inr q" using call moved(1) by simp_all
  have other: "a \<noteq> q" "{a..<a + ar_size y} \<inter> {q..<q + ar_size x} = {}" if "heap_block km a = Some y" for a y
    using placed_disjoint [OF ok moved(5) that moved(6)] by auto
  have keep: "heap_block k a = Some y \<and> (\<forall>i < ar_size y. km_bytes k (a + i) = km_bytes km (a + i))"
    if "a \<noteq> p" "heap_block km a = Some y" for a y
  proof -
    have "\<not> (q \<le> a + i \<and> a + i < q + min (ar_size r) new_size)" if "i < ar_size y" for i
    proof -
      have "a + i \<in> {a..<a + ar_size y}" using that by simp
      then have "a + i \<notin> {q..<q + ar_size x}" using other(2) [OF \<open>heap_block km a = Some y\<close>] by blast
      then show ?thesis using moved(9) by auto
    qed
    then show ?thesis using that other(1) [OF that(2)] by (auto simp: moved(11,12) copy_bytes_def)
  qed
  have "km_bytes k (q + i) = km_bytes km (p + i)" if "i < min (ar_size r) new_size" for i
    using that by (simp add: moved(12) copy_bytes_def)
  with res moved other [OF moved(2)] keep show ?thesis by auto
qed

lemma realloc_for_keeps_contents_witness:
  "snd (realloc_for (foldl heap_exec demo_heap [EvMalloc 7 10, EvMalloc 8 20]) 7 (Some 4096) 40) = Inr 4136 \<and>
     km_bytes (fst (realloc_for (foldl heap_exec demo_heap [EvMalloc 7 10, EvMalloc 8 20]) 7 (Some 4096) 40)) (4136 + 15) =
       word_of_nat (4096 + 15)"
proof -
  let ?km = "foldl heap_exec demo_heap [EvMalloc 7 10, EvMalloc 8 20]"
  let ?r = "\<lparr>ar_owner = 7, ar_offset = 0, ar_size = 16, ar_kind = AkHeap, ar_protection = read_write\<rparr>"
  have r: "snd (realloc_for ?km 7 (Some 4096) 40) = Inr 4136" by code_simp
  have b: "heap_block ?km 4096 = Some ?r" by code_simp
  have bytes: "km_bytes ?km a = word_of_nat a" for a by code_simp
  from realloc_for_keeps_contents [OF demo_heap_ok _ prod.collapse [symmetric], of 40 "[EvMalloc 7 10, EvMalloc 8 20]" 7 4096]
  have "\<forall>i < min (ar_size ?r) 40. km_bytes (fst (realloc_for ?km 7 (Some 4096) 40)) (4136 + i) = word_of_nat (4096 + i)"
    unfolding r b bytes by auto
  then have "km_bytes (fst (realloc_for ?km 7 (Some 4096) 40)) (4136 + 15) = word_of_nat (4096 + 15)" by (rule allE [where x = 15]) simp
  with r show ?thesis by blast
qed

end
