(* ===== verification/Page_Walk.thy ===== *)
theory Page_Walk
  imports Paging "HOL-Library.Sublist"
begin

text \<open>
  Page tables as paths. A table is reached from a root by a list of entry indices, \<open>walk\<close>. The
  spaces of a system are given by their root tables and, for each, the indices of the root table
  that belong to it: the upper half of every user root is shared with the kernel.

  The invariant \<open>forest\<close> says that no table is reached in two ways. Under it, linking a new empty
  table and writing a leaf entry change exactly what they should (\<open>walk_link\<close>, \<open>forest_link\<close>,
  \<open>entry_link\<close>, \<open>walk_leaf\<close>, \<open>entry_leaf\<close>).
\<close>

unbundle bit_operations_syntax

section \<open>Walks\<close>

fun walk :: "table_mem \<Rightarrow> (u64 \<Rightarrow> u64) \<Rightarrow> u64 \<Rightarrow> nat list \<Rightarrow> u64 option" where
  "walk m f t [] = Some t"
| "walk m f t (i # p) = (if m t i AND PRESENT = 0 then None else walk m f (f (m t i AND ADDRESS_MASK)) p)"

lemma walk_append: "walk m f t (p @ q) = (case walk m f t p of None \<Rightarrow> None | Some x \<Rightarrow> walk m f x q)"
  by (induction p arbitrary: t) auto

lemma walk_prefix: "walk m f t q = Some x \<Longrightarrow> prefix p q \<Longrightarrow> \<exists>y. walk m f t p = Some y"
  by (auto simp: walk_append prefix_def split: option.splits)

lemma walk_step_cong:
  assumes "m' t j = m t j"
    and "m t j AND PRESENT \<noteq> 0 \<Longrightarrow> walk m' f (f (m t j AND ADDRESS_MASK)) q = walk m f (f (m t j AND ADDRESS_MASK)) q"
  shows "walk m' f t (j # q) = walk m f t (j # q)"
  using assms by simp

text \<open>Writing one entry changes only the walks that use it.\<close>

lemma walk_update:
  assumes "\<And>p. walk m f t p = Some x \<Longrightarrow> \<not> prefix (p @ [i]) q"
  shows "walk (m(x := (m x)(i := e))) f t q = walk m f t q"
  using assms
proof (induction q arbitrary: t)
  case (Cons j q)
  let ?m = "m(x := (m x)(i := e))"
  show ?case
  proof (rule walk_step_cong)
    show "?m t j = m t j" using Cons.prems [of "[]"] by auto
    assume present: "m t j AND PRESENT \<noteq> 0"
    show "walk ?m f (f (m t j AND ADDRESS_MASK)) q = walk m f (f (m t j AND ADDRESS_MASK)) q"
    proof (rule Cons.IH)
      fix p assume "walk m f (f (m t j AND ADDRESS_MASK)) p = Some x"
      then have "walk m f t (j # p) = Some x" using present by simp
      from Cons.prems [OF this] show "\<not> prefix (p @ [i]) q" by simp
    qed
  qed
qed simp

text \<open>Replacing a whole table changes only the walks through it.\<close>

lemma walk_fill:
  assumes "\<And>p. strict_prefix p q \<Longrightarrow> walk m f t p \<noteq> Some n"
  shows "walk (m(n := g)) f t q = walk m f t q"
  using assms
proof (induction q arbitrary: t)
  case (Cons j q)
  show ?case
  proof (rule walk_step_cong)
    show "(m(n := g)) t j = m t j" using Cons.prems [of "[]"] by auto
    assume present: "m t j AND PRESENT \<noteq> 0"
    show "walk (m(n := g)) f (f (m t j AND ADDRESS_MASK)) q = walk m f (f (m t j AND ADDRESS_MASK)) q"
    proof (rule Cons.IH)
      fix p assume "strict_prefix p q"
      then show "walk m f (f (m t j AND ADDRESS_MASK)) p \<noteq> Some n" using Cons.prems [of "j # p"] present by simp
    qed
  qed
qed simp

section \<open>Spaces\<close>

type_synonym spaces = "u64 \<Rightarrow> nat set option"

definition path_ok :: "spaces \<Rightarrow> u64 \<Rightarrow> nat list \<Rightarrow> bool" where
  "path_ok S t p \<longleftrightarrow> length p \<le> 3 \<and> (\<exists>A. S t = Some A \<and> (p \<noteq> [] \<longrightarrow> hd p \<in> A))"

definition forest :: "table_mem \<Rightarrow> (u64 \<Rightarrow> u64) \<Rightarrow> spaces \<Rightarrow> bool" where
  "forest m f S \<longleftrightarrow>
     (\<forall>t t' p q x. path_ok S t p \<longrightarrow> path_ok S t' q \<longrightarrow> walk m f t p = Some x \<longrightarrow> walk m f t' q = Some x \<longrightarrow>
        t = t' \<and> p = q)"

definition nodes :: "table_mem \<Rightarrow> (u64 \<Rightarrow> u64) \<Rightarrow> spaces \<Rightarrow> u64 set" where
  "nodes m f S = {x. \<exists>t p. path_ok S t p \<and> walk m f t p = Some x}"

text \<open>The entry that translates the page with path \<open>q\<close> and index \<open>d\<close>; zero when a table is missing.\<close>

definition leaf_entry :: "table_mem \<Rightarrow> (u64 \<Rightarrow> u64) \<Rightarrow> u64 \<Rightarrow> nat list \<Rightarrow> nat \<Rightarrow> u64" where
  "leaf_entry m f t q d = (case walk m f t q of None \<Rightarrow> 0 | Some x \<Rightarrow> m x d)"

lemma forestD:
  "forest m f S \<Longrightarrow> path_ok S t p \<Longrightarrow> path_ok S t' q \<Longrightarrow> walk m f t p = Some x \<Longrightarrow> walk m f t' q = Some x \<Longrightarrow> t = t' \<and> p = q"
  unfolding forest_def by blast

lemma nodesI: "path_ok S t p \<Longrightarrow> walk m f t p = Some x \<Longrightarrow> x \<in> nodes m f S"
  unfolding nodes_def by blast

lemma path_ok_prefix: "path_ok S t q \<Longrightarrow> prefix p q \<Longrightarrow> path_ok S t p"
  by (auto simp: path_ok_def prefix_def)

lemma path_ok_root: "S t = Some A \<Longrightarrow> path_ok S t []"
  by (simp add: path_ok_def)

section \<open>Linking an empty table\<close>

definition link :: "table_mem \<Rightarrow> u64 \<Rightarrow> u64 \<Rightarrow> nat \<Rightarrow> u64 \<Rightarrow> table_mem" where
  "link m n x i e = (m(n := (\<lambda>_. 0)))(x := ((m(n := (\<lambda>_. 0))) x)(i := e))"

lemma link_apply: "x \<noteq> n \<Longrightarrow> link m n x i e y j = (if y = n then 0 else if y = x \<and> j = i then e else m y j)"
  by (simp add: link_def)

lemma walk_fill_fresh:
  assumes "n \<notin> nodes m f S" and "path_ok S t q"
  shows "walk (m(n := g)) f t q = walk m f t q"
proof (rule walk_fill)
  fix p assume "strict_prefix p q"
  then have "path_ok S t p" using assms(2) path_ok_prefix strict_prefix_def by blast
  then show "walk m f t p \<noteq> Some n" using assms(1) nodesI by blast
qed

text \<open>The hypotheses of a link: a node \<open>x\<close> at path \<open>p0\<close>, a missing entry \<open>i\<close>, and a fresh table \<open>n\<close>.\<close>

definition can_link :: "table_mem \<Rightarrow> (u64 \<Rightarrow> u64) \<Rightarrow> spaces \<Rightarrow> u64 \<Rightarrow> nat list \<Rightarrow> u64 \<Rightarrow> nat \<Rightarrow> u64 \<Rightarrow> u64 \<Rightarrow> bool" where
  "can_link m f S t0 p0 x i n e \<longleftrightarrow>
     forest m f S \<and> path_ok S t0 (p0 @ [i]) \<and> walk m f t0 p0 = Some x \<and> m x i AND PRESENT = 0 \<and>
     n \<notin> nodes m f S \<and> e AND PRESENT \<noteq> 0 \<and> f (e AND ADDRESS_MASK) = n"

lemma can_linkD:
  assumes "can_link m f S t0 p0 x i n e"
  shows "forest m f S" "path_ok S t0 (p0 @ [i])" "path_ok S t0 p0" "walk m f t0 p0 = Some x" "m x i AND PRESENT = 0"
    "n \<notin> nodes m f S" "e AND PRESENT \<noteq> 0" "f (e AND ADDRESS_MASK) = n" "x \<noteq> n" "length p0 \<le> 2"
    "walk m f t0 (p0 @ [i]) = None"
proof -
  show d: "forest m f S" "path_ok S t0 (p0 @ [i])" "walk m f t0 p0 = Some x" "m x i AND PRESENT = 0"
    "n \<notin> nodes m f S" "e AND PRESENT \<noteq> 0" "f (e AND ADDRESS_MASK) = n"
    using assms by (auto simp: can_link_def)
  show p: "path_ok S t0 p0" using path_ok_prefix [OF d(2)] by simp
  show "x \<noteq> n" using nodesI [OF p d(3)] d(5) by blast
  show "length p0 \<le> 2" using d(2) by (simp add: path_ok_def)
  show "walk m f t0 (p0 @ [i]) = None" using d(3,4) by (simp add: walk_append)
qed

lemma walk_link_other:
  assumes l: "can_link m f S t0 p0 x i n e" and q: "path_ok S t q" and other: "t \<noteq> t0 \<or> \<not> prefix (p0 @ [i]) q"
  shows "walk (link m n x i e) f t q = walk m f t q"
proof -
  note d = can_linkD [OF l]
  let ?m = "m(n := (\<lambda>_. 0))"
  have fill: "walk ?m f t p = walk m f t p" if "prefix p q" for p
    using walk_fill_fresh [OF d(6) path_ok_prefix [OF q that]] .
  have "walk (link m n x i e) f t q = walk ?m f t q"
    unfolding link_def
  proof (rule walk_update, rule notI)
    fix p assume w: "walk ?m f t p = Some x" and pre: "prefix (p @ [i]) q"
    then have pq: "prefix p q" by (auto simp: prefix_def)
    have "walk m f t p = Some x" using w fill [OF pq] by simp
    from forestD [OF d(1) path_ok_prefix [OF q pq] d(3) this d(4)] have "t = t0" "p = p0" by auto
    with other pre show False by simp
  qed
  then show ?thesis using fill [of q] by simp
qed

lemma walk_link_new:
  assumes l: "can_link m f S t0 p0 x i n e"
  shows "walk (link m n x i e) f t0 (p0 @ i # r) = (if r = [] then Some n else None)"
proof -
  note d = can_linkD [OF l]
  have "walk (link m n x i e) f t0 p0 = Some x"
    using walk_link_other [OF l d(3)] d(4) by (simp add: prefix_def)
  moreover have "walk (link m n x i e) f n (j # r') = None" for j r'
    using d(9) by (simp add: link_apply)
  ultimately show ?thesis using d(7,8,9) by (cases r) (simp_all add: walk_append link_apply)
qed

lemma nodes_link:
  assumes l: "can_link m f S t0 p0 x i n e"
  shows "nodes (link m n x i e) f S \<subseteq> insert n (nodes m f S)"
proof
  fix y assume "y \<in> nodes (link m n x i e) f S"
  then obtain t q where q: "path_ok S t q" "walk (link m n x i e) f t q = Some y" by (auto simp: nodes_def)
  show "y \<in> insert n (nodes m f S)"
  proof (cases "t = t0 \<and> prefix (p0 @ [i]) q")
    case True
    then obtain r where "q = p0 @ i # r" by (auto simp: prefix_def)
    with True q(2) walk_link_new [OF l] show ?thesis by (auto split: if_splits)
  next
    case False
    then show ?thesis using walk_link_other [OF l q(1)] q nodesI [OF q(1)] by auto
  qed
qed

lemma forest_link:
  assumes l: "can_link m f S t0 p0 x i n e"
  shows "forest (link m n x i e) f S"
proof -
  let ?m = "link m n x i e"
  note d = can_linkD [OF l]
  have new: "t = t0 \<and> q = p0 @ [i] \<and> y = n \<or> walk m f t q = Some y \<and> y \<noteq> n"
    if "path_ok S t q" "walk ?m f t q = Some y" for t q y
  proof (cases "t = t0 \<and> prefix (p0 @ [i]) q")
    case True
    then obtain r where "q = p0 @ i # r" by (auto simp: prefix_def)
    with True that(2) walk_link_new [OF l] show ?thesis by (auto split: if_splits)
  next
    case False
    then show ?thesis using walk_link_other [OF l that(1)] that nodesI [OF that(1)] d(6) by auto
  qed
  show ?thesis
    unfolding forest_def
  proof (intro allI impI)
    fix t t' p q y
    assume a: "path_ok S t p" "path_ok S t' q" "walk ?m f t p = Some y" "walk ?m f t' q = Some y"
    from new [OF a(1,3)] new [OF a(2,4)] forestD [OF d(1) a(1,2)] show "t = t' \<and> p = q" by blast
  qed
qed

lemma leaf_entry_link:
  assumes l: "can_link m f S t0 p0 x i n e" and q: "path_ok S t q" "length q = 3"
  shows "leaf_entry (link m n x i e) f t q k = leaf_entry m f t q k"
proof (cases "t = t0 \<and> prefix (p0 @ [i]) q")
  case True
  then obtain r where r: "q = p0 @ i # r" by (auto simp: prefix_def)
  note d = can_linkD [OF l]
  have "walk m f t0 q = None" using walk_prefix [of m f t0 q _ "p0 @ [i]"] d(11) True by (cases "walk m f t0 q") auto
  moreover have "leaf_entry (link m n x i e) f t q k = 0"
    using True r walk_link_new [OF l, of r] d(9) by (simp add: leaf_entry_def link_apply)
  ultimately show ?thesis using True by (simp add: leaf_entry_def)
next
  case False
  then have w: "walk (link m n x i e) f t q = walk m f t q" using walk_link_other [OF l q(1)] by blast
  note d = can_linkD [OF l]
  show ?thesis
  proof (cases "walk m f t q")
    case (Some y)
    have "y \<noteq> n" using nodesI [OF q(1) Some] d(6) by blast
    moreover have "y \<noteq> x" using forestD [OF d(1) q(1) d(3) Some] d(4,10) q(2) by auto
    ultimately show ?thesis using w Some d(9) by (simp add: leaf_entry_def link_apply)
  qed (use w in \<open>simp add: leaf_entry_def\<close>)
qed

lemma walk_link_keeps:
  assumes l: "can_link m f S t0 p0 x i n e"
  shows "\<forall>t q y. path_ok S t q \<longrightarrow> walk m f t q = Some y \<longrightarrow> walk (link m n x i e) f t q = Some y"
proof (intro allI impI)
  fix t q y assume q: "path_ok S t q" "walk m f t q = Some y"
  have "\<not> (t = t0 \<and> prefix (p0 @ [i]) q)" using walk_prefix [OF q(2), of "p0 @ [i]"] can_linkD(11) [OF l] by auto
  then show "walk (link m n x i e) f t q = Some y" using walk_link_other [OF l q(1)] q(2) by auto
qed

lemma nodes_link_eq:
  assumes l: "can_link m f S t0 p0 x i n e"
  shows "nodes (link m n x i e) f S = insert n (nodes m f S)"
proof
  show "nodes (link m n x i e) f S \<subseteq> insert n (nodes m f S)" by (rule nodes_link [OF l])
  have "nodes m f S \<subseteq> nodes (link m n x i e) f S" using walk_link_keeps [OF l] unfolding nodes_def by blast
  moreover have "n \<in> nodes (link m n x i e) f S" using walk_link_new [OF l, of "[]"] l by (intro nodesI) (auto simp: can_link_def)
  ultimately show "insert n (nodes m f S) \<subseteq> nodes (link m n x i e) f S" by blast
qed

text \<open>The entries of the tables that are reached: one of them is new.\<close>

lemma link_entry:
  assumes l: "can_link m f S t0 p0 x i n e" and q: "path_ok S t q"
    and w: "walk (link m n x i e) f t q = Some y" and present: "link m n x i e y j AND PRESENT \<noteq> 0"
  shows "link m n x i e y j = e \<or> walk m f t q = Some y \<and> link m n x i e y j = m y j"
proof (cases "t = t0 \<and> prefix (p0 @ [i]) q")
  case True
  then obtain r where "q = p0 @ i # r" by (auto simp: prefix_def)
  then have "y = n" using True w walk_link_new [OF l, of r] by (auto split: if_splits)
  then show ?thesis using present can_linkD(9) [OF l] by (simp add: link_apply)
next
  case False
  then have wm: "walk m f t q = Some y" using w walk_link_other [OF l q] by auto
  then have "y \<noteq> n" using nodesI [OF q] can_linkD(6) [OF l] by blast
  then show ?thesis using wm can_linkD(9) [OF l] by (auto simp: link_apply)
qed

section \<open>Writing a leaf\<close>

definition set_leaf :: "table_mem \<Rightarrow> u64 \<Rightarrow> nat \<Rightarrow> u64 \<Rightarrow> table_mem" where
  "set_leaf m x d e = m(x := (m x)(d := e))"

lemma walk_leaf:
  assumes f: "forest m f S" and q0: "path_ok S t0 q0" "length q0 = 3" "walk m f t0 q0 = Some x" and p: "path_ok S t p"
  shows "walk (set_leaf m x d e) f t p = walk m f t p"
  unfolding set_leaf_def
proof (rule walk_update, rule notI)
  fix r assume r: "walk m f t r = Some x" and pre: "prefix (r @ [d]) p"
  have rp: "prefix r p" using pre by (auto simp: prefix_def)
  from forestD [OF f path_ok_prefix [OF p rp] q0(1) r q0(3)] have "length r = 3" using q0(2) by simp
  with pre p show False by (auto simp: path_ok_def prefix_def)
qed

lemma forest_leaf:
  assumes f: "forest m f S" and q0: "path_ok S t0 q0" "length q0 = 3" "walk m f t0 q0 = Some x"
  shows "forest (set_leaf m x d e) f S" and "nodes (set_leaf m x d e) f S = nodes m f S"
proof -
  note w = walk_leaf [OF f q0, where d = d and e = e]
  show "forest (set_leaf m x d e) f S" using f unfolding forest_def by (simp add: w)
  show "nodes (set_leaf m x d e) f S = nodes m f S" unfolding nodes_def by (simp add: w cong: conj_cong)
qed

lemma leaf_inner_entry:
  assumes f: "forest m f S" and q0: "path_ok S t0 q0" "length q0 = 3" "walk m f t0 q0 = Some x"
    and p: "path_ok S t (p @ [i])" "walk m f t p = Some y"
  shows "set_leaf m x d e y i = m y i"
proof -
  have "path_ok S t p" using path_ok_prefix [OF p(1)] by simp
  from forestD [OF f this q0(1) p(2)] q0(2,3) p(1) have "y \<noteq> x" by (auto simp: path_ok_def)
  then show ?thesis by (simp add: set_leaf_def)
qed

lemma leaf_entry_leaf:
  assumes f: "forest m f S" and q0: "path_ok S t0 q0" "length q0 = 3" "walk m f t0 q0 = Some x"
    and q: "path_ok S t q" "length q = 3"
  shows "leaf_entry (set_leaf m x d e) f t q k = (if t = t0 \<and> q = q0 \<and> k = d then e else leaf_entry m f t q k)"
proof (cases "walk m f t q")
  case None
  then show ?thesis using walk_leaf [OF f q0 q(1)] q0(3) by (auto simp: leaf_entry_def)
next
  case (Some y)
  have "y = x \<longleftrightarrow> t = t0 \<and> q = q0" using forestD [OF f q(1) q0(1) Some] q0(3) Some by auto
  then show ?thesis using walk_leaf [OF f q0 q(1)] Some by (auto simp: leaf_entry_def set_leaf_def)
qed

section \<open>Adding and removing a space\<close>

lemma path_ok_add_root:
  "n \<notin> dom S \<Longrightarrow> path_ok (S(n \<mapsto> A)) t p \<longleftrightarrow> (if t = n then length p \<le> 3 \<and> (p \<noteq> [] \<longrightarrow> hd p \<in> A) else path_ok S t p)"
  by (auto simp: path_ok_def)

lemma fresh_not_root: "n \<notin> nodes m f S \<Longrightarrow> n \<notin> dom S"
  using path_ok_root [of S n] nodesI [of S n "[]" m f n] by auto

text \<open>A new root that is not a table yet and has no entry of its own.\<close>

lemma walk_add_root:
  assumes fresh: "n \<notin> nodes m f S" and none: "\<forall>i \<in> A. g i AND PRESENT = 0" and p: "path_ok (S(n \<mapsto> A)) t p"
  shows "walk (m(n := g)) f t p = (if t = n then (if p = [] then Some n else None) else walk m f t p)"
proof (cases "t = n")
  case True
  then show ?thesis using p none by (cases p) (simp_all add: path_ok_add_root [OF fresh_not_root [OF fresh]])
next
  case False
  then show ?thesis using walk_fill_fresh [OF fresh] p by (simp add: path_ok_add_root [OF fresh_not_root [OF fresh]])
qed

lemma nodes_add_root:
  assumes fresh: "n \<notin> nodes m f S" and none: "\<forall>i \<in> A. g i AND PRESENT = 0"
  shows "nodes (m(n := g)) f (S(n \<mapsto> A)) \<subseteq> insert n (nodes m f S)"
proof
  fix x assume "x \<in> nodes (m(n := g)) f (S(n \<mapsto> A))"
  then obtain t p where p: "path_ok (S(n \<mapsto> A)) t p" "walk (m(n := g)) f t p = Some x" by (auto simp: nodes_def)
  show "x \<in> insert n (nodes m f S)"
  proof (cases "t = n")
    case True
    then show ?thesis using p(2) walk_add_root [OF fresh none p(1)] by (auto split: if_splits)
  next
    case False
    then have "walk m f t p = Some x" using p(2) walk_add_root [OF fresh none p(1)] by simp
    moreover have "path_ok S t p" using p(1) False by (simp add: path_ok_add_root [OF fresh_not_root [OF fresh]])
    ultimately show ?thesis using nodesI by blast
  qed
qed

lemma forest_add_root:
  assumes f: "forest m f S" and fresh: "n \<notin> nodes m f S" and none: "\<forall>i \<in> A. g i AND PRESENT = 0"
  shows "forest (m(n := g)) f (S(n \<mapsto> A))"
proof -
  let ?S = "S(n \<mapsto> A)" and ?m = "m(n := g)"
  have new: "t = n \<and> p = [] \<and> x = n \<or> path_ok S t p \<and> walk m f t p = Some x \<and> x \<noteq> n"
    if "path_ok ?S t p" "walk ?m f t p = Some x" for t p x
    using that walk_add_root [OF fresh none that(1)] path_ok_add_root [OF fresh_not_root [OF fresh], of A t p] nodesI [of S t p m f x] fresh
    by (auto split: if_splits)
  show ?thesis
    unfolding forest_def
  proof (intro allI impI)
    fix t t' p q x
    assume "path_ok ?S t p" "path_ok ?S t' q" "walk ?m f t p = Some x" "walk ?m f t' q = Some x"
    then show "t = t' \<and> p = q" using new [of t p x] new [of t' q x] forestD [OF f, of t p t' q x] by auto
  qed
qed

lemma add_root_entry:
  assumes fresh: "n \<notin> nodes m f S" and none: "\<forall>i \<in> A. g i AND PRESENT = 0"
    and q: "path_ok (S(n \<mapsto> A)) t (q @ [j])" and w: "walk (m(n := g)) f t q = Some y" "(m(n := g)) y j AND PRESENT \<noteq> 0"
  shows "t \<noteq> n \<and> path_ok S t (q @ [j]) \<and> walk m f t q = Some y \<and> (m(n := g)) y j = m y j"
proof -
  note path = path_ok_add_root [OF fresh_not_root [OF fresh], of A]
  have q': "path_ok (S(n \<mapsto> A)) t q" using path_ok_prefix [OF q] by simp
  have t: "t \<noteq> n"
  proof
    assume "t = n"
    moreover from this have "q = []" "y = n" using w(1) walk_add_root [OF fresh none q'] by (auto split: if_splits)
    ultimately show False using w(2) q none path [of n "[j]"] by simp
  qed
  then have o: "path_ok S t (q @ [j])" "path_ok S t q" "walk m f t q = Some y"
    using q q' w(1) walk_add_root [OF fresh none q'] path by simp_all
  then have "y \<noteq> n" using nodesI fresh by blast
  with t o show ?thesis by simp
qed

lemma leaf_entry_add_root:
  assumes fresh: "n \<notin> nodes m f S" and none: "\<forall>i \<in> A. g i AND PRESENT = 0" and q: "path_ok (S(n \<mapsto> A)) t q" "q \<noteq> []"
  shows "leaf_entry (m(n := g)) f t q d = (if t = n then 0 else leaf_entry m f t q d)"
proof (cases "t = n")
  case True
  then show ?thesis using q walk_add_root [OF fresh none q(1)] by (simp add: leaf_entry_def)
next
  case False
  then have p: "path_ok S t q" using q(1) path_ok_add_root [OF fresh_not_root [OF fresh]] by simp
  have "y \<noteq> n" if "walk m f t q = Some y" for y using nodesI [OF p that] fresh by blast
  then show ?thesis using False walk_add_root [OF fresh none q(1)] by (auto simp: leaf_entry_def split: option.splits)
qed

text \<open>Fewer roots have fewer paths.\<close>

lemma path_ok_mono: "S' \<subseteq>\<^sub>m S \<Longrightarrow> path_ok S' t p \<Longrightarrow> path_ok S t p"
  unfolding path_ok_def map_le_def by (metis domI)

lemma forest_mono: "S' \<subseteq>\<^sub>m S \<Longrightarrow> forest m f S \<Longrightarrow> forest m f S'"
  unfolding forest_def using path_ok_mono by metis

lemma nodes_mono: "S' \<subseteq>\<^sub>m S \<Longrightarrow> nodes m f S' \<subseteq> nodes m f S"
  unfolding nodes_def using path_ok_mono by blast

end
