(* ===== verification/Address_Spaces.thy ===== *)
theory Address_Spaces
  imports Page_Walk
begin

text \<open>
  Correctness of the page tables of \<open>src/src/arch/x86_64/paging.rs\<close>. The ghost set \<open>R\<close> holds the
  physical addresses of the user roots that were created and not destroyed. The invariant \<open>vm_ok\<close>
  says that the kernel tables and the user halves of the roots form a forest whose tables are not
  free frames. Every operation keeps it, and changes exactly the translations it names.

  The two functions that step down one level and build a missing table, \<open>next_table\<close> for the kernel
  and \<open>user_next_table\<close> for user roots, share the locale \<open>table_step\<close>.
\<close>

unbundle bit_operations_syntax

section \<open>Entries\<close>

lemmas page_flag_defs = PRESENT_def WRITABLE_def USER_ACCESSIBLE_def NO_EXECUTE_def GLOBAL_def WRITE_THROUGH_def
  CACHE_DISABLE_def SUPPORTED_PAGE_FLAGS_def

lemma address_mask_eq: "ADDRESS_MASK = push_bit 12 (mask 40)"
  by (simp add: ADDRESS_MASK_def mask_eq_exp_minus_1 push_bit_eq_mult)

lemma bit_address_mask: "bit ADDRESS_MASK n \<longleftrightarrow> 12 \<le> n \<and> n < 52"
  by (auto simp: address_mask_eq bit_simps)

text \<open>An entry is an address and flags; the flags lie outside the address mask.\<close>

definition flags_ok :: "u64 \<Rightarrow> bool" where
  "flags_ok flags \<longleftrightarrow> flags AND ADDRESS_MASK = 0"

lemma entry_address: "flags_ok flags \<Longrightarrow> ((a AND ADDRESS_MASK) OR flags) AND ADDRESS_MASK = a AND ADDRESS_MASK"
  by (simp add: flags_ok_def and.assoc bit.conj_disj_distrib2)

lemma entry_flags: "b AND ADDRESS_MASK = 0 \<Longrightarrow> ((a AND ADDRESS_MASK) OR flags) AND b = flags AND b"
  by (simp add: bit.conj_disj_distrib2 and.assoc and.commute [of ADDRESS_MASK])

lemma flag_bits [simp]:
  "PRESENT AND ADDRESS_MASK = 0" "WRITABLE AND ADDRESS_MASK = 0" "USER_ACCESSIBLE AND ADDRESS_MASK = 0"
  by (simp_all add: page_flag_defs ADDRESS_MASK_def)

lemma address_mask_offset: "(a AND ADDRESS_MASK) AND (PAGE_SIZE - 1) = 0"
proof -
  have "ADDRESS_MASK AND (PAGE_SIZE - 1) = 0" by (simp add: ADDRESS_MASK_def PAGE_SIZE_def)
  then show ?thesis by (simp add: and.assoc)
qed

abbreviation frame_addr :: "nat \<Rightarrow> u64" where
  "frame_addr i \<equiv> pf_start (frame_at i)"

lemma word_below_bits:
  assumes "unat (a :: u64) < 2 ^ n" and "bit a k"
  shows "k < n"
proof (rule ccontr)
  assume "\<not> k < n"
  then have "(2 :: nat) ^ n \<le> 2 ^ k" by simp
  then have "unat a < 2 ^ k" using assms(1) by linarith
  then have "unat a div 2 ^ k = 0" by simp
  moreover have "bit (unat a) k" using assms(2) by (simp add: bit_unsigned_iff)
  ultimately show False by (simp add: bit_iff_odd)
qed

lemma masked_address:
  assumes "unat a < 2 ^ 52" and "a AND (PAGE_SIZE - 1) = 0"
  shows "a AND ADDRESS_MASK = a"
proof (rule bit_eqI)
  fix n
  have "\<not> (bit a n \<and> n < 12)"
  proof
    assume "bit a n \<and> n < 12"
    then have "bit (a AND mask 12) n" by (simp add: bit_simps)
    then show False using assms(2) by (simp add: page_mask)
  qed
  then show "bit (a AND ADDRESS_MASK) n = bit a n"
    using word_below_bits [OF assms(1)] by (auto simp: bit_address_mask bit_simps)
qed

lemma masked_frame:
  assumes "i < 2 ^ 40"
  shows "frame_addr i AND ADDRESS_MASK = frame_addr i"
proof -
  have "unat (frame_addr i) = i * 4096" using assms by (intro unat_frame_at) simp
  then show ?thesis using assms by (intro masked_address) (simp_all add: aligned_iff)
qed

section \<open>Pages\<close>

definition va_path :: "u64 \<Rightarrow> nat list" where
  "va_path va = [pg_index va 39, pg_index va 30, pg_index va 21]"

text \<open>The number of the page an address lies in: the 36 bits that the four indices consist of.\<close>

definition page_of :: "u64 \<Rightarrow> u64" where
  "page_of va = drop_bit 12 va AND mask 36"

lemma length_va_path [simp]: "length (va_path va) = 3" "va_path va \<noteq> []" "hd (va_path va) = pg_index va 39"
  by (simp_all add: va_path_def)

lemma word_bits_eq: "(x :: u64) = y \<longleftrightarrow> (\<forall>k. bit x k = bit y k)"
  by (auto intro: bit_eqI)

lemma bit_field: "bit (drop_bit n (a :: u64) AND mask w) k \<longleftrightarrow> k < w \<and> bit a (n + k)"
  by (auto simp: bit_simps dest: bit_imp_le_length)

lemma pg_index_eq_iff: "pg_index a n = pg_index b n \<longleftrightarrow> (\<forall>k < 9. bit a (n + k) = bit b (n + k))"
proof -
  have "(0x1ff :: u64) = mask 9" by (simp add: mask_eq_exp_minus_1)
  then have "pg_index a n = pg_index b n \<longleftrightarrow> drop_bit n a AND mask 9 = drop_bit n b AND mask 9"
    by (auto simp: pg_index_def unat_inj)
  also have "\<dots> \<longleftrightarrow> (\<forall>k. bit (drop_bit n a AND mask 9) k = bit (drop_bit n b AND mask 9) k)"
    by (rule word_bits_eq)
  also have "\<dots> \<longleftrightarrow> (\<forall>k < 9. bit a (n + k) = bit b (n + k))"
    unfolding bit_field by blast
  finally show ?thesis .
qed

lemma page_of_eq_iff: "page_of a = page_of b \<longleftrightarrow> (\<forall>k < 36. bit a (12 + k) = bit b (12 + k))"
proof -
  have "page_of a = page_of b \<longleftrightarrow> (\<forall>k. bit (drop_bit 12 a AND mask 36) k = bit (drop_bit 12 b AND mask 36) k)"
    unfolding page_of_def by (rule word_bits_eq)
  then show ?thesis unfolding bit_field by blast
qed

lemma all_less_add: "(\<forall>k < m + n. Q k) \<longleftrightarrow> (\<forall>k < m. Q k) \<and> (\<forall>k < n. Q (m + k))" for m n :: nat
proof (intro iffI conjI allI impI)
  fix k assume q: "(\<forall>k < m. Q k) \<and> (\<forall>k < n. Q (m + k))" and k: "k < m + n"
  show "Q k"
  proof (cases "k < m")
    case False
    then obtain j where "k = m + j" using le_Suc_ex not_less by blast
    with q k show ?thesis by simp
  qed (use q in blast)
qed simp_all

lemma same_page_iff: "va_path a = va_path b \<and> pg_index a 12 = pg_index b 12 \<longleftrightarrow> page_of a = page_of b"
proof -
  let ?P = "\<lambda>n. bit a n = bit b n"
  have "(\<forall>k < 36. ?P (12 + k)) \<longleftrightarrow> (\<forall>k < 9. ?P (12 + k)) \<and> (\<forall>k < 27. ?P (21 + k))"
    using all_less_add [of 9 27 "\<lambda>k. ?P (12 + k)"] by (simp add: add.assoc [symmetric])
  moreover have "(\<forall>k < 27. ?P (21 + k)) \<longleftrightarrow> (\<forall>k < 9. ?P (21 + k)) \<and> (\<forall>k < 18. ?P (30 + k))"
    using all_less_add [of 9 18 "\<lambda>k. ?P (21 + k)"] by (simp add: add.assoc [symmetric])
  moreover have "(\<forall>k < 18. ?P (30 + k)) \<longleftrightarrow> (\<forall>k < 9. ?P (30 + k)) \<and> (\<forall>k < 9. ?P (39 + k))"
    using all_less_add [of 9 9 "\<lambda>k. ?P (30 + k)"] by (simp add: add.assoc [symmetric])
  ultimately show ?thesis unfolding va_path_def pg_index_eq_iff page_of_eq_iff list.inject by blast
qed

lemma pg_index_less: "pg_index va n < 512"
proof -
  have "unat (drop_bit n va AND 0x1ff) \<le> unat (0x1ff :: u64)"
    unfolding word_le_nat_alt [symmetric] by (rule word_and_le1)
  then show ?thesis by (simp add: pg_index_def)
qed

lemma user_half:
  assumes "va < 0x0000800000000000"
  shows "pg_index va 39 < 256"
proof -
  have lt: "unat va < 2 ^ 47" using assms by (simp add: word_less_nat_alt)
  have "unat (drop_bit 39 va) = unat va div 2 ^ 39" by (simp add: drop_bit_eq_div unat_div)
  also have "\<dots> < 256" using lt by (simp add: div_less_iff_less_mult)
  finally have "unat (drop_bit 39 va) < 256" .
  moreover have "unat (drop_bit 39 va AND 0x1ff) \<le> unat (drop_bit 39 va)"
    unfolding word_le_nat_alt [symmetric] by (rule word_and_le2)
  ultimately show ?thesis by (simp add: pg_index_def)
qed

lemma user_page_eq:
  assumes "a < 0x0000800000000000" "b < 0x0000800000000000" "page_of a = page_of b" "a AND (PAGE_SIZE - 1) = 0"
  shows "b AND NOT (PAGE_SIZE - 1) = a"
proof (rule bit_eqI)
  fix n
  have lt: "unat a < 2 ^ 47" "unat b < 2 ^ 47" using assms(1,2) by (simp_all add: word_less_nat_alt)
  have low: "\<not> bit a n" if "n < 12"
  proof
    assume "bit a n"
    with that have "bit (a AND mask 12) n" by (simp add: bit_simps)
    then show False using assms(4) by (simp add: page_mask)
  qed
  have mid: "bit a n = bit b n" if "12 \<le> n" "n < 48"
    using assms(3) [unfolded page_of_eq_iff, rule_format, of "n - 12"] that by simp
  have high: "\<not> bit a n" "\<not> bit b n" if "48 \<le> n" using word_below_bits [OF lt(1), of n] word_below_bits [OF lt(2), of n] that by auto
  show "bit (b AND NOT (PAGE_SIZE - 1)) n = bit a n"
    unfolding page_mask
  proof (cases "n < 12")
    case True
    then show "bit (b AND NOT (mask 12)) n = bit a n" using low by (simp add: bit_simps)
  next
    case False
    then show "bit (b AND NOT (mask 12)) n = bit a n" using mid high
      by (cases "n < 48") (auto simp: bit_simps not_le bit_imp_le_length)
  qed
qed

section \<open>The invariant\<close>

abbreviation frames_of :: "Paging \<Rightarrow> FrameState list" where
  "frames_of s \<equiv> frame_db (pg_frames s)"

definition vm_spaces :: "Paging \<Rightarrow> u64 set \<Rightarrow> spaces" where
  "vm_spaces s R t =
     (if t = pg_active_pml4 s then Some UNIV
      else if t \<in> table_for_physical s ` R then Some {..<256} else None)"

text \<open>What the operations on mappings never change.\<close>

definition same_setup :: "Paging \<Rightarrow> Paging \<Rightarrow> bool" where
  "same_setup s s' \<longleftrightarrow>
     pg_translator s' = pg_translator s \<and> pg_active_pml4 s' = pg_active_pml4 s \<and>
     pg_kernel_pml4 s' = pg_kernel_pml4 s \<and> pg_frame_ready s' = pg_frame_ready s \<and>
     pfa_frame_count (pg_frames s') = pfa_frame_count (pg_frames s)"

text \<open>
  The part about the configuration: the allocator, the translation of frame addresses to pointers, and the
  roots. Frame 0 is neither free nor handed out, since address 0 stands for the kernel root.
\<close>

definition setup_ok :: "Paging \<Rightarrow> u64 set \<Rightarrow> bool" where
  "setup_ok s R \<longleftrightarrow>
     pg_frame_ready s \<and> pg_active_pml4 s \<noteq> 0 \<and> pg_active_pml4 s = table_for_physical s (pg_kernel_pml4 s) \<and>
     pfa_frame_count (pg_frames s) \<le> 2 ^ 40 \<and>
     inj_on (\<lambda>i. table_for_physical s (frame_addr i)) {..<pfa_frame_count (pg_frames s)} \<and>
     (\<forall>r \<in> R. r \<noteq> 0 \<and> table_for_physical s r \<noteq> pg_active_pml4 s \<and> (\<exists>i < pfa_frame_count (pg_frames s). r = frame_addr i))"

definition owned_frame :: "Paging \<Rightarrow> u64 \<Rightarrow> bool" where
  "owned_frame s a \<longleftrightarrow>
     (\<exists>k < pfa_frame_count (pg_frames s). k \<noteq> 0 \<and> frames_of s ! k = FrameAllocated \<and> a = frame_addr k)"

definition tables_ok :: "Paging \<Rightarrow> u64 set \<Rightarrow> bool" where
  "tables_ok s R \<longleftrightarrow>
     (let m = pg_mem s; f = table_for_physical s; S = vm_spaces s R in
      forest m f S \<and>
      (\<forall>i < pfa_frame_count (pg_frames s). frames_of s ! i = FrameFree \<longrightarrow> i \<noteq> 0 \<and> f (frame_addr i) \<notin> nodes m f S) \<and>
      (\<forall>r \<in> R. owned_frame s r \<and>
         (\<forall>p i x. path_ok S (f r) (p @ [i]) \<longrightarrow> walk m f (f r) p = Some x \<longrightarrow> m x i AND PRESENT \<noteq> 0 \<longrightarrow>
            owned_frame s (m x i AND ADDRESS_MASK))))"

definition vm_ok :: "Paging \<Rightarrow> u64 set \<Rightarrow> bool" where
  "vm_ok s R \<longleftrightarrow> pfa_ok (pg_frames s) \<and> setup_ok s R \<and> tables_ok s R"

lemma table_for_physical_update [simp]:
  "table_for_physical (s\<lparr>pg_mem := m\<rparr>) = table_for_physical s" "table_for_physical (s\<lparr>pg_frames := fa\<rparr>) = table_for_physical s"
  by (simp_all add: table_for_physical_def fun_eq_iff)

lemma same_setup_refl [simp]: "same_setup s s"
  by (simp add: same_setup_def)

lemma same_setup_trans: "same_setup s s' \<Longrightarrow> same_setup s' s'' \<Longrightarrow> same_setup s s''"
  by (simp add: same_setup_def)

lemma same_setup_table: "same_setup s s' \<Longrightarrow> table_for_physical s' = table_for_physical s"
  by (rule ext) (simp add: same_setup_def table_for_physical_def)

lemma same_setup_spaces: "same_setup s s' \<Longrightarrow> vm_spaces s' R = vm_spaces s R"
  by (rule ext) (simp add: vm_spaces_def same_setup_table, simp add: same_setup_def)

lemma same_setup_ok: "same_setup s s' \<Longrightarrow> setup_ok s' R = setup_ok s R"
  by (simp add: setup_ok_def same_setup_table, simp add: same_setup_def)

lemma setup_okD:
  assumes "setup_ok s R"
  shows "pg_frame_ready s" "pg_active_pml4 s \<noteq> 0" "pg_active_pml4 s = table_for_physical s (pg_kernel_pml4 s)"
    "pfa_frame_count (pg_frames s) \<le> 2 ^ 40"
    "r \<in> R \<Longrightarrow> r \<noteq> 0" "r \<in> R \<Longrightarrow> table_for_physical s r \<noteq> pg_active_pml4 s"
    "r \<in> R \<Longrightarrow> \<exists>i < pfa_frame_count (pg_frames s). r = frame_addr i"
    "i < pfa_frame_count (pg_frames s) \<Longrightarrow> j < pfa_frame_count (pg_frames s) \<Longrightarrow>
      table_for_physical s (frame_addr i) = table_for_physical s (frame_addr j) \<Longrightarrow> i = j"
  using assms unfolding setup_ok_def by (auto dest: inj_onD)

lemma root_inj:
  "setup_ok s R \<Longrightarrow> r \<in> R \<Longrightarrow> r' \<in> R \<Longrightarrow> table_for_physical s r = table_for_physical s r' \<Longrightarrow> r = r'"
  using setup_okD(7,8) [of s R] by metis

lemma tables_okD:
  assumes "tables_ok s R"
  shows "forest (pg_mem s) (table_for_physical s) (vm_spaces s R)"
    "i < pfa_frame_count (pg_frames s) \<Longrightarrow> frames_of s ! i = FrameFree \<Longrightarrow>
      i \<noteq> 0 \<and> table_for_physical s (frame_addr i) \<notin> nodes (pg_mem s) (table_for_physical s) (vm_spaces s R)"
    "r \<in> R \<Longrightarrow> owned_frame s r"
    "r \<in> R \<Longrightarrow> path_ok (vm_spaces s R) (table_for_physical s r) (p @ [j]) \<Longrightarrow>
      walk (pg_mem s) (table_for_physical s) (table_for_physical s r) p = Some x \<Longrightarrow> pg_mem s x j AND PRESENT \<noteq> 0 \<Longrightarrow>
      owned_frame s (pg_mem s x j AND ADDRESS_MASK)"
  using assms unfolding tables_ok_def Let_def by blast+

lemma vm_okD:
  assumes "vm_ok s R"
  shows "pfa_ok (pg_frames s)" "setup_ok s R" "tables_ok s R"
  using assms by (simp_all add: vm_ok_def)

lemma path_ok_kernel: "length p \<le> 3 \<Longrightarrow> path_ok (vm_spaces s R) (pg_active_pml4 s) p"
  by (simp add: path_ok_def vm_spaces_def)

lemma path_ok_user:
  assumes "setup_ok s R" "r \<in> R"
  shows "path_ok (vm_spaces s R) (table_for_physical s r) p \<longleftrightarrow> length p \<le> 3 \<and> (p \<noteq> [] \<longrightarrow> hd p < 256)"
  using assms setup_okD(6) [OF assms] by (auto simp: path_ok_def vm_spaces_def)

text \<open>The entry that maps a page, and the pages of a space.\<close>

definition page_entry :: "Paging \<Rightarrow> u64 \<Rightarrow> u64 \<Rightarrow> u64" where
  "page_entry s t va = leaf_entry (pg_mem s) (table_for_physical s) t (va_path va) (pg_index va 12)"

definition in_space :: "Paging \<Rightarrow> u64 set \<Rightarrow> u64 \<Rightarrow> u64 \<Rightarrow> bool" where
  "in_space s R t va \<longleftrightarrow> path_ok (vm_spaces s R) t (va_path va)"

text \<open>Frames that were handed out and hold no table: the memory behind the pages that are mapped.\<close>

definition data_frames :: "Paging \<Rightarrow> u64 set \<Rightarrow> nat set" where
  "data_frames s R =
     {k. k < pfa_frame_count (pg_frames s) \<and> k \<noteq> 0 \<and> frames_of s ! k = FrameAllocated \<and>
         table_for_physical s (frame_addr k) \<notin> nodes (pg_mem s) (table_for_physical s) (vm_spaces s R)}"

text \<open>
  A state reached by adding empty tables: the invariant holds, tables that were reached still are,
  every page has the entry it had, and the frames with data are the same.
\<close>

definition more_tables :: "u64 set \<Rightarrow> Paging \<Rightarrow> Paging \<Rightarrow> bool" where
  "more_tables R s s' \<longleftrightarrow>
     vm_ok s' R \<and> same_setup s s' \<and>
     (\<forall>t p x. path_ok (vm_spaces s R) t p \<longrightarrow> walk (pg_mem s) (table_for_physical s) t p = Some x \<longrightarrow>
        walk (pg_mem s') (table_for_physical s) t p = Some x) \<and>
     (\<forall>t va. in_space s R t va \<longrightarrow> page_entry s' t va = page_entry s t va) \<and> data_frames s' R = data_frames s R"

lemma more_tables_refl: "vm_ok s R \<Longrightarrow> more_tables R s s"
  by (simp add: more_tables_def)

lemma more_tables_trans: "more_tables R s s' \<Longrightarrow> more_tables R s' s'' \<Longrightarrow> more_tables R s s''"
proof -
  assume g: "more_tables R s s'" "more_tables R s' s''"
  then have cfg: "same_setup s s'" "same_setup s' s''" by (simp_all add: more_tables_def)
  note eqs = same_setup_table [OF cfg(1)] same_setup_spaces [OF cfg(1)]
  show ?thesis using g same_setup_trans [OF cfg] unfolding more_tables_def in_space_def eqs by simp
qed

lemma more_tablesD:
  assumes "more_tables R s s'"
  shows "vm_ok s' R" "same_setup s s'"
    "path_ok (vm_spaces s R) t p \<Longrightarrow> walk (pg_mem s) (table_for_physical s) t p = Some x \<Longrightarrow>
       walk (pg_mem s') (table_for_physical s) t p = Some x"
    "in_space s R t va \<Longrightarrow> page_entry s' t va = page_entry s t va" "data_frames s' R = data_frames s R"
  using assms unfolding more_tables_def by blast+

text \<open>
  A free frame becomes a table: the invariant holds when the frame is the only new node, and the only
  new address in the tables of user roots.
\<close>

lemma tables_ok_claim:
  assumes ok: "vm_ok s R" and k: "k < pfa_frame_count (pg_frames s)" "frames_of s ! k = FrameFree"
    and fa: "frames_of s' = (frames_of s)[k := FrameAllocated]" and cfg: "same_setup s s'"
    and forest: "forest (pg_mem s') (table_for_physical s) (vm_spaces s' R')"
    and nodes: "nodes (pg_mem s') (table_for_physical s) (vm_spaces s' R') \<subseteq>
      insert (table_for_physical s (frame_addr k)) (nodes (pg_mem s) (table_for_physical s) (vm_spaces s R))"
    and roots: "R' \<subseteq> insert (frame_addr k) R"
    and entries: "\<And>r p i x. r \<in> R' \<Longrightarrow> path_ok (vm_spaces s' R') (table_for_physical s r) (p @ [i]) \<Longrightarrow>
      walk (pg_mem s') (table_for_physical s) (table_for_physical s r) p = Some x \<Longrightarrow> pg_mem s' x i AND PRESENT \<noteq> 0 \<Longrightarrow>
      pg_mem s' x i AND ADDRESS_MASK = frame_addr k \<or> owned_frame s (pg_mem s' x i AND ADDRESS_MASK)"
  shows "tables_ok s' R'"
proof -
  note d = vm_okD [OF ok] and td = tables_okD [OF vm_okD(3) [OF ok]]
  have len: "length (frames_of s) = pfa_frame_count (pg_frames s)" using pfa_okD(2) [OF d(1)] by simp
  have fc: "pfa_frame_count (pg_frames s') = pfa_frame_count (pg_frames s)" using cfg by (simp add: same_setup_def)
  have owned: "owned_frame s' a" if "a = frame_addr k \<or> owned_frame s a" for a
    using that len k td(2) [OF k] unfolding owned_frame_def fa fc by (auto simp: nth_list_update)
  have free: "j \<noteq> 0 \<and> table_for_physical s (frame_addr j) \<notin> nodes (pg_mem s') (table_for_physical s) (vm_spaces s' R')"
    if j: "j < pfa_frame_count (pg_frames s)" "frames_of s' ! j = FrameFree" for j
  proof -
    have jf: "j \<noteq> k" "frames_of s ! j = FrameFree" using j len k(1) by (auto simp: fa nth_list_update split: if_splits)
    then show ?thesis using td(2) [OF j(1)] setup_okD(8) [OF d(2) j(1) k(1)] nodes by blast
  qed
  show ?thesis
    unfolding tables_ok_def Let_def same_setup_table [OF cfg] fc
    using forest free roots td(3) owned entries by blast
qed

text \<open>When the frame is a node afterwards, the frames with data are the same.\<close>

lemma data_frames_claim:
  assumes ok: "vm_ok s R" and k: "k < pfa_frame_count (pg_frames s)" "frames_of s ! k = FrameFree"
    and fa: "frames_of s' = (frames_of s)[k := FrameAllocated]" and cfg: "same_setup s s'"
    and nodes: "nodes (pg_mem s') (table_for_physical s) (vm_spaces s' R') =
      insert (table_for_physical s (frame_addr k)) (nodes (pg_mem s) (table_for_physical s) (vm_spaces s R))"
  shows "data_frames s' R' = data_frames s R"
proof -
  have fc: "pfa_frame_count (pg_frames s') = pfa_frame_count (pg_frames s)" using cfg by (simp add: same_setup_def)
  have len: "length (frames_of s) = pfa_frame_count (pg_frames s)" using pfa_okD(2) [OF vm_okD(1) [OF ok]] by simp
  have "table_for_physical s (frame_addr j) = table_for_physical s (frame_addr k) \<longleftrightarrow> j = k" if "j < pfa_frame_count (pg_frames s)" for j
    using setup_okD(8) [OF vm_okD(2) [OF ok] that k(1)] by auto
  then show ?thesis
    unfolding data_frames_def same_setup_table [OF cfg] nodes fc fa using k len by (auto simp: nth_list_update)
qed

text \<open>A fresh frame, zeroed and linked below a table, keeps the invariant.\<close>

lemma link_frame_ok:
  assumes ok: "vm_ok s R" and p: "path_ok (vm_spaces s R) t (p @ [i])"
    and x: "walk (pg_mem s) (table_for_physical s) t p = Some x" and none: "pg_mem s x i AND PRESENT = 0"
    and k: "k < pfa_frame_count (pg_frames s)" "frames_of s ! k = FrameFree"
    and fa: "frame_db fa = (frames_of s)[k := FrameAllocated]" "pfa_ok fa" "pfa_frame_count fa = pfa_frame_count (pg_frames s)"
    and e: "e AND PRESENT \<noteq> 0" "e AND ADDRESS_MASK = frame_addr k"
  defines "n \<equiv> table_for_physical s (frame_addr k)"
  defines "s' \<equiv> s\<lparr>pg_frames := fa, pg_mem := link (pg_mem s) n x i e\<rparr>"
  shows "more_tables R s s'" and "walk (pg_mem s') (table_for_physical s) t (p @ [i]) = Some n"
proof -
  let ?f = "table_for_physical s" and ?S = "vm_spaces s R" and ?m = "pg_mem s"
  note d = vm_okD [OF ok] and td = tables_okD [OF vm_okD(3) [OF ok]]
  have l: "can_link ?m ?f ?S t p x i n e"
    using td(1) td(2) [OF k] p x none e by (simp add: can_link_def n_def)
  have mem: "pg_mem s' = link ?m n x i e" and frames: "pg_frames s' = fa" by (simp_all add: s'_def)
  have cfg: "same_setup s s'" using fa(3) by (simp add: same_setup_def s'_def)
  note eqs = same_setup_table [OF cfg] same_setup_spaces [OF cfg]
  show "walk (pg_mem s') ?f t (p @ [i]) = Some n"
    using walk_link_new [OF l, of "[]"] by (simp add: mem)
  have "tables_ok s' R"
  proof (rule tables_ok_claim [OF ok k _ cfg])
    fix r q j y
    assume r: "r \<in> R" "path_ok (vm_spaces s' R) (?f r) (q @ [j])" "walk (pg_mem s') ?f (?f r) q = Some y"
      "pg_mem s' y j AND PRESENT \<noteq> 0"
    then have q: "path_ok ?S (?f r) (q @ [j])" "path_ok ?S (?f r) q" using path_ok_prefix [of ?S "?f r" "q @ [j]" q] by (simp_all add: eqs)
    from link_entry [OF l q(2), of y j] r(3,4)
    have "pg_mem s' y j = e \<or> walk ?m ?f (?f r) q = Some y \<and> pg_mem s' y j = pg_mem s y j" by (simp add: mem)
    then show "pg_mem s' y j AND ADDRESS_MASK = frame_addr k \<or> owned_frame s (pg_mem s' y j AND ADDRESS_MASK)"
      using e(2) td(4) [OF r(1) q(1)] r(4) by auto
  qed (use fa forest_link [OF l] nodes_link [OF l] in \<open>simp_all add: eqs mem frames n_def subset_insertI\<close>)
  then have "vm_ok s' R" using fa(2) d(2) same_setup_ok [OF cfg] by (simp add: vm_ok_def frames)
  moreover have "page_entry s' t' va = page_entry s t' va" if "in_space s R t' va" for t' va
    using leaf_entry_link [OF l, of t' "va_path va"] that unfolding page_entry_def in_space_def eqs by (simp add: mem)
  moreover have "data_frames s' R = data_frames s R"
  proof (rule data_frames_claim [OF ok k _ cfg])
    show "nodes (pg_mem s') ?f (vm_spaces s' R) = insert (?f (frame_addr k)) (nodes ?m ?f ?S)"
      using nodes_link_eq [OF l] by (simp add: eqs mem n_def)
  qed (use fa in \<open>simp_all add: frames\<close>)
  ultimately show "more_tables R s s'" using cfg walk_link_keeps [OF l] unfolding more_tables_def mem by blast
qed

section \<open>Stepping down\<close>

locale table_step =
  fixes grow :: "AddressTranslator \<Rightarrow> Paging \<Rightarrow> u64 \<Rightarrow> nat \<Rightarrow> (Paging, 'e, u64) op_result" and flags :: u64 and err :: 'e
  assumes flags_present: "flags AND PRESENT \<noteq> 0" and flags_ok: "flags_ok flags"
    and grow_present: "read_entry s x i AND PRESENT \<noteq> 0 \<Longrightarrow>
      grow (pg_translator s) s x i = (s, Inr (table_for_physical s (read_entry s x i AND ADDRESS_MASK)))"
    and grow_oom: "pg_frame_ready s \<Longrightarrow> read_entry s x i AND PRESENT = 0 \<Longrightarrow> allocate_frame (pg_frames s) = (fa, Inl e) \<Longrightarrow>
      grow (pg_translator s) s x i = (s\<lparr>pg_frames := fa\<rparr>, Inl err)"
    and grow_new: "pg_frame_ready s \<Longrightarrow> read_entry s x i AND PRESENT = 0 \<Longrightarrow> allocate_frame (pg_frames s) = (fa, Inr fr) \<Longrightarrow>
      entry = (pf_start fr AND ADDRESS_MASK) OR flags \<Longrightarrow>
      grow (pg_translator s) s x i =
        (s\<lparr>pg_frames := fa, pg_mem := link (pg_mem s) (table_for_physical s (pf_start fr)) x i entry\<rparr>,
         Inr (table_for_physical s (entry AND ADDRESS_MASK)))"
begin

lemma grow_step:
  assumes ok: "vm_ok s R" and tr: "tr = pg_translator s" and p: "path_ok (vm_spaces s R) t (p @ [i])"
    and x: "walk (pg_mem s) (table_for_physical s) t p = Some x"
  obtains (fail) "grow tr s x i = (s, Inl err)"
    | (grew) s' n where "grow tr s x i = (s', Inr n)" "more_tables R s s'" "walk (pg_mem s') (table_for_physical s) t (p @ [i]) = Some n"
proof (cases "read_entry s x i AND PRESENT = 0")
  case False
  then have "walk (pg_mem s) (table_for_physical s) t (p @ [i]) = Some (table_for_physical s (read_entry s x i AND ADDRESS_MASK))"
    using x by (simp add: walk_append read_entry_def)
  then show thesis using grow_present [OF False] more_tables_refl [OF ok] that(2) unfolding tr by blast
next
  case True
  note d = vm_okD [OF ok] and ready = setup_okD(1) [OF vm_okD(2) [OF ok]]
  show thesis
  using d(1) proof (cases rule: allocate_frame_cases)
    case oom
    then show thesis using fail grow_oom [OF ready True oom(1)] by (simp add: tr)
  next
    case (ok k fa)
    let ?e = "(frame_addr k AND ADDRESS_MASK) OR flags"
    have k: "k < 2 ^ 40" using ok(1) setup_okD(4) [OF d(2)] by simp
    have e: "?e AND ADDRESS_MASK = frame_addr k" "?e AND PRESENT \<noteq> 0"
      unfolding entry_address [OF flags_ok] entry_flags [OF flag_bits(1)] using masked_frame [OF k] flags_present by simp_all
    have none: "pg_mem s x i AND PRESENT = 0" using True by (simp add: read_entry_def)
    note linked = link_frame_ok [OF assms(1) p x none ok(1,2,5,6,7) e(2,1)]
    show thesis
      using that(2) [OF _ linked] grow_new [OF ready True ok(4) refl] by (simp add: tr e(1))
  qed
qed

lemma descend:
  assumes ok: "vm_ok s R" and tr: "tr = pg_translator s" and sp: "in_space s R t va"
  obtains (fail) s' where "more_tables R s s'"
      "and_then (grow tr s t (pg_index va 39)) (\<lambda>s pdpt. and_then (grow tr s pdpt (pg_index va 30)) (\<lambda>s pd.
         and_then (grow tr s pd (pg_index va 21)) k)) = (s', Inl err)"
    | (grew) s' pt where "more_tables R s s'" "walk (pg_mem s') (table_for_physical s) t (va_path va) = Some pt"
      "and_then (grow tr s t (pg_index va 39)) (\<lambda>s pdpt. and_then (grow tr s pdpt (pg_index va 30)) (\<lambda>s pd.
         and_then (grow tr s pd (pg_index va 21)) k)) = k s' pt"
proof -
  let ?a = "pg_index va 39" and ?b = "pg_index va 30" and ?c = "pg_index va 21" and ?f = "table_for_physical s"
  have path: "path_ok (vm_spaces s R) t [?a, ?b, ?c]" using sp by (simp add: in_space_def va_path_def)
  note p = path_ok_prefix [OF path]
  show thesis
  proof (rule grow_step [OF ok tr, of t "[]" ?a t])
    show "path_ok (vm_spaces s R) t ([] @ [?a])" using p by simp
    assume "grow tr s t ?a = (s, Inl err)"
    then show thesis using fail more_tables_refl [OF ok] by simp
  next
    fix s1 n1 assume 1: "grow tr s t ?a = (s1, Inr n1)" "more_tables R s s1" "walk (pg_mem s1) ?f t ([] @ [?a]) = Some n1"
    note c1 = more_tablesD(2) [OF 1(2)]
    note e1 = same_setup_table [OF c1] same_setup_spaces [OF c1]
    have tr1: "tr = pg_translator s1" using tr c1 by (simp add: same_setup_def)
    show thesis
    proof (rule grow_step [OF more_tablesD(1) [OF 1(2)] tr1, of t "[?a]" ?b n1])
      show "path_ok (vm_spaces s1 R) t ([?a] @ [?b])" using p e1 by simp
      show "walk (pg_mem s1) (table_for_physical s1) t [?a] = Some n1" using 1(3) e1 by simp
      assume "grow tr s1 n1 ?b = (s1, Inl err)"
      then show thesis using fail [OF 1(2)] 1(1) by simp
    next
      fix s2 n2 assume 2: "grow tr s1 n1 ?b = (s2, Inr n2)" "more_tables R s1 s2"
        "walk (pg_mem s2) (table_for_physical s1) t ([?a] @ [?b]) = Some n2"
      note g2 = more_tables_trans [OF 1(2) 2(2)] and c2 = more_tablesD(2) [OF 2(2)]
      note e2 = same_setup_table [OF c2] same_setup_spaces [OF c2]
      have tr2: "tr = pg_translator s2" using tr1 c2 by (simp add: same_setup_def)
      show thesis
      proof (rule grow_step [OF more_tablesD(1) [OF g2] tr2, of t "[?a, ?b]" ?c n2])
        show "path_ok (vm_spaces s2 R) t ([?a, ?b] @ [?c])" using p e1 e2 by simp
        show "walk (pg_mem s2) (table_for_physical s2) t [?a, ?b] = Some n2" using 2(3) e1 e2 by simp
        assume "grow tr s2 n2 ?c = (s2, Inl err)"
        then show thesis using fail [OF g2] 1(1) 2(1) by simp
      next
        fix s3 n3 assume 3: "grow tr s2 n2 ?c = (s3, Inr n3)" "more_tables R s2 s3"
          "walk (pg_mem s3) (table_for_physical s2) t ([?a, ?b] @ [?c]) = Some n3"
        show thesis
          using that(2) [OF more_tables_trans [OF g2 3(2)], of n3] 1(1) 2(1) 3(1,3) e1 e2 by (simp add: va_path_def)
      qed
    qed
  qed simp
qed

end

lemma kernel_table_flags_ok: "flags_ok kernel_table_flags" "kernel_table_flags AND PRESENT \<noteq> 0"
  by (simp_all add: flags_ok_def kernel_table_flags_def page_flag_defs ADDRESS_MASK_def)

lemma user_table_flags_ok:
  "flags_ok (PRESENT OR WRITABLE OR USER_ACCESSIBLE)" "(PRESENT OR WRITABLE OR USER_ACCESSIBLE) AND PRESENT \<noteq> 0"
  by (simp_all add: flags_ok_def page_flag_defs ADDRESS_MASK_def)

lemmas table_step_defs = read_entry_def write_entry_def fill_zero_def link_def allocate_page_table_def
  allocate_physical_frame_def table_for_physical_def

interpretation kernel_step: table_step "\<lambda>tr s. next_table s tr" kernel_table_flags OutOfPageTables
  by unfold_locales (use kernel_table_flags_ok in \<open>auto simp: next_table_def table_step_defs\<close>)

interpretation user_step: table_step "\<lambda>_. user_next_table" "PRESENT OR WRITABLE OR USER_ACCESSIBLE" "()"
  by unfold_locales (use user_table_flags_ok in \<open>auto simp: user_next_table_def table_step_defs or.assoc\<close>)

section \<open>Writing a page\<close>

text \<open>The invariant holds afterwards, exactly one page of one space has a new entry, and no frame changed hands.\<close>

definition mapped :: "u64 set \<Rightarrow> u64 \<Rightarrow> u64 \<Rightarrow> u64 \<Rightarrow> Paging \<Rightarrow> Paging \<Rightarrow> bool" where
  "mapped R t va e s s' \<longleftrightarrow>
     vm_ok s' R \<and> same_setup s s' \<and>
     (\<forall>t' va'. in_space s R t' va' \<longrightarrow>
        page_entry s' t' va' = (if t' = t \<and> page_of va' = page_of va then e else page_entry s t' va')) \<and>
     data_frames s' R = data_frames s R"

lemma mappedD:
  assumes "mapped R t va e s s'"
  shows "vm_ok s' R" "same_setup s s'"
    "in_space s R t' va' \<Longrightarrow> page_entry s' t' va' = (if t' = t \<and> page_of va' = page_of va then e else page_entry s t' va')"
    "data_frames s' R = data_frames s R"
  using assms unfolding mapped_def by blast+

lemma more_tables_mapped: "more_tables R s s1 \<Longrightarrow> mapped R t va e s1 s' \<Longrightarrow> mapped R t va e s s'"
proof -
  assume a: "more_tables R s s1" "mapped R t va e s1 s'"
  note c = more_tablesD(2) [OF a(1)]
  have "in_space s1 R t' va' = in_space s R t' va'" for t' va' by (simp add: in_space_def same_setup_spaces [OF c])
  then show ?thesis
    using mappedD [OF a(2)] more_tablesD(4,5) [OF a(1)] same_setup_trans [OF c] unfolding mapped_def by simp
qed

lemma write_page:
  assumes ok: "vm_ok s R" and sp: "in_space s R t va"
    and pt: "walk (pg_mem s) (table_for_physical s) t (va_path va) = Some pt"
  shows "mapped R t va e s (write_entry s pt (pg_index va 12) e)"
proof -
  let ?s = "write_entry s pt (pg_index va 12) e" and ?f = "table_for_physical s" and ?S = "vm_spaces s R"
  note d = vm_okD [OF ok] and td = tables_okD [OF vm_okD(3) [OF ok]]
  have mem: "pg_mem ?s = set_leaf (pg_mem s) pt (pg_index va 12) e" by (simp add: write_entry_def set_leaf_def)
  have frames: "pg_frames ?s = pg_frames s" by (simp add: write_entry_def)
  have cfg: "same_setup s ?s" by (simp add: same_setup_def write_entry_def)
  note eqs = same_setup_table [OF cfg] same_setup_spaces [OF cfg]
  note q0 = sp [unfolded in_space_def] length_va_path(1) pt
  note leaf = walk_leaf [OF td(1) q0] forest_leaf [OF td(1) q0] leaf_entry_leaf [OF td(1) q0]
  have owned: "owned_frame ?s a = owned_frame s a" for a by (simp add: owned_frame_def frames)
  have "tables_ok ?s R"
    unfolding tables_ok_def Let_def eqs mem frames
  proof (intro conjI allI impI ballI)
    fix r p i x
    assume r: "r \<in> R" "path_ok ?S (?f r) (p @ [i])" "walk (set_leaf (pg_mem s) pt (pg_index va 12) e) ?f (?f r) p = Some x"
      "set_leaf (pg_mem s) pt (pg_index va 12) e x i AND PRESENT \<noteq> 0"
    have w: "walk (pg_mem s) ?f (?f r) p = Some x" using r(3) leaf(1) path_ok_prefix [OF r(2)] by simp
    show "owned_frame ?s (set_leaf (pg_mem s) pt (pg_index va 12) e x i AND ADDRESS_MASK)"
      using td(4) [OF r(1,2) w] r(4) leaf_inner_entry [OF td(1) q0 r(2) w] by (simp add: owned)
  qed (use leaf(2,3) td(2,3) owned in auto)
  then have "vm_ok ?s R" using d same_setup_ok [OF cfg] by (simp add: vm_ok_def frames)
  moreover have "page_entry ?s t' va' = (if t' = t \<and> page_of va' = page_of va then e else page_entry s t' va')"
    if "in_space s R t' va'" for t' va'
    using leaf(4) [of t' "va_path va'"] that same_page_iff [of va' va]
    unfolding page_entry_def eqs mem in_space_def by auto
  moreover have "data_frames ?s R = data_frames s R" unfolding data_frames_def eqs mem frames leaf(3) ..
  ultimately show ?thesis using cfg by (simp add: mapped_def)
qed

lemma in_space_kernel: "in_space s R (pg_active_pml4 s) va"
  by (simp add: in_space_def path_ok_kernel)

lemma in_space_user: "setup_ok s R \<Longrightarrow> r \<in> R \<Longrightarrow> va < 0x0000800000000000 \<Longrightarrow> in_space s R (table_for_physical s r) va"
  using user_half by (simp add: in_space_def path_ok_user)

lemma same_setup_in_space: "same_setup s s' \<Longrightarrow> in_space s' R t va = in_space s R t va"
  by (simp add: in_space_def same_setup_spaces)

context table_step
begin

lemma map_leaf:
  assumes ok: "vm_ok s R" and tr: "tr = pg_translator s" and sp: "in_space s R t va"
    and op: "op = and_then (grow tr s t (pg_index va 39)) (\<lambda>s pdpt. and_then (grow tr s pdpt (pg_index va 30)) (\<lambda>s pd.
       and_then (grow tr s pd (pg_index va 21)) (\<lambda>s pt. (write_entry s pt (pg_index va 12) e, ok_unit))))"
  obtains (full) s' where "more_tables R s s'" "op = (s', Inl err)"
    | (set) s' where "mapped R t va e s s'" "op = (s', ok_unit)"
proof (rule descend [OF ok tr sp, of "\<lambda>s pt. (write_entry s pt (pg_index va 12) e, ok_unit)"], goal_cases)
  case (1 s1)
  then show thesis by (intro full [of s1]) (simp_all only: op)
next
  case (2 s1 pt)
  note c = more_tablesD(2) [OF 2(3)]
  have "mapped R t va e s1 (write_entry s1 pt (pg_index va 12) e)"
    using 2(4) sp by (intro write_page [OF more_tablesD(1) [OF 2(3)]]) (simp_all add: same_setup_in_space [OF c] same_setup_table [OF c])
  from more_tables_mapped [OF 2(3) this] show thesis using 2(5) by (intro set) (simp_all only: op)
qed

end

lemma map_page_inner_cases:
  assumes ok: "vm_ok s R"
  obtains (full) s' where "more_tables R s s'"
      "map_page_inner s (pg_active_pml4 s) (pg_translator s) pa va flags = (s', Inl OutOfPageTables)"
    | (set) s' where "mapped R (pg_active_pml4 s) va ((pa AND ADDRESS_MASK) OR flags) s s'"
      "map_page_inner s (pg_active_pml4 s) (pg_translator s) pa va flags = (s', ok_unit)"
  by (rule kernel_step.map_leaf [OF ok refl in_space_kernel map_page_inner_def]) (rule that; assumption)+

lemma map_user_page_cases:
  assumes ok: "vm_ok s R" and r: "root \<in> R"
  obtains (refused) "map_user_page s root va pa prot = (s, Inl ())" "\<not> va < 0x0000800000000000 \<or> va AND (PAGE_SIZE - 1) \<noteq> 0"
    | (full) s' where "more_tables R s s'" "map_user_page s root va pa prot = (s', Inl ())"
    | (set) s' where "mapped R (table_for_physical s root) va ((pa AND ADDRESS_MASK) OR user_flags_from_protection prot) s s'"
      "map_user_page s root va pa prot = (s', ok_unit)" "va < 0x0000800000000000" "va AND (PAGE_SIZE - 1) = 0"
proof (cases "va < 0x0000800000000000 \<and> va AND (PAGE_SIZE - 1) = 0")
  case False
  then show thesis by (intro refused) (auto simp: map_user_page_def not_less)
next
  case True
  note d = vm_okD [OF ok]
  note sp = in_space_user [OF d(2) r True [THEN conjunct1]]
  have "map_user_page s root va pa prot = and_then (user_next_table s (table_for_physical s root) (pg_index va 39)) (\<lambda>s' pdpt.
      and_then (user_next_table s' pdpt (pg_index va 30)) (\<lambda>s' pd.
      and_then (user_next_table s' pd (pg_index va 21)) (\<lambda>s pt.
        (write_entry s pt (pg_index va 12) ((pa AND ADDRESS_MASK) OR user_flags_from_protection prot), ok_unit))))"
    using True setup_okD(5) [OF d(2) r] by (auto simp: map_user_page_def)
  then show thesis
    by (rule user_step.map_leaf [OF ok refl sp]) (use full set True in blast)+
qed

section \<open>Translations\<close>

text \<open>What an entry means for an access, to the kernel and to a user program.\<close>

definition kernel_view :: "u64 \<Rightarrow> u64 \<Rightarrow> u64 option" where
  "kernel_view e va = (if e AND PRESENT = 0 then None else Some ((e AND ADDRESS_MASK) OR (va AND (PAGE_SIZE - 1))))"

definition user_view :: "bool \<Rightarrow> u64 \<Rightarrow> u64 \<Rightarrow> u64 option" where
  "user_view w e va =
     (if e AND USER_ACCESSIBLE = 0 \<or> w \<and> e AND WRITABLE = 0 then None else kernel_view e va)"

lemma leaf_table_walk: "leaf_table s t va = walk (pg_mem s) (table_for_physical s) t (va_path va)"
  by (simp add: leaf_table_def va_path_def read_entry_def Let_def)

lemma translate_virt_view:
  "translate_virt s va = (if pg_active_pml4 s = 0 then None else kernel_view (page_entry s (pg_active_pml4 s) va) va)"
  by (simp add: translate_virt_def leaf_table_walk page_entry_def leaf_entry_def kernel_view_def read_entry_def Let_def
      split: option.splits)

lemma translate_user_page_view:
  "translate_user_page s r va w =
     (if r = 0 \<or> \<not> va < 0x0000800000000000 then None else user_view w (page_entry s (table_for_physical s r) va) va)"
  by (simp add: translate_user_page_def user_leaf_table_def leaf_table_walk page_entry_def leaf_entry_def user_view_def
      kernel_view_def read_entry_def Let_def not_less split: option.splits) auto

lemma user_flags_bits:
  "user_flags_from_protection prot AND PRESENT \<noteq> 0" "user_flags_from_protection prot AND USER_ACCESSIBLE \<noteq> 0"
  "user_flags_from_protection prot AND WRITABLE = 0 \<longleftrightarrow> \<not> prot_write prot" "flags_ok (user_flags_from_protection prot)"
  by (simp_all add: user_flags_from_protection_def page_flag_defs ADDRESS_MASK_def flags_ok_def)

lemma user_view_entry:
  "user_view w ((pa AND ADDRESS_MASK) OR user_flags_from_protection prot) va =
     (if w \<and> \<not> prot_write prot then None else Some ((pa AND ADDRESS_MASK) OR (va AND (PAGE_SIZE - 1))))"
  unfolding user_view_def kernel_view_def entry_address [OF user_flags_bits(4)]
    entry_flags [OF flag_bits(1)] entry_flags [OF flag_bits(2)] entry_flags [OF flag_bits(3)]
  by (simp add: user_flags_bits)

lemma views_zero [simp]: "kernel_view 0 va = None" "user_view w 0 va = None"
  by (simp_all add: kernel_view_def user_view_def)

text \<open>The translations before and after, from the entries.\<close>

lemma more_tables_translations:
  assumes ok: "vm_ok s R" and g: "more_tables R s s'"
  shows "translate_virt s' va = translate_virt s va" and "r \<in> R \<Longrightarrow> translate_user_page s' r va w = translate_user_page s r va w"
proof -
  note c = more_tablesD(2) [OF g]
  have act: "pg_active_pml4 s' = pg_active_pml4 s" using c by (simp add: same_setup_def)
  show "translate_virt s' va = translate_virt s va"
    using more_tablesD(4) [OF g in_space_kernel] by (simp add: translate_virt_view act)
  show "translate_user_page s' r va w = translate_user_page s r va w" if "r \<in> R"
    using more_tablesD(4) [OF g in_space_user [OF vm_okD(2) [OF ok] that]]
    by (simp add: translate_user_page_view same_setup_table [OF c])
qed

lemma align_down_user:
  assumes "va < 0x0000800000000000" "va AND (PAGE_SIZE - 1) = 0"
  shows "va' < 0x0000800000000000 \<and> page_of va' = page_of va \<longleftrightarrow> align_down va' = va"
proof
  assume "va' < 0x0000800000000000 \<and> page_of va' = page_of va"
  then show "align_down va' = va" using user_page_eq [of va va'] assms by (simp add: align_down_def)
next
  assume eq: "align_down va' = va"
  have "unat va = unat va' div 4096 * 4096" using unat_and_not_mask [of va'] eq by (simp add: align_down_def)
  moreover have "unat va < 0x0000800000000000" using assms(1) by (simp add: word_less_nat_alt)
  ultimately have "va' < 0x0000800000000000" by (simp add: word_less_nat_alt)
  moreover have "page_of va = page_of va'"
    unfolding page_of_eq_iff eq [symmetric] align_down_def page_mask by (simp add: bit_simps)
  ultimately show "va' < 0x0000800000000000 \<and> page_of va' = page_of va" by simp
qed

section \<open>Creating a space\<close>

lemma copy_entries:
  assumes "t \<noteq> pg_active_pml4 s"
  shows "foldl (\<lambda>s idx. write_entry s t idx (read_entry s (pg_active_pml4 s) idx)) s xs =
    s\<lparr>pg_mem := (pg_mem s)(t := (\<lambda>i. if i \<in> set xs then pg_mem s (pg_active_pml4 s) i else pg_mem s t i))\<rparr>"
  using assms
proof (induction xs arbitrary: s)
  case (Cons x xs)
  have "t \<noteq> pg_active_pml4 (write_entry s t x (read_entry s (pg_active_pml4 s) x))"
    using Cons.prems by (simp add: write_entry_def)
  from Cons.IH [OF this] Cons.prems show ?case by (auto simp: write_entry_def read_entry_def fun_eq_iff)
qed (simp add: fun_upd_def)

text \<open>A fresh root with an empty user half is a space of its own.\<close>

lemma add_root_ok:
  assumes ok: "vm_ok s R" and k: "k < pfa_frame_count (pg_frames s)" "frames_of s ! k = FrameFree"
    and fa: "frame_db fa = (frames_of s)[k := FrameAllocated]" "pfa_ok fa" "pfa_frame_count fa = pfa_frame_count (pg_frames s)"
    and g: "\<forall>i \<in> {..<256}. g i AND PRESENT = 0"
  defines "n \<equiv> table_for_physical s (frame_addr k)"
  defines "s' \<equiv> s\<lparr>pg_frames := fa, pg_mem := (pg_mem s)(n := g)\<rparr>"
  shows "vm_ok s' (insert (frame_addr k) R)" "same_setup s s'" "frame_addr k \<notin> R" "n \<noteq> pg_active_pml4 s"
    "vm_spaces s' (insert (frame_addr k) R) = (vm_spaces s R)(n \<mapsto> {..<256})"
proof -
  let ?f = "table_for_physical s" and ?S = "vm_spaces s R" and ?m = "pg_mem s" and ?R = "insert (frame_addr k) R"
  let ?S' = "?S(n \<mapsto> {..<256})"
  note d = vm_okD [OF ok] and td = tables_okD [OF vm_okD(3) [OF ok]] and sd = setup_okD [OF vm_okD(2) [OF ok]]
  have fresh: "n \<notin> nodes ?m ?f ?S" and k0: "k \<noteq> 0" using td(2) [OF k] by (simp_all add: n_def)
  note nS = fresh_not_root [OF fresh]
  have mem: "pg_mem s' = ?m(n := g)" and frames: "pg_frames s' = fa" by (simp_all add: s'_def)
  show cfg: "same_setup s s'" using fa(3) by (simp add: same_setup_def s'_def)
  show act: "n \<noteq> pg_active_pml4 s" using nS by (auto simp: vm_spaces_def)
  show "frame_addr k \<notin> R" using nS by (auto simp: vm_spaces_def n_def split: if_splits)
  show spaces: "vm_spaces s' ?R = ?S'"
    using act by (auto simp: vm_spaces_def fun_eq_iff n_def s'_def)
  note walks = walk_add_root [OF fresh g]
  have "tables_ok s' ?R"
  proof (rule tables_ok_claim [OF ok k _ cfg])
    fix r q j y
    assume r: "r \<in> ?R" "path_ok (vm_spaces s' ?R) (?f r) (q @ [j])" "walk (pg_mem s') ?f (?f r) q = Some y"
      "pg_mem s' y j AND PRESENT \<noteq> 0"
    from add_root_entry [OF fresh g r(2) [unfolded spaces] r(3,4) [unfolded mem]]
    have old: "?f r \<noteq> n" "path_ok ?S (?f r) (q @ [j])" "walk ?m ?f (?f r) q = Some y" "pg_mem s' y j = pg_mem s y j"
      by (simp_all add: mem)
    then have "r \<in> R" using r(1) by (auto simp: n_def)
    from td(4) [OF this old(2,3)] r(4) old(4)
    show "pg_mem s' y j AND ADDRESS_MASK = frame_addr k \<or> owned_frame s (pg_mem s' y j AND ADDRESS_MASK)" by simp
  qed (use fa forest_add_root [OF td(1) fresh g] nodes_add_root [OF fresh g] in \<open>simp_all add: spaces mem frames n_def\<close>)
  moreover have "setup_ok s' ?R"
  proof -
    have "frame_addr k \<noteq> 0" using unat_frame_at [of k] k(1) sd(4) k0 by auto
    then show ?thesis
      using d(2) act k(1) fa(3) cfg unfolding setup_ok_def same_setup_table [OF cfg] by (auto simp: same_setup_def n_def)
  qed
  ultimately show "vm_ok s' ?R" using fa(2) by (simp add: vm_ok_def frames)
qed

lemma create_cases:
  assumes ok: "vm_ok s R"
  obtains (full) "create_user_address_space s = (s, Inl ())"
    | (created) s' root where "create_user_address_space s = (s', Inr root)" "vm_ok s' (insert root R)" "same_setup s s'"
      "root \<notin> R" "root \<noteq> 0"
      "\<forall>t va. in_space s R t va \<longrightarrow> page_entry s' t va = page_entry s t va"
      "\<forall>va < 0x0000800000000000. page_entry s' (table_for_physical s root) va = 0"
      "\<forall>i \<in> {256..<ENTRY_COUNT}. pg_mem s' (table_for_physical s root) i = pg_mem s' (pg_active_pml4 s) i"
      "data_frames s R \<subseteq> data_frames s' (insert root R)"
proof -
  note d = vm_okD [OF ok] and td = tables_okD [OF vm_okD(3) [OF ok]] and sd = setup_okD [OF vm_okD(2) [OF ok]]
  show thesis
  using d(1) proof (cases rule: allocate_frame_cases)
    case oom
    then show thesis by (intro full) (simp add: create_user_address_space_def allocate_physical_frame_def)
  next
    case (ok k fa)
    let ?n = "table_for_physical s (frame_addr k)"
    let ?g = "\<lambda>i. if i \<in> set [256..<ENTRY_COUNT] then pg_mem s (pg_active_pml4 s) i else 0"
    let ?s = "s\<lparr>pg_frames := fa, pg_mem := (pg_mem s)(?n := ?g)\<rparr>"
    have g: "\<forall>i \<in> {..<256}. ?g i AND PRESENT = 0" by simp
    have fresh: "?n \<notin> nodes (pg_mem s) (table_for_physical s) (vm_spaces s R)" using td(2) [OF ok(1,2)] by simp
    note new = add_root_ok [OF assms ok(1,2,5,6,7) g]
    have eq: "create_user_address_space s = (?s, Inr (frame_addr k))"
    proof -
      have "?n \<noteq> pg_active_pml4 (fill_zero (s\<lparr>pg_frames := fa\<rparr>) ?n)" using new(4) by (simp add: fill_zero_def)
      from copy_entries [OF this, of "[256..<ENTRY_COUNT]"] new(4) show ?thesis
        using sd(2) ok(4) by (simp add: create_user_address_space_def allocate_physical_frame_def fill_zero_def Let_def cong: if_cong)
    qed
    have leaf: "page_entry ?s t va = (if t = ?n then 0 else page_entry s t va)"
      if "path_ok (vm_spaces ?s (insert (frame_addr k) R)) t (va_path va)" for t va
      using leaf_entry_add_root [OF fresh g, of t "va_path va"] that unfolding page_entry_def new(5) by simp
    show thesis
    proof (rule created [OF eq new(1-3)])
      show "frame_addr k \<noteq> 0" using setup_okD(5) [OF vm_okD(2) [OF new(1)]] by blast
      show "\<forall>t va. in_space s R t va \<longrightarrow> page_entry ?s t va = page_entry s t va"
      proof (intro allI impI)
        fix t va assume "in_space s R t va"
        then have "t \<noteq> ?n" "path_ok ((vm_spaces s R)(?n \<mapsto> {..<256})) t (va_path va)"
          using fresh_not_root [OF fresh] by (auto simp: in_space_def path_ok_def)
        then show "page_entry ?s t va = page_entry s t va" using leaf unfolding new(5) by simp
      qed
      show "\<forall>va < 0x0000800000000000. page_entry ?s ?n va = 0"
        using leaf [of ?n] user_half unfolding new(5) by (auto simp: path_ok_def)
      show "\<forall>i \<in> {256..<ENTRY_COUNT}. pg_mem ?s ?n i = pg_mem ?s (pg_active_pml4 s) i"
        using new(4) by simp
      have "nodes (pg_mem ?s) (table_for_physical s) (vm_spaces ?s (insert (frame_addr k) R)) \<subseteq>
          insert ?n (nodes (pg_mem s) (table_for_physical s) (vm_spaces s R))"
        unfolding new(5) using nodes_add_root [OF fresh g] by simp
      moreover have "table_for_physical s (frame_addr j) \<noteq> ?n" if "j \<in> data_frames s R" for j
        using that ok(1,2) sd(8) [of j k] by (auto simp: data_frames_def)
      ultimately show "data_frames s R \<subseteq> data_frames ?s (insert (frame_addr k) R)"
        using ok(1,2,5,7) pfa_okD(2) [OF d(1)] by (fastforce simp: data_frames_def nth_list_update)
    qed
  qed
qed

section \<open>Destroying a space\<close>

definition release :: "Paging \<Rightarrow> u64 list \<Rightarrow> Paging" where
  "release s as = foldl deallocate_physical_frame s as"

lemma release_simps [simp]:
  "release s [] = s" "release s (as @ bs) = release (release s as) bs" "release s (a # as) = release (deallocate_physical_frame s a) as"
  by (simp_all add: release_def)

text \<open>Giving frames back leaves everything but the states of those frames.\<close>

lemma deallocate_frame:
  assumes "pfa_ok (pg_frames s)"
  shows "pfa_ok (pg_frames (deallocate_physical_frame s a)) \<and> pg_mem (deallocate_physical_frame s a) = pg_mem s \<and>
    same_setup s (deallocate_physical_frame s a) \<and>
    (\<forall>k < pfa_frame_count (pg_frames s). frames_of (deallocate_physical_frame s a) ! k =
       (if a = frame_addr k \<and> frames_of s ! k = FrameAllocated then FrameFree else frames_of s ! k))"
proof (cases "a AND (PAGE_SIZE - 1) = 0")
  case False
  have "a \<noteq> frame_addr k" if "k < pfa_frame_count (pg_frames s)" for k
    using False unat_frame_at [of k] that pfa_okD(4) [OF assms] by (auto simp: aligned_iff)
  then show ?thesis using False assms by (auto simp: deallocate_physical_frame_def from_start_address_def)
next
  case True
  let ?f = "\<lparr>pf_start = a\<rparr>"
  have eq: "deallocate_physical_frame s a = s\<lparr>pg_frames := fst (free_frame (pg_frames s) ?f)\<rparr>"
    using True by (simp add: deallocate_physical_frame_def from_start_address_def)
  have idx: "frame_index a = k" if "a = frame_addr k" "k < pfa_frame_count (pg_frames s)" for k
    using frame_index_at [of k] that pfa_okD(4) [OF assms] by simp
  show ?thesis
  using assms proof (cases rule: free_frame_cases [where f = ?f])
    case (refused e)
    have "\<not> (a = frame_addr k \<and> frames_of s ! k = FrameAllocated)" if "k < pfa_frame_count (pg_frames s)" for k
      using refused(2) True idx [of k] that by fastforce
    then show ?thesis using refused(1) assms by (auto simp: eq same_setup_def)
  next
    case (freed i fa)
    have a: "a = frame_addr i" using freed(1) by (metis PhysFrame.select_convs(1))
    have eq': "deallocate_physical_frame s a = s\<lparr>pg_frames := fa\<rparr>" using freed(4) by (simp add: eq)
    have "a = frame_addr k \<longleftrightarrow> k = i" if k: "k < pfa_frame_count (pg_frames s)" for k
    proof
      assume "a = frame_addr k"
      from idx [OF this k] idx [OF a freed(2)] show "k = i" by simp
    qed (simp add: a)
    then show ?thesis
      unfolding eq' using freed(2,3,5-7) pfa_okD(2) [OF assms] by (simp add: same_setup_def nth_list_update)
  qed
qed

lemma release_frames:
  assumes "pfa_ok (pg_frames s)"
  shows "pfa_ok (pg_frames (release s as)) \<and> pg_mem (release s as) = pg_mem s \<and> same_setup s (release s as) \<and>
    (\<forall>k < pfa_frame_count (pg_frames s). frames_of (release s as) ! k =
       (if frame_addr k \<in> set as \<and> frames_of s ! k = FrameAllocated then FrameFree else frames_of s ! k))"
  using assms
proof (induction as arbitrary: s)
  case (Cons a as)
  let ?s = "deallocate_physical_frame s a"
  note one = deallocate_frame [OF Cons.prems, of a]
  then have ih: "pfa_ok (pg_frames (release ?s as)) \<and> pg_mem (release ?s as) = pg_mem ?s \<and> same_setup ?s (release ?s as) \<and>
    (\<forall>k < pfa_frame_count (pg_frames ?s). frames_of (release ?s as) ! k =
       (if frame_addr k \<in> set as \<and> frames_of ?s ! k = FrameAllocated then FrameFree else frames_of ?s ! k))"
    using Cons.IH [of ?s] by simp
  have "pfa_frame_count (pg_frames ?s) = pfa_frame_count (pg_frames s)" using one by (simp add: same_setup_def)
  then show ?case using one ih same_setup_trans [of s ?s "release ?s as"] by (simp, metis)
qed simp

text \<open>The addresses in the present entries of a table and of the tables below it.\<close>

fun table_addrs :: "table_mem \<Rightarrow> (u64 \<Rightarrow> u64) \<Rightarrow> nat \<Rightarrow> nat \<Rightarrow> u64 \<Rightarrow> u64 list" where
  "table_addrs m f 0 n t =
     concat (map (\<lambda>i. if m t i AND PRESENT = 0 then [] else [m t i AND ADDRESS_MASK]) [0..<n])"
| "table_addrs m f (Suc d) n t =
     concat (map (\<lambda>i. if m t i AND PRESENT = 0 then []
                      else table_addrs m f d ENTRY_COUNT (f (m t i AND ADDRESS_MASK)) @ [m t i AND ADDRESS_MASK]) [0..<n])"

declare table_addrs.simps [simp del]

lemma foldl_release:
  assumes "pfa_ok (pg_frames s)"
    and "\<And>s' i. i \<in> set xs \<Longrightarrow> pfa_ok (pg_frames s') \<Longrightarrow> pg_mem s' = pg_mem s \<Longrightarrow> same_setup s s' \<Longrightarrow> step s' i = release s' (g i)"
  shows "foldl step s xs = release s (concat (map g xs))"
  using assms
proof (induction xs arbitrary: s)
  case (Cons x xs)
  have step: "step s x = release s (g x)" using Cons.prems(1) by (intro Cons.prems(2)) simp_all
  note rel = release_frames [OF Cons.prems(1), of "g x"]
  have "foldl step (release s (g x)) xs = release (release s (g x)) (concat (map g xs))"
  proof (rule Cons.IH)
    fix s' i assume "i \<in> set xs" "pfa_ok (pg_frames s')" "pg_mem s' = pg_mem (release s (g x))" "same_setup (release s (g x)) s'"
    then show "step s' i = release s' (g i)" using rel same_setup_trans by (intro Cons.prems(2)) auto
  qed (use rel in simp)
  then show ?case by (simp add: step)
qed simp

lemma destroy_pd_release:
  "pfa_ok (pg_frames s) \<Longrightarrow> destroy_pd s t = release s (table_addrs (pg_mem s) (table_for_physical s) 0 ENTRY_COUNT t)"
  unfolding destroy_pd_def table_addrs.simps(1) by (rule foldl_release) (simp_all add: read_entry_def Let_def)

lemma destroy_pdpt_release:
  "pfa_ok (pg_frames s) \<Longrightarrow> destroy_pdpt s t = release s (table_addrs (pg_mem s) (table_for_physical s) (Suc 0) ENTRY_COUNT t)"
  unfolding destroy_pdpt_def table_addrs.simps(2)
  by (rule foldl_release) (simp_all add: read_entry_def Let_def destroy_pd_release same_setup_table)

lemma destroy_release:
  assumes "pfa_ok (pg_frames s)" "root \<noteq> 0" "root \<noteq> pg_kernel_pml4 s"
  shows "destroy_user_address_space s root =
    release s (table_addrs (pg_mem s) (table_for_physical s) (Suc (Suc 0)) 256 (table_for_physical s root) @ [root])"
proof -
  let ?t = "table_for_physical s root"
  have "foldl (\<lambda>s idx. let pml4e = read_entry s ?t idx
      in if pml4e AND PRESENT \<noteq> 0
         then deallocate_physical_frame (destroy_pdpt s (table_for_physical s (pml4e AND ADDRESS_MASK))) (pml4e AND ADDRESS_MASK)
         else s) s [0..<256] = release s (table_addrs (pg_mem s) (table_for_physical s) (Suc (Suc 0)) 256 ?t)"
    unfolding table_addrs.simps(2) [of _ _ "Suc 0"]
    by (rule foldl_release [OF assms(1)]) (simp_all add: read_entry_def Let_def destroy_pdpt_release same_setup_table)
  then show ?thesis using assms(2,3) by (simp add: destroy_user_address_space_def Let_def)
qed

text \<open>The addresses are those of the tables below, one path each.\<close>

definition entry_at :: "table_mem \<Rightarrow> (u64 \<Rightarrow> u64) \<Rightarrow> u64 \<Rightarrow> nat list \<Rightarrow> nat \<Rightarrow> u64 \<Rightarrow> bool" where
  "entry_at m f t p i a \<longleftrightarrow>
     (\<exists>x. walk m f t p = Some x \<and> m x i AND PRESENT \<noteq> 0 \<and> a = m x i AND ADDRESS_MASK)"

lemma entry_at_Nil: "entry_at m f t [] i a \<longleftrightarrow> m t i AND PRESENT \<noteq> 0 \<and> a = m t i AND ADDRESS_MASK"
  by (simp add: entry_at_def)

lemma entry_at_Cons:
  "entry_at m f t (j # p) i a \<longleftrightarrow> m t j AND PRESENT \<noteq> 0 \<and> entry_at m f (f (m t j AND ADDRESS_MASK)) p i a"
  by (auto simp: entry_at_def)

lemma set_table_addrs:
  "a \<in> set (table_addrs m f d n t) \<longleftrightarrow>
     (\<exists>p i. length p \<le> d \<and> hd (p @ [i]) < n \<and> set (tl (p @ [i])) \<subseteq> {..<ENTRY_COUNT} \<and> entry_at m f t p i a)"
proof (induction d arbitrary: n t)
  case 0
  show ?case by (auto simp: table_addrs.simps entry_at_Nil)
next
  case (Suc d)
  have "a \<in> set (table_addrs m f (Suc d) n t) \<longleftrightarrow>
      (\<exists>i < n. entry_at m f t [] i a) \<or>
      (\<exists>j < n. m t j AND PRESENT \<noteq> 0 \<and> a \<in> set (table_addrs m f d ENTRY_COUNT (f (m t j AND ADDRESS_MASK))))"
    by (auto simp: table_addrs.simps entry_at_Nil)
  also have "\<dots> \<longleftrightarrow> (\<exists>i < n. entry_at m f t [] i a) \<or>
      (\<exists>j < n. \<exists>p i. length p \<le> d \<and> set (p @ [i]) \<subseteq> {..<ENTRY_COUNT} \<and> entry_at m f t (j # p) i a)"
  proof -
    have h: "hd (p @ [i]) < ENTRY_COUNT \<and> set (tl (p @ [i])) \<subseteq> {..<ENTRY_COUNT} \<and> Z \<longleftrightarrow> set (p @ [i]) \<subseteq> {..<ENTRY_COUNT} \<and> Z"
      for p i Z by (cases p) auto
    show ?thesis unfolding Suc.IH entry_at_Cons h by blast
  qed
  also have "\<dots> \<longleftrightarrow>
      (\<exists>p i. length p \<le> Suc d \<and> hd (p @ [i]) < n \<and> set (tl (p @ [i])) \<subseteq> {..<ENTRY_COUNT} \<and> entry_at m f t p i a)"
    (is "?l \<longleftrightarrow> (\<exists>p i. ?Q p i)")
  proof
    assume ?l
    then consider (root) i where "i < n" "entry_at m f t [] i a"
      | (below) j p i where "j < n" "length p \<le> d" "set (p @ [i]) \<subseteq> {..<ENTRY_COUNT}" "entry_at m f t (j # p) i a" by blast
    then show "\<exists>p i. ?Q p i"
    proof cases
      case root
      then have "?Q [] i" by simp
      then show ?thesis by blast
    next
      case below
      then have "?Q (j # p) i" by simp
      then show ?thesis by blast
    qed
  next
    assume "\<exists>p i. ?Q p i"
    then obtain p i where q: "?Q p i" by blast
    show ?l
    proof (cases p)
      case Nil
      then show ?thesis using q by auto
    next
      case (Cons j p')
      then have "j < n" "length p' \<le> d" "set (p' @ [i]) \<subseteq> {..<ENTRY_COUNT}" "entry_at m f t (j # p') i a" using q by simp_all
      then show ?thesis by blast
    qed
  qed
  finally show ?case .
qed

lemma owned_frame_addr:
  assumes "setup_ok s R" "k < pfa_frame_count (pg_frames s)" "owned_frame s (frame_addr k)"
  shows "frames_of s ! k = FrameAllocated \<and> k \<noteq> 0"
proof -
  obtain j where j: "j < pfa_frame_count (pg_frames s)" "j \<noteq> 0" "frames_of s ! j = FrameAllocated" "frame_addr k = frame_addr j"
    using assms(3) by (auto simp: owned_frame_def)
  have "k = j" using setup_okD(8) [OF assms(1,2) j(1)] j(4) by simp
  then show ?thesis using j(2,3) by simp
qed

text \<open>The physical addresses of the page tables of a user root.\<close>

definition user_table :: "Paging \<Rightarrow> u64 \<Rightarrow> u64 \<Rightarrow> bool" where
  "user_table s root a \<longleftrightarrow> a = root \<or>
     (\<exists>p i. length p \<le> 2 \<and> hd (p @ [i]) < 256 \<and> set (tl (p @ [i])) \<subseteq> {..<ENTRY_COUNT} \<and>
        entry_at (pg_mem s) (table_for_physical s) (table_for_physical s root) p i a)"

lemma user_table_path:
  assumes ok: "vm_ok s R" and r: "root \<in> R" and a: "user_table s root a"
  shows "owned_frame s a \<and> (\<exists>q. path_ok (vm_spaces s R) (table_for_physical s root) q \<and>
    walk (pg_mem s) (table_for_physical s) (table_for_physical s root) q = Some (table_for_physical s a))"
proof -
  note d = vm_okD [OF ok] and td = tables_okD [OF vm_okD(3) [OF ok]]
  show ?thesis
  proof (cases "a = root")
    case True
    have "path_ok (vm_spaces s R) (table_for_physical s root) []" using path_ok_user [OF d(2) r] by simp
    then show ?thesis using True td(3) [OF r] by (metis walk.simps(1))
  next
    case False
    then obtain p i where p: "length p \<le> 2" "hd (p @ [i]) < 256"
      "entry_at (pg_mem s) (table_for_physical s) (table_for_physical s root) p i a" using a by (auto simp: user_table_def)
    then obtain x where x: "walk (pg_mem s) (table_for_physical s) (table_for_physical s root) p = Some x"
      "pg_mem s x i AND PRESENT \<noteq> 0" "a = pg_mem s x i AND ADDRESS_MASK" by (auto simp: entry_at_def)
    have ok: "path_ok (vm_spaces s R) (table_for_physical s root) (p @ [i])" using path_ok_user [OF d(2) r] p by simp
    moreover have "walk (pg_mem s) (table_for_physical s) (table_for_physical s root) (p @ [i]) = Some (table_for_physical s a)"
      using x by (simp add: walk_append)
    ultimately show ?thesis using td(4) [OF r ok x(1,2)] x(3) by blast
  qed
qed

lemma destroy_ok:
  assumes ok: "vm_ok s R" and r: "root \<in> R"
  defines "s' \<equiv> destroy_user_address_space s root"
  shows "pg_mem s' = pg_mem s" "same_setup s s'" "pfa_ok (pg_frames s')"
    "k < pfa_frame_count (pg_frames s) \<Longrightarrow>
      frames_of s' ! k = (if user_table s root (frame_addr k) then FrameFree else frames_of s ! k)"
proof -
  note d = vm_okD [OF ok]
  have ne: "root \<noteq> 0" "root \<noteq> pg_kernel_pml4 s" using setup_okD(3) [OF d(2)] setup_okD(5,6) [OF d(2) r] by auto
  note eq = destroy_release [OF d(1) ne]
  note rel = release_frames [OF d(1), of "table_addrs (pg_mem s) (table_for_physical s) (Suc (Suc 0)) 256 (table_for_physical s root) @ [root]",
    folded eq, folded s'_def]
  show "pg_mem s' = pg_mem s" "same_setup s s'" "pfa_ok (pg_frames s')" using rel by blast+
  assume k: "k < pfa_frame_count (pg_frames s)"
  have set: "frame_addr k \<in> set (table_addrs (pg_mem s) (table_for_physical s) (Suc (Suc 0)) 256 (table_for_physical s root) @ [root])
      \<longleftrightarrow> user_table s root (frame_addr k)"
    unfolding user_table_def set_append Un_iff set_table_addrs numeral_2_eq_2 by auto
  have "frames_of s ! k = FrameAllocated" if u: "user_table s root (frame_addr k)"
    using owned_frame_addr [OF d(2) k] user_table_path [OF ok r u] by blast
  then show "frames_of s' ! k = (if user_table s root (frame_addr k) then FrameFree else frames_of s ! k)"
    using rel [THEN conjunct2, THEN conjunct2, THEN conjunct2, rule_format, OF k] unfolding set by auto
qed

lemma setup_ok_subset: "setup_ok s R \<Longrightarrow> R' \<subseteq> R \<Longrightarrow> setup_ok s R'"
  unfolding setup_ok_def by (elim conjE) (intro conjI; blast)

lemma destroy_vm_ok:
  assumes ok: "vm_ok s R" and r: "root \<in> R"
  shows "vm_ok (destroy_user_address_space s root) (R - {root})"
proof -
  let ?s = "destroy_user_address_space s root" and ?f = "table_for_physical s" and ?m = "pg_mem s"
  let ?S = "vm_spaces s R" and ?S' = "vm_spaces s (R - {root})"
  note d = vm_okD [OF ok] and td = tables_okD [OF vm_okD(3) [OF ok]] and des = destroy_ok [OF ok r]
  note eqs = same_setup_table [OF des(2)] same_setup_spaces [OF des(2)]
  have le: "?S' \<subseteq>\<^sub>m ?S" by (auto simp: map_le_def vm_spaces_def split: if_splits)
  have gone: "\<not> path_ok ?S' (?f root) q" for q
  proof
    assume "path_ok ?S' (?f root) q"
    then have "?f root \<in> ?f ` (R - {root})"
      using setup_okD(6) [OF d(2) r] by (auto simp: path_ok_def vm_spaces_def split: if_splits)
    then obtain r' where "r' \<in> R" "r' \<noteq> root" "?f root = ?f r'" by blast
    with root_inj [OF d(2) r this(1)] show False by simp
  qed
  have not_node: "?f a \<notin> nodes ?m ?f ?S'" if a: "user_table s root a" for a
  proof
    assume "?f a \<in> nodes ?m ?f ?S'"
    then obtain t p where p: "path_ok ?S' t p" "walk ?m ?f t p = Some (?f a)" by (auto simp: nodes_def)
    obtain q where "path_ok ?S (?f root) q" "walk ?m ?f (?f root) q = Some (?f a)" using user_table_path [OF ok r a] by blast
    from forestD [OF td(1) path_ok_mono [OF le p(1)] this(1) p(2) this(2)] p(1) gone show False by simp
  qed
  have fc: "pfa_frame_count (pg_frames ?s) = pfa_frame_count (pg_frames s)" using des(2) by (simp add: same_setup_def)
  have owned: "owned_frame ?s a" if a: "owned_frame s a" "?f a \<in> nodes ?m ?f ?S'" for a
  proof -
    obtain k where k: "k < pfa_frame_count (pg_frames s)" "k \<noteq> 0" "frames_of s ! k = FrameAllocated" "a = frame_addr k"
      using a(1) by (auto simp: owned_frame_def)
    have "\<not> user_table s root a" using not_node a(2) by blast
    then have "frames_of ?s ! k = FrameAllocated" using des(4) [OF k(1)] k(3,4) by simp
    then show ?thesis using k fc by (auto simp: owned_frame_def)
  qed
  have "tables_ok ?s (R - {root})"
    unfolding tables_ok_def Let_def eqs des(1) fc
  proof (intro conjI allI impI ballI)
    show "forest ?m ?f ?S'" using forest_mono [OF le td(1)] .
    fix j assume j: "j < pfa_frame_count (pg_frames s)" "frames_of ?s ! j = FrameFree"
    have "j \<noteq> 0 \<and> ?f (frame_addr j) \<notin> nodes ?m ?f ?S'"
    proof (cases "user_table s root (frame_addr j)")
      case True
      then show ?thesis using not_node owned_frame_addr [OF d(2) j(1)] user_table_path [OF ok r True] by blast
    next
      case False
      then have "frames_of s ! j = FrameFree" using des(4) [OF j(1)] j(2) by simp
      then show ?thesis using td(2) [OF j(1)] nodes_mono [OF le] by blast
    qed
    then show "j \<noteq> 0" "?f (frame_addr j) \<notin> nodes ?m ?f ?S'" by blast+
  next
    fix r' assume r': "r' \<in> R - {root}"
    have "path_ok ?S' (?f r') []" using r' by (auto simp: path_ok_def vm_spaces_def)
    then show "owned_frame ?s r'" using owned [of r'] td(3) r' nodesI [of ?S' "?f r'" "[]" ?m ?f "?f r'"] by simp
  next
    fix r' p i x
    assume r': "r' \<in> R - {root}" and p: "path_ok ?S' (?f r') (p @ [i])" "walk ?m ?f (?f r') p = Some x" "?m x i AND PRESENT \<noteq> 0"
    have "walk ?m ?f (?f r') (p @ [i]) = Some (?f (?m x i AND ADDRESS_MASK))" using p by (simp add: walk_append)
    from nodesI [OF p(1) this] show "owned_frame ?s (?m x i AND ADDRESS_MASK)"
      using r' by (intro owned td(4) [OF _ path_ok_mono [OF le p(1)] p(2,3)]) simp_all
  qed
  moreover have "setup_ok ?s (R - {root})" using d(2) same_setup_ok [OF des(2)] setup_ok_subset [of s R "R - {root}"] by simp
  ultimately show ?thesis using des(3) by (simp add: vm_ok_def)
qed

end
