(* ===== verification/Virtual_Memory.thy ===== *)
theory Virtual_Memory
  imports Address_Spaces
begin

text \<open>
  What the page tables promise to the rest of the kernel. The abstract view of the paging state is one
  translation for the kernel and one for each live user root; every operation of
  \<open>src/src/arch/x86_64/paging.rs\<close> refines an update of that view, \<open>spec_event\<close>, and a failed
  operation changes nothing of it.
\<close>

unbundle bit_operations_syntax

section \<open>Single operations\<close>

text \<open>One page of one space in the translations, from the entries.\<close>

lemma mapped_translations:
  assumes ok: "vm_ok s R" and m: "mapped R t va e s s'"
  shows "translate_virt s' va' =
      (if t = pg_active_pml4 s \<and> page_of va' = page_of va then kernel_view e va' else translate_virt s va')"
    and "r \<in> R \<Longrightarrow> translate_user_page s' r va' w =
      (if t = table_for_physical s r \<and> page_of va' = page_of va \<and> va' < 0x0000800000000000 then user_view w e va'
       else translate_user_page s r va' w)"
proof -
  note c = mappedD(2) [OF m] and sd = setup_okD [OF vm_okD(2) [OF ok]]
  have act: "pg_active_pml4 s' = pg_active_pml4 s" using c by (simp add: same_setup_def)
  show "translate_virt s' va' =
      (if t = pg_active_pml4 s \<and> page_of va' = page_of va then kernel_view e va' else translate_virt s va')"
    using mappedD(3) [OF m in_space_kernel] sd(2) by (simp add: translate_virt_view act)
  show "translate_user_page s' r va' w =
      (if t = table_for_physical s r \<and> page_of va' = page_of va \<and> va' < 0x0000800000000000 then user_view w e va'
       else translate_user_page s r va' w)" if "r \<in> R"
    using mappedD(3) [OF m in_space_user [OF vm_okD(2) [OF ok] that]] sd(5) [OF that]
    by (simp add: translate_user_page_view same_setup_table [OF c])
qed

lemma map_page_cases:
  assumes ok: "vm_ok s R"
  obtains (refused) e where "map_page s virt phys flags = (s, Inl e)"
      "virt AND (PAGE_SIZE - 1) \<noteq> 0 \<or> phys AND (PAGE_SIZE - 1) \<noteq> 0 \<or> flags AND NOT SUPPORTED_PAGE_FLAGS \<noteq> 0"
    | (full) s' where "more_tables R s s'" "map_page s virt phys flags = (s', Inl OutOfPageTables)"
    | (set) s' where "mapped R (pg_active_pml4 s) virt ((phys AND ADDRESS_MASK) OR ensure_present flags) s s'"
      "map_page s virt phys flags = (s', ok_unit)" "virt AND (PAGE_SIZE - 1) = 0" "phys AND (PAGE_SIZE - 1) = 0"
      "flags AND NOT SUPPORTED_PAGE_FLAGS = 0"
proof (cases "virt AND (PAGE_SIZE - 1) \<noteq> 0 \<or> phys AND (PAGE_SIZE - 1) \<noteq> 0 \<or> flags AND NOT SUPPORTED_PAGE_FLAGS \<noteq> 0")
  case True
  then show thesis
    by (cases "virt AND (PAGE_SIZE - 1) \<noteq> 0 \<or> phys AND (PAGE_SIZE - 1) \<noteq> 0")
      (auto intro: refused simp: map_page_def validate_page_alignment_def)
next
  case False
  have eq: "map_page s virt phys flags = map_page_inner s (pg_active_pml4 s) (pg_translator s) phys virt (ensure_present flags)"
    using False setup_okD(2) [OF vm_okD(2) [OF ok]] by (simp add: map_page_def validate_page_alignment_def)
  show thesis
    by (rule map_page_inner_cases [OF ok, of phys virt "ensure_present flags"]) (use full set False in \<open>simp_all add: eq\<close>)
qed

lemma supported_flags:
  assumes "flags AND NOT SUPPORTED_PAGE_FLAGS = 0"
  shows "flags_ok (ensure_present flags)" "ensure_present flags AND PRESENT \<noteq> 0"
proof -
  have "flags = flags AND SUPPORTED_PAGE_FLAGS"
    using assms by (metis bit.conj_disj_distrib bit.conj_one_right bit.disj_cancel_right or.right_neutral)
  then have "flags AND ADDRESS_MASK = flags AND (SUPPORTED_PAGE_FLAGS AND ADDRESS_MASK)" by (metis and.assoc)
  moreover have "SUPPORTED_PAGE_FLAGS AND ADDRESS_MASK = 0" by (simp add: page_flag_defs ADDRESS_MASK_def)
  ultimately show "flags_ok (ensure_present flags)"
    by (simp add: flags_ok_def ensure_present_def bit.conj_disj_distrib2)
  have "(flags OR PRESENT) AND PRESENT = PRESENT" by (rule bit_eqI) (auto simp: bit_simps)
  then show "ensure_present flags AND PRESENT \<noteq> 0" by (simp add: ensure_present_def PRESENT_def)
qed

lemma kernel_view_entry:
  assumes "flags AND NOT SUPPORTED_PAGE_FLAGS = 0"
  shows "kernel_view ((phys AND ADDRESS_MASK) OR ensure_present flags) va = Some ((phys AND ADDRESS_MASK) OR (va AND (PAGE_SIZE - 1)))"
  unfolding kernel_view_def entry_address [OF supported_flags(1) [OF assms]] entry_flags [OF flag_bits(1)]
  using supported_flags(2) [OF assms] by simp

text \<open>Removing a page: the entry is cleared, and its address returned.\<close>

lemma unmap_page_cases:
  assumes ok: "vm_ok s R"
  obtains (refused) e where "unmap_page s virt = (s, Inl e)"
      "virt AND (PAGE_SIZE - 1) \<noteq> 0 \<or> page_entry s (pg_active_pml4 s) virt AND PRESENT = 0"
    | (unset) s' where "mapped R (pg_active_pml4 s) virt 0 s s'" "unmap_page s virt = (s', Inr (page_entry s (pg_active_pml4 s) virt AND ADDRESS_MASK))"
      "page_entry s (pg_active_pml4 s) virt AND PRESENT \<noteq> 0"
proof (cases "leaf_table s (pg_active_pml4 s) virt")
  case None
  then have "page_entry s (pg_active_pml4 s) virt = 0" by (simp add: page_entry_def leaf_entry_def leaf_table_walk)
  then show thesis using None setup_okD(2) [OF vm_okD(2) [OF ok]] refused
    by (cases "virt AND (PAGE_SIZE - 1) = 0") (simp_all add: unmap_page_def validate_page_alignment_def)
next
  case (Some pt)
  have w: "walk (pg_mem s) (table_for_physical s) (pg_active_pml4 s) (va_path virt) = Some pt" using Some by (simp add: leaf_table_walk)
  have entry: "page_entry s (pg_active_pml4 s) virt = read_entry s pt (pg_index virt 12)"
    by (simp add: page_entry_def leaf_entry_def w read_entry_def)
  show thesis
  proof (cases "virt AND (PAGE_SIZE - 1) = 0 \<and> read_entry s pt (pg_index virt 12) AND PRESENT \<noteq> 0")
    case True
    then show thesis
      using unset [OF write_page [OF ok in_space_kernel w]] Some setup_okD(2) [OF vm_okD(2) [OF ok]]
      by (simp add: unmap_page_def validate_page_alignment_def entry Let_def)
  next
    case False
    then show thesis using Some setup_okD(2) [OF vm_okD(2) [OF ok]] refused
      by (cases "virt AND (PAGE_SIZE - 1) = 0") (simp_all add: unmap_page_def validate_page_alignment_def entry Let_def)
  qed
qed

lemma unmap_user_page_cases:
  assumes ok: "vm_ok s R" and r: "root \<in> R"
  obtains (refused) "unmap_user_page s root va = (s, Inl ())"
    | (unset) s' where "mapped R (table_for_physical s root) va 0 s s'" "va < 0x0000800000000000"
      "unmap_user_page s root va = (s', Inr (page_entry s (table_for_physical s root) va AND ADDRESS_MASK))"
      "page_entry s (table_for_physical s root) va AND PRESENT \<noteq> 0"
proof (cases "user_leaf_table s root va")
  case None
  then show thesis by (intro refused) (simp add: unmap_user_page_def)
next
  case (Some pt)
  then have va: "va < 0x0000800000000000" and w: "walk (pg_mem s) (table_for_physical s) (table_for_physical s root) (va_path va) = Some pt"
    by (auto simp: user_leaf_table_def leaf_table_walk split: if_splits)
  have entry: "page_entry s (table_for_physical s root) va = read_entry s pt (pg_index va 12)"
    by (simp add: page_entry_def leaf_entry_def w read_entry_def)
  show thesis
  proof (cases "read_entry s pt (pg_index va 12) AND PRESENT = 0")
    case True
    then show thesis using Some by (intro refused) (simp add: unmap_user_page_def)
  next
    case False
    then show thesis
      using unset [OF write_page [OF ok in_space_user [OF vm_okD(2) [OF ok] r va] w] va] Some
      by (simp add: unmap_user_page_def entry Let_def)
  qed
qed

section \<open>Isolation of user spaces\<close>

text \<open>
  (C4) Mapping a page into one user root. The call keeps the invariant of the page tables. When it
  succeeds, exactly the addresses of that page in that root have a new translation, to the given
  frame, writable when the protection says so. Every other address of every root, and every kernel
  address, translates as before; when the call fails, all of them do.
\<close>

theorem map_user_page_isolated:
  assumes ok: "vm_ok s R" and r: "root \<in> R" and call: "map_user_page s root va pa prot = (s', res)"
  shows "vm_ok s' R \<and> (\<forall>va'. translate_virt s' va' = translate_virt s va') \<and>
    (\<forall>r \<in> R. \<forall>va' w. translate_user_page s' r va' w =
       (if res = ok_unit \<and> r = root \<and> align_down va' = va
        then (if w \<and> \<not> prot_write prot then None else Some ((pa AND ADDRESS_MASK) OR (va' AND (PAGE_SIZE - 1))))
        else translate_user_page s r va' w))"
proof (rule map_user_page_cases [OF ok r, of va pa prot])
  fix s1 assume m: "mapped R (table_for_physical s root) va ((pa AND ADDRESS_MASK) OR user_flags_from_protection prot) s s1"
    and eq: "map_user_page s root va pa prot = (s1, ok_unit)" and va: "va < 0x0000800000000000" "va AND (PAGE_SIZE - 1) = 0"
  have s1: "s' = s1" "res = ok_unit" using call eq by simp_all
  have "translate_virt s1 va' = translate_virt s va'" for va'
    using mapped_translations(1) [OF ok m] setup_okD(6) [OF vm_okD(2) [OF ok] r] by simp
  moreover have "translate_user_page s1 r va' w =
       (if r = root \<and> align_down va' = va
        then (if w \<and> \<not> prot_write prot then None else Some ((pa AND ADDRESS_MASK) OR (va' AND (PAGE_SIZE - 1))))
        else translate_user_page s r va' w)" if "r \<in> R" for r va' w
  proof -
    have "table_for_physical s root = table_for_physical s r \<longleftrightarrow> r = root"
      using root_inj [OF vm_okD(2) [OF ok] r that] by blast
    then show ?thesis
      using mapped_translations(2) [OF ok m that, of va' w] by (simp add: user_view_entry align_down_user [OF va, symmetric] conj_ac)
  qed
  ultimately show ?thesis unfolding s1 using mappedD(1) [OF m] by simp
qed (use call ok more_tablesD(1) more_tables_translations [OF ok] in auto)

text \<open>
  (C40) The diagnostic walk of the kernel's tables, \<open>walk_kernel_page_tables\<close>, and \<open>translate_virt\<close> are
  written separately. They agree on every address and every state of the tables.
\<close>

theorem walk_agrees_with_translate:
  "(case walk_kernel_page_tables s va of None \<Rightarrow> None | Some w \<Rightarrow> ptw_physical w) = translate_virt s va"
  by (simp add: walk_kernel_page_tables_def translate_virt_def leaf_table_def Let_def)

section \<open>Refinement\<close>

text \<open>The calls into the module, with their outcome.\<close>

datatype vm_event =
    Created u64 | Destroyed u64 | UserMapped u64 u64 u64 MemoryProtection | UserUnmapped u64 u64 u64
  | KernelMapped u64 u64 PageFlags | KernelUnmapped u64 u64 | Switched u64 | Refused

inductive vm_step :: "Paging \<times> u64 set \<Rightarrow> vm_event \<Rightarrow> Paging \<times> u64 set \<Rightarrow> bool" where
  created: "create_user_address_space s = (s', Inr root) \<Longrightarrow> vm_step (s, R) (Created root) (s', insert root R)"
| create_refused: "create_user_address_space s = (s', Inl e) \<Longrightarrow> vm_step (s, R) Refused (s', R)"
| destroyed: "root \<in> R \<Longrightarrow> vm_step (s, R) (Destroyed root) (destroy_user_address_space s root, R - {root})"
| user_mapped: "root \<in> R \<Longrightarrow> map_user_page s root va pa prot = (s', Inr u) \<Longrightarrow>
    vm_step (s, R) (UserMapped root va pa prot) (s', R)"
| user_map_refused: "root \<in> R \<Longrightarrow> map_user_page s root va pa prot = (s', Inl e) \<Longrightarrow> vm_step (s, R) Refused (s', R)"
| user_unmapped: "root \<in> R \<Longrightarrow> unmap_user_page s root va = (s', Inr pa) \<Longrightarrow> vm_step (s, R) (UserUnmapped root va pa) (s', R)"
| user_unmap_refused: "root \<in> R \<Longrightarrow> unmap_user_page s root va = (s', Inl e) \<Longrightarrow> vm_step (s, R) Refused (s', R)"
| kernel_mapped: "map_page s virt phys flags = (s', Inr u) \<Longrightarrow> vm_step (s, R) (KernelMapped virt phys flags) (s', R)"
| kernel_map_refused: "map_page s virt phys flags = (s', Inl e) \<Longrightarrow> vm_step (s, R) Refused (s', R)"
| kernel_unmapped: "unmap_page s virt = (s', Inr pa) \<Longrightarrow> vm_step (s, R) (KernelUnmapped virt pa) (s', R)"
| kernel_unmap_refused: "unmap_page s virt = (s', Inl e) \<Longrightarrow> vm_step (s, R) Refused (s', R)"
| switched: "switch_address_space s root = (s', res) \<Longrightarrow> vm_step (s, R) (Switched root) (s', R)"

inductive_cases vm_step_elim: "vm_step (s, R) e (s', R')"

inductive vm_run :: "Paging \<times> u64 set \<Rightarrow> vm_event list \<Rightarrow> Paging \<times> u64 set \<Rightarrow> bool" where
  vm_run_Nil: "vm_run c [] c"
| vm_run_Cons: "vm_step c e c' \<Longrightarrow> vm_run c' es c'' \<Longrightarrow> vm_run c (e # es) c''"

text \<open>
  The abstract view: what the kernel can read at an address, and what each live root can read or
  write. A page is replaced in it by \<open>set_page\<close>; an address lies in the page with the number
  \<open>page_of\<close>.
\<close>

record vm_view =
  vw_kernel :: "u64 \<Rightarrow> u64 option"
  vw_user :: "u64 \<rightharpoonup> (bool \<Rightarrow> u64 \<Rightarrow> u64 option)"

definition set_page :: "u64 \<Rightarrow> u64 option \<Rightarrow> (u64 \<Rightarrow> u64 option) \<Rightarrow> u64 \<Rightarrow> u64 option" where
  "set_page va frame f va' =
     (if page_of va' = page_of va then map_option (\<lambda>a. a OR (va' AND (PAGE_SIZE - 1))) frame else f va')"

definition below_user_limit :: "(u64 \<Rightarrow> u64 option) \<Rightarrow> u64 \<Rightarrow> u64 option" where
  "below_user_limit f va = (if va < 0x0000800000000000 then f va else None)"

definition vm_abs :: "Paging \<times> u64 set \<Rightarrow> vm_view" where
  "vm_abs c = \<lparr>vw_kernel = translate_virt (fst c),
     vw_user = (\<lambda>r. if r \<in> snd c then Some (\<lambda>w va. translate_user_page (fst c) r va w) else None)\<rparr>"

fun spec_event :: "vm_view \<Rightarrow> vm_event \<Rightarrow> vm_view" where
  "spec_event v (Created root) = v\<lparr>vw_user := (vw_user v)(root \<mapsto> (\<lambda>w va. None))\<rparr>"
| "spec_event v (Destroyed root) = v\<lparr>vw_user := (vw_user v)(root := None)\<rparr>"
| "spec_event v (UserMapped root va pa prot) = v\<lparr>vw_user := (vw_user v)(root := map_option (\<lambda>f w.
     below_user_limit (set_page va (if w \<and> \<not> prot_write prot then None else Some (pa AND ADDRESS_MASK)) (f w))) (vw_user v root))\<rparr>"
| "spec_event v (UserUnmapped root va pa) = v\<lparr>vw_user := (vw_user v)(root := map_option (\<lambda>f w.
     below_user_limit (set_page va None (f w))) (vw_user v root))\<rparr>"
| "spec_event v (KernelMapped virt phys flags) = v\<lparr>vw_kernel := set_page virt (Some (phys AND ADDRESS_MASK)) (vw_kernel v)\<rparr>"
| "spec_event v (KernelUnmapped virt phys) = v\<lparr>vw_kernel := set_page virt None (vw_kernel v)\<rparr>"
| "spec_event v (Switched root) = v"
| "spec_event v Refused = v"

lemma vm_abs_eqI:
  assumes "\<And>va. translate_virt s' va = vw_kernel v va"
    and "\<And>r. r \<in> R' \<Longrightarrow> vw_user v r = Some (\<lambda>w va. translate_user_page s' r va w)" and "\<And>r. r \<notin> R' \<Longrightarrow> vw_user v r = None"
  shows "vm_abs (s', R') = v"
  using assms by (cases v) (auto simp: vm_abs_def fun_eq_iff)

lemma vm_abs_more_tables: "vm_ok s R \<Longrightarrow> more_tables R s s' \<Longrightarrow> vm_abs (s', R) = vm_abs (s, R)"
  by (rule vm_abs_eqI) (simp_all add: vm_abs_def more_tables_translations)

lemma user_limit: "translate_user_page s r va w = below_user_limit (\<lambda>va. translate_user_page s r va w) va"
  by (simp add: below_user_limit_def translate_user_page_view)

text \<open>A written entry, in the abstract view of the kernel and of a root.\<close>

lemma vm_abs_kernel:
  assumes ok: "vm_ok s R" and m: "mapped R (pg_active_pml4 s) va e s s'"
    and e: "\<And>va. kernel_view e va = map_option (\<lambda>a. a OR (va AND (PAGE_SIZE - 1))) frame"
  shows "vm_abs (s', R) = (vm_abs (s, R))\<lparr>vw_kernel := set_page va frame (vw_kernel (vm_abs (s, R)))\<rparr>"
proof (rule vm_abs_eqI)
  show "translate_virt s' va' = vw_kernel ((vm_abs (s, R))\<lparr>vw_kernel := set_page va frame (vw_kernel (vm_abs (s, R)))\<rparr>) va'" for va'
    using mapped_translations(1) [OF ok m] e by (simp add: vm_abs_def set_page_def)
  show "vw_user ((vm_abs (s, R))\<lparr>vw_kernel := set_page va frame (vw_kernel (vm_abs (s, R)))\<rparr>) r =
      Some (\<lambda>w va. translate_user_page s' r va w)" if "r \<in> R" for r
    using mapped_translations(2) [OF ok m that] setup_okD(6) [OF vm_okD(2) [OF ok] that] that by (simp add: vm_abs_def)
qed (simp add: vm_abs_def)

lemma vm_abs_user:
  assumes ok: "vm_ok s R" and r: "root \<in> R" and m: "mapped R (table_for_physical s root) va e s s'"
    and e: "\<And>w va. user_view w e va = map_option (\<lambda>a. a OR (va AND (PAGE_SIZE - 1))) (frame w)"
  shows "vm_abs (s', R) = (vm_abs (s, R))\<lparr>vw_user := (vw_user (vm_abs (s, R)))(root := map_option (\<lambda>f w.
     below_user_limit (set_page va (frame w) (f w))) (vw_user (vm_abs (s, R)) root))\<rparr>" (is "_ = ?v")
proof (rule vm_abs_eqI)
  show "translate_virt s' va' = vw_kernel ?v va'" for va'
    using mapped_translations(1) [OF ok m] setup_okD(6) [OF vm_okD(2) [OF ok] r] by (simp add: vm_abs_def)
  show "vw_user ?v r' = Some (\<lambda>w va. translate_user_page s' r' va w)" if "r' \<in> R" for r'
  proof (cases "r' = root")
    case True
    have "below_user_limit (set_page va (frame w) (\<lambda>va. translate_user_page s root va w)) va' = translate_user_page s' root va' w" for w va'
      using mapped_translations(2) [OF ok m r, of va' w] e user_limit [of s root va' w]
      by (simp add: below_user_limit_def set_page_def translate_user_page_view split: if_splits)
    then show ?thesis using True r by (simp add: vm_abs_def fun_eq_iff)
  next
    case False
    then have "table_for_physical s root \<noteq> table_for_physical s r'" using root_inj [OF vm_okD(2) [OF ok] r that] by blast
    then show ?thesis using mapped_translations(2) [OF ok m that] that False by (simp add: vm_abs_def)
  qed
qed (use r in \<open>auto simp: vm_abs_def\<close>)

lemma same_tables_translations:
  assumes "pg_mem s' = pg_mem s" "same_setup s s'"
  shows "translate_virt s' va = translate_virt s va" "translate_user_page s' r va w = translate_user_page s r va w"
proof -
  have "pg_active_pml4 s' = pg_active_pml4 s" using assms(2) by (simp add: same_setup_def)
  then show "translate_virt s' va = translate_virt s va" "translate_user_page s' r va w = translate_user_page s r va w"
    by (simp_all add: translate_virt_view translate_user_page_view page_entry_def assms(1) same_setup_table [OF assms(2)])
qed

lemma switch_tables: "switch_address_space s root = (s', res) \<Longrightarrow> pg_mem s' = pg_mem s \<and> same_setup s s' \<and> pg_frames s' = pg_frames s"
  by (auto simp: switch_address_space_def load_cr3_def same_setup_def Let_def split: if_splits)

lemma vm_ok_same_tables:
  assumes "vm_ok s R" "pg_mem s' = pg_mem s" "same_setup s s'" "pg_frames s' = pg_frames s"
  shows "vm_ok s' R"
  using assms same_setup_ok [OF assms(3), of R]
  by (simp add: vm_ok_def tables_ok_def owned_frame_def Let_def same_setup_table [OF assms(3)] same_setup_spaces [OF assms(3)])

lemma created_translations:
  assumes ok: "vm_ok s R" and c: "same_setup s s'" "\<forall>t va. in_space s R t va \<longrightarrow> page_entry s' t va = page_entry s t va"
    and new: "\<forall>va < 0x0000800000000000. page_entry s' (table_for_physical s root) va = 0"
  shows "translate_virt s' va = translate_virt s va" "r \<in> R \<Longrightarrow> translate_user_page s' r va w = translate_user_page s r va w"
    "translate_user_page s' root va w = None"
proof -
  have "pg_active_pml4 s' = pg_active_pml4 s" using c(1) by (simp add: same_setup_def)
  then show "translate_virt s' va = translate_virt s va" using c(2) in_space_kernel by (simp add: translate_virt_view)
  show "r \<in> R \<Longrightarrow> translate_user_page s' r va w = translate_user_page s r va w"
    using c(2) in_space_user [OF vm_okD(2) [OF ok]] by (simp add: translate_user_page_view same_setup_table [OF c(1)])
  show "translate_user_page s' root va w = None"
    using new by (simp add: translate_user_page_view same_setup_table [OF c(1)])
qed

text \<open>Every operation keeps the invariant and refines its event.\<close>

definition refines :: "Paging \<times> u64 set \<Rightarrow> vm_event \<Rightarrow> Paging \<times> u64 set \<Rightarrow> bool" where
  "refines c e c' \<longleftrightarrow> vm_ok (fst c') (snd c') \<and> vm_abs c' = spec_event (vm_abs c) e"

lemma create_refines:
  assumes ok: "vm_ok s R" and call: "create_user_address_space s = (s', Inr root)"
  shows "refines (s, R) (Created root) (s', insert root R)"
  using ok
proof (cases rule: create_cases)
  case (created s1 r1)
  with call have eq: "s1 = s'" "r1 = root" by simp_all
  note tr = created_translations [OF ok created(3,6,7), unfolded eq]
  have "vm_abs (s', insert root R) = spec_event (vm_abs (s, R)) (Created root)"
    using tr by (intro vm_abs_eqI) (auto simp: vm_abs_def)
  then show ?thesis using created(2) eq by (simp add: refines_def)
qed (use call in simp)

lemma create_refused_refines:
  "vm_ok s R \<Longrightarrow> create_user_address_space s = (s', Inl e) \<Longrightarrow> refines (s, R) Refused (s', R)"
  by (frule create_cases [where thesis = "s' = s"]) (auto simp: refines_def)

lemma destroy_refines:
  assumes ok: "vm_ok s R" and r: "root \<in> R"
  shows "refines (s, R) (Destroyed root) (destroy_user_address_space s root, R - {root})"
proof -
  note des = destroy_ok [OF ok r]
  have "vm_abs (destroy_user_address_space s root, R - {root}) = spec_event (vm_abs (s, R)) (Destroyed root)"
    using same_tables_translations [OF des(1,2)] by (intro vm_abs_eqI) (auto simp: vm_abs_def)
  then show ?thesis using destroy_vm_ok [OF ok r] by (simp add: refines_def)
qed

lemma user_map_refines:
  assumes ok: "vm_ok s R" and r: "root \<in> R" and call: "map_user_page s root va pa prot = (s', res)"
  shows "refines (s, R) (case res of Inr _ \<Rightarrow> UserMapped root va pa prot | Inl _ \<Rightarrow> Refused) (s', R)"
  using ok r
proof (cases rule: map_user_page_cases [where va = va and pa = pa and prot = prot])
  case (set s1)
  then have eq: "s1 = s'" "res = ok_unit" using call by simp_all
  note abs = vm_abs_user [OF ok r set(1), where frame = "\<lambda>w. if w \<and> \<not> prot_write prot then None else Some (pa AND ADDRESS_MASK)"]
  show ?thesis using mappedD(1) [OF set(1)] abs eq by (simp add: user_view_entry refines_def)
next
  case (full s1)
  then show ?thesis using call vm_abs_more_tables [OF ok full(1)] more_tablesD(1) [OF full(1)] by (auto simp: refines_def)
qed (use call ok in \<open>auto simp: refines_def\<close>)

lemma user_unmap_refines:
  assumes ok: "vm_ok s R" and r: "root \<in> R" and call: "unmap_user_page s root va = (s', res)"
  shows "refines (s, R) (case res of Inr pa \<Rightarrow> UserUnmapped root va pa | Inl _ \<Rightarrow> Refused) (s', R)"
  using ok r
proof (cases rule: unmap_user_page_cases [where va = va])
  case (unset s1)
  then have eq: "s1 = s'" using call by simp
  show ?thesis
    using mappedD(1) [OF unset(1)] vm_abs_user [OF ok r unset(1), where frame = "\<lambda>w. None"] eq call unset(3)
    by (auto simp: refines_def)
qed (use call ok in \<open>auto simp: refines_def\<close>)

lemma kernel_map_refines:
  assumes ok: "vm_ok s R" and call: "map_page s virt phys flags = (s', res)"
  shows "refines (s, R) (case res of Inr _ \<Rightarrow> KernelMapped virt phys flags | Inl _ \<Rightarrow> Refused) (s', R)"
  using ok
proof (cases rule: map_page_cases [where virt = virt and phys = phys and flags = flags])
  case (set s1)
  then have eq: "s1 = s'" "res = ok_unit" using call by simp_all
  note abs = vm_abs_kernel [OF ok set(1), where frame = "Some (phys AND ADDRESS_MASK)"]
  show ?thesis using mappedD(1) [OF set(1)] abs eq by (simp add: kernel_view_entry [OF set(5)] refines_def)
next
  case (full s1)
  then show ?thesis using call vm_abs_more_tables [OF ok full(1)] more_tablesD(1) [OF full(1)] by (auto simp: refines_def)
qed (use call ok in \<open>auto simp: refines_def\<close>)

lemma kernel_unmap_refines:
  assumes ok: "vm_ok s R" and call: "unmap_page s virt = (s', res)"
  shows "refines (s, R) (case res of Inr pa \<Rightarrow> KernelUnmapped virt pa | Inl _ \<Rightarrow> Refused) (s', R)"
  using ok
proof (cases rule: unmap_page_cases [where virt = virt])
  case (unset s1)
  then have eq: "s1 = s'" using call by simp
  show ?thesis
    using mappedD(1) [OF unset(1)] vm_abs_kernel [OF ok unset(1), where frame = None] eq call unset(2)
    by (auto simp: refines_def)
qed (use call ok in \<open>auto simp: refines_def\<close>)

lemma switch_refines:
  assumes ok: "vm_ok s R" and call: "switch_address_space s root = (s', res)"
  shows "refines (s, R) (Switched root) (s', R)"
proof -
  note sw = switch_tables [OF call]
  have "vm_abs (s', R) = vm_abs (s, R)"
    using same_tables_translations [of s' s] sw by (intro vm_abs_eqI) (auto simp: vm_abs_def)
  then show ?thesis using vm_ok_same_tables [OF ok] sw by (simp add: refines_def)
qed

lemmas refine_rules = create_refines create_refused_refines destroy_refines
  user_map_refines [where res = "Inr u" for u, simplified] user_map_refines [where res = "Inl e" for e, simplified]
  user_unmap_refines [where res = "Inr pa" for pa, simplified] user_unmap_refines [where res = "Inl e" for e, simplified]
  kernel_map_refines [where res = "Inr u" for u, simplified] kernel_map_refines [where res = "Inl e" for e, simplified]
  kernel_unmap_refines [where res = "Inr pa" for pa, simplified] kernel_unmap_refines [where res = "Inl e" for e, simplified]
  switch_refines

lemma vm_step_refines: "vm_step (s, R) e (s', R') \<Longrightarrow> vm_ok s R \<Longrightarrow> refines (s, R) e (s', R')"
  by (erule vm_step_elim) (simp, rule refine_rules; assumption)+

text \<open>
  (C3) The page tables refine the abstract view. Along every run of creations, destructions, mappings,
  unmappings and switches, failed ones included, the invariant holds, and what the kernel and every
  live root can access is what the successful events of the run say, in their order.
\<close>

theorem vm_run_refines:
  assumes "vm_run c es c'" and "vm_ok (fst c) (snd c)"
  shows "vm_ok (fst c') (snd c') \<and> vm_abs c' = foldl spec_event (vm_abs c) es"
  using assms
proof (induction rule: vm_run.induct)
  case (vm_run_Cons c e c1 es c2)
  have "refines c e c1" using vm_step_refines vm_run_Cons.hyps(1) vm_run_Cons.prems by (cases c; cases c1) simp
  then show ?case using vm_run_Cons.IH by (simp add: refines_def)
qed simp

section \<open>Life of a space\<close>

lemma kernel_half: "bit va 47 \<Longrightarrow> pg_index va 39 \<in> {256..<ENTRY_COUNT}"
proof -
  assume b: "bit va 47"
  have m: "(0x1ff :: u64) = mask 9" by (simp add: mask_eq_exp_minus_1)
  have "bit (drop_bit 39 va AND 0x1ff) 8" using b unfolding m bit_field by simp
  from word_below_bits [OF _ this, of 8] have "\<not> unat (drop_bit 39 va AND 0x1ff) < 2 ^ 8" by blast
  then show ?thesis using pg_index_less [of va 39] by (simp add: pg_index_def ENTRY_COUNT_def)
qed

lemma walk_shared:
  "m t i = m t' i \<Longrightarrow> walk m f t (i # p) = walk m f t' (i # p)"
  by simp

text \<open>
  (C12) A new user space. The root is not the root of another live space. Nothing is mapped in its user
  half. In the kernel half it has the tables of the kernel. The translations of the kernel and of all
  other roots are the ones before the call.
\<close>

theorem create_fresh_space:
  assumes ok: "vm_ok s R" and call: "create_user_address_space s = (s', Inr root)"
  shows "vm_ok s' (insert root R) \<and> root \<notin> R \<and> (\<forall>va w. translate_user_page s' root va w = None) \<and>
    (\<forall>va. bit va 47 \<longrightarrow> leaf_table s' (table_for_physical s' root) va = leaf_table s' (pg_active_pml4 s') va) \<and>
    (\<forall>va. translate_virt s' va = translate_virt s va) \<and>
    (\<forall>r \<in> R. \<forall>va w. translate_user_page s' r va w = translate_user_page s r va w)"
  using ok
proof (cases rule: create_cases)
  case (created s1 r1)
  with call have eq: "s1 = s'" "r1 = root" by simp_all
  note new = created [unfolded eq]
  have act: "pg_active_pml4 s' = pg_active_pml4 s" using new(3) by (simp add: same_setup_def)
  have "leaf_table s' (table_for_physical s' root) va = leaf_table s' (pg_active_pml4 s') va" if "bit va 47" for va
    unfolding leaf_table_walk va_path_def act same_setup_table [OF new(3)]
    using new(8) kernel_half [OF that] by (intro walk_shared) simp
  then show ?thesis using new(2,4) created_translations [OF ok new(3,6,7)] by blast
qed (use call in simp)

text \<open>
  (C11) Destroying a space. Every frame that holds a page table of the root, and the root itself, is
  free again, and no other frame changes state. The invariant holds for the roots that remain, and
  their translations and those of the kernel are the ones before the call.
\<close>

theorem destroy_releases_tables:
  assumes ok: "vm_ok s R" and r: "root \<in> R" and s': "s' = destroy_user_address_space s root"
  shows "vm_ok s' (R - {root}) \<and>
    (\<forall>k < pfa_frame_count (pg_frames s). frames_of s' ! k =
       (if user_table s root (frame_addr k) then FrameFree else frames_of s ! k)) \<and>
    (\<forall>va. translate_virt s' va = translate_virt s va) \<and>
    (\<forall>r \<in> R - {root}. \<forall>va w. translate_user_page s' r va w = translate_user_page s r va w)"
proof -
  note des = destroy_ok [OF ok r]
  show ?thesis
    unfolding s' using destroy_vm_ok [OF ok r] des(4) same_tables_translations [OF des(1,2)] by simp
qed

section \<open>Ranges\<close>

lemma unat_page_of: "unat (page_of va) = unat va div 4096 mod 2 ^ 36"
proof -
  have "page_of va = take_bit 36 (drop_bit 12 va)" by (simp add: page_of_def take_bit_eq_mask)
  then show ?thesis by (simp add: drop_bit_eq_div unat_div unat_mod take_bit_eq_mod)
qed

lemma unat_page_offset: "unat (va AND (PAGE_SIZE - 1)) = unat va mod 4096"
  unfolding page_mask by (simp add: take_bit_eq_mask [symmetric] unat_mod take_bit_eq_mod)

lemma mod_add_left_inj:
  assumes eq: "(c + a) mod n = (c + b) mod n" and lt: "a < n" "b < (n :: nat)"
  shows "a = b"
proof -
  have "x = y" if "(c + x) mod n = (c + y) mod n" "x \<le> y" "y < n" for x y
  proof -
    have "n dvd (c + y) - (c + x)" using mod_eq_dvd_iff_nat [of "c + x" "c + y" n] that by simp
    then show ?thesis using that(2,3) by (auto dest: dvd_imp_le)
  qed
  from this [of a b] this [of b a] show ?thesis using eq lt by (cases "a \<le> b") simp_all
qed

text \<open>Two pages that are less than \<open>2\<^sup>48\<close> bytes apart have different numbers.\<close>

lemma near_pages_distinct:
  assumes j: "unat virt + unat j < 2 ^ 64" "unat j mod 4096 = 0" and k: "unat virt + unat k < 2 ^ 64" "unat k mod 4096 = 0"
    and v: "unat virt mod 4096 = 0" and jk: "unat j \<le> unat k" "unat k < unat j + 2 ^ 48"
    and eq: "page_of (virt + j) = page_of (virt + k)"
  shows "j = k"
proof -
  have add: "unat (virt + i) = unat virt + unat i" if "unat virt + unat i < 2 ^ 64" for i :: u64
    using that by (simp add: unat_word_ariths)
  obtain a where a: "unat j = 4096 * a" using mod_0_imp_dvd [OF j(2)] by (rule dvdE)
  obtain b where b: "unat k = 4096 * b" using mod_0_imp_dvd [OF k(2)] by (rule dvdE)
  obtain c where c: "unat virt = 4096 * c" using mod_0_imp_dvd [OF v] by (rule dvdE)
  note abc = a b c
  have "unat (page_of (virt + j)) = (c + a) mod 2 ^ 36" "unat (page_of (virt + k)) = (c + b) mod 2 ^ 36"
    unfolding unat_page_of add [OF j(1)] add [OF k(1)] abc distrib_left [symmetric] by simp_all
  then have "(c + a + 0) mod 2 ^ 36 = (c + a + (b - a)) mod 2 ^ 36" using eq jk(1) abc(1,2) by (metis add.assoc add_0_right le_add_diff_inverse mult_le_cancel1 zero_less_numeral)
  moreover have "0 < (2 ^ 36 :: nat)" "b - a < 2 ^ 36" using jk abc by simp_all
  ultimately have "0 = b - a" by (rule mod_add_left_inj)
  then have "a = b" using jk(1) abc(1,2) by simp
  then show ?thesis using abc(1,2) unat_inj [of j k] by simp
qed

lemma range_pages_distinct:
  assumes "unat virt + unat j < 2 ^ 64" "unat j mod 4096 = 0" "unat virt + unat k < 2 ^ 64" "unat k mod 4096 = 0"
    and "unat virt mod 4096 = 0" and "unat j < 2 ^ 48" "unat k < 2 ^ 48" and "page_of (virt + j) = page_of (virt + k)"
  shows "j = k"
proof (cases "unat j \<le> unat k")
  case True
  show ?thesis by (rule near_pages_distinct [OF assms(1-5) True _ assms(8)]) (use assms(7) in linarith)
next
  case False
  then have "unat k \<le> unat j" by linarith
  then have "k = j" by (rule near_pages_distinct [OF assms(3,4,1,2,5) _ _ assms(8) [symmetric]]) (use assms(6) in linarith)
  then show ?thesis by simp
qed

text \<open>The pages of a range that are still to be mapped from an offset on.\<close>

definition range_page :: "u64 \<Rightarrow> u64 \<Rightarrow> u64 \<Rightarrow> u64 \<Rightarrow> u64 \<Rightarrow> bool" where
  "range_page virt len offset va j \<longleftrightarrow>
     offset \<le> j \<and> j < len \<and> unat j mod 4096 = 0 \<and> page_of va = page_of (virt + j)"

lemma range_page_unique:
  assumes "unat virt + unat len < 2 ^ 64" "unat virt mod 4096 = 0" "unat len \<le> unat j + 2 ^ 48" "unat j \<le> unat k"
    and "range_page virt len a va j" "range_page virt len b va k"
  shows "j = k"
  using assms by (intro near_pages_distinct [of virt j k]) (auto simp: range_page_def word_less_nat_alt)

text \<open>
  Pages \<open>2\<^sup>48\<close> bytes apart use the same entry, so the last \<open>2\<^sup>48\<close> bytes of a range decide what its
  addresses translate to.
\<close>

lemma map_range_offsets_ok:
  assumes "vm_ok s R" and "map_range_offsets virt phys len flags s offset = (s', ok_unit)"
    and "unat virt + unat len < 2 ^ 64" "unat virt mod 4096 = 0" "unat offset mod 4096 = 0"
  shows "vm_ok s' R \<and> (\<forall>va j. range_page virt len offset va j \<and> unat len \<le> unat j + 2 ^ 48 \<longrightarrow>
      translate_virt s' va = Some (((phys + j) AND ADDRESS_MASK) OR (va AND (PAGE_SIZE - 1)))) \<and>
    (\<forall>va. (\<forall>j. \<not> range_page virt len offset va j) \<longrightarrow> translate_virt s' va = translate_virt s va) \<and>
    (\<forall>r \<in> R. \<forall>va w. translate_user_page s' r va w = translate_user_page s r va w)"
  using assms
proof (induction virt phys len flags s offset rule: map_range_offsets.induct)
  case (1 virt phys len flags s offset)
  show ?case
  proof (cases "offset < len")
    case False
    then have "s' = s" "\<not> range_page virt len offset va j" for va j using 1(3) by (auto simp: range_page_def)
    then show ?thesis using 1(2) by simp
  next
    case True
    obtain s1 next_offset where s1: "map_page s (virt + offset) (phys + offset) flags = (s1, ok_unit)"
      "checked_add64 offset PAGE_SIZE = Some next_offset" "map_range_offsets virt phys len flags s1 next_offset = (s', ok_unit)"
      using 1(3) True by (subst (asm) map_range_offsets.simps) (auto simp: and_then_eq_Inr split: option.splits)
    have off: "unat next_offset = unat offset + 4096" using s1(2) by (simp add: checked_add64_Some PAGE_SIZE_def)
    obtain m: "mapped R (pg_active_pml4 s) (virt + offset) (((phys + offset) AND ADDRESS_MASK) OR ensure_present flags) s s1"
      and fl: "flags AND NOT SUPPORTED_PAGE_FLAGS = 0"
      using map_page_cases [OF 1(2), of "virt + offset" "phys + offset" flags] s1(1) by auto
    note ih = 1(1) [OF True s1(1) s1(2) mappedD(1) [OF m] s1(3) 1(4,5)]
    have ih': "vm_ok s' R \<and> (\<forall>va j. range_page virt len next_offset va j \<and> unat len \<le> unat j + 2 ^ 48 \<longrightarrow>
        translate_virt s' va = Some (((phys + j) AND ADDRESS_MASK) OR (va AND (PAGE_SIZE - 1)))) \<and>
      (\<forall>va. (\<forall>j. \<not> range_page virt len next_offset va j) \<longrightarrow> translate_virt s' va = translate_virt s1 va) \<and>
      (\<forall>r \<in> R. \<forall>va w. translate_user_page s' r va w = translate_user_page s1 r va w)"
      using ih off 1(6) by simp
    have split: "range_page virt len offset va j \<longleftrightarrow>
        j = offset \<and> page_of va = page_of (virt + offset) \<or> range_page virt len next_offset va j" for va j
    proof -
      have "unat offset \<le> unat j \<longleftrightarrow> unat j = unat offset \<or> unat next_offset \<le> unat j" if "unat j mod 4096 = 0"
        using that 1(6) off by (auto elim!: dvdE simp: mod_eq_0_iff_dvd)
      then show ?thesis using True 1(6) unat_inj [of j offset] by (auto simp: range_page_def word_le_nat_alt)
    qed
    have kern: "translate_virt s1 va = (if page_of va = page_of (virt + offset)
        then Some (((phys + offset) AND ADDRESS_MASK) OR (va AND (PAGE_SIZE - 1))) else translate_virt s va)" for va
      using mapped_translations(1) [OF 1(2) m] kernel_view_entry [OF fl] by simp
    have user: "translate_user_page s1 r va w = translate_user_page s r va w" if "r \<in> R" for r va w
      using mapped_translations(2) [OF 1(2) m that] setup_okD(6) [OF vm_okD(2) [OF 1(2)] that] by simp
    have first: "range_page virt len offset va offset" if "page_of va = page_of (virt + offset)" for va
      using that True 1(6) by (simp add: range_page_def)
    have "translate_virt s' va = Some (((phys + j) AND ADDRESS_MASK) OR (va AND (PAGE_SIZE - 1)))"
      if j: "range_page virt len offset va j" "unat len \<le> unat j + 2 ^ 48" for va j
    proof (cases "j = offset")
      case True
      then have "\<not> range_page virt len next_offset va k" for k
        using range_page_unique [OF 1(4,5) j(2) _ j(1), of k next_offset] off by (auto simp: range_page_def word_le_nat_alt)
      then show ?thesis using ih' kern j True by (simp add: range_page_def)
    qed (use j split ih' in blast)
    moreover have "translate_virt s' va = translate_virt s va" if "\<forall>j. \<not> range_page virt len offset va j" for va
      using that first [of va] split [of va] ih' kern [of va] by auto
    ultimately show ?thesis using ih' user by simp
  qed
qed

lemma page_offset_add:
  assumes "unat a mod 4096 = 0" "unat (a :: u64) + unat va mod 4096 < 2 ^ 64"
  shows "a OR (va AND (PAGE_SIZE - 1)) = a + (va AND (PAGE_SIZE - 1))"
proof -
  have "a AND (PAGE_SIZE - 1) = 0" using assms(1) by (simp add: aligned_iff)
  then have "a AND (va AND (PAGE_SIZE - 1)) = 0" by (simp add: and.left_commute [of a])
  then show ?thesis by (rule disjunctive_add_eq_or [symmetric])
qed

text \<open>The byte at an offset of a range, as a page of the range and a position in the page.\<close>

lemma physical_byte:
  assumes "unat a mod 4096 = 0"
  shows "((a :: u64) AND ADDRESS_MASK) OR (b AND (PAGE_SIZE - 1)) =
    (a OR (b AND (PAGE_SIZE - 1))) AND (ADDRESS_MASK OR (PAGE_SIZE - 1))"
proof -
  have "a AND (PAGE_SIZE - 1) = 0" using assms by (simp add: aligned_iff)
  moreover have "(b AND (PAGE_SIZE - 1)) AND ADDRESS_MASK = 0"
    by (simp add: and.assoc ADDRESS_MASK_def PAGE_SIZE_def)
  ultimately show ?thesis by (simp add: and.assoc bit.conj_disj_distrib bit.conj_disj_distrib2 or.assoc [symmetric])
qed

lemma range_byte:
  assumes "unat virt + unat len < 2 ^ 64" "unat virt mod 4096 = 0" "unat phys mod 4096 = 0" "unat len mod 4096 = 0"
    and "unat phys + unat len < 2 ^ 64" and "off < len" and reach: "unat len \<le> unat off + 2 ^ 48"
  obtains j where "range_page virt len 0 (virt + off) j" "unat len \<le> unat j + 2 ^ 48"
    "((phys + j) AND ADDRESS_MASK) OR ((virt + off) AND (PAGE_SIZE - 1)) = (phys + off) AND (ADDRESS_MASK OR (PAGE_SIZE - 1))"
proof
  let ?j = "off AND NOT (PAGE_SIZE - 1)"
  have lt: "unat off < unat len" using assms(6) by (simp add: word_less_nat_alt)
  have j: "unat ?j = unat off div 4096 * 4096" by (rule unat_and_not_mask)
  have jle: "unat ?j + unat off mod 4096 = unat off" unfolding j by simp
  have vj: "unat (virt + ?j) = unat virt + unat ?j" "unat (virt + off) = unat virt + unat off"
    and pj: "unat (phys + ?j) = unat phys + unat ?j" "unat (phys + off) = unat phys + unat off"
    using assms(1,5) lt jle by (simp_all add: unat_word_ariths)
  obtain c where c: "unat virt = 4096 * c" using mod_0_imp_dvd [OF assms(2)] by (rule dvdE)
  obtain d where d: "unat phys = 4096 * d" using mod_0_imp_dvd [OF assms(3)] by (rule dvdE)
  obtain l where l: "unat len = 4096 * l" using mod_0_imp_dvd [OF assms(4)] by (rule dvdE)
  have "unat (page_of (virt + off)) = unat (page_of (virt + ?j))"
    unfolding unat_page_of vj j c by simp
  then show "range_page virt len 0 (virt + off) ?j"
    using lt jle j unat_inj by (auto simp: range_page_def word_less_nat_alt)
  have "(2 :: nat) ^ 48 = 4096 * 2 ^ 36" by simp
  then have "l \<le> unat off div 4096 + 2 ^ 36" using div_le_mono [OF reach, of 4096] unfolding l by (simp only: div_mult_self2 nonzero_mult_div_cancel_left)
  then show "unat len \<le> unat ?j + 2 ^ 48" unfolding j l by simp
  have al: "unat (phys + ?j) mod 4096 = 0" unfolding pj j d by simp
  have offs: "unat ((virt + off) AND (PAGE_SIZE - 1)) = unat off mod 4096"
    unfolding unat_page_offset vj c by simp
  have small: "unat (phys + ?j) + unat off mod 4096 = unat phys + unat off" unfolding pj using jle by simp
  have "unat (virt + off) mod 4096 = unat off mod 4096" using offs unfolding unat_page_offset .
  then have "(phys + ?j) OR ((virt + off) AND (PAGE_SIZE - 1)) = (phys + ?j) + ((virt + off) AND (PAGE_SIZE - 1))"
    using page_offset_add [OF al, of "virt + off"] small lt assms(5) by simp
  also have "unat \<dots> = unat (phys + off)"
    using small pj lt assms(5) by (simp add: unat_word_ariths(1) [of "phys + ?j"] offs)
  then have "(phys + ?j) + ((virt + off) AND (PAGE_SIZE - 1)) = phys + off" by (rule unat_inj)
  finally show "((phys + ?j) AND ADDRESS_MASK) OR ((virt + off) AND (PAGE_SIZE - 1)) =
      (phys + off) AND (ADDRESS_MASK OR (PAGE_SIZE - 1))"
    unfolding physical_byte [OF al] by simp
qed

text \<open>
  (C15) \<open>map_range\<close>. When the call succeeds, the byte at each offset of the virtual range translates to
  the byte at the same offset of the physical range, taken in the 52 bits of a physical address that
  an entry can hold; the addresses of all other pages, and all user roots, translate as before.
  Virtual addresses \<open>2\<^sup>48\<close> bytes apart share their entry. So the offsets in question are those of the
  last \<open>2\<^sup>48\<close> bytes of the range, which are all offsets unless the range is longer than that.
\<close>

theorem map_range_exact:
  assumes ok: "vm_ok s R" and call: "map_range s virt phys len flags = (s', ok_unit)"
  shows "vm_ok s' R \<and>
    (\<forall>off < len. unat len \<le> unat off + 2 ^ 48 \<longrightarrow>
       translate_virt s' (virt + off) = Some ((phys + off) AND 0x000fffffffffffff)) \<and>
    (\<forall>va. (\<forall>off < len. page_of va \<noteq> page_of (virt + off)) \<longrightarrow> translate_virt s' va = translate_virt s va) \<and>
    (\<forall>r \<in> R. \<forall>va w. translate_user_page s' r va w = translate_user_page s r va w)"
proof -
  have loop: "map_range_offsets virt phys len flags s 0 = (s', ok_unit)"
    and al: "unat virt mod 4096 = 0" "unat phys mod 4096 = 0" "unat len mod 4096 = 0"
    and sums: "checked_add64 virt len \<noteq> None" "checked_add64 phys len \<noteq> None"
    using call by (auto simp: map_range_def validate_page_alignment_def aligned_iff split: if_splits)
  have nowrap: "unat a + unat len < 2 ^ 64" if sum: "checked_add64 a len \<noteq> None" for a
  proof -
    from sum obtain c where "checked_add64 a len = Some c" by blast
    moreover have "unat c < 2 ^ LENGTH(64)" by (rule unsigned_less)
    ultimately show ?thesis by (simp add: checked_add64_Some)
  qed
  have m: "ADDRESS_MASK OR (PAGE_SIZE - 1) = 0x000fffffffffffff" by (simp add: ADDRESS_MASK_def PAGE_SIZE_def)
  note run = map_range_offsets_ok [OF ok loop nowrap [OF sums(1)] al(1)]
  have "translate_virt s' (virt + off) = Some ((phys + off) AND 0x000fffffffffffff)"
    if "off < len" "unat len \<le> unat off + 2 ^ 48" for off
    using range_byte [OF nowrap [OF sums(1)] al nowrap [OF sums(2)] that] run unfolding m by (metis unsigned_0 mod_0)
  then show ?thesis using run by (auto simp: range_page_def)
qed

section \<open>An example\<close>

text \<open>Eight frames, of which the kernel root and frame 0 are taken; every table is empty.\<close>

fun demo_pool :: "nat \<Rightarrow> PhysicalFrameAllocator" where
  "demo_pool 0 = (pfa_new 2)\<lparr>pfa_metadata := Some (FrameReserved # FrameReserved # replicate 6 FrameFree),
     pfa_frame_count := 8, pfa_initialized := True\<rparr>"
| "demo_pool (Suc n) = fst (allocate_frame (demo_pool n))"

declare demo_pool.simps [simp del]

definition demo_paging :: Paging where
  "demo_paging = \<lparr>pg_mem = (\<lambda>_ _. 0), pg_pool_base = 0, pg_pool_next = 0,
     pg_translator = \<lparr>at_hhdm_offset = Some 0x100000, at_kernel_physical_start = 0, at_kernel_virtual_start = 0, at_kernel_length = 0\<rparr>,
     pg_active_pml4 = 0x101000, pg_kernel_pml4 = 0x1000, pg_current_root = 0x1000, pg_cr3 = 0x1000,
     pg_installed = True, pg_frame_ready = True, pg_frames = demo_pool 0\<rparr>"

abbreviation demo_space :: Paging where
  "demo_space \<equiv> demo_paging\<lparr>pg_frames := demo_pool 1\<rparr>"

lemma demo_pool_allocates:
  "allocate_frame (demo_pool 0) = (demo_pool 1, Inr \<lparr>pf_start = 0x2000\<rparr>)"
  "allocate_frame (demo_pool 1) = (demo_pool 2, Inr \<lparr>pf_start = 0x3000\<rparr>)"
  "allocate_frame (demo_pool 2) = (demo_pool 3, Inr \<lparr>pf_start = 0x4000\<rparr>)"
  "allocate_frame (demo_pool 3) = (demo_pool 4, Inr \<lparr>pf_start = 0x5000\<rparr>)"
  by code_simp+

lemma demo_table:
  "table_for_physical demo_paging a = (if uint a + 0x100000 < 2 ^ 64 then a + 0x100000 else max_word_of)"
  by (simp add: table_for_physical_def demo_paging_def virtual_for_physical_def saturating_add_code)

lemma demo_simps [simp]:
  "pg_mem demo_paging = (\<lambda>_ _. 0)" "pg_frames demo_paging = demo_pool 0" "pg_active_pml4 demo_paging = 0x101000"
  "pg_kernel_pml4 demo_paging = 0x1000" "pg_frame_ready demo_paging"
  by (simp_all add: demo_paging_def)

lemma demo_create: "create_user_address_space demo_paging = (demo_space, Inr 0x2000)"
proof -
  let ?t = "table_for_physical demo_paging 0x2000"
  have "?t \<noteq> pg_active_pml4 (fill_zero demo_space ?t)" by (simp add: demo_table fill_zero_def)
  moreover have "(\<lambda>_ _. 0)(t := (\<lambda>_. 0)) = ((\<lambda>_ _. 0) :: table_mem)" for t by (simp add: fun_eq_iff)
  moreover have "demo_paging\<lparr>pg_frames := p, pg_mem := (\<lambda>_ _. 0)\<rparr> = demo_paging\<lparr>pg_frames := p\<rparr>" for p
    by (simp add: demo_paging_def)
  ultimately show ?thesis
    using copy_entries [of ?t "fill_zero demo_space ?t" "[256..<ENTRY_COUNT]"]
    by (simp add: create_user_address_space_def allocate_physical_frame_def demo_pool_allocates fill_zero_def Let_def cong: if_cong)
qed

lemma demo_pool_shape:
  "pfa_ok (demo_pool 0)" "pfa_frame_count (demo_pool 0) = 8" "frame_db (demo_pool 0) = FrameReserved # FrameReserved # replicate 6 FrameFree"
  by (simp_all add: demo_pool.simps pfa_ok_def frame_db_def pfa_new_def)

lemma demo_vm_ok_with:
  assumes p: "pfa_ok p" "pfa_frame_count p \<le> 256" "frame_db p ! 0 \<noteq> FrameFree" "frame_db p ! 1 \<noteq> FrameFree"
  shows "vm_ok (demo_paging\<lparr>pg_frames := p\<rparr>) {}"
proof -
  let ?s = "demo_paging\<lparr>pg_frames := p\<rparr>"
  let ?f = "table_for_physical demo_paging" and ?S = "vm_spaces ?s {}" and ?n = "pfa_frame_count p"
  have walk: "walk (\<lambda>_ _. 0) ?f t p = (if p = [] then Some t else None)" for t p by (cases p) simp_all
  have dom: "path_ok ?S t p \<Longrightarrow> t = 0x101000" for t p by (auto simp: path_ok_def vm_spaces_def split: if_splits)
  have addr: "?f (frame_addr i) = word_of_nat (i * 4096 + 0x100000)" if "i < 256" for i
  proof -
    have "unat (frame_addr i) = i * 4096" using that by (intro unat_frame_at) simp
    then have "uint (frame_addr i) = int (i * 4096)" by (metis uint_nat)
    then show ?thesis using that by (simp add: demo_table frame_at_def)
  qed
  have neq: "word_of_nat (i * 4096 + 0x100000) = (word_of_nat (j * 4096 + 0x100000) :: u64) \<Longrightarrow> i = j" if "i < 256" "j < 256" for i j
    using that by (simp only: of_nat_eq_iff word_of_nat_eq_iff) (simp add: take_bit_nat_eq_self)
  have inj: "?f (frame_addr i) = ?f (frame_addr j) \<Longrightarrow> i = j" if "i < ?n" "j < ?n" for i j
    using addr [of i] addr [of j] neq [of i j] that p(2) by simp
  then have "setup_ok ?s {}" unfolding setup_ok_def using p(2) by (auto simp: demo_table intro!: inj_onI)
  moreover have "tables_ok ?s {}"
  proof -
    have "?f (frame_addr i) \<noteq> 0x101000" if "i < ?n" "i \<noteq> 1" for i
      using addr [of i] neq [of i 1] that p(2) by auto
    moreover have "i \<noteq> 0 \<and> i \<noteq> 1" if "frame_db p ! i = FrameFree" for i using that p(3,4) by metis
    ultimately show ?thesis
      unfolding tables_ok_def Let_def forest_def nodes_def using dom by (auto simp: walk split: if_splits)
  qed
  ultimately show ?thesis using p(1) by (simp add: vm_ok_def)
qed

lemma demo_vm_ok: "vm_ok demo_paging {}"
proof -
  have same: "demo_paging\<lparr>pg_frames := demo_pool 0\<rparr> = demo_paging" by (simp add: demo_paging_def)
  show ?thesis by (rule demo_vm_ok_with [of "demo_pool 0", unfolded same]) (simp_all add: demo_pool_shape)
qed

lemma demo_space_vm_ok: "vm_ok demo_space {0x2000}"
  using create_refines [OF demo_vm_ok demo_create] by (simp add: refines_def)

lemma demo_index:
  "pg_index 0x400000 39 = 0" "pg_index 0x400000 30 = 0" "pg_index 0x400000 21 = 2" "pg_index 0x400000 12 = 0"
  by (simp_all add: pg_index_def)

lemmas demo_eval = read_entry_def write_entry_def fill_zero_def allocate_physical_frame_def demo_pool_allocates [simplified]
  demo_index demo_table PAGE_SIZE_def Let_def page_flag_defs ADDRESS_MASK_def

lemma demo_user_map:
  "\<exists>s'. map_user_page demo_space 0x2000 0x400000 0x5000 read_only = (s', ok_unit)"
  by (simp add: map_user_page_def user_next_table_def demo_eval)

lemma demo_map_range: "\<exists>s'. map_range demo_paging 0x400000 0x8000 0x1000 WRITABLE = (s', ok_unit)"
proof -
  have tr: "pg_translator demo_paging = pg_translator demo_paging" ..
  have v: "virtual_for_physical (pg_translator demo_paging) a = table_for_physical demo_paging a" for a
    by (simp add: table_for_physical_def)
  have "\<exists>s'. map_page demo_paging 0x400000 0x8000 WRITABLE = (s', ok_unit)"
    by (simp add: map_page_def validate_page_alignment_def map_page_inner_def next_table_def allocate_page_table_def v demo_eval
        kernel_table_flags_def)
  then obtain s' where "map_page demo_paging 0x400000 0x8000 WRITABLE = (s', ok_unit)" by blast
  then have "map_range_offsets 0x400000 0x8000 0x1000 WRITABLE demo_paging 0 = (s', ok_unit)"
    by (subst map_range_offsets.simps) (simp add: checked_add64_def PAGE_SIZE_def map_range_offsets.simps)
  then show ?thesis by (simp add: map_range_def validate_page_alignment_def checked_add64_def PAGE_SIZE_def)
qed

theorem map_user_page_isolated_witness:
  "\<exists>s'. map_user_page demo_space 0x2000 0x400000 0x5000 read_only = (s', ok_unit) \<and> vm_ok s' {0x2000} \<and>
     translate_user_page s' 0x2000 0x400123 False = Some 0x5123 \<and> translate_user_page s' 0x2000 0x400123 True = None"
proof -
  obtain s' where s': "map_user_page demo_space 0x2000 0x400000 0x5000 read_only = (s', ok_unit)"
    using demo_user_map by blast
  have "align_down 0x400123 = 0x400000" by (simp add: align_down_def PAGE_SIZE_def)
  then show ?thesis
    using map_user_page_isolated [OF demo_space_vm_ok _ s'] s'
    by (simp add: read_only_def protection_new_def ADDRESS_MASK_def PAGE_SIZE_def)
qed

theorem vm_run_refines_witness:
  "\<exists>c. vm_run (demo_paging, {}) [Created 0x2000, UserMapped 0x2000 0x400000 0x5000 read_only, Destroyed 0x2000] c \<and>
     vm_ok (fst c) (snd c) \<and> vw_user (vm_abs c) 0x2000 = None"
proof -
  obtain s' where s': "map_user_page demo_space 0x2000 0x400000 0x5000 read_only = (s', ok_unit)"
    using demo_user_map by blast
  let ?c = "(destroy_user_address_space s' 0x2000, {0x2000} - {0x2000})"
  have run: "vm_run (demo_paging, {}) [Created 0x2000, UserMapped 0x2000 0x400000 0x5000 read_only, Destroyed 0x2000] ?c"
    using vm_step.created [OF demo_create, where R = "{}"] vm_step.user_mapped [OF _ s', where R = "{0x2000}"]
      vm_step.destroyed [where root = "0x2000" and R = "{0x2000}" and s = s']
    by (auto intro!: vm_run.intros)
  have "vm_ok (fst ?c) (snd ?c) \<and> vw_user (vm_abs ?c) 0x2000 = None"
    using vm_run_refines [OF run] demo_vm_ok by simp
  with run show ?thesis by blast
qed

theorem create_fresh_space_witness:
  "create_user_address_space demo_paging = (demo_space, Inr 0x2000) \<and> vm_ok demo_space {0x2000} \<and>
     translate_user_page demo_space 0x2000 0x400000 False = None"
  using create_fresh_space [OF demo_vm_ok demo_create] demo_create by simp

theorem destroy_releases_tables_witness:
  "vm_ok (destroy_user_address_space demo_space 0x2000) {} \<and> frames_of (destroy_user_address_space demo_space 0x2000) ! 2 = FrameFree"
proof -
  have "pfa_frame_count (pg_frames demo_space) = 8"
    by (rule create_cases [OF demo_vm_ok]) (use demo_create in \<open>auto simp: same_setup_def demo_pool_shape\<close>)
  moreover have "user_table demo_space 0x2000 (frame_addr 2)" by (simp add: user_table_def frame_at_def)
  ultimately show ?thesis
    using destroy_releases_tables [OF demo_space_vm_ok _ refl] by auto
qed

theorem map_range_exact_witness:
  "\<exists>s'. map_range demo_paging 0x400000 0x8000 0x1000 WRITABLE = (s', ok_unit) \<and> translate_virt s' 0x400123 = Some 0x8123"
proof -
  obtain s' where s': "map_range demo_paging 0x400000 0x8000 0x1000 WRITABLE = (s', ok_unit)" using demo_map_range by blast
  have "translate_virt s' (0x400000 + 0x123) = Some ((0x8000 + 0x123) AND 0x000fffffffffffff)"
    by (rule map_range_exact [OF demo_vm_ok s', THEN conjunct2, THEN conjunct1, rule_format]) simp_all
  then show ?thesis using s' by simp
qed

end
