(* ===== verification/Heap_Backing.thy ===== *)
theory Heap_Backing
  imports Heap_Allocation Virtual_Memory
begin

text \<open>
  The kernel heap and the page tables together: \<open>src/src/kernel/memory/heap.rs\<close> on top of
  \<open>src/src/arch/x86_64/paging.rs\<close>. Committing pages takes one fresh frame for each page, and a failure
  gives all of them back. On the virtual heap every live block lies on committed pages, and no two bytes
  of the heap share a byte of physical memory.
\<close>

unbundle bit_operations_syntax

section \<open>Frames for data\<close>

abbreviation kernel_entry :: "Paging \<Rightarrow> u64 \<Rightarrow> u64" where
  "kernel_entry s va \<equiv> page_entry s (pg_active_pml4 s) va"

lemma same_mem_entries:
  assumes "pg_mem s' = pg_mem s" "same_setup s s'"
  shows "page_entry s' t va = page_entry s t va"
  using assms by (simp add: page_entry_def same_setup_table)

lemma allocate_data:
  assumes ok: "vm_ok s R" and call: "allocate_physical_frame s = (s', res)"
  shows "case res of
     Inr a \<Rightarrow> \<exists>k. a = frame_addr k \<and> k \<notin> data_frames s R \<and> data_frames s' R = insert k (data_frames s R) \<and>
       vm_ok s' R \<and> same_setup s s' \<and> pg_mem s' = pg_mem s
   | Inl _ \<Rightarrow> s' = s"
  using vm_okD(1) [OF ok]
proof (cases rule: allocate_frame_cases)
  case oom
  then show ?thesis using call by (auto simp: allocate_physical_frame_def)
next
  case (ok k fa)
  note d = vm_okD [OF assms(1)] and td = tables_okD [OF vm_okD(3) [OF assms(1)]]
  have eq: "s' = s\<lparr>pg_frames := fa\<rparr>" "res = Inr (frame_addr k)"
    using call ok(4) by (simp_all add: allocate_physical_frame_def)
  have cfg: "same_setup s s'" using ok(7) by (simp add: eq same_setup_def)
  have mem: "pg_mem s' = pg_mem s" and fa: "frames_of s' = (frames_of s)[k := FrameAllocated]"
    using ok(5) by (simp_all add: eq)
  note sp = same_setup_spaces [OF cfg] same_setup_table [OF cfg]
  have k0: "k \<noteq> 0" and kn: "table_for_physical s (frame_addr k) \<notin> nodes (pg_mem s) (table_for_physical s) (vm_spaces s R)"
    using td(2) [OF ok(1,2)] by simp_all
  have "tables_ok s' R"
    by (rule tables_ok_claim [OF assms(1) ok(1,2) fa cfg])
      (use td(1,4) in \<open>auto simp: mem sp\<close>)
  then have "vm_ok s' R" using ok(6) d(2) same_setup_ok [OF cfg] by (simp add: vm_ok_def eq)
  moreover have len: "length (frames_of s) = pfa_frame_count (pg_frames s)" using pfa_okD(2) [OF d(1)] by simp
  have "data_frames s' R = insert k (data_frames s R)"
    using ok(1) k0 kn len ok(7) unfolding data_frames_def sp mem fa by (auto simp: eq nth_list_update)
  moreover have "k \<notin> data_frames s R" using ok(2) by (simp add: data_frames_def)
  ultimately show ?thesis using cfg mem eq(2) by auto
qed

lemma deallocate_data:
  assumes ok: "vm_ok s R" and k: "k \<in> data_frames s R"
  defines "s' \<equiv> deallocate_physical_frame s (frame_addr k)"
  shows "vm_ok s' R" "same_setup s s'" "pg_mem s' = pg_mem s" "data_frames s' R = data_frames s R - {k}"
proof -
  note d = vm_okD [OF ok] and td = tables_okD [OF vm_okD(3) [OF ok]]
  note de = deallocate_frame [OF d(1), of "frame_addr k", folded s'_def]
  show cfg: "same_setup s s'" and mem: "pg_mem s' = pg_mem s" using de by blast+
  note sp = same_setup_spaces [OF cfg] same_setup_table [OF cfg]
  have fc: "pfa_frame_count (pg_frames s') = pfa_frame_count (pg_frames s)" using cfg by (simp add: same_setup_def)
  have kd: "k < pfa_frame_count (pg_frames s)" "k \<noteq> 0" "frames_of s ! k = FrameAllocated"
    "table_for_physical s (frame_addr k) \<notin> nodes (pg_mem s) (table_for_physical s) (vm_spaces s R)"
    using k by (simp_all add: data_frames_def)
  have inj: "frame_addr j = frame_addr k \<longleftrightarrow> j = k" if "j < pfa_frame_count (pg_frames s)" for j
    using setup_okD(8) [OF d(2) that kd(1)] by auto
  have fr: "frames_of s' ! j = (if j = k then FrameFree else frames_of s ! j)" if "j < pfa_frame_count (pg_frames s)" for j
    using de that inj [OF that] kd(3) by auto
  show "data_frames s' R = data_frames s R - {k}"
    using fr kd unfolding data_frames_def sp mem fc by (auto split: if_splits)
  have owned: "owned_frame s' a"
    if "owned_frame s a" "table_for_physical s a \<in> nodes (pg_mem s) (table_for_physical s) (vm_spaces s R)" for a
    using that kd(4) fr unfolding owned_frame_def fc by metis
  have root: "table_for_physical s r \<in> nodes (pg_mem s) (table_for_physical s) (vm_spaces s R)" if "r \<in> R" for r
    using that path_ok_root [of "vm_spaces s R" "table_for_physical s r" "{..<256}"] setup_okD(6) [OF d(2) that]
    by (intro nodesI [where p = "[]"]) (auto simp: vm_spaces_def)
  have "tables_ok s' R"
    unfolding tables_ok_def Let_def sp mem fc
  proof (intro conjI allI impI ballI)
    fix r p i x
    assume r: "r \<in> R" "path_ok (vm_spaces s R) (table_for_physical s r) (p @ [i])"
      "walk (pg_mem s) (table_for_physical s) (table_for_physical s r) p = Some x" "pg_mem s x i AND PRESENT \<noteq> 0"
    then have "table_for_physical s (pg_mem s x i AND ADDRESS_MASK) \<in> nodes (pg_mem s) (table_for_physical s) (vm_spaces s R)"
      by (intro nodesI [OF r(2)]) (simp add: walk_append)
    then show "owned_frame s' (pg_mem s x i AND ADDRESS_MASK)" by (rule owned [OF td(4) [OF r]])
  qed (use td(1-3) fr kd(2,4) owned root in \<open>auto split: if_splits\<close>)
  then show "vm_ok s' R" using de d(2) same_setup_ok [OF cfg] by (simp add: vm_ok_def)
qed

section \<open>A window of kernel pages\<close>

definition page_off :: "nat \<Rightarrow> u64" where
  "page_off i = word_of_nat (4096 * i)"

definition page_va :: "u64 \<Rightarrow> nat \<Rightarrow> u64" where
  "page_va base i = base + page_off i"

definition window :: "u64 \<Rightarrow> nat \<Rightarrow> bool" where
  "window base n \<longleftrightarrow> unat base mod 4096 = 0 \<and> unat base + 4096 * n < 2 ^ 64 \<and> n \<le> 2 ^ 36"

lemma unat_page_va:
  assumes "window base n" "i \<le> n"
  shows "unat (page_off i) = 4096 * i" "unat (page_va base i) = unat base + 4096 * i"
proof -
  have lt: "unat base + 4096 * i < 2 ^ 64" using assms by (simp add: window_def)
  then show i: "unat (page_off i) = 4096 * i" unfolding page_off_def by (simp only: unat_of_nat) simp
  show "unat (page_va base i) = unat base + 4096 * i" using lt i by (simp add: page_va_def unat_word_ariths)
qed

lemma page_va_aligned: "window base n \<Longrightarrow> i \<le> n \<Longrightarrow> page_va base i AND (PAGE_SIZE - 1) = 0"
  using unat_page_va(2) [of base n i] by (simp add: aligned_iff window_def mod_add_left_eq [symmetric])

lemma page_va_inj:
  assumes w: "window base n" and ij: "i < n" "j < n" and eq: "page_of (page_va base i) = page_of (page_va base j)"
  shows "i = j"
proof -
  have lt: "unat base + 4096 * k < 2 ^ 64" "4096 * k < 2 ^ 48" if "k < n" for k
  proof -
    have "(2 :: nat) ^ 48 = 4096 * 2 ^ 36" by simp
    then show "unat base + 4096 * k < 2 ^ 64" "4096 * k < 2 ^ 48" using w that unfolding window_def by linarith+
  qed
  have u: "unat (page_off k) = 4096 * k" if "k < n" for k by (rule unat_page_va(1) [OF w less_imp_le [OF that]])
  have nw: "unat base + unat (page_off k) < 2 ^ 64" "unat (page_off k) mod 4096 = 0" "unat (page_off k) < 2 ^ 48" if "k < n" for k
    unfolding u [OF that] by (rule lt(1) [OF that], rule mod_mult_self1_is_0, rule lt(2) [OF that])
  have "unat base mod 4096 = 0" using w by (simp only: window_def)
  from range_pages_distinct [OF nw(1,2) [OF ij(1)] nw(1,2) [OF ij(2)] this nw(3) [OF ij(1)] nw(3) [OF ij(2)]]
  have "page_off i = page_off j" using eq by (simp only: page_va_def)
  then have "unat (page_off i) = unat (page_off j)" by (rule arg_cong)
  then show ?thesis unfolding u [OF ij(1)] u [OF ij(2)] by linarith
qed

text \<open>
  A page that is held: its entry is present and names the frame. From a state \<open>s0\<close> on, the pages \<open>W\<close> of the
  window were touched; of them \<open>H\<close> are held, each by a frame of its own that held no data before, and
  the others are absent. Nothing else has changed.
\<close>

definition holds :: "Paging \<Rightarrow> u64 \<Rightarrow> nat \<Rightarrow> nat \<Rightarrow> bool" where
  "holds s base i k \<longleftrightarrow> kernel_entry s (page_va base i) AND PRESENT \<noteq> 0 \<and> kernel_entry s (page_va base i) AND ADDRESS_MASK = frame_addr k"

definition held :: "u64 set \<Rightarrow> Paging \<Rightarrow> u64 \<Rightarrow> nat set \<Rightarrow> nat set \<Rightarrow> (nat \<Rightarrow> nat) \<Rightarrow> Paging \<Rightarrow> bool" where
  "held R s0 base W H fr s \<longleftrightarrow>
     vm_ok s R \<and> same_setup s0 s \<and> H \<subseteq> W \<and>
     (\<forall>t va. in_space s0 R t va \<longrightarrow> \<not> (t = pg_active_pml4 s0 \<and> page_of va \<in> page_of ` page_va base ` W) \<longrightarrow>
        page_entry s t va = page_entry s0 t va) \<and>
     (\<forall>i \<in> W - H. kernel_entry s (page_va base i) = 0) \<and> (\<forall>i \<in> H. holds s base i (fr i)) \<and>
     inj_on fr H \<and> fr ` H \<inter> data_frames s0 R = {} \<and> data_frames s R = data_frames s0 R \<union> fr ` H"

lemma heldD:
  assumes "held R s0 base W H fr s"
  shows "vm_ok s R" "same_setup s0 s" "H \<subseteq> W"
    "in_space s0 R t va \<Longrightarrow> \<not> (t = pg_active_pml4 s0 \<and> page_of va \<in> page_of ` page_va base ` W) \<Longrightarrow> page_entry s t va = page_entry s0 t va"
    "i \<in> W - H \<Longrightarrow> kernel_entry s (page_va base i) = 0" "i \<in> H \<Longrightarrow> holds s base i (fr i)"
    "inj_on fr H" "fr ` H \<inter> data_frames s0 R = {}" "data_frames s R = data_frames s0 R \<union> fr ` H"
    "pg_active_pml4 s = pg_active_pml4 s0" "in_space s R t va = in_space s0 R t va"
proof -
  show d: "vm_ok s R" "same_setup s0 s" "H \<subseteq> W"
    "in_space s0 R t va \<Longrightarrow> \<not> (t = pg_active_pml4 s0 \<and> page_of va \<in> page_of ` page_va base ` W) \<Longrightarrow> page_entry s t va = page_entry s0 t va"
    "i \<in> W - H \<Longrightarrow> kernel_entry s (page_va base i) = 0" "i \<in> H \<Longrightarrow> holds s base i (fr i)"
    "inj_on fr H" "fr ` H \<inter> data_frames s0 R = {}" "data_frames s R = data_frames s0 R \<union> fr ` H"
    using assms unfolding held_def by blast+
  show "pg_active_pml4 s = pg_active_pml4 s0" using d(2) by (simp add: same_setup_def)
  show "in_space s R t va = in_space s0 R t va" by (rule same_setup_in_space [OF d(2)])
qed

lemma held_refl: "vm_ok s R \<Longrightarrow> held R s base {} {} fr s"
  by (simp add: held_def)

lemma held_frame:
  assumes h: "held R s0 base W H fr s" and ok: "vm_ok s' R" "same_setup s s'" "data_frames s' R = data_frames s R"
    and e: "\<And>t va. in_space s R t va \<Longrightarrow> page_entry s' t va = page_entry s t va"
  shows "held R s0 base W H fr s'"
proof -
  note d = heldD [OF h]
  have act: "pg_active_pml4 s' = pg_active_pml4 s" using ok(2) by (simp add: same_setup_def)
  have k: "kernel_entry s' va = kernel_entry s va" for va
    using e [OF in_space_kernel] by (simp add: act)
  show ?thesis
    unfolding held_def holds_def k ok(3)
    using d ok(1) same_setup_trans [OF d(2) ok(2)] e by (simp add: holds_def)
qed

text \<open>One more page, with a frame that was just allocated.\<close>

lemma held_map:
  assumes h: "held R s0 base W H fr s" and w: "window base n" and W: "W \<subseteq> {..<n}" "i < n" "i \<notin> W"
    and fresh: "k \<notin> data_frames s R" "vm_ok s1 R" "same_setup s s1" "pg_mem s1 = pg_mem s" "data_frames s1 R = insert k (data_frames s R)"
    and m: "mapped R (pg_active_pml4 s1) (page_va base i) e s1 s2" and e: "e AND PRESENT \<noteq> 0" "e AND ADDRESS_MASK = frame_addr k"
  shows "held R s0 base (insert i W) (insert i H) (fr(i := k)) s2"
proof -
  note d = heldD [OF h] and md = mappedD [OF m]
  have act: "pg_active_pml4 s1 = pg_active_pml4 s0" "pg_active_pml4 s2 = pg_active_pml4 s0"
    using d(10) fresh(3) md(2) by (simp_all add: same_setup_def)
  have e2: "page_entry s2 t va = (if t = pg_active_pml4 s0 \<and> page_of va = page_of (page_va base i) then e else page_entry s t va)"
    if "in_space s0 R t va" for t va
    using md(3) [of t va] that d(11) same_setup_in_space [OF fresh(3)] same_mem_entries [OF fresh(4,3)] by (simp add: act)
  have ke: "kernel_entry s2 (page_va base j) = (if j = i then e else kernel_entry s (page_va base j))" if "j < n" for j
    using e2 [of "pg_active_pml4 s0" "page_va base j"] in_space_kernel [of s0] page_va_inj [OF w that W(2)] d(10) by (auto simp: act)
  have new: "k \<notin> fr ` H" "k \<notin> data_frames s0 R" using fresh(1) d(9) by auto
  have iH: "i \<notin> H" using W(3) d(3) by blast
  then have img: "(fr(i := k)) ` insert i H = insert k (fr ` H)" by auto
  have inj: "inj_on (fr(i := k)) (insert i H)" using d(7) new(1) iH by (auto simp: inj_on_def)
  have cfg: "same_setup s0 s2" using same_setup_trans [OF same_setup_trans [OF d(2) fresh(3)] md(2)] .
  show ?thesis
    unfolding held_def img
  proof (intro conjI)
    show "\<forall>j \<in> insert i W - insert i H. kernel_entry s2 (page_va base j) = 0" using ke W d(5) by auto
    show "\<forall>j \<in> insert i H. holds s2 base j ((fr(i := k)) j)" using ke W d(3,6) e iH unfolding holds_def by auto
    show "\<forall>t va. in_space s0 R t va \<longrightarrow> \<not> (t = pg_active_pml4 s0 \<and> page_of va \<in> page_of ` page_va base ` insert i W) \<longrightarrow>
        page_entry s2 t va = page_entry s0 t va" using e2 d(4) by auto
  qed (use md(1,4) cfg d(3,8,9) inj new fresh(5) in auto)
qed

text \<open>A held page is unmapped and its frame given back.\<close>

lemma held_unmap:
  assumes h: "held R s0 base W H fr s" and w: "window base n" and W: "W \<subseteq> {..<n}" and i: "i \<in> H"
  obtains s1 where "unmap_page s (page_va base i) = (s1, Inr (frame_addr (fr i)))"
    "held R s0 base W (H - {i}) fr (deallocate_physical_frame s1 (frame_addr (fr i)))"
proof -
  note d = heldD [OF h]
  have iW: "i \<in> W" "i < n" using d(3) i W by auto
  have hi: "kernel_entry s (page_va base i) AND PRESENT \<noteq> 0" "kernel_entry s (page_va base i) AND ADDRESS_MASK = frame_addr (fr i)"
    using d(6) [OF i] by (simp_all add: holds_def)
  obtain s1 where s1: "mapped R (pg_active_pml4 s) (page_va base i) 0 s s1" "unmap_page s (page_va base i) = (s1, Inr (frame_addr (fr i)))"
    using unmap_page_cases [OF d(1), of "page_va base i"] hi page_va_aligned [OF w less_imp_le [OF iW(2)]] by metis
  note md = mappedD [OF s1(1)]
  have k: "fr i \<in> data_frames s1 R" using md(4) d(9) i by auto
  let ?s = "deallocate_physical_frame s1 (frame_addr (fr i))"
  note de = deallocate_data [OF md(1) k]
  have act: "pg_active_pml4 ?s = pg_active_pml4 s0" using d(10) md(2) de(2) by (simp add: same_setup_def)
  have e2: "page_entry ?s t va = (if t = pg_active_pml4 s0 \<and> page_of va = page_of (page_va base i) then 0 else page_entry s t va)"
    if "in_space s0 R t va" for t va
    using md(3) [of t va] that d(11) same_mem_entries [OF de(3,2)] by (simp add: d(10))
  have ke: "kernel_entry ?s (page_va base j) = (if j = i then 0 else kernel_entry s (page_va base j))" if "j < n" for j
    using e2 [of "pg_active_pml4 s0" "page_va base j"] in_space_kernel [of s0] page_va_inj [OF w that iW(2)] d(10) by (auto simp: act)
  have img: "fr ` (H - {i}) = fr ` H - {fr i}" using d(7) i by (auto simp: inj_on_def)
  have "held R s0 base W (H - {i}) fr ?s"
    unfolding held_def img
  proof (intro conjI)
    show "same_setup s0 ?s" using same_setup_trans [OF same_setup_trans [OF d(2) md(2)] de(2)] .
    show "\<forall>j \<in> W - (H - {i}). kernel_entry ?s (page_va base j) = 0"
    proof
      fix j assume j: "j \<in> W - (H - {i})"
      then have "j < n" using W by auto
      with j show "kernel_entry ?s (page_va base j) = 0" using ke [of j] d(5) [of j] by (cases "j = i") auto
    qed
    show "\<forall>j \<in> H - {i}. holds ?s base j (fr j)" using ke W d(3,6) unfolding holds_def by auto
    show "\<forall>t va. in_space s0 R t va \<longrightarrow> \<not> (t = pg_active_pml4 s0 \<and> page_of va \<in> page_of ` page_va base ` W) \<longrightarrow>
        page_entry ?s t va = page_entry s0 t va" using e2 d(4) iW(1) by auto
    show "inj_on fr (H - {i})" using d(7) by (rule inj_on_subset) blast
  qed (use de(1,4) md(4) d(3,8,9) i in auto)
  with s1(2) show thesis by (rule that)
qed

section \<open>Committing pages\<close>

declare rollback_committed_pages.simps [simp del] commit_loop.simps [simp del]

lemma page_off_less: "window base n \<Longrightarrow> i \<le> n \<Longrightarrow> j \<le> n \<Longrightarrow> page_off i < page_off j \<longleftrightarrow> i < j"
  by (simp add: word_less_nat_alt unat_page_va(1))

lemma page_off_next:
  assumes "window base n" "i < n"
  shows "saturating_add (page_off i) PAGE_SIZE = page_off (Suc i)"
proof (rule unat_inj)
  have "4096 * i + 4096 < 2 ^ 64" using assms unfolding window_def by linarith
  then show "unat (saturating_add (page_off i) PAGE_SIZE) = unat (page_off (Suc i))"
    using unat_page_va(1) [OF assms(1), of i] unat_page_va(1) [OF assms(1), of "Suc i"] assms(2)
    by (simp add: unat_saturating_add PAGE_SIZE_def)
qed

lemma rollback_held:
  assumes "held R s0 base W {a..<m} fr s" "window base n" "W \<subseteq> {..<n}" "m \<le> n" "a \<le> m"
  shows "held R s0 base W {} fr (rollback_committed_pages base (page_off m) s (page_off a))"
  using assms
proof (induction "m - a" arbitrary: a s)
  case 0
  then have "\<not> page_off a < page_off m" using page_off_less [OF 0(3), of a m] by simp
  then show ?case using 0 by (subst rollback_committed_pages.simps) simp
next
  case (Suc d)
  then have am: "a < m" "a < n" by simp_all
  then have lt: "page_off a < page_off m" using page_off_less [OF Suc(4), of a m] Suc(6) by simp
  have "a \<in> {a..<m}" using am by simp
  then obtain s1 where s1: "unmap_page s (page_va base a) = (s1, Inr (frame_addr (fr a)))"
    "held R s0 base W ({a..<m} - {a}) fr (deallocate_physical_frame s1 (frame_addr (fr a)))"
    by (rule held_unmap [OF Suc(3,4,5)])
  have "{a..<m} - {a} = {Suc a..<m}" by auto
  then have ih: "held R s0 base W {} fr
      (rollback_committed_pages base (page_off m) (deallocate_physical_frame s1 (frame_addr (fr a))) (page_off (Suc a)))"
    using Suc(1) [of "Suc a"] Suc(2) s1(2) Suc(4-6) am by simp
  show ?case
    using ih s1(1) lt page_off_next [OF Suc(4) am(2)]
    by (subst rollback_committed_pages.simps) (simp add: page_va_def)
qed

lemma page_off_bound: "window base n \<Longrightarrow> n < 2 ^ 64 - 1"
  by (simp add: window_def)

text \<open>One turn of the loop, after the allocation of a frame.\<close>

lemma allocated_page:
  assumes h: "held R s0 base W H fr s" and w: "window base n" and W: "W \<subseteq> {..<n}" "i < n" "i \<notin> W"
    and fresh: "k \<notin> data_frames s R" "vm_ok s1 R" "same_setup s s1" "pg_mem s1 = pg_mem s" "data_frames s1 R = insert k (data_frames s R)"
    and fl: "flags AND NOT SUPPORTED_PAGE_FLAGS = 0"
  obtains (full) s2 e where "map_page s1 (page_va base i) (frame_addr k) flags = (s2, Inl e)"
      "held R s0 base W H fr (deallocate_physical_frame s2 (frame_addr k))"
    | (set) s2 where "map_page s1 (page_va base i) (frame_addr k) flags = (s2, ok_unit)" "held R s0 base (insert i W) (insert i H) (fr(i := k)) s2"
proof -
  have kd: "k \<in> data_frames s1 R" using fresh(5) by simp
  then have "k < pfa_frame_count (pg_frames s1)" by (simp add: data_frames_def)
  then have k40: "k < 2 ^ 40" using setup_okD(4) [OF vm_okD(2) [OF fresh(2)]] by simp
  have undo: "held R s0 base W H fr (deallocate_physical_frame s2 (frame_addr k))" if m: "more_tables R s1 s2" for s2
  proof -
    note md = more_tablesD [OF m]
    have "k \<in> data_frames s2 R" using md(5) kd by simp
    note de = deallocate_data [OF md(1) this]
    have e: "page_entry (deallocate_physical_frame s2 (frame_addr k)) t va = page_entry s t va" if "in_space s R t va" for t va
      using md(4) [of t va] that same_setup_in_space [OF fresh(3)] same_mem_entries [OF de(3,2)] same_mem_entries [OF fresh(4,3)] by simp
    show ?thesis
      by (rule held_frame [OF h de(1) same_setup_trans [OF same_setup_trans [OF fresh(3) md(2)] de(2)] _ e])
        (use de(4) md(5) fresh(1,5) in auto)
  qed
  let ?e = "(frame_addr k AND ADDRESS_MASK) OR ensure_present flags"
  have e: "?e AND ADDRESS_MASK = frame_addr k" "?e AND PRESENT \<noteq> 0"
    unfolding entry_address [OF supported_flags(1) [OF fl]] entry_flags [OF flag_bits(1)] using masked_frame [OF k40] supported_flags(2) [OF fl]
    by simp_all
  show thesis
    using fresh(2)
  proof (cases rule: map_page_cases [where virt = "page_va base i" and phys = "frame_addr k" and flags = flags])
    case (refused err)
    then show thesis using full [OF _ undo [OF more_tables_refl [OF fresh(2)]]] by blast
  next
    case (full s2)
    then show thesis using that(1) undo by blast
  next
    case (set s2)
    then show thesis using that(2) held_map [OF h w W fresh set(1) e(2,1)] by blast
  qed
qed

text \<open>What the loop of \<open>commit_range\<close> has done when it stops: every page, or no page and no frame.\<close>

definition commit_result ::
  "u64 set \<Rightarrow> Paging \<Rightarrow> u64 \<Rightarrow> nat \<Rightarrow> nat \<Rightarrow> (Paging, KernelHeapError, u64) op_result \<Rightarrow> bool" where
  "commit_result R s0 base a n r =
     (case r of
        (s, Inr c) \<Rightarrow> (\<exists>fr. held R s0 base {a..<n} {a..<n} fr s) \<and> unat c = n - a
      | (s, Inl _) \<Rightarrow> \<exists>m fr. a \<le> m \<and> m \<le> n \<and> held R s0 base {a..<m} {} fr s)"

lemma commit_loop_result:
  assumes "held R s0 base {a..<m} {a..<m} fr s" "window base n" "a \<le> m" "m \<le> n" "flags AND NOT SUPPORTED_PAGE_FLAGS = 0" "unat c = m - a"
  shows "commit_result R s0 base a n (commit_loop base (page_off a) (page_off n) flags s (page_off m) c)"
  using assms
proof (induction "n - m" arbitrary: m s c fr)
  case 0
  then have "\<not> page_off m < page_off n" using page_off_less [OF 0(3), of m n] by simp
  then show ?case using 0 by (subst commit_loop.simps) (auto simp: commit_result_def)
next
  case (Suc d)
  then have mn: "m < n" by simp
  then have lt: "page_off m < page_off n" using page_off_less [OF Suc(4), of m n] by simp
  have W: "{a..<m} \<subseteq> {..<n}" using mn by auto
  have undo: "commit_result R s0 base a n (rollback_committed_pages base (page_off m) s' (page_off a), Inl e)"
    if "held R s0 base {a..<m} {a..<m} fr s'" for s' e
    using rollback_held [OF that Suc(4) W Suc(6,5)] Suc(5,6) unfolding commit_result_def by auto
  obtain s1 res where al: "allocate_physical_frame s = (s1, res)" by (cases "allocate_physical_frame s")
  show ?case
  proof (cases res)
    case (Inl e)
    then have "s1 = s" using allocate_data [OF heldD(1) [OF Suc(3)] al] by simp
    then show ?thesis using al Inl lt undo [OF Suc(3)] by (subst commit_loop.simps) simp
  next
    case (Inr pa)
    then obtain k where k: "pa = frame_addr k" "k \<notin> data_frames s R" "data_frames s1 R = insert k (data_frames s R)"
      "vm_ok s1 R" "same_setup s s1" "pg_mem s1 = pg_mem s"
      using allocate_data [OF heldD(1) [OF Suc(3)] al] by auto
    have va: "checked_add64 base (page_off m) = Some (page_va base m)"
      using unat_page_va [OF Suc(4,6)] by (simp add: checked_add64_Some)
    have mW: "m \<notin> {a..<m}" by simp
    show ?thesis
    proof (rule allocated_page [OF Suc(3,4) W mn mW k(2,4,5,6,3) Suc(7)], goal_cases)
      case full: (1 s2 e)
      then show ?thesis using al Inr k(1) va lt undo by (subst commit_loop.simps) simp
    next
      case set: (2 s2)
      have "{a..<Suc m} = insert m {a..<m}" using Suc(5) by auto
      then have h: "held R s0 base {a..<Suc m} {a..<Suc m} (fr(m := k)) s2" using set(2) by simp
      have c: "unat (saturating_add c 1) = Suc m - a" using Suc(5,8) mn page_off_bound [OF Suc(4)] by (simp add: unat_saturating_add)
      show ?thesis
        using Suc(1) [OF _ h Suc(4) _ _ Suc(7) c] Suc(2,5) mn al Inr k(1) va lt set(1) page_off_next [OF Suc(4) mn]
        by (subst commit_loop.simps) simp
    qed
  qed
qed

section \<open>Bytes of the window\<close>

lemma page_entry_same_page: "page_of a = page_of b \<Longrightarrow> page_entry s t a = page_entry s t b"
  using same_page_iff [of a b] by (simp add: page_entry_def)

lemma window_byte:
  assumes w: "window base n" and off: "unat off < 4096 * n"
  shows "page_of (base + off) = page_of (page_va base (unat off div 4096))" "(base + off) AND (PAGE_SIZE - 1) = off AND (PAGE_SIZE - 1)"
proof -
  have lt: "unat base + unat off < 2 ^ 64" using w off unfolding window_def by linarith
  have le: "unat off div 4096 \<le> n" using off by (simp add: div_le_mono less_mult_imp_div_less less_imp_le mult.commute)
  have va: "unat (base + off) = unat base + unat off" using lt by (simp add: unat_word_ariths)
  obtain c where c: "unat base = 4096 * c" using w mod_0_imp_dvd unfolding window_def by (blast elim: dvdE)
  have "unat (page_of (base + off)) = unat (page_of (page_va base (unat off div 4096)))"
    unfolding unat_page_of va unat_page_va(2) [OF w le] c by simp
  then show "page_of (base + off) = page_of (page_va base (unat off div 4096))" by (rule unat_inj)
  have "unat ((base + off) AND (PAGE_SIZE - 1)) = unat (off AND (PAGE_SIZE - 1))"
    unfolding unat_page_offset va c by simp
  then show "(base + off) AND (PAGE_SIZE - 1) = off AND (PAGE_SIZE - 1)" by (rule unat_inj)
qed

lemma held_byte:
  assumes w: "window base n" and off: "unat off < 4096 * n" and h: "holds s base (unat off div 4096) k"
    and k: "k < 2 ^ 40" and ok: "vm_ok s R"
  shows "translate_virt s (base + off) = Some (frame_addr k + (off AND (PAGE_SIZE - 1)))"
proof -
  have e: "kernel_entry s (base + off) = kernel_entry s (page_va base (unat off div 4096))"
    by (rule page_entry_same_page [OF window_byte(1) [OF w off]])
  have fk: "unat (frame_addr k) = k * 4096" using k by (intro unat_frame_at) simp
  then have "frame_addr k OR (off AND (PAGE_SIZE - 1)) = frame_addr k + (off AND (PAGE_SIZE - 1))"
    using k by (intro page_offset_add) simp_all
  then show ?thesis
    using h setup_okD(2) [OF vm_okD(2) [OF ok]] window_byte(2) [OF w off]
    by (simp add: translate_virt_view e kernel_view_def holds_def)
qed

lemma absent_byte:
  assumes w: "window base n" and off: "unat off < 4096 * n" and h: "kernel_entry s (page_va base (unat off div 4096)) AND PRESENT = 0"
  shows "translate_virt s (base + off) = None"
  using h page_entry_same_page [OF window_byte(1) [OF w off]] by (simp add: translate_virt_view kernel_view_def)

lemma data_frame_bound: "vm_ok s R \<Longrightarrow> k \<in> data_frames s R \<Longrightarrow> k < 2 ^ 40"
  using setup_okD(4) [OF vm_okD(2)] by (fastforce simp: data_frames_def)

lemma page_flags_supported: "page_flags_from_protection prot AND NOT SUPPORTED_PAGE_FLAGS = 0"
  by (simp add: page_flags_from_protection_def page_flag_defs)

lemma page_off_cover:
  assumes "unat x mod 4096 = 0"
  obtains i where "x = page_off i" "unat x = 4096 * i"
proof -
  obtain i where i: "unat x = 4096 * i" using mod_0_imp_dvd [OF assms] by (rule dvdE)
  then have "x = page_off i" unfolding page_off_def by (metis word_of_nat_unat)
  from that [OF this i] show thesis .
qed

text \<open>Translations outside the pages that were touched, and of user spaces.\<close>

lemma held_outside:
  assumes ok: "vm_ok s R" and h: "held R s base W H fr s'"
  shows "page_of va \<notin> page_of ` page_va base ` W \<Longrightarrow> translate_virt s' va = translate_virt s va"
    "r \<in> R \<Longrightarrow> translate_user_page s' r va w = translate_user_page s r va w"
proof -
  note d = heldD [OF h]
  show "translate_virt s' va = translate_virt s va" if "page_of va \<notin> page_of ` page_va base ` W"
    using d(4) [OF in_space_kernel] that by (simp add: translate_virt_view d(10))
  show "translate_user_page s' r va w = translate_user_page s r va w" if "r \<in> R"
    using d(4) [OF in_space_user [OF vm_okD(2) [OF ok] that]] setup_okD(6) [OF vm_okD(2) [OF ok] that]
    by (simp add: translate_user_page_view same_setup_table [OF d(2)])
qed

text \<open>When nothing is held any more, pages that were absent are absent again.\<close>

lemma held_undone:
  assumes ok: "vm_ok s R" and h: "held R s base W {} fr s'" and absent: "\<And>i. i \<in> W \<Longrightarrow> translate_virt s (page_va base i) = None"
  shows "translate_virt s' = translate_virt s"
proof
  fix va
  show "translate_virt s' va = translate_virt s va"
  proof (cases "page_of va \<in> page_of ` page_va base ` W")
    case True
    then obtain i where i: "i \<in> W" "page_of va = page_of (page_va base i)" by auto
    have "kernel_entry s va AND PRESENT = 0"
      using absent [OF i(1)] page_entry_same_page [OF i(2)] setup_okD(2) [OF vm_okD(2) [OF ok]]
      by (auto simp: translate_virt_view kernel_view_def split: if_splits)
    moreover have "kernel_entry s' va = 0" using heldD(5) [OF h, of i] i page_entry_same_page [OF i(2)] by simp
    ultimately show ?thesis by (simp add: translate_virt_view kernel_view_def)
  qed (rule held_outside(1) [OF ok h])
qed

lemma held_range_byte:
  assumes w: "window base n" and h: "held R s0 base {a..<n} {a..<n} fr s" and off: "4096 * a \<le> unat off" "unat off < 4096 * n"
  shows "translate_virt s (base + off) = Some (frame_addr (fr (unat off div 4096)) + (off AND (PAGE_SIZE - 1)))"
proof -
  note d = heldD [OF h]
  have i: "unat off div 4096 \<in> {a..<n}" using off by (auto simp: less_eq_div_iff_mult_less_eq div_less_iff_less_mult mult.commute)
  then have "fr (unat off div 4096) < 2 ^ 40" using d(9) by (intro data_frame_bound [OF d(1)]) auto
  then show ?thesis by (rule held_byte [OF w off(2) d(6) [OF i] _ d(1)])
qed

lemma commit_range_result:
  assumes ok: "vm_ok s R" and w: "window base n" and an: "a \<le> n"
  shows "commit_result R s base a n (commit_range s base (page_off a) (page_off n) prot)"
proof -
  note u = unat_page_va(1) [OF w an] unat_page_va(1) [OF w order_refl]
  have "(x :: u64) mod PAGE_SIZE = 0 \<longleftrightarrow> unat x mod 4096 = 0" for x
  proof -
    have "unat (x mod PAGE_SIZE) = unat x mod 4096" by (simp add: unat_mod PAGE_SIZE_def)
    then show ?thesis using unat_inj [of "x mod PAGE_SIZE" 0] by (metis unsigned_0)
  qed
  then have "commit_range s base (page_off a) (page_off n) prot =
      commit_loop base (page_off a) (page_off n) (page_flags_from_protection prot) s (page_off a) 0"
    using u an page_off_less [OF w order_refl an] by (simp add: commit_range_def)
  moreover have "held R s base {a..<a} {a..<a} fr s" for fr using held_refl [OF ok, of base fr] by simp
  ultimately show ?thesis
    using commit_loop_result [of R s base a a _ s n, OF _ w order_refl an page_flags_supported] by simp
qed

text \<open>
  (C16) Committing a range of absent kernel pages is all or nothing. On success every byte of the range
  translates into a frame of its own page, the frames are distinct and were not in use for data before,
  and their number is reported. On failure, wherever it happens, every translation is as before and every frame
  that was taken for data is given back. Other kernel pages and all user spaces translate as before in both cases.
\<close>

theorem commit_range_all_or_nothing:
  assumes ok: "vm_ok s R" and base: "unat base mod 4096 = 0" "unat base + unat target < 2 ^ 64" "unat target \<le> 2 ^ 48"
    and absent: "\<forall>off. current \<le> off \<longrightarrow> off < target \<longrightarrow> translate_virt s (base + off) = None"
    and al: "unat current mod 4096 = 0" "unat target mod 4096 = 0" "current \<le> target"
    and call: "commit_range s base current target prot = (s', res)"
  shows "vm_ok s' R \<and>
    (\<forall>va. (\<forall>off. current \<le> off \<longrightarrow> off < target \<longrightarrow> page_of va \<noteq> page_of (base + off)) \<longrightarrow> translate_virt s' va = translate_virt s va) \<and>
    (\<forall>r \<in> R. \<forall>va w. translate_user_page s' r va w = translate_user_page s r va w) \<and>
    (case res of
       Inr frames \<Rightarrow> unat current + 4096 * unat frames = unat target \<and>
         (\<exists>fr. inj_on fr {unat current div 4096..<unat target div 4096} \<and>
            data_frames s' R = data_frames s R \<union> fr ` {unat current div 4096..<unat target div 4096} \<and>
            fr ` {unat current div 4096..<unat target div 4096} \<inter> data_frames s R = {} \<and>
            (\<forall>off. current \<le> off \<longrightarrow> off < target \<longrightarrow>
               translate_virt s' (base + off) = Some (frame_addr (fr (unat off div 4096)) + (off AND (PAGE_SIZE - 1)))))
     | Inl _ \<Rightarrow> translate_virt s' = translate_virt s \<and> data_frames s' R = data_frames s R)"
proof -
  obtain a where a: "current = page_off a" "unat current = 4096 * a" using page_off_cover [OF al(1)] .
  obtain n where n: "target = page_off n" "unat target = 4096 * n" using page_off_cover [OF al(2)] .
  have w: "window base n" using base n(2) by (simp add: window_def)
  have an: "a \<le> n" using al(3) a(2) n(2) by (simp add: word_le_nat_alt)
  have res: "commit_result R s base a n (s', res)" using commit_range_result [OF ok w an, of prot] call a n by simp
  have pages: "(\<forall>off. current \<le> off \<longrightarrow> off < target \<longrightarrow> page_of va \<noteq> page_of (base + off)) \<Longrightarrow> page_of va \<notin> page_of ` page_va base ` {a..<m}"
    if "m \<le> n" for va m
  proof
    assume out: "\<forall>off. current \<le> off \<longrightarrow> off < target \<longrightarrow> page_of va \<noteq> page_of (base + off)" and "page_of va \<in> page_of ` page_va base ` {a..<m}"
    then obtain i where "i \<in> {a..<m}" "page_of va = page_of (page_va base i)" by blast
    then have i: "a \<le> i" "i < n" "page_of va = page_of (base + page_off i)" using that by (simp_all add: page_va_def)
    then show False using out unat_page_va(1) [OF w less_imp_le [OF i(2)]] a(2) n(2) by (simp add: word_le_nat_alt word_less_nat_alt)
  qed
  show ?thesis
  proof (cases res)
    case (Inl e)
    then obtain m fr where m: "m \<le> n" and h: "held R s base {a..<m} {} fr s'" using res by (auto simp: commit_result_def)
    have "translate_virt s (page_va base i) = None" if "i \<in> {a..<m}" for i
      unfolding page_va_def using absent unat_page_va(1) [OF w, of i] that m a(2) n(2) by (simp add: word_le_nat_alt word_less_nat_alt)
    then have "translate_virt s' = translate_virt s" by (rule held_undone [OF ok h])
    then show ?thesis using Inl heldD(1,9) [OF h] held_outside(2) [OF ok h] by simp
  next
    case (Inr c)
    then obtain fr where h: "held R s base {a..<n} {a..<n} fr s'" and c: "unat c = n - a" using res by (auto simp: commit_result_def)
    note d = heldD [OF h]
    have byte: "translate_virt s' (base + off) = Some (frame_addr (fr (unat off div 4096)) + (off AND (PAGE_SIZE - 1)))"
      if "current \<le> off" "off < target" for off
      using that a(2) n(2) by (intro held_range_byte [OF w h]) (simp_all add: word_le_nat_alt word_less_nat_alt)
    have ix: "unat current div 4096 = a" "unat target div 4096 = n" using a(2) n(2) by simp_all
    have "\<exists>fr. inj_on fr {a..<n} \<and> data_frames s' R = data_frames s R \<union> fr ` {a..<n} \<and> fr ` {a..<n} \<inter> data_frames s R = {} \<and>
        (\<forall>off. current \<le> off \<longrightarrow> off < target \<longrightarrow>
           translate_virt s' (base + off) = Some (frame_addr (fr (unat off div 4096)) + (off AND (PAGE_SIZE - 1))))"
      using d(7-9) byte by blast
    then show ?thesis
      using Inr c an a(2) n(2) d(1) held_outside [OF ok h] pages [OF order_refl] unfolding ix by (simp add: right_diff_distrib')
  qed
qed

text \<open>Six free frames are enough for a page and its tables; with one free frame the tables cannot be built.\<close>

abbreviation demo_short :: Paging where
  "demo_short \<equiv> demo_paging\<lparr>pg_frames := demo_pool 5\<rparr>"

lemma demo_pool_vm_ok: "vm_ok (demo_paging\<lparr>pg_frames := demo_pool n\<rparr>) {}"
proof (induction n)
  case 0
  have "demo_paging\<lparr>pg_frames := demo_pool 0\<rparr> = demo_paging" by (simp add: demo_paging_def)
  then show ?case using demo_vm_ok by (simp only:)
next
  case (Suc n)
  let ?s = "demo_paging\<lparr>pg_frames := demo_pool n\<rparr>"
  obtain s' res where call: "allocate_physical_frame ?s = (s', res)" by (cases "allocate_physical_frame ?s")
  then have "s' = demo_paging\<lparr>pg_frames := demo_pool (Suc n)\<rparr>"
    by (auto simp: allocate_physical_frame_def demo_pool.simps split: prod.splits sum.splits)
  then show ?case using allocate_data [OF Suc call] Suc by (cases res) auto
qed

lemma demo_commit: "snd (commit_range demo_paging 0x400000 0 0x1000 read_write) = Inr 1"
  by code_simp

lemma demo_commit_fails: "snd (commit_range demo_short 0x400000 0 0x1000 read_write) = Inl (MapFailed OutOfPageTables)"
  by code_simp

lemma demo_absent: "translate_virt (demo_paging\<lparr>pg_frames := p\<rparr>) va = None"
  by (simp add: translate_virt_def leaf_table_def read_entry_def Let_def)

lemma commit_range_all_or_nothing_witness:
  "(\<exists>f. translate_virt (fst (commit_range demo_paging 0x400000 0 0x1000 read_write)) 0x400123 = Some f) \<and>
   translate_virt (fst (commit_range demo_short 0x400000 0 0x1000 read_write)) = translate_virt demo_short \<and>
   data_frames (fst (commit_range demo_short 0x400000 0 0x1000 read_write)) {} = data_frames demo_short {}"
proof -
  have none: "\<forall>off. 0 \<le> off \<longrightarrow> off < 0x1000 \<longrightarrow> translate_virt demo_paging (0x400000 + off) = None"
    "\<forall>off. 0 \<le> off \<longrightarrow> off < 0x1000 \<longrightarrow> translate_virt demo_short (0x400000 + off) = None"
    using demo_absent [of "demo_pool 0"] demo_absent [of "demo_pool 5"] by (simp_all add: demo_paging_def)
  have off: "(0 :: u64) \<le> 0x123" "(0x123 :: u64) < 0x1000" by simp_all
  note yes = commit_range_all_or_nothing [OF demo_vm_ok _ _ _ none(1) _ _ _ prod.collapse [symmetric], of read_write, unfolded demo_commit]
  note no = commit_range_all_or_nothing [OF demo_pool_vm_ok _ _ _ none(2) _ _ _ prod.collapse [symmetric], of read_write, unfolded demo_commit_fails]
  obtain fr where "\<forall>off. 0 \<le> off \<longrightarrow> off < 0x1000 \<longrightarrow>
      translate_virt (fst (commit_range demo_paging 0x400000 0 0x1000 read_write)) (0x400000 + off) =
        Some (frame_addr (fr (unat off div 4096)) + (off AND (PAGE_SIZE - 1)))"
    using yes by auto
  from this [rule_format, OF off] no show ?thesis by simp
qed

end
