(* ===== verification/Mapped_Heap.thy ===== *)
theory Mapped_Heap
  imports Heap_Backing
begin

text \<open>
  The virtual kernel heap: the invariant that ties the allocation records of the memory manager to the
  page tables. The first pages of the heap window are committed, each to a frame of its own; the rest is
  absent; every live block lies on committed pages. Every allocation function keeps this.
\<close>

unbundle bit_operations_syntax

section \<open>The invariant\<close>

definition backed :: "u64 set \<Rightarrow> Paging \<Rightarrow> u64 \<Rightarrow> nat \<Rightarrow> bool" where
  "backed R s base n \<longleftrightarrow> (\<exists>fr. inj_on fr {..<n} \<and> (\<forall>i < n. holds s base i (fr i) \<and> fr i \<in> data_frames s R))"

definition absent :: "Paging \<Rightarrow> u64 \<Rightarrow> nat \<Rightarrow> nat \<Rightarrow> bool" where
  "absent s base a n \<longleftrightarrow> (\<forall>i \<in> {a..<n}. kernel_entry s (page_va base i) AND PRESENT = 0)"

text \<open>The number of pages in the heap window, and how many of them the manager has committed.\<close>

abbreviation (input) HEAP_PAGES :: nat where "HEAP_PAGES \<equiv> 4096"

definition heap_backed :: "u64 set \<Rightarrow> nat \<Rightarrow> KernelMemory \<Rightarrow> bool" where
  "heap_backed R n km \<longleftrightarrow>
     vm_ok (km_paging km) R \<and> mm_ok (km_manager km) \<and> n \<le> HEAP_PAGES \<and>
     (\<exists>l. km_layout km = Some l \<and> unat (hl_committed_bytes l) = 4096 * n \<and>
        mm_backing (km_manager km) = BsVirtual (unat KERNEL_HEAP_BASE) (unat KERNEL_HEAP_RESERVED_BYTES) (4096 * n) (unat (hl_frame_count l))) \<and>
     live_bytes (km_manager km) \<subseteq> {..<4096 * n} \<and>
     backed R (km_paging km) KERNEL_HEAP_BASE n \<and> absent (km_paging km) KERNEL_HEAP_BASE n HEAP_PAGES"

lemmas heap_constants = KERNEL_HEAP_BASE_def KERNEL_HEAP_RESERVED_BYTES_def EARLY_HEAP_BASE_def EARLY_HEAP_BYTES_def

lemma heap_window: "n \<le> HEAP_PAGES \<Longrightarrow> window KERNEL_HEAP_BASE n"
  by (simp add: window_def heap_constants)

lemma heap_backedD:
  assumes "heap_backed R n km"
  shows "vm_ok (km_paging km) R" "mm_ok (km_manager km)" "n \<le> HEAP_PAGES" "live_bytes (km_manager km) \<subseteq> {..<4096 * n}"
    "backed R (km_paging km) KERNEL_HEAP_BASE n" "absent (km_paging km) KERNEL_HEAP_BASE n HEAP_PAGES"
  using assms unfolding heap_backed_def by auto

lemma heap_backed_layout:
  assumes "heap_backed R n km"
  obtains l where "km_layout km = Some l" "unat (hl_committed_bytes l) = 4096 * n"
    "mm_backing (km_manager km) = BsVirtual (unat KERNEL_HEAP_BASE) (unat KERNEL_HEAP_RESERVED_BYTES) (4096 * n) (unat (hl_frame_count l))"
  using assms unfolding heap_backed_def by blast

text \<open>Operations of the manager that keep the backing and add no block.\<close>

lemma heap_backed_manager:
  assumes "heap_backed R n km" "mm_ok mm" "mm_backing mm = mm_backing (km_manager km)" "live_bytes mm \<subseteq> {..<4096 * n}"
  shows "heap_backed R n (km\<lparr>km_manager := mm\<rparr>)"
  using assms unfolding heap_backed_def by auto

lemma heap_backed_bytes: "heap_backed R n (copy_bytes km a b len) = heap_backed R n km"
  by (simp add: heap_backed_def copy_bytes_def)

section \<open>Growing\<close>

lemma held_other_page:
  assumes h: "held R s base W H fr s'" and w: "window base N" and W: "W \<subseteq> {..<N}" "i < N" "i \<notin> W"
  shows "kernel_entry s' (page_va base i) = kernel_entry s (page_va base i)"
proof -
  note d = heldD [OF h]
  have "page_of (page_va base i) \<notin> page_of ` page_va base ` W"
  proof
    assume "page_of (page_va base i) \<in> page_of ` page_va base ` W"
    then obtain j where "j \<in> W" "page_of (page_va base i) = page_of (page_va base j)" by blast
    then show False using page_va_inj [OF w W(2), of j] W by auto
  qed
  then show ?thesis using d(4) [OF in_space_kernel] d(10) by simp
qed

lemma backed_grow:
  assumes b: "backed R s base a" and ab: "absent s base a N" and w: "window base N" and n: "a \<le> n" "n \<le> N"
    and h: "held R s base {a..<n} {a..<n} fr s'"
  shows "backed R s' base n" "absent s' base n N"
proof -
  note d = heldD [OF h]
  obtain f where f: "inj_on f {..<a}" "\<And>i. i < a \<Longrightarrow> holds s base i (f i) \<and> f i \<in> data_frames s R"
    using b by (auto simp: backed_def)
  have "{a..<n} \<subseteq> {..<N}" using n by auto
  note same = held_other_page [OF h w this]
  let ?g = "\<lambda>i. if i < a then f i else fr i"
  have "holds s' base i (?g i) \<and> ?g i \<in> data_frames s' R" if "i < n" for i
    using that f(2) [of i] same [of i] d(6) [of i] d(9) n by (cases "i < a") (auto simp: holds_def)
  moreover have "inj_on ?g {..<n}"
  proof (rule inj_onI)
    fix i j assume ij: "i \<in> {..<n}" "j \<in> {..<n}" "?g i = ?g j"
    have sep: "f x \<noteq> fr y" if "x < a" "y \<in> {a..<n}" for x y using f(2) [OF that(1)] d(8) that(2) by (metis disjoint_iff imageI)
    show "i = j"
      using ij sep [of i j] sep [of j i] inj_onD [OF f(1), of i j] inj_onD [OF d(7), of i j]
      by (auto simp: not_less split: if_splits)
  qed
  ultimately show "backed R s' base n" unfolding backed_def by blast
  show "absent s' base n N" using ab same n unfolding absent_def by auto
qed

lemma backed_undo:
  assumes b: "backed R s base a" and ab: "absent s base a N" and w: "window base N" and m: "a \<le> N" "m \<le> N"
    and h: "held R s base {a..<m} {} fr s'"
  shows "backed R s' base a" "absent s' base a N"
proof -
  note d = heldD [OF h]
  have "{a..<m} \<subseteq> {..<N}" using m by auto
  note same = held_other_page [OF h w this]
  show "backed R s' base a" using b same d(9) m(1) unfolding backed_def holds_def by fastforce
  have "kernel_entry s' (page_va base i) AND PRESENT = 0" if "i \<in> {a..<N}" for i
    using ab same [of i] that d(5) [of i] unfolding absent_def by (cases "i < m") auto
  then show "absent s' base a N" by (simp add: absent_def)
qed

text \<open>The rounding of \<open>grow_committed\<close> leaves page offsets as they are.\<close>

lemma heap_align_up_page:
  assumes "window base n" "i \<le> n"
  shows "heap_align_up (page_off i) = Some (page_off i)"
proof -
  note u = unat_page_va(1) [OF assms]
  have "4096 * i + 4095 < 2 ^ 64" using assms by (simp add: window_def)
  then have s: "checked_add64 (page_off i) (PAGE_SIZE - 1) = Some (page_off i + (PAGE_SIZE - 1))" "unat (page_off i + (PAGE_SIZE - 1)) = 4096 * i + 4095"
    using u by (simp_all add: checked_add64_Some unat_word_ariths PAGE_SIZE_def)
  have "unat ((page_off i + (PAGE_SIZE - 1)) AND NOT (PAGE_SIZE - 1)) = unat (page_off i)"
    unfolding unat_and_not_mask s(2) u by simp
  then have "(page_off i + (PAGE_SIZE - 1)) AND NOT (PAGE_SIZE - 1) = page_off i" by (rule unat_inj)
  then show ?thesis by (simp add: heap_align_up_def s(1))
qed

lemma heap_reserved: "unat KERNEL_HEAP_RESERVED_BYTES = 4096 * HEAP_PAGES"
  by (simp add: heap_constants)

lemma grow_committed_backed:
  assumes h: "heap_backed R a km" and n: "n \<le> HEAP_PAGES"
    and call: "grow_committed km KERNEL_HEAP_BASE KERNEL_HEAP_RESERVED_BYTES (page_off a) (page_off n) prot = (km', res)"
  shows "case res of
     Inr l \<Rightarrow> \<exists>m. max a n = m \<and> km_layout km' = Some l \<and> unat (hl_committed_bytes l) = 4096 * m \<and> vm_ok (km_paging km') R \<and>
       backed R (km_paging km') KERNEL_HEAP_BASE m \<and> absent (km_paging km') KERNEL_HEAP_BASE m HEAP_PAGES \<and> km_manager km' = km_manager km
   | Inl _ \<Rightarrow> heap_backed R a km'"
proof -
  note d = heap_backedD [OF h] and w = heap_window [OF order_refl]
  obtain l where l: "km_layout km = Some l" "unat (hl_committed_bytes l) = 4096 * a"
    "mm_backing (km_manager km) = BsVirtual (unat KERNEL_HEAP_BASE) (unat KERNEL_HEAP_RESERVED_BYTES) (4096 * a) (unat (hl_frame_count l))"
    by (rule heap_backed_layout [OF h])
  note lt = page_off_less [OF w d(3) n]
  show ?thesis
  proof (cases "n \<le> a")
    case True
    then have "grow_committed km KERNEL_HEAP_BASE KERNEL_HEAP_RESERVED_BYTES (page_off a) (page_off n) prot = (km, Inr l)"
      using lt l(1) by (auto simp: grow_committed_def ok_or_def not_less [symmetric])
    then show ?thesis using call l d True by (auto simp: max_absorb1)
  next
    case False
    then have an: "a \<le> n" "page_off a < page_off n" using lt by simp_all
    have small: "\<not> page_off n > KERNEL_HEAP_RESERVED_BYTES"
      using unat_page_va(1) [OF w n] n by (simp add: word_less_nat_alt heap_reserved)
    obtain pg r where cr: "commit_range (km_paging km) KERNEL_HEAP_BASE (page_off a) (page_off n) prot = (pg, r)"
      by (cases "commit_range (km_paging km) KERNEL_HEAP_BASE (page_off a) (page_off n) prot")
    have res: "commit_result R (km_paging km) KERNEL_HEAP_BASE a n (pg, r)"
      using commit_range_result [OF d(1) heap_window [OF n] an(1), of prot] cr by simp
    note up = heap_align_up_page [OF w d(3)] heap_align_up_page [OF w n]
    have eq: "(km', res) = (if \<not> physical_allocator_initialized (km_paging km) then (km, Inl PhysicalAllocatorNotInitialized)
        else if \<not> frame_backed_mapping_enabled (km_paging km) then (km, Inl FrameBackedMapperNotInitialized)
        else case r of Inl e \<Rightarrow> (km\<lparr>km_paging := pg\<rparr>, Inl e)
          | Inr added \<Rightarrow> let l' = l\<lparr>hl_committed_bytes := page_off n, hl_frame_count := saturating_add (hl_frame_count l) added\<rparr>
              in (km\<lparr>km_paging := pg, km_layout := Some l'\<rparr>, Inr l'))"
      using an(2) small
      by (simp only: call [symmetric] grow_committed_def up cr l(1) not_le [symmetric] Let_def option.case prod.case if_False if_True simp_thms)
    show ?thesis
    proof (cases r)
      case (Inl e)
      then obtain m fr where "m \<le> n" and hd: "held R (km_paging km) KERNEL_HEAP_BASE {a..<m} {} fr pg" using res by (auto simp: commit_result_def)
      then have m: "m \<le> HEAP_PAGES" using n by simp
      have "heap_backed R a (km\<lparr>km_paging := pg\<rparr>)"
        using backed_undo [OF d(5,6) w d(3) m hd] heldD(1) [OF hd] h by (auto simp: heap_backed_def)
      then show ?thesis using eq Inl h by (auto split: if_splits)
    next
      case (Inr added)
      then obtain fr where hd: "held R (km_paging km) KERNEL_HEAP_BASE {a..<n} {a..<n} fr pg" using res by (auto simp: commit_result_def)
      have "unat (page_off n) = 4096 * n" by (rule unat_page_va(1) [OF w n])
      then show ?thesis
        using eq Inr h backed_grow [OF d(5,6) w an(1) n hd] heldD(1) [OF hd] an(1)
        by (auto simp: Let_def max_absorb2 split: if_splits)
    qed
  qed
qed

lemma ensure_backing_backed:
  assumes h: "heap_backed R a km" and call: "ensure_backing km off len prot = (km', res)"
  shows "\<exists>n. heap_backed R n km' \<and> (res = ok_unit \<longrightarrow> off + len \<le> 4096 * n)"
proof -
  note d = heap_backedD [OF h] and w = heap_window [OF order_refl]
  obtain l :: KernelHeapLayout where l: "mm_backing (km_manager km) = BsVirtual (unat KERNEL_HEAP_BASE) (unat KERNEL_HEAP_RESERVED_BYTES) (4096 * a) (unat (hl_frame_count l))"
    by (rule heap_backed_layout [OF h])
  have rb: "rebacked km km'" by (rule ensure_backing_rebacked [OF call])
  show ?thesis
  proof (cases "checked_add off len = Some (off + len) \<and> off + len \<le> unat KERNEL_HEAP_RESERVED_BYTES \<and> align_up (off + len) 4096 \<noteq> None")
    case False
    then have "km' = km" "res = Inl ()"
      using call l by (auto simp: ensure_backing_def checked_add_def not_le split: if_splits option.splits)
    then show ?thesis using h by auto
  next
    case True
    then obtain target where t: "align_up (off + len) 4096 = Some target" by auto
    note tu = align_up_Some(2-4) [OF t]
    obtain n where n: "target = 4096 * n" using mod_0_imp_dvd [OF tu(2)] by (rule dvdE)
    have le: "n \<le> HEAP_PAGES" using True tu(3) n unfolding heap_reserved by simp
    have off: "(word_of_nat (4096 * a) :: u64) = page_off a" "(word_of_nat target :: u64) = page_off n"
      by (simp_all only: page_off_def n)
    obtain k r where gc: "grow_committed km KERNEL_HEAP_BASE KERNEL_HEAP_RESERVED_BYTES (page_off a) (page_off n) prot = (k, r)"
      by (cases "grow_committed km KERNEL_HEAP_BASE KERNEL_HEAP_RESERVED_BYTES (page_off a) (page_off n) prot")
    note g = grow_committed_backed [OF h le gc]
    have eq: "(km', res) = (case r of Inl _ \<Rightarrow> (k, Inl ())
       | Inr l \<Rightarrow> (k\<lparr>km_manager := (km_manager k)\<lparr>mm_backing := BsVirtual (unat KERNEL_HEAP_BASE) (unat KERNEL_HEAP_RESERVED_BYTES)
           (unat (hl_committed_bytes l)) (unat (hl_frame_count l))\<rparr>\<rparr>, ok_unit))"
      unfolding call [symmetric] ensure_backing_def
      using True by (simp add: l t off gc word_of_nat_unat split: sum.split del: of_nat_mult)
    show ?thesis
    proof (cases r)
      case (Inl e)
      then show ?thesis using eq g by auto
    next
      case (Inr lay)
      then have kl: "km_layout k = Some lay" "unat (hl_committed_bytes lay) = 4096 * max a n" "vm_ok (km_paging k) R"
        "backed R (km_paging k) KERNEL_HEAP_BASE (max a n)" "absent (km_paging k) KERNEL_HEAP_BASE (max a n) HEAP_PAGES" "km_manager k = km_manager km"
        using g by auto
      have "4096 * a \<le> 4096 * max a n" by simp
      then have live: "live_bytes (km_manager km') \<subseteq> {..<4096 * max a n}"
        using d(4) rebackedD(9) [OF rb] by (auto intro: less_le_trans)
      have "heap_backed R (max a n) km'"
        using eq Inr kl live rebacked_ok [OF rb d(2)] d(3) le by (auto simp: heap_backed_def)
      moreover have "off + len \<le> 4096 * max a n" using tu(1) n by (auto simp: max_def)
      ultimately show ?thesis by blast
    qed
  qed
qed

section \<open>The allocation functions\<close>

lemma place_allocation_backed:
  assumes h: "heap_backed R a km" and len: "0 < len"
  shows "\<exists>n. heap_backed R n (fst (place_allocation km owner len align kind prot))"
proof -
  note d = heap_backedD [OF h]
  consider (none) "reserve (km_manager km) len align = (km_manager km, Inl ())"
    | (res) mm off where "reserve (km_manager km) len align = (mm, Inr off)" "reserved (km_manager km) len align mm off"
    using reserve_spec [OF d(2), of len align] by blast
  then show ?thesis
  proof cases
    case none
    then show ?thesis using h by (auto simp: place_allocation_def)
  next
    case (res mm off)
    note rd = reservedD [OF res(2)]
    let ?km = "km\<lparr>km_manager := mm\<rparr>" and ?r = "\<lparr>ar_owner = owner, ar_offset = off, ar_size = len, ar_kind = kind, ar_protection = prot\<rparr>"
    have h0: "heap_backed R a ?km" by (rule heap_backed_manager [OF h rd(1,3)]) (use rd(8) d(4) in simp)
    obtain km1 rb where eb: "ensure_backing ?km off len prot = (km1, rb)" by (cases "ensure_backing ?km off len prot")
    obtain n where h1: "heap_backed R n km1" and fit: "rb = ok_unit \<Longrightarrow> off + len \<le> 4096 * n"
      using ensure_backing_backed [OF h0 eb] by blast
    note bd = rebackedD [OF ensure_backing_rebacked [OF eb]] and ok1 = heap_backedD(2) [OF h1]
    have blk: "{off..<off + len} \<inter> live_bytes (km_manager km1) = {}" "{off..<off + len} \<inter> free_bytes (km_manager km1) = {}"
      "off + len \<le> mm_bump_offset (km_manager km1)" using rd(9-11) bd by simp_all
    have undo: "heap_backed R n (km1\<lparr>km_manager := insert_free_region (km_manager km1) (region off len)\<rparr>)"
      by (rule give_back [OF ok1 blk]) (use heap_backedD(4) [OF h1] in \<open>auto intro!: heap_backed_manager [OF h1]\<close>)
    show ?thesis
    proof (cases "rb = ok_unit \<and> free_slot (mm_allocations (km_manager km1)) \<noteq> None")
      case False
      then show ?thesis using res(1) eb undo
        by (cases rb) (auto simp: place_allocation_def record_allocation_def)
    next
      case True
      then obtain mm1 where rec: "record_allocation (km_manager km1) ?r = (mm1, ok_unit)" by (auto simp: record_allocation_def)
      let ?s = "update_stats_on_alloc mm1 len"
      note new = record_reserved [OF ok1 _ _ _ _ rec, of ?s]
      have "heap_backed R n (km1\<lparr>km_manager := ?s\<rparr>)"
        using new(1,3,4) blk len fit True heap_backedD(4) [OF h1] by (intro heap_backed_manager [OF h1]) auto
      then show ?thesis using res(1) eb True rec by (auto simp: place_allocation_def Let_def)
    qed
  qed
qed

lemma release_backed:
  assumes h: "heap_backed R n km"
  shows "heap_backed R n (km\<lparr>km_manager := fst (mm_release (km_manager km) owner ptr kind minimum)\<rparr>)"
proof (cases rule: mm_release_spec [OF heap_backedD(2) [OF h], of owner ptr kind minimum, case_names refused taken])
  case (taken i r s')
  note rel = releasedD [OF taken(2)]
  show ?thesis unfolding taken(1) fst_conv
    by (rule heap_backed_manager [OF h rel(3,6)]) (use rel(5) heap_backedD(4) [OF h] in auto)
qed (use h in simp)

lemma release_process_backed:
  assumes h: "heap_backed R n km"
  shows "heap_backed R n (km_release_process km owner)"
proof -
  note sp = mm_release_process_spec [OF heap_backedD(2) [OF h], of owner]
  have "live_bytes (mm_release_process (km_manager km) owner) \<subseteq> live_bytes (km_manager km)"
    unfolding live_bytes_def sp(2) by (auto simp: slot_bytes_iff)
  then show ?thesis
    unfolding km_release_process_def using sp(1,3) heap_backedD(4) [OF h] by (intro heap_backed_manager [OF h]) auto
qed

lemma malloc_for_backed: "heap_backed R a km \<Longrightarrow> \<exists>n. heap_backed R n (fst (malloc_for km owner len))"
  using align_up_Some(2) by (fastforce simp: malloc_for_def split: option.splits intro: place_allocation_backed)

lemma slot_bytes_shrink:
  assumes "i < length xs" "xs ! i = Some a" "g b \<subseteq> g a"
  shows "slot_bytes g (xs[i := Some b]) \<subseteq> slot_bytes g xs"
proof
  fix x assume "x \<in> slot_bytes g (xs[i := Some b])"
  then obtain c where c: "Some c \<in> set (xs[i := Some b])" "x \<in> g c" by (auto simp: slot_bytes_iff)
  have "Some a \<in> set xs" using assms(1,2) nth_mem by metis
  moreover have "c = b \<or> Some c \<in> set xs" using c(1) set_update_subset_insert [of xs i "Some b"] by auto
  ultimately show "x \<in> slot_bytes g xs" using c(2) assms(3) unfolding slot_bytes_iff by blast
qed

lemma realloc_for_backed:
  assumes h: "heap_backed R a km"
  shows "\<exists>n. heap_backed R n (fst (realloc_for km owner ptr new_size))"
proof (cases "ptr = None \<or> new_size = 0")
  case True
  then show ?thesis
    using h malloc_for_backed [OF h, of owner new_size] release_backed [OF h, of owner _ "Some AkHeap" None]
    by (cases ptr) (auto simp: realloc_for_def km_free_for_def free_for_def split_def Let_def)
next
  case False
  then obtain p where p: "ptr = Some p" "new_size \<noteq> 0" by auto
  show ?thesis
  proof (cases rule: realloc_for_lookup [OF heap_backedD(2) [OF h] p(2), of owner p, case_names refused found])
    case refused
    then show ?thesis using h p by auto
  next
    case (found i r n)
    have nn: "0 < n" using align_up_Some(2) [OF found(9)] p(2) by simp
    show ?thesis
    proof (cases "n \<le> ar_size r")
      case True
      let ?mm = "if 0 < ar_size r - n then update_stats_on_free (insert_free_region (km_manager km)
                (region (ar_offset r + n) (ar_size r - n))) (ar_size r - n) else km_manager km"
      let ?mm' = "?mm\<lparr>mm_allocations := (mm_allocations ?mm)[i := Some (r\<lparr>ar_size := n\<rparr>)]\<rparr>"
      define km' where "km' = km\<lparr>km_manager := ?mm'\<rparr>"
      note sh = shrink_blocks [OF heap_backedD(2) [OF h] found(3,4,8) nn True refl km'_def]
      have eq: "fst (realloc_for km owner ptr new_size) = km'"
        using found p True by (simp add: realloc_for_def Let_def km'_def)
      have km': "km' = km\<lparr>km_manager := km_manager km'\<rparr>" unfolding km'_def by simp
      have "live_bytes (km_manager km') \<subseteq> live_bytes (km_manager km)"
        unfolding live_bytes_def sh(6) by (rule slot_bytes_shrink [OF found(3,4)]) (use True in simp)
      then have "live_bytes (km_manager km') \<subseteq> {..<4096 * a}" using heap_backedD(4) [OF h] by (rule order_trans)
      from heap_backed_manager [OF h sh(1,5) this] show ?thesis unfolding eq km' [symmetric] by (rule exI)
    next
      case False
      let ?c = "min (ar_size r) new_size"
      have eq: "realloc_for km owner ptr new_size = and_then (malloc_for km owner new_size)
          (\<lambda>km q. (fst (km_free_for (copy_bytes km p q ?c) owner p), Inr q))"
        using found p False by (simp add: realloc_for_def Let_def)
      obtain k x where mal: "malloc_for km owner new_size = (k, x)" by (cases "malloc_for km owner new_size")
      obtain m where m: "heap_backed R m k" using malloc_for_backed [OF h, of owner new_size] mal by auto
      have "heap_backed R m (fst (km_free_for (copy_bytes k p q ?c) owner p))" for q
        using release_backed [of R m "copy_bytes k p q ?c" owner p "Some AkHeap" None] m
        by (simp add: heap_backed_bytes km_free_for_def free_for_def split_def Let_def)
      then show ?thesis using eq mal m by (cases x) auto
    qed
  qed
qed

lemma heap_exec_backed: "heap_backed R a km \<Longrightarrow> \<exists>n. heap_backed R n (heap_exec km ev)"
proof (induction ev)
  case (EvMallocAligned owner len align)
  then show ?case
    using align_up_Some(2) by (fastforce simp: malloc_aligned_for_def Let_def split: option.splits intro: place_allocation_backed)
next
  case (EvMmap owner len prot)
  show ?case
  proof (cases "len = 0 \<or> align_up len 4096 = None")
    case False
    then obtain n where n: "align_up len 4096 = Some n" "0 < n" using align_up_Some(2) [of len 4096] by fastforce
    then have "fst (mmap_for km owner len prot) = fst (place_allocation km owner n 4096 AkMapping prot)"
      using False by (simp add: mmap_for_def split: prod.split sum.split)
    then show ?thesis using place_allocation_backed [OF EvMmap n(2), of owner 4096 AkMapping prot] by simp
  qed (use EvMmap in \<open>auto simp: mmap_for_def\<close>)
qed (auto simp: malloc_for_backed realloc_for_backed km_free_for_def free_for_def km_munmap_ptr_for_def
      munmap_ptr_for_def split_def Let_def intro: release_backed release_process_backed)

lemma heap_run_backed: "heap_backed R a km \<Longrightarrow> \<exists>n. heap_backed R n (foldl heap_exec km evs)"
proof (induction evs arbitrary: km a)
  case (Cons ev evs)
  obtain n where "heap_backed R n (heap_exec km ev)" using heap_exec_backed [OF Cons.prems] by blast
  from Cons.IH [OF this] show ?case by simp
qed auto

section \<open>The first commit\<close>

text \<open>
  \<open>heap_initialize\<close> on page tables that map nothing in the heap window, followed by the promotion of an
  unused manager, establishes the invariant with 32 pages.
\<close>

lemma heap_initialize_backed:
  assumes ok: "vm_ok (km_paging km) R" "absent (km_paging km) KERNEL_HEAP_BASE 0 HEAP_PAGES"
    and mm: "km_manager km = mm_new addr len slots" and init: "heap_initialize km = (km1, Inr l)"
  shows "heap_backed R 32 (km1\<lparr>km_manager := promote_to_virtual_heap (km_manager km1) (unat (hl_base l)) (unat (hl_reserved_bytes l))
    (unat (hl_committed_bytes l)) (unat (hl_frame_count l))\<rparr>)"
proof -
  note w = heap_window [OF order_refl]
  have off: "INITIAL_HEAP_COMMIT_BYTES = page_off 32" "page_off 0 = 0" by (simp_all add: INITIAL_HEAP_COMMIT_BYTES_def page_off_def)
  have up: "heap_align_up INITIAL_HEAP_COMMIT_BYTES = Some (page_off 32)" unfolding off(1) by (rule heap_align_up_page [OF w]) simp
  have u: "unat (page_off 32) = 4096 * 32" by (rule unat_page_va(1) [OF w]) simp
  have bounds: "page_off 32 \<noteq> 0" "\<not> page_off 32 > KERNEL_HEAP_RESERVED_BYTES" using u by (auto simp: word_less_nat_alt heap_reserved)
  obtain pg r where c: "commit_range (km_paging km) KERNEL_HEAP_BASE 0 (page_off 32) read_write = (pg, r)"
    by (cases "commit_range (km_paging km) KERNEL_HEAP_BASE 0 (page_off 32) read_write")
  have eq: "heap_initialize km = (if \<not> physical_allocator_initialized (km_paging km) then (km, Inl PhysicalAllocatorNotInitialized)
      else if \<not> frame_backed_mapping_enabled (km_paging km) then (km, Inl FrameBackedMapperNotInitialized)
      else case r of Inl e \<Rightarrow> (km\<lparr>km_paging := pg\<rparr>, Inl e)
        | Inr frames \<Rightarrow> let layout = \<lparr>hl_base = KERNEL_HEAP_BASE, hl_reserved_bytes = KERNEL_HEAP_RESERVED_BYTES,
              hl_committed_bytes = page_off 32, hl_frame_count = frames\<rparr> in (km\<lparr>km_paging := pg, km_layout := Some layout\<rparr>, Inr layout))"
    by (simp only: heap_initialize_def up c bounds option.case prod.case if_False simp_thms)
  have "\<exists>frames. r = Inr frames" using init unfolding eq by (cases r) (simp_all split: if_splits)
  then obtain frames where r: "r = Inr frames" by blast
  have l: "l = \<lparr>hl_base = KERNEL_HEAP_BASE, hl_reserved_bytes = KERNEL_HEAP_RESERVED_BYTES, hl_committed_bytes = page_off 32, hl_frame_count = frames\<rparr>"
    and km1: "km1 = km\<lparr>km_paging := pg, km_layout := Some l\<rparr>"
    using init unfolding eq r by (simp_all add: Let_def split: if_splits) blast
  note cr = c [unfolded r]
  have res: "commit_result R (km_paging km) KERNEL_HEAP_BASE 0 32 (pg, Inr frames)"
    using commit_range_result [OF ok(1) heap_window, of 32 0 read_write] cr off(2) by simp
  then obtain fr where hd: "held R (km_paging km) KERNEL_HEAP_BASE {0..<32} {0..<32} fr pg" by (auto simp: commit_result_def)
  have "backed R (km_paging km) KERNEL_HEAP_BASE 0" by (simp add: backed_def)
  note grown = backed_grow [OF this ok(2) w _ _ hd]
  have "mm_ok (promote_to_virtual_heap (mm_new addr len slots) (unat KERNEL_HEAP_BASE) (unat KERNEL_HEAP_RESERVED_BYTES) (4096 * 32) (unat frames))"
    by (simp add: promote_to_virtual_heap_def mm_new_def mm_ok_def free_table_def live_bytes_def free_bytes_def mm_capacity_def base_address_def heap_constants)
  then show ?thesis
    using grown heldD(1) [OF hd] mm
    by (simp add: heap_backed_def km1 l u) (simp add: promote_to_virtual_heap_def mm_new_def live_bytes_def heap_constants)
qed

section \<open>What the heap promises\<close>

lemma frame_byte_inj:
  assumes eq: "frame_addr k + (x AND (PAGE_SIZE - 1)) = frame_addr l + (y AND (PAGE_SIZE - 1))" and kl: "k < 2 ^ 40" "l < 2 ^ 40"
  shows "k = l" "unat x mod 4096 = unat y mod 4096"
proof -
  have u: "unat (frame_addr j + (z AND (PAGE_SIZE - 1))) = 4096 * j + unat z mod 4096" if "j < 2 ^ 40" for j z
  proof -
    have "unat (frame_addr j) = j * 4096" using that by (intro unat_frame_at) simp
    moreover have "unat z mod 4096 < 4096" by simp
    ultimately have "unat (frame_addr j) + unat (z AND (PAGE_SIZE - 1)) < 2 ^ 64" unfolding unat_page_offset using that by simp
    then show ?thesis using \<open>unat (frame_addr j) = j * 4096\<close> by (simp add: unat_word_ariths unat_page_offset mult.commute)
  qed
  have e: "4096 * k + unat x mod 4096 = 4096 * l + unat y mod 4096"
    using arg_cong [OF eq, of unat] unfolding u [OF kl(1)] u [OF kl(2)] .
  then have "(4096 * k + unat x mod 4096) div 4096 = (4096 * l + unat y mod 4096) div 4096" by (rule arg_cong)
  then show "k = l" by simp
  with e show "unat x mod 4096 = unat y mod 4096" by simp
qed

text \<open>The bytes of a live block, as offsets of the heap window.\<close>

lemma block_offset:
  assumes h: "heap_backed R n km" and b: "heap_block km p = Some r" "a \<in> {p..<p + ar_size r}"
  obtains off where "a = unat KERNEL_HEAP_BASE + unat off" "word_of_nat a = KERNEL_HEAP_BASE + off" "unat off < 4096 * n"
proof -
  note d = heap_backedD [OF h]
  have base: "base_address (km_manager km) = unat KERNEL_HEAP_BASE"
    by (rule heap_backed_layout [OF h]) (simp add: base_address_def)
  note bd = heap_blockD [OF d(2) b(1)]
  define j where "j = a - unat KERNEL_HEAP_BASE"
  have a: "a = unat KERNEL_HEAP_BASE + j" and "j \<in> aspan r" using b(2) bd(5) unfolding base j_def by auto
  then have lt: "j < 4096 * n" using bd(4) d(4) by blast
  have small: "j < 2 ^ 64" using lt d(3) by simp
  have u: "unat (word_of_nat j :: u64) = j" using small by (simp only: unat_of_nat) simp
  show thesis
  proof (rule that [of "word_of_nat j"])
    show "word_of_nat a = KERNEL_HEAP_BASE + word_of_nat j" unfolding a by (simp add: word_of_nat_unat)
  qed (use u a lt in simp_all)
qed

text \<open>
  (C6) On the virtual heap, after any run of the allocator, every byte of every live block is mapped: its
  address translates to the same position in a frame that is allocated and holds no page table. Two
  different bytes of live blocks never share a byte of physical memory.
\<close>

theorem heap_blocks_backed:
  assumes h: "heap_backed R n km" and run: "km' = foldl heap_exec km evs"
    and blocks: "heap_block km' p = Some r" "heap_block km' q = Some x"
    and bytes: "a \<in> {p..<p + ar_size r}" "b \<in> {q..<q + ar_size x}" "a \<noteq> b"
  shows "\<exists>k \<in> data_frames (km_paging km') R. \<exists>l \<in> data_frames (km_paging km') R.
    translate_virt (km_paging km') (word_of_nat a) = Some (frame_addr k + (word_of_nat a AND (PAGE_SIZE - 1))) \<and>
    translate_virt (km_paging km') (word_of_nat b) = Some (frame_addr l + (word_of_nat b AND (PAGE_SIZE - 1))) \<and>
    translate_virt (km_paging km') (word_of_nat a) \<noteq> translate_virt (km_paging km') (word_of_nat b)"
proof -
  obtain m where h': "heap_backed R m km'" using heap_run_backed [OF h] run by blast
  note d = heap_backedD [OF h'] and w = heap_window [OF heap_backedD(3) [OF h']]
  obtain fr where fr: "inj_on fr {..<m}" "\<And>i. i < m \<Longrightarrow> holds (km_paging km') KERNEL_HEAP_BASE i (fr i) \<and> fr i \<in> data_frames (km_paging km') R"
    using d(5) by (auto simp: backed_def)
  obtain s where s: "a = unat KERNEL_HEAP_BASE + unat s" "word_of_nat a = KERNEL_HEAP_BASE + s" "unat s < 4096 * m"
    by (rule block_offset [OF h' blocks(1) bytes(1)])
  obtain t where t: "b = unat KERNEL_HEAP_BASE + unat t" "word_of_nat b = KERNEL_HEAP_BASE + t" "unat t < 4096 * m"
    by (rule block_offset [OF h' blocks(2) bytes(2)])
  have i: "unat s div 4096 < m" "unat t div 4096 < m" using s(3) t(3) by (simp_all add: div_less_iff_less_mult mult.commute)
  let ?k = "fr (unat s div 4096)" and ?l = "fr (unat t div 4096)"
  note data = fr(2) [OF i(1)] fr(2) [OF i(2)]
  have kl: "?k < 2 ^ 40" "?l < 2 ^ 40" using data data_frame_bound [OF d(1)] by blast+
  note tr = held_byte [OF w s(3) _ kl(1) d(1)] held_byte [OF w t(3) _ kl(2) d(1)]
  have ne: "frame_addr ?k + (s AND (PAGE_SIZE - 1)) \<noteq> frame_addr ?l + (t AND (PAGE_SIZE - 1))"
  proof
    assume eq: "frame_addr ?k + (s AND (PAGE_SIZE - 1)) = frame_addr ?l + (t AND (PAGE_SIZE - 1))"
    have "unat s div 4096 = unat t div 4096" using inj_onD [OF fr(1) frame_byte_inj(1) [OF eq kl]] i by simp
    then have "unat s = unat t" using frame_byte_inj(2) [OF eq kl] by (metis div_mult_mod_eq)
    then show False using s(1) t(1) bytes(3) by simp
  qed
  show ?thesis
    using data tr ne window_byte(2) [OF w s(3)] window_byte(2) [OF w t(3)] unfolding s(2) t(2) by auto
qed

definition demo_virtual :: KernelMemory where
  "demo_virtual = \<lparr>km_paging = demo_paging,
     km_layout = Some \<lparr>hl_base = KERNEL_HEAP_BASE, hl_reserved_bytes = KERNEL_HEAP_RESERVED_BYTES, hl_committed_bytes = 0, hl_frame_count = 0\<rparr>,
     km_manager = (mm_new 0 0 3)\<lparr>mm_backing := BsVirtual (unat KERNEL_HEAP_BASE) (unat KERNEL_HEAP_RESERVED_BYTES) 0 0\<rparr>,
     km_bytes = (\<lambda>_. 0)\<rparr>"

lemma demo_virtual_backed: "heap_backed {} 0 demo_virtual"
proof -
  have e: "page_entry demo_paging t va = 0" for t va by (simp add: page_entry_def leaf_entry_def va_path_def)
  have "mm_ok (km_manager demo_virtual)"
    by (simp add: demo_virtual_def mm_ok_def mm_new_def free_table_def live_bytes_def free_bytes_def mm_capacity_def base_address_def heap_constants)
  then show ?thesis
    using demo_vm_ok by (simp add: heap_backed_def backed_def absent_def e) (simp add: demo_virtual_def mm_new_def live_bytes_def e)
qed

lemma heap_blocks_backed_witness:
  "\<exists>f g. translate_virt (km_paging (foldl heap_exec demo_virtual [EvMalloc 7 10])) 0xffff900000000000 = Some f \<and>
     translate_virt (km_paging (foldl heap_exec demo_virtual [EvMalloc 7 10])) 0xffff900000000005 = Some g \<and> f \<noteq> g"
proof -
  have b: "heap_block (foldl heap_exec demo_virtual [EvMalloc 7 10]) 0xffff900000000000 =
      Some \<lparr>ar_owner = 7, ar_offset = 0, ar_size = 16, ar_kind = AkHeap, ar_protection = read_write\<rparr>"
    by code_simp
  show ?thesis
    using heap_blocks_backed [OF demo_virtual_backed refl b b, of "0xffff900000000000" "0xffff900000000005"] by auto
qed

end
