(* ===== verification/User_Spaces.thy ===== *)
theory User_Spaces
  imports User_Memory Mapped_Heap
begin

text \<open>
  Correctness of user memory. Behind every mapping record there is a block of the kernel heap of its own,
  mapped into the user root page by page. Copies between kernel and user memory therefore stay inside one
  process, and what the kernel writes is what it reads back.
\<close>

unbundle bit_operations_syntax

section \<open>The heap under page-table operations\<close>

lemma heap_backed_paging:
  assumes h: "heap_backed R n km" and ok: "vm_ok pg R'" and data: "data_frames (km_paging km) R \<subseteq> data_frames pg R'"
    and e: "\<And>va. kernel_entry pg va = kernel_entry (km_paging km) va"
  shows "heap_backed R' n (km\<lparr>km_paging := pg\<rparr>)"
  using h ok data unfolding heap_backed_def backed_def absent_def holds_def e by (auto simp: e) blast

lemma heap_block_paging [simp]: "heap_block (km\<lparr>km_paging := pg\<rparr>) = heap_block km"
  by (simp add: heap_block_def)

lemma heap_block_bytes [simp]: "heap_block (km\<lparr>km_bytes := f\<rparr>) = heap_block km" "heap_block (copy_bytes km a b c) = heap_block km"
  by (simp_all add: heap_block_def copy_bytes_def)

lemma heap_backed_set_bytes [simp]: "heap_backed R n (km\<lparr>km_bytes := f\<rparr>) = heap_backed R n km"
  by (simp add: heap_backed_def)

lemma create_backed:
  assumes h: "heap_backed R n km" and call: "create_user_address_space (km_paging km) = (pg, res)"
  shows "case res of Inr root \<Rightarrow> heap_backed (insert root R) n (km\<lparr>km_paging := pg\<rparr>) \<and> root \<notin> R \<and> root \<noteq> 0 | Inl _ \<Rightarrow> pg = km_paging km"
  using heap_backedD(1) [OF h]
proof (cases rule: create_cases)
  case full
  then show ?thesis using call by auto
next
  case (created s' root)
  have eq: "s' = pg" "res = Inr root" using call created(1) by simp_all
  have "kernel_entry pg va = kernel_entry (km_paging km) va" for va
    using created(3,6) in_space_kernel [of "km_paging km" R va] by (simp add: eq same_setup_def)
  then show ?thesis using heap_backed_paging [OF h created(2)] created(4,5,9) by (simp add: eq)
qed

lemma destroy_backed:
  assumes h: "heap_backed R n km" and r: "root \<in> R"
  shows "heap_backed (R - {root}) n (km\<lparr>km_paging := destroy_user_address_space (km_paging km) root\<rparr>)"
proof -
  let ?s = "km_paging km"
  note ok = heap_backedD(1) [OF h]
  note des = destroy_ok [OF ok r]
  have act: "pg_active_pml4 (destroy_user_address_space ?s root) = pg_active_pml4 ?s" using des(2) by (simp add: same_setup_def)
  have sub: "nodes (pg_mem ?s) (table_for_physical ?s) (vm_spaces ?s (R - {root})) \<subseteq> nodes (pg_mem ?s) (table_for_physical ?s) (vm_spaces ?s R)"
    by (rule nodes_mono) (auto simp: map_le_def vm_spaces_def split: if_splits)
  have "data_frames ?s R \<subseteq> data_frames (destroy_user_address_space ?s root) (R - {root})"
  proof
    fix k assume k: "k \<in> data_frames ?s R"
    then have "\<not> user_table ?s root (frame_addr k)"
      using user_table_path [OF ok r] nodesI unfolding data_frames_def by blast
    then show "k \<in> data_frames (destroy_user_address_space ?s root) (R - {root})"
      using k des(2,4) sub unfolding data_frames_def same_setup_table [OF des(2)] same_setup_spaces [OF des(2)] des(1)
      by (auto simp: same_setup_def)
  qed
  then show ?thesis
    by (rule heap_backed_paging [OF h destroy_vm_ok [OF ok r]]) (simp add: act same_mem_entries [OF des(1,2)])
qed

lemma map_user_page_backed:
  assumes h: "heap_backed R n km" and r: "root \<in> R"
  shows "heap_backed R n (km\<lparr>km_paging := fst (map_user_page (km_paging km) root va pa prot)\<rparr>)"
proof -
  note ok = heap_backedD(1) [OF h]
  have act: "table_for_physical (km_paging km) root \<noteq> pg_active_pml4 (km_paging km)" by (rule setup_okD(6) [OF vm_okD(2) [OF ok] r])
  show ?thesis
    using ok r
  proof (cases rule: map_user_page_cases [where va = va and pa = pa and prot = prot])
    case (full s')
    note md = more_tablesD [OF full(1)]
    have "pg_active_pml4 s' = pg_active_pml4 (km_paging km)" using md(2) by (simp add: same_setup_def)
    then show ?thesis using full(2) heap_backed_paging [OF h md(1)] md(5) md(4) [OF in_space_kernel] by simp
  next
    case (set s')
    note md = mappedD [OF set(1)]
    have "pg_active_pml4 s' = pg_active_pml4 (km_paging km)" using md(2) by (simp add: same_setup_def)
    then show ?thesis using set(2) heap_backed_paging [OF h md(1)] md(4) md(3) [OF in_space_kernel] act by simp
  qed (use h in simp)
qed

declare map_user_loop.simps [simp del]

lemma map_user_loop_backed:
  "heap_backed R n (km\<lparr>km_paging := pg\<rparr>) \<Longrightarrow> root \<in> R \<Longrightarrow>
     heap_backed R n (km\<lparr>km_paging := fst (map_user_loop root va ptr len prot pg off)\<rparr>)"
proof (induction root va ptr len prot pg off rule: map_user_loop.induct)
  case (1 root va ptr len prot pg off)
  let ?pa = "kernel_physical pg (word_of_nat ptr + word_of_nat off)"
  obtain pg1 res where call: "map_user_page pg root (va + word_of_nat off) ?pa prot = (pg1, res)"
    by (cases "map_user_page pg root (va + word_of_nat off) ?pa prot")
  have b: "heap_backed R n (km\<lparr>km_paging := pg1\<rparr>)"
    using map_user_page_backed [OF 1(2,3), of "va + word_of_nat off" ?pa prot] call by simp
  show ?case
    using 1(1) [OF _ refl, of pg1 "()"] 1(2,3) call b
    by (subst map_user_loop.simps) (cases res; auto simp: Let_def)
qed

section \<open>Mapping a range for the user\<close>

text \<open>The pages \<open>i\<close> to \<open>n\<close> of a user range now have the entries of the kernel range; nothing else has changed.\<close>

definition user_mapped :: "u64 set \<Rightarrow> Paging \<Rightarrow> u64 \<Rightarrow> u64 \<Rightarrow> nat \<Rightarrow> MemoryProtection \<Rightarrow> nat \<Rightarrow> nat \<Rightarrow> Paging \<Rightarrow> bool" where
  "user_mapped R s root va ptr prot i n s' \<longleftrightarrow>
     vm_ok s' R \<and> same_setup s s' \<and> translate_virt s' = translate_virt s \<and>
     (\<forall>j \<in> {i..<n}. page_entry s' (table_for_physical s root) (page_va va j) =
        (kernel_physical s (word_of_nat ptr + page_off j) AND ADDRESS_MASK) OR user_flags_from_protection prot) \<and>
     (\<forall>t a. in_space s R t a \<longrightarrow> t \<noteq> table_for_physical s root \<or> page_of a \<notin> page_of ` page_va va ` {i..<n} \<longrightarrow>
        page_entry s' t a = page_entry s t a)"

lemma user_range_in_space:
  assumes "setup_ok s R" "root \<in> R" "window va n" "unat va + 4096 * n \<le> 2 ^ 47" "j < n"
  shows "in_space s R (table_for_physical s root) (page_va va j)"
proof (rule in_space_user [OF assms(1,2)])
  have "unat (page_va va j) = unat va + 4096 * j" using unat_page_va(2) [OF assms(3)] assms(5) by simp
  then show "page_va va j < 0x0000800000000000" using assms(4,5) by (simp add: word_less_nat_alt)
qed

lemma user_mapped_first:
  assumes m: "mapped R (table_for_physical s root) (page_va va i) e s s1"
    and e: "e = (kernel_physical s (word_of_nat ptr + page_off i) AND ADDRESS_MASK) OR user_flags_from_protection prot"
    and ok: "vm_ok s R" "root \<in> R" and w: "window va n" "unat va + 4096 * n \<le> 2 ^ 47" "i < n"
    and ih: "user_mapped R s1 root va ptr prot (Suc i) n s'"
  shows "user_mapped R s root va ptr prot i n s'"
proof -
  note md = mappedD [OF m] and u = ih [unfolded user_mapped_def]
  note f = same_setup_table [OF md(2)]
  have act: "table_for_physical s root \<noteq> pg_active_pml4 s" by (rule setup_okD(6) [OF vm_okD(2) [OF ok(1)] ok(2)])
  have tv: "translate_virt s1 = translate_virt s" using mapped_translations(1) [OF ok(1) m] act by (intro ext) simp
  have kp: "kernel_physical s1 = kernel_physical s"
    using md(2) by (intro ext) (simp add: kernel_physical_def translate_kernel_address_def tv same_setup_def split: option.split)
  have sp: "in_space s R (table_for_physical s root) (page_va va j)" if "j < n" for j
    by (rule user_range_in_space [OF vm_okD(2) [OF ok(1)] ok(2) w(1,2) that])
  have split: "{i..<n} = insert i {Suc i..<n}" using w(3) by auto
  have first: "page_of (page_va va i) \<notin> page_of ` page_va va ` {Suc i..<n}"
    using page_va_inj [OF w(1,3)] by fastforce
  show ?thesis
    unfolding user_mapped_def
  proof (intro conjI ballI allI impI)
    show "same_setup s s'" using same_setup_trans [OF md(2)] u by blast
    show "translate_virt s' = translate_virt s" using u tv by simp
    fix j assume j: "j \<in> {i..<n}"
    show "page_entry s' (table_for_physical s root) (page_va va j) =
        (kernel_physical s (word_of_nat ptr + page_off j) AND ADDRESS_MASK) OR user_flags_from_protection prot"
    proof (cases "j = i")
      case True
      then have "page_entry s' (table_for_physical s root) (page_va va j) = page_entry s1 (table_for_physical s root) (page_va va i)"
        using u first sp [OF w(3)] same_setup_in_space [OF md(2)] by simp
      then show ?thesis using md(3) [OF sp [OF w(3)]] True e by simp
    next
      case False
      then show ?thesis using u j unfolding kp f by auto
    qed
  next
    fix t a assume a: "in_space s R t a" "t \<noteq> table_for_physical s root \<or> page_of a \<notin> page_of ` page_va va ` {i..<n}"
    then have "page_entry s' t a = page_entry s1 t a"
      using u same_setup_in_space [OF md(2)] unfolding f split by auto
    then show "page_entry s' t a = page_entry s t a" using md(3) [OF a(1)] a(2) w(3) by auto
  qed (use u in blast)
qed

lemma map_user_loop_mapped:
  assumes "vm_ok s R" "root \<in> R" "window va n" "unat va + 4096 * n \<le> 2 ^ 47" "i \<le> n"
    and "map_user_loop root va ptr (4096 * n) prot s (4096 * i) = (s', ok_unit)"
  shows "user_mapped R s root va ptr prot i n s'"
  using assms
proof (induction "n - i" arbitrary: i s)
  case 0
  then have "s' = s" by (subst (asm) map_user_loop.simps) simp
  then show ?case using 0 by (simp add: user_mapped_def)
next
  case (Suc d)
  then have i: "i < n" by simp
  obtain s1 where s1: "map_user_page s root (va + page_off i) (kernel_physical s (word_of_nat ptr + page_off i)) prot = (s1, ok_unit)"
    "map_user_loop root va ptr (4096 * n) prot s1 (4096 * Suc i) = (s', ok_unit)"
  proof -
    have "4096 * i < 4096 * n" "4096 * i + 4096 = 4096 * Suc i" using i by simp_all
    then have "and_then (map_user_page s root (va + page_off i) (kernel_physical s (word_of_nat ptr + page_off i)) prot)
        (\<lambda>pg _. map_user_loop root va ptr (4096 * n) prot pg (4096 * Suc i)) = (s', ok_unit)"
      using Suc(8) map_user_loop.simps [of root va ptr "4096 * n" prot s "4096 * i"] unfolding page_off_def Let_def by (simp only: if_True)
    then show thesis using that by (auto simp: and_then_eq_Inr)
  qed
  have m: "mapped R (table_for_physical s root) (page_va va i)
      ((kernel_physical s (word_of_nat ptr + page_off i) AND ADDRESS_MASK) OR user_flags_from_protection prot) s s1"
    using map_user_page_cases [OF Suc(3,4), of "va + page_off i" "kernel_physical s (word_of_nat ptr + page_off i)" prot] s1(1)
    by (auto simp: page_va_def)
  have "user_mapped R s1 root va ptr prot (Suc i) n s'"
    using Suc(1) [of "Suc i" s1] Suc(2,4,5,6) i s1(2) mappedD(1) [OF m] by simp
  then show ?case by (rule user_mapped_first [OF m refl Suc(3,4,5,6) i])
qed

text \<open>Afterwards each byte of the user range and the byte of the kernel range behind it are one byte of physical memory.\<close>

lemma user_mapped_byte:
  assumes um: "user_mapped R s root va ptr prot 0 n s'" and ok: "vm_ok s R" "root \<in> R"
    and w: "window va n" "unat va + 4096 * n \<le> 2 ^ 47" "window (word_of_nat ptr) n" and off: "unat off < 4096 * n"
    and here: "translate_virt s (word_of_nat ptr + off) \<noteq> None"
  shows "translate_user_page s' root (va + off) write = (if write \<and> \<not> prot_write prot then None else translate_virt s' (word_of_nat ptr + off))"
proof -
  let ?j = "unat off div 4096" and ?p = "word_of_nat ptr :: u64"
  have j: "?j < n" using off by (simp add: div_less_iff_less_mult mult.commute)
  note wu = window_byte [OF w(1) off] and wk = window_byte [OF w(3) off]
  define e where "e = kernel_entry s (?p + off)"
  have "kernel_entry s (page_va ?p ?j) = e" unfolding e_def by (rule page_entry_same_page [OF wk(1), symmetric])
  moreover have act: "pg_active_pml4 s \<noteq> 0" by (rule setup_okD(2) [OF vm_okD(2) [OF ok(1)]])
  ultimately have kv: "translate_virt s (page_va ?p ?j) = kernel_view e (page_va ?p ?j)" "translate_virt s (?p + off) = kernel_view e (?p + off)"
    by (simp_all add: translate_virt_view e_def)
  then have p: "e AND PRESENT \<noteq> 0" using here by (auto simp: kernel_view_def)
  have "kernel_physical s (?p + page_off ?j) = e AND ADDRESS_MASK"
    using kv(1) p page_va_aligned [OF w(3) less_imp_le [OF j]] by (simp add: kernel_physical_def translate_kernel_address_def kernel_view_def page_va_def)
  then have entry: "page_entry s' (table_for_physical s root) (page_va va ?j) = (e AND ADDRESS_MASK AND ADDRESS_MASK) OR user_flags_from_protection prot"
    using um j by (simp add: user_mapped_def)
  have "unat (va + off) = unat va + unat off" using off w(2) by (simp add: unat_word_ariths)
  then have low: "va + off < 0x0000800000000000" using off w(2) by (simp add: word_less_nat_alt)
  have f: "table_for_physical s' = table_for_physical s" using um by (simp add: user_mapped_def same_setup_table)
  have "root \<noteq> 0" using vm_okD(2) [OF ok(1)] ok(2) by (simp add: setup_ok_def)
  then have "translate_user_page s' root (va + off) write =
      (if write \<and> \<not> prot_write prot then None else Some ((e AND ADDRESS_MASK AND ADDRESS_MASK) OR ((va + off) AND (PAGE_SIZE - 1))))"
    using low unfolding translate_user_page_view f page_entry_same_page [OF wu(1)] entry by (simp add: user_view_entry)
  moreover have "translate_virt s' (?p + off) = Some ((e AND ADDRESS_MASK) OR ((va + off) AND (PAGE_SIZE - 1)))"
    using um kv(2) p unfolding wu(2) wk(2) [symmetric] by (simp add: user_mapped_def kernel_view_def)
  ultimately show ?thesis by (simp add: and.assoc)
qed

section \<open>Records and blocks\<close>

definition us_roots :: "UserMemory \<Rightarrow> u64 set" where
  "us_roots us = sp_root ` set (slot_values (us_spaces us))"

definition user_record :: "(nat \<Rightarrow> AllocationRecord option) \<Rightarrow> u64 set \<Rightarrow> UserMappingRecord \<Rightarrow> bool" where
  "user_record B R m \<longleftrightarrow>
     um_root m \<in> R \<and> unat (um_user_start m) + um_length m \<le> 2 ^ 47 \<and> um_user_start m AND (PAGE_SIZE - 1) = 0 \<and>
     um_length m mod 4096 = 0 \<and> um_kernel_start m mod 4096 = 0 \<and>
     (\<exists>r. B (um_kernel_start m) = Some r \<and> ar_owner r = um_owner m \<and> ar_kind r = AkMapping \<and> ar_size r = um_length m)"

definition user_records :: "(nat \<Rightarrow> AllocationRecord option) \<Rightarrow> u64 set \<Rightarrow> UserMappingRecord slots \<Rightarrow> bool" where
  "user_records B R ms \<longleftrightarrow> unique_keys um_kernel_start ms \<and> (\<forall>m. Some m \<in> set ms \<longrightarrow> user_record B R m)"

definition us_ok :: "UserMemory \<Rightarrow> bool" where
  "us_ok us \<longleftrightarrow>
     (\<exists>n. heap_backed (us_roots us) n (us_kernel us)) \<and> unique_keys sp_root (us_spaces us) \<and>
     user_records (heap_block (us_kernel us)) (us_roots us) (us_mappings us)"

lemma user_recordsI:
  "unique_keys um_kernel_start ms \<Longrightarrow> (\<And>m. Some m \<in> set ms \<Longrightarrow> user_record B R m) \<Longrightarrow> user_records B R ms"
  by (simp add: user_records_def)

lemma user_records_insert:
  assumes u: "user_records B R ms" and i: "free_slot ms = Some i" and fresh: "B ptr = None" "um_kernel_start m = ptr"
    and m: "user_record (B(ptr \<mapsto> r)) R m"
  shows "user_records (B(ptr \<mapsto> r)) R (ms[i := Some m])"
proof (rule user_recordsI)
  have other: "um_kernel_start x \<noteq> ptr \<and> user_record B R x" if "Some x \<in> set ms" for x
    using u that fresh(1) by (auto simp: user_records_def user_record_def)
  then have "slot_lookup um_kernel_start ms (um_kernel_start m) = None"
    using fresh(2) by (simp add: slot_lookup_None_iff)
  then show "unique_keys um_kernel_start (ms[i := Some m])"
    using slot_lookup_insert(2) [OF _ i, of um_kernel_start m] u by (simp add: user_records_def)
  fix x assume "Some x \<in> set (ms[i := Some m])"
  then show "user_record (B(ptr \<mapsto> r)) R x"
    using m other [of x] by (auto simp: Some_in_set_insert [OF i]) (simp add: user_record_def)
qed

lemma user_records_release:
  assumes u: "user_records B R ms" and i: "i < length ms" "ms ! i = Some m"
  shows "user_records (B(um_kernel_start m := None)) R (ms[i := None])"
proof (rule user_recordsI)
  note k = conjunct1 [OF u [unfolded user_records_def]]
  show "unique_keys um_kernel_start (ms[i := None])" using k by (rule unique_keys_update_None)
  fix x assume "Some x \<in> set (ms[i := None])"
  then have "Some x \<in> set ms" "um_kernel_start x \<noteq> um_kernel_start m" by (auto simp: Some_in_replaced [OF k i])
  then show "user_record (B(um_kernel_start m := None)) R x"
    using u by (auto simp: user_records_def user_record_def)
qed

lemma user_range_size:
  assumes va: "va AND (PAGE_SIZE - 1) = 0" and stop: "checked_add64 va l = Some stop" "stop \<le> 0x0000800000000000"
    and sz: "sz = unat (align_up_u64 l)"
  shows "sz mod 4096 = 0" "unat va + sz \<le> 2 ^ 47" "unat l \<le> sz" "unat va mod 4096 = 0"
proof -
  have s: "unat va + unat l \<le> 2 ^ 47" using stop by (simp add: checked_add64_Some word_le_nat_alt)
  show m: "unat va mod 4096 = 0" using va by (simp only: aligned_iff)
  have z: "sz = (unat l + 4095) div 4096 * 4096" unfolding sz unat_align_up using s by simp
  then show "sz mod 4096 = 0" by simp
  show "unat l \<le> sz" unfolding z by linarith
  obtain a where a: "unat va = 4096 * a" using m by fastforce
  then have "unat l \<le> 4096 * (2 ^ 35 - a)" using s by simp
  then have "(unat l + 4095) div 4096 < Suc (2 ^ 35 - a)" by (intro less_mult_imp_div_less) simp
  then have "sz \<le> 4096 * (2 ^ 35 - a)" unfolding z by simp
  then show "unat va + sz \<le> 2 ^ 47" using a s by simp
qed

section \<open>Mapping\<close>

lemma us_okD:
  assumes "us_ok us"
  shows "\<exists>n. heap_backed (us_roots us) n (us_kernel us)" "unique_keys sp_root (us_spaces us)"
    "user_records (heap_block (us_kernel us)) (us_roots us) (us_mappings us)" "mm_ok (km_manager (us_kernel us))"
    "vm_ok (us_paging us) (us_roots us)"
  using assms heap_backedD(1,2) by (auto simp: us_ok_def)

lemma us_ok_kernel:
  assumes "us_ok us" "heap_backed (us_roots us) n km" "heap_block km = heap_block (us_kernel us)"
  shows "us_ok (us\<lparr>us_kernel := km\<rparr>)"
  using assms by (auto simp: us_ok_def us_roots_def)

lemma munmap_backed: "heap_backed R n km \<Longrightarrow> heap_backed R n (fst (km_munmap_ptr_for km owner ptr len))"
  using release_backed [of R n km owner ptr "Some AkMapping" "Some len"]
  by (auto simp: km_munmap_ptr_for_def munmap_ptr_for_def split: prod.split)

lemma munmap_blocks:
  assumes ok: "mm_ok (km_manager km)" and r: "heap_block km ptr = Some r" "ar_owner r = owner" "ar_kind r = AkMapping" "len \<le> ar_size r"
  shows "heap_block (fst (km_munmap_ptr_for km owner ptr len)) = (heap_block km)(ptr := None)"
    "km_bytes (fst (km_munmap_ptr_for km owner ptr len)) = km_bytes km"
proof -
  obtain mm freed where m: "mm_release (km_manager km) owner ptr (Some AkMapping) (Some len) = (mm, freed)" by force
  have "may_release owner AkMapping (Some len) r" using r by (simp add: may_release_def)
  then have freed using release_blocks(2) [OF ok m refl] r(1) by blast
  then show "heap_block (fst (km_munmap_ptr_for km owner ptr len)) = (heap_block km)(ptr := None)"
    "km_bytes (fst (km_munmap_ptr_for km owner ptr len)) = km_bytes km"
    using release_blocks(3) [OF ok m refl] by (simp_all add: km_munmap_ptr_for_def munmap_ptr_for_def m)
qed

definition finish_mapping :: "UserMemory \<Rightarrow> KernelMemory \<Rightarrow> UserMappingRecord \<Rightarrow> Paging \<times> (unit + unit) \<Rightarrow> (UserMemory, unit, MappedRegion) op_result" where
  "finish_mapping us km m loop =
     (let undo = us\<lparr>us_kernel := fst (km_munmap_ptr_for (km\<lparr>km_paging := fst loop\<rparr>) (um_owner m) (um_kernel_start m) (um_length m))\<rparr>
      in case snd loop of
           Inl _ \<Rightarrow> (undo, Inl ())
         | Inr _ \<Rightarrow>
             (case free_slot (us_mappings us) of
                None \<Rightarrow> (undo, Inl ())
              | Some idx \<Rightarrow>
                  (us\<lparr>us_kernel := km\<lparr>km_paging := fst loop\<rparr>, us_mappings := (us_mappings us)[idx := Some m]\<rparr>,
                   Inr \<lparr>mr_owner = um_owner m, mr_ptr = um_kernel_start m, mr_length = um_length m, mr_requested = um_length m,
                        mr_protection = um_protection m, mr_kind = AkMapping\<rparr>)))"

lemma mmap_user_fixed_finish:
  assumes "\<not> (root = 0 \<or> len = 0 \<or> va AND (PAGE_SIZE - 1) \<noteq> 0 \<or>
      (case checked_add64 va (word_of_nat len) of None \<Rightarrow> True | Some stop \<Rightarrow> stop > 0x0000800000000000))"
    and "sz = unat (align_up_u64 (word_of_nat len))"
    and "mmap_for (us_kernel us) owner sz prot =
      (km, Inr \<lparr>mr_owner = owner, mr_ptr = ptr, mr_length = sz, mr_requested = sz, mr_protection = prot, mr_kind = AkMapping\<rparr>)"
  shows "mmap_user_fixed us owner root va len prot =
    finish_mapping us km \<lparr>um_owner = owner, um_root = root, um_user_start = va, um_kernel_start = ptr, um_length = sz, um_protection = prot\<rparr>
      (map_user_loop root va ptr sz prot (km_paging km) 0)"
  unfolding mmap_user_fixed_def if_not_P [OF assms(1)] Let_def assms(2) [symmetric] assms(3)
  by (simp add: finish_mapping_def km_munmap_def split: prod.split sum.split option.split)

lemma page_multiple_eq:
  assumes "(a::nat) \<le> b" "b < a + 4096" "b mod 4096 = 0" "a mod 4096 = 0"
  shows "b = a"
proof -
  obtain i j where "a = 4096 * i" "b = 4096 * j" using assms(3,4) by fastforce
  then show ?thesis using assms(1,2) by simp
qed

lemma mmap_user_fixed_placed:
  assumes ok: "us_ok us" and root: "root \<in> us_roots us"
  obtains (fail) km where "mmap_user_fixed us owner root va len prot = (us\<lparr>us_kernel := km\<rparr>, Inl ())" "us_ok (us\<lparr>us_kernel := km\<rparr>)"
      "heap_block km = heap_block (us_kernel us)" "km_bytes km = km_bytes (us_kernel us)"
    | (placed) km m r where "mmap_user_fixed us owner root va len prot =
        finish_mapping us km m (map_user_loop root va (um_kernel_start m) (um_length m) prot (km_paging km) 0)"
      "\<exists>n. heap_backed (us_roots us) n km" "heap_block (us_kernel us) (um_kernel_start m) = None"
      "heap_block km = (heap_block (us_kernel us))(um_kernel_start m \<mapsto> r)" "km_bytes km = km_bytes (us_kernel us)"
      "user_record (heap_block km) (us_roots us) m"
      "um_owner m = owner" "um_root m = root" "um_user_start m = va" "um_length m = unat (align_up_u64 (word_of_nat len))" "um_protection m = prot"
proof (cases "root = 0 \<or> len = 0 \<or> va AND (PAGE_SIZE - 1) \<noteq> 0 \<or>
    (case checked_add64 va (word_of_nat len) of None \<Rightarrow> True | Some stop \<Rightarrow> stop > 0x0000800000000000)")
  case True
  then show thesis using fail [of "us_kernel us"] ok by (simp add: mmap_user_fixed_def)
next
  case False
  then obtain stop where stop: "checked_add64 va (word_of_nat len) = Some stop" "stop \<le> 0x0000800000000000" "va AND (PAGE_SIZE - 1) = 0"
    by (auto split: option.splits)
  define sz where "sz = unat (align_up_u64 (word_of_nat len))"
  note range = user_range_size [OF stop(3,1,2) sz_def]
  let ?k = "us_kernel us"
  note d = us_okD [OF ok]
  from d(1) obtain n where h: "heap_backed (us_roots us) n ?k" ..
  obtain n' where h': "heap_backed (us_roots us) n' (fst (mmap_for ?k owner sz prot))"
    using heap_exec_backed [OF h, of "EvMmap owner sz prot"] by auto
  show thesis
  proof (cases rule: mmap_for_cases [OF d(4), of owner sz prot, case_names no_memory new])
    case (no_memory km)
    have b: "heap_block km = heap_block ?k" by (rule same_blocks [OF no_memory(3)])
    show thesis
    proof (rule fail)
      show "mmap_user_fixed us owner root va len prot = (us\<lparr>us_kernel := km\<rparr>, Inl ())"
        unfolding mmap_user_fixed_def if_not_P [OF False] Let_def sz_def [symmetric] no_memory(1) by simp
      show "us_ok (us\<lparr>us_kernel := km\<rparr>)" using us_ok_kernel [OF ok _ b] h' no_memory(1) by simp
    qed (use b no_memory(3) in \<open>simp_all add: same_allocations_def\<close>)
  next
    case (new km r)
    define ptr where "ptr = base_address (km_manager ?k) + ar_offset r"
    note pb = placed_blocks [OF d(4) new(2), folded ptr_def]
    have size_eq: "ar_size r = sz" by (rule page_multiple_eq [OF new(6-8) range(1)])
    let ?m = "\<lparr>um_owner = owner, um_root = root, um_user_start = va, um_kernel_start = ptr, um_length = sz, um_protection = prot\<rparr>"
    have rec: "user_record (heap_block km) (us_roots us) ?m"
      using root range stop(3) pb(2) new(2-4) size_eq by (simp add: user_record_def placed_def ptr_def)
    show thesis
    proof (rule placed)
      show "mmap_user_fixed us owner root va len prot =
          finish_mapping us km ?m (map_user_loop root va (um_kernel_start ?m) (um_length ?m) prot (km_paging km) 0)"
        using mmap_user_fixed_finish [OF False sz_def new(1) [folded ptr_def, unfolded size_eq]] by simp
      show "\<exists>n. heap_backed (us_roots us) n km" using h' new(1) by auto
      show "km_bytes km = km_bytes ?k" using new(2) by (simp add: placed_def)
    qed (use pb rec in \<open>simp_all add: sz_def\<close>)
  qed
qed

text \<open>The new block is mapped page by page and recorded; a failure leaves every block and record alone.\<close>

lemma mmap_user_fixed_cases:
  assumes ok: "us_ok us" and root: "root \<in> us_roots us"
  obtains (fail) km where "mmap_user_fixed us owner root va len prot = (us\<lparr>us_kernel := km\<rparr>, Inl ())" "us_ok (us\<lparr>us_kernel := km\<rparr>)"
      "heap_block km = heap_block (us_kernel us)" "km_bytes km = km_bytes (us_kernel us)"
    | (mapped) km pg r idx m where "mmap_user_fixed us owner root va len prot =
        (us\<lparr>us_kernel := km\<lparr>km_paging := pg\<rparr>, us_mappings := (us_mappings us)[idx := Some m]\<rparr>,
         Inr \<lparr>mr_owner = owner, mr_ptr = um_kernel_start m, mr_length = um_length m, mr_requested = um_length m, mr_protection = prot, mr_kind = AkMapping\<rparr>)"
      "us_ok (us\<lparr>us_kernel := km\<lparr>km_paging := pg\<rparr>, us_mappings := (us_mappings us)[idx := Some m]\<rparr>)"
      "free_slot (us_mappings us) = Some idx" "heap_block (us_kernel us) (um_kernel_start m) = None"
      "heap_block km = (heap_block (us_kernel us))(um_kernel_start m \<mapsto> r)" "km_bytes km = km_bytes (us_kernel us)"
      "user_record (heap_block km) (us_roots us) m"
      "um_owner m = owner" "um_root m = root" "um_user_start m = va" "um_length m = unat (align_up_u64 (word_of_nat len))" "um_protection m = prot"
      "\<exists>n. heap_backed (us_roots us) n km" "map_user_loop root va (um_kernel_start m) (um_length m) prot (km_paging km) 0 = (pg, ok_unit)"
proof (cases rule: mmap_user_fixed_placed [OF ok root, of owner va len prot, case_names refused placed])
  case (placed km m r)
  obtain n where n: "heap_backed (us_roots us) n km" using placed(2) ..
  obtain pg res where loop: "map_user_loop root va (um_kernel_start m) (um_length m) prot (km_paging km) 0 = (pg, res)" by force
  then have hp: "heap_backed (us_roots us) n (km\<lparr>km_paging := pg\<rparr>)"
    using map_user_loop_backed [of "us_roots us" n "km_paging km" km root va "um_kernel_start m" "um_length m" prot 0] n root by simp
  let ?u = "fst (km_munmap_ptr_for (km\<lparr>km_paging := pg\<rparr>) (um_owner m) (um_kernel_start m) (um_length m))"
  have undo: "heap_block ?u = heap_block (us_kernel us)" "km_bytes ?u = km_bytes (us_kernel us)"
    using munmap_blocks [OF heap_backedD(2) [OF hp], of "um_kernel_start m" r "um_owner m" "um_length m"] placed(3-6)
    by (auto simp: user_record_def)
  show thesis
  proof (cases "res = ok_unit \<and> free_slot (us_mappings us) \<noteq> None")
    case False
    then have call: "mmap_user_fixed us owner root va len prot = (us\<lparr>us_kernel := ?u\<rparr>, Inl ())"
      unfolding placed(1) loop by (auto simp: finish_mapping_def Let_def split: sum.splits)
    show thesis by (rule fail [OF call us_ok_kernel [OF ok munmap_backed [OF hp] undo(1)] undo])
  next
    case True
    then obtain idx where idx: "free_slot (us_mappings us) = Some idx" and res: "res = ok_unit" by auto
    have "us_ok (us\<lparr>us_kernel := km\<lparr>km_paging := pg\<rparr>, us_mappings := (us_mappings us)[idx := Some m]\<rparr>)"
      using user_records_insert [OF us_okD(3) [OF ok] idx placed(3) refl placed(6) [unfolded placed(4)]] hp us_okD(2) [OF ok] placed(4)
      by (auto simp: us_ok_def us_roots_def)
    moreover have "mmap_user_fixed us owner root va len prot =
        (us\<lparr>us_kernel := km\<lparr>km_paging := pg\<rparr>, us_mappings := (us_mappings us)[idx := Some m]\<rparr>,
         Inr \<lparr>mr_owner = owner, mr_ptr = um_kernel_start m, mr_length = um_length m, mr_requested = um_length m, mr_protection = prot, mr_kind = AkMapping\<rparr>)"
      unfolding placed(1) loop res by (simp add: finish_mapping_def idx placed(7,11))
    ultimately show thesis using mapped [OF _ _ idx placed(3-11,2) loop [unfolded res]] by blast
  qed
qed (rule fail)

section \<open>Releasing\<close>

lemma heap_base: "heap_backed R n km \<Longrightarrow> base_address (km_manager km) = unat KERNEL_HEAP_BASE"
  by (erule heap_backed_layout) (simp add: base_address_def)

definition held_records :: "u64 set \<Rightarrow> UserMemory \<Rightarrow> bool" where
  "held_records R us \<longleftrightarrow> (\<exists>n. heap_backed R n (us_kernel us)) \<and> user_records (heap_block (us_kernel us)) R (us_mappings us)"

lemma us_ok_iff: "us_ok us \<longleftrightarrow> held_records (us_roots us) us \<and> unique_keys sp_root (us_spaces us)"
  by (auto simp: us_ok_def held_records_def)

lemma release_mapping_held:
  assumes h: "held_records R us" and i: "i < length (us_mappings us)"
  shows "held_records R (release_mapping root us i)" "us_spaces (release_mapping root us i) = us_spaces us"
    "us_mappings (release_mapping root us i) = (us_mappings us)[i :=
       (case us_mappings us ! i of Some m \<Rightarrow> if um_root m = root then None else Some m | None \<Rightarrow> None)]"
    "km_bytes (us_kernel (release_mapping root us i)) = km_bytes (us_kernel us)"
proof -
  let ?us = "release_mapping root us i"
  obtain n where n: "heap_backed R n (us_kernel us)" and u: "user_records (heap_block (us_kernel us)) R (us_mappings us)"
    using h by (auto simp: held_records_def)
  have "held_records R ?us \<and> us_spaces ?us = us_spaces us \<and> us_mappings ?us = (us_mappings us)[i :=
       (case us_mappings us ! i of Some m \<Rightarrow> if um_root m = root then None else Some m | None \<Rightarrow> None)] \<and>
       km_bytes (us_kernel ?us) = km_bytes (us_kernel us)"
  proof (cases "\<exists>m. us_mappings us ! i = Some m \<and> um_root m = root")
    case False
    then show ?thesis using h by (auto simp: release_mapping_def split: option.split) (metis list_update_id)+
  next
    case True
    then obtain m where m: "us_mappings us ! i = Some m" "um_root m = root" by blast
    then have "Some m \<in> set (us_mappings us)" using i by (metis nth_mem)
    then obtain r where r: "heap_block (us_kernel us) (um_kernel_start m) = Some r" "ar_owner r = um_owner m" "ar_kind r = AkMapping" "um_length m \<le> ar_size r"
      using u by (auto simp: user_records_def user_record_def)
    note mm = heap_backedD(2) [OF n]
    have "um_kernel_start m \<noteq> 0" using heap_blockD(2) [OF mm r(1)] heap_base [OF n] by (simp add: heap_constants)
    then have us: "?us = us\<lparr>us_mappings := (us_mappings us)[i := None],
        us_kernel := fst (km_munmap_ptr_for (us_kernel us) (um_owner m) (um_kernel_start m) (um_length m))\<rparr>"
      using m by (simp add: release_mapping_def Let_def)
    show ?thesis
      unfolding us using munmap_backed [OF n] munmap_blocks [OF mm r] user_records_release [OF u i m(1)] m
      by (auto simp: held_records_def)
  qed
  then show "held_records R ?us" "us_spaces ?us = us_spaces us" "us_mappings ?us = (us_mappings us)[i :=
       (case us_mappings us ! i of Some m \<Rightarrow> if um_root m = root then None else Some m | None \<Rightarrow> None)]"
    "km_bytes (us_kernel ?us) = km_bytes (us_kernel us)" by blast+
qed

lemma release_mappings_held:
  assumes h: "held_records R us"
  shows "held_records R (release_mappings us root)" "us_spaces (release_mappings us root) = us_spaces us"
    "us_mappings (release_mappings us root) = clear_slots (\<lambda>m. um_root m = root) (us_mappings us)"
    "km_bytes (us_kernel (release_mappings us root)) = km_bytes (us_kernel us)"
proof -
  let ?f = "\<lambda>x. case x of Some m \<Rightarrow> if um_root m = root then None else Some m | None \<Rightarrow> None"
  have step: "k \<le> length (us_mappings us) \<Longrightarrow> let u = foldl (release_mapping root) us [0..<k] in
      held_records R u \<and> us_spaces u = us_spaces us \<and> us_mappings u = map ?f (take k (us_mappings us)) @ drop k (us_mappings us) \<and>
      km_bytes (us_kernel u) = km_bytes (us_kernel us)" for k
  proof (induction k)
    case (Suc k)
    define u where "u = foldl (release_mapping root) us [0..<k]"
    have ih: "held_records R u" "us_spaces u = us_spaces us" "us_mappings u = map ?f (take k (us_mappings us)) @ drop k (us_mappings us)"
      "km_bytes (us_kernel u) = km_bytes (us_kernel us)" using Suc by (simp_all add: Let_def u_def)
    have k: "k < length (us_mappings u)" using Suc.prems ih(3) by simp
    have "map ?f (take (Suc k) (us_mappings us)) @ drop (Suc k) (us_mappings us) = (us_mappings u)[k := ?f (us_mappings u ! k)]"
      unfolding ih(3) using Suc.prems by (intro nth_equalityI) (auto simp: nth_append nth_list_update min_def less_Suc_eq)
    then show ?case using release_mapping_held [OF ih(1) k, of root] ih by (simp add: u_def [symmetric] Let_def)
  qed (use h in simp)
  from step [of "length (us_mappings us)"]
  show "held_records R (release_mappings us root)" "us_spaces (release_mappings us root) = us_spaces us"
    "us_mappings (release_mappings us root) = clear_slots (\<lambda>m. um_root m = root) (us_mappings us)"
    "km_bytes (us_kernel (release_mappings us root)) = km_bytes (us_kernel us)"
    by (simp_all add: release_mappings_def clear_slots_def Let_def)
qed

section \<open>Every operation keeps the invariant\<close>

lemma us_roots_iff: "root \<in> us_roots us \<longleftrightarrow> (\<exists>sp. Some sp \<in> set (us_spaces us) \<and> sp_root sp = root)"
  by (force simp: us_roots_def image_iff Bex_def)

lemma us_roots_remove:
  assumes "unique_keys sp_root (us_spaces us)" "i < length (us_spaces us)" "us_spaces us ! i = Some sp"
  shows "us_roots (us\<lparr>us_spaces := (us_spaces us)[i := None]\<rparr>) = us_roots us - {sp_root sp}"
    "us_roots (us\<lparr>us_spaces := (us_spaces us)[i := Some (sp\<lparr>sp_references := k\<rparr>)]\<rparr>) = us_roots us"
    "unique_keys sp_root ((us_spaces us)[i := Some (sp\<lparr>sp_references := k\<rparr>)])"
proof -
  have "Some sp \<in> set (us_spaces us)" using assms(2,3) by (metis nth_mem)
  then show "us_roots (us\<lparr>us_spaces := (us_spaces us)[i := None]\<rparr>) = us_roots us - {sp_root sp}"
    "us_roots (us\<lparr>us_spaces := (us_spaces us)[i := Some (sp\<lparr>sp_references := k\<rparr>)]\<rparr>) = us_roots us"
    unfolding set_eq_iff Diff_iff us_roots_iff by (auto simp: Some_in_replaced [OF assms] ex_disj_distrib conj_disj_distribR)
  show "unique_keys sp_root ((us_spaces us)[i := Some (sp\<lparr>sp_references := k\<rparr>)])"
    by (rule unique_keys_update_same [OF assms]) simp
qed

lemma held_records_kernel:
  assumes "held_records R us" "heap_backed R' n km" "heap_block km = heap_block (us_kernel us)" "R \<subseteq> R'"
  shows "held_records R' (us\<lparr>us_kernel := km\<rparr>)"
  using assms by (auto simp: held_records_def user_records_def user_record_def)

lemma us_create_ok:
  assumes ok: "us_ok us" and call: "us_create_user_address_space us owner = (us', res)"
  shows "us_ok us'" "us_mappings us' = us_mappings us" "km_bytes (us_kernel us') = km_bytes (us_kernel us)"
    "heap_block (us_kernel us') = heap_block (us_kernel us)"
    "res = Inr root \<Longrightarrow> us_roots us' = insert root (us_roots us) \<and> root \<notin> us_roots us \<and> root \<noteq> 0"
proof -
  have held: "held_records (us_roots us) us" and uq: "unique_keys sp_root (us_spaces us)" using ok by (simp_all add: us_ok_iff)
  obtain n where n: "heap_backed (us_roots us) n (us_kernel us)" using us_okD(1) [OF ok] ..
  obtain pg made where c: "create_user_address_space (us_paging us) = (pg, made)" by force
  note cb = create_backed [OF n c]
  have "us_ok us' \<and> us_mappings us' = us_mappings us \<and> km_bytes (us_kernel us') = km_bytes (us_kernel us) \<and>
    heap_block (us_kernel us') = heap_block (us_kernel us) \<and>
    (res = Inr root \<longrightarrow> us_roots us' = insert root (us_roots us) \<and> root \<notin> us_roots us \<and> root \<noteq> 0)"
  proof (cases made)
    case (Inl e)
    then show ?thesis using call cb ok c by (auto simp: us_create_user_address_space_def)
  next
    case (Inr new)
    note cb = cb [unfolded Inr, simplified]
    show ?thesis
    proof (cases "free_slot (us_spaces us)")
      case None
      have "heap_backed (us_roots us) n ((us_kernel us)\<lparr>km_paging := destroy_user_address_space pg new\<rparr>)"
        using destroy_backed [OF conjunct1 [OF cb], of new] cb by simp
      then show ?thesis
        using call us_ok_kernel [OF ok] by (auto simp: us_create_user_address_space_def c Inr None)
    next
      case (Some i)
      let ?sp = "\<lparr>sp_owner = owner, sp_root = new, sp_references = 1\<rparr>"
      have us': "us' = us_set_paging pg us\<lparr>us_spaces := (us_spaces us)[i := Some ?sp]\<rparr>" and res: "res = Inr new"
        using call by (simp_all add: us_create_user_address_space_def c Inr Some)
      have "slot_lookup sp_root (us_spaces us) (sp_root ?sp) = None" using cb by (auto simp: us_roots_def slot_lookup_None_iff)
      from slot_lookup_insert(2) [OF uq Some this] have "unique_keys sp_root (us_spaces us')" by (simp add: us')
      moreover have roots: "us_roots us' = insert new (us_roots us)"
        unfolding us' set_eq_iff insert_iff us_roots_iff by (auto simp: Some_in_set_insert [OF Some])
      moreover have "held_records (insert new (us_roots us)) us'"
        using held_records_kernel [OF held conjunct1 [OF cb]] by (auto simp: us' held_records_def)
      ultimately have "us_ok us'" by (simp add: us_ok_iff)
      moreover have "us_mappings us' = us_mappings us \<and> km_bytes (us_kernel us') = km_bytes (us_kernel us) \<and>
          heap_block (us_kernel us') = heap_block (us_kernel us)" by (simp add: us')
      ultimately show ?thesis using cb res roots by auto
    qed
  qed
  then show "us_ok us'" "us_mappings us' = us_mappings us" "km_bytes (us_kernel us') = km_bytes (us_kernel us)"
    "heap_block (us_kernel us') = heap_block (us_kernel us)"
    "res = Inr root \<Longrightarrow> us_roots us' = insert root (us_roots us) \<and> root \<notin> us_roots us \<and> root \<noteq> 0" by blast+
qed

lemma references_ok:
  assumes ok: "us_ok us" and sp: "i < length (us_spaces us)" "us_spaces us ! i = Some sp"
  shows "us_ok (us\<lparr>us_spaces := (us_spaces us)[i := Some (sp\<lparr>sp_references := k\<rparr>)]\<rparr>)"
  using us_roots_remove(2,3) [OF us_okD(2) [OF ok] sp, of k] ok by (simp add: us_ok_iff held_records_def)

lemma us_share_ok:
  assumes ok: "us_ok us" and call: "share_user_address_space us root = (us', res)"
  shows "us_ok us'" "us_roots us' = us_roots us" "us_mappings us' = us_mappings us" "us_kernel us' = us_kernel us"
proof -
  have "us_ok us' \<and> us_roots us' = us_roots us \<and> us_mappings us' = us_mappings us \<and> us_kernel us' = us_kernel us"
  proof (cases "root = 0 \<or> find_slot (\<lambda>sp. sp_root sp = root) (us_spaces us) = None")
    case True
    then show ?thesis using call ok by (auto simp: share_user_address_space_def split: if_splits)
  next
    case False
    then obtain i where f: "find_slot (\<lambda>sp. sp_root sp = root) (us_spaces us) = Some i" and "root \<noteq> 0" by auto
    then obtain sp where sp: "i < length (us_spaces us)" "us_spaces us ! i = Some sp" by (metis find_slot_SomeE)
    let ?us = "us\<lparr>us_spaces := (us_spaces us)[i := Some (sp\<lparr>sp_references := min (sp_references sp + 1) (2 ^ 64 - 1)\<rparr>)]\<rparr>"
    have us': "us' = ?us" using call f sp(2) \<open>root \<noteq> 0\<close> by (simp add: share_user_address_space_def)
    note rr = us_roots_remove(2,3) [OF us_okD(2) [OF ok] sp, of "min (sp_references sp + 1) (2 ^ 64 - 1)"]
    have "us_ok ?us" by (rule references_ok [OF ok sp])
    then show ?thesis unfolding us' using rr(1) by simp
  qed
  then show "us_ok us'" "us_roots us' = us_roots us" "us_mappings us' = us_mappings us" "us_kernel us' = us_kernel us" by blast+
qed

lemma release_mappings_ok:
  assumes "us_ok us"
  shows "us_ok (release_mappings us root)"
  using assms release_mappings_held [of "us_roots us" us root] by (simp add: us_ok_iff) (simp add: us_roots_def)

lemma drop_space_ok:
  assumes ok: "us_ok us" and sp: "i < length (us_spaces us)" "us_spaces us ! i = Some sp" "sp_root sp = root"
    and rel: "us1 = release_mappings (us\<lparr>us_spaces := (us_spaces us)[i := None]\<rparr>) root"
  shows "us_ok (us_set_paging (destroy_user_address_space (us_paging us1) root) us1)"
proof -
  let ?us = "us\<lparr>us_spaces := (us_spaces us)[i := None]\<rparr>"
  note rr = us_roots_remove(1) [OF us_okD(2) [OF ok] sp(1,2), unfolded sp(3)]
  have "held_records (us_roots us) ?us" using ok by (simp add: us_ok_iff held_records_def)
  note rel = release_mappings_held [OF this, of root, folded rel]
  have root: "root \<in> us_roots us" using sp nth_mem by (fastforce simp: us_roots_iff)
  obtain n where n: "heap_backed (us_roots us) n (us_kernel us1)" and u: "user_records (heap_block (us_kernel us1)) (us_roots us) (us_mappings us1)"
    using rel(1) by (auto simp: held_records_def)
  have "user_records (heap_block (us_kernel us1)) (us_roots us - {root}) (us_mappings us1)"
    using u by (auto simp: user_records_def user_record_def rel(3))
  moreover have "us_roots (us_set_paging pg us1) = us_roots us - {root}" for pg using rr rel(2) by (simp add: us_roots_def)
  moreover have "unique_keys sp_root (us_spaces us1)" using us_okD(2) [OF ok] rel(2) by auto
  ultimately show ?thesis using destroy_backed [OF n root] by (auto simp: us_ok_def)
qed

lemma us_destroy_ok:
  assumes ok: "us_ok us"
  shows "us_ok (us_destroy_user_address_space us root)"
proof (cases "root = 0 \<or> find_slot (\<lambda>sp. sp_root sp = root) (us_spaces us) = None")
  case True
  then show ?thesis using ok release_mappings_ok [OF ok] by (auto simp: us_destroy_user_address_space_def)
next
  case False
  then obtain i where f: "find_slot (\<lambda>sp. sp_root sp = root) (us_spaces us) = Some i" and "root \<noteq> 0" by auto
  from f obtain sp where sp: "i < length (us_spaces us)" "us_spaces us ! i = Some sp" "sp_root sp = root" by (rule find_slot_SomeE)
  note call = us_destroy_user_address_space_def [of us root, unfolded f if_not_P [OF \<open>root \<noteq> 0\<close>] option.case sp(2)]
  show ?thesis
  proof (cases "sp_references sp > 1")
    case True
    then show ?thesis unfolding call if_P [OF True] by (intro references_ok [OF ok sp(1,2)])
  next
    case False
    show ?thesis unfolding call if_not_P [OF False] Let_def by (rule drop_space_ok [OF ok sp refl])
  qed
qed

section \<open>What a user range reads\<close>

text \<open>The records of a root in the order in which the kernel searches them.\<close>

definition user_ranges :: "UserMemory \<Rightarrow> u64 \<Rightarrow> UserMappingRecord list" where
  "user_ranges us root = filter (\<lambda>m. um_root m = root) (slot_values (us_mappings us))"

lemma find_slot_find: "(case find_slot P xs of None \<Rightarrow> None | Some i \<Rightarrow> xs ! i) = find P (slot_values xs)"
  by (induction xs) (auto split: option.splits)

lemma find_filter: "(\<And>x. P x \<Longrightarrow> Q x) \<Longrightarrow> find P (filter Q xs) = find P xs"
  by (induction xs) auto

lemma active_slice_find:
  "0 < len \<Longrightarrow> active_translated_slice us root ptr len w =
     (case find (\<lambda>m. um_contains m root ptr len w) (user_ranges us root) of
        None \<Rightarrow> None
      | Some m \<Rightarrow> (let a = um_kernel_start m + unat (saturating_sub ptr (um_user_start m)) in if a = 0 then None else Some a))"
proof -
  assume "0 < len"
  have "find (\<lambda>m. um_contains m root ptr len w) (user_ranges us root) =
      (case find_slot (\<lambda>m. um_contains m root ptr len w) (us_mappings us) of None \<Rightarrow> None | Some i \<Rightarrow> us_mappings us ! i)"
    unfolding find_slot_find user_ranges_def by (rule find_filter) (auto simp: um_contains_def split: if_splits)
  then show ?thesis using \<open>0 < len\<close> by (auto simp: active_translated_slice_def split: option.splits)
qed

text \<open>A range that a record contains lies inside its block.\<close>

lemma um_contains_bounds:
  assumes "um_contains m root ptr len w" "len < 2 ^ 64" "unat (um_user_start m) + um_length m \<le> 2 ^ 47"
  shows "unat (um_user_start m) \<le> unat ptr" "unat ptr + len \<le> unat (um_user_start m) + um_length m" "um_root m = root"
    "w \<longrightarrow> prot_write (um_protection m)" "unat (saturating_sub ptr (um_user_start m)) = unat ptr - unat (um_user_start m)"
proof -
  obtain stop where c: "checked_add64 ptr (word_of_nat len) = Some stop" "um_user_start m \<le> ptr"
    "stop \<le> saturating_add (um_user_start m) (word_of_nat (um_length m))" "um_root m = root" "w \<longrightarrow> prot_write (um_protection m)"
    using assms(1) by (auto simp: um_contains_def split: if_splits option.splits)
  have l: "unat (word_of_nat len :: u64) = len" using assms(2) by (simp only: unat_of_nat) simp
  have "unat (word_of_nat (um_length m) :: u64) = um_length m" using assms(3) by (simp only: unat_of_nat) simp
  then have "unat (saturating_add (um_user_start m) (word_of_nat (um_length m))) = unat (um_user_start m) + um_length m"
    using assms(3) by (simp add: unat_saturating_add)
  then show "unat ptr + len \<le> unat (um_user_start m) + um_length m" using c(1,3) l by (simp add: checked_add64_Some word_le_nat_alt)
  show "unat (um_user_start m) \<le> unat ptr" using c(2) by (simp add: word_le_nat_alt)
  then show "unat (saturating_sub ptr (um_user_start m)) = unat ptr - unat (um_user_start m)" by (simp add: unat_saturating_sub)
qed (use assms(1) in \<open>auto simp: um_contains_def split: if_splits\<close>)

lemma user_ranges_record: "us_ok us \<Longrightarrow> m \<in> set (user_ranges us root) \<Longrightarrow> user_record (heap_block (us_kernel us)) (us_roots us) m \<and> um_root m = root"
  using us_okD(3) [of us] by (auto simp: user_ranges_def user_records_def)

lemma user_slice:
  assumes ok: "us_ok us" and len: "0 < len" "len < 2 ^ 64"
    and found: "active_translated_slice us root ptr len w = Some a"
  obtains m where "m \<in> set (user_ranges us root)" "find (\<lambda>m. um_contains m root ptr len w) (user_ranges us root) = Some m"
    "um_contains m root ptr len w" "user_record (heap_block (us_kernel us)) (us_roots us) m" "unat (um_user_start m) \<le> unat ptr"
    "a = um_kernel_start m + (unat ptr - unat (um_user_start m))" "a + len \<le> um_kernel_start m + um_length m"
proof -
  obtain m where m: "find (\<lambda>m. um_contains m root ptr len w) (user_ranges us root) = Some m"
    "a = um_kernel_start m + unat (saturating_sub ptr (um_user_start m))"
    using found by (auto simp: active_slice_find [OF len(1)] Let_def split: option.splits if_splits)
  then have mem: "m \<in> set (user_ranges us root)" "um_contains m root ptr len w" by (auto simp: find_Some_iff)
  note rec = conjunct1 [OF user_ranges_record [OF ok mem(1)]]
  have "unat (um_user_start m) + um_length m \<le> 2 ^ 47" using rec by (simp add: user_record_def)
  note b = um_contains_bounds [OF mem(2) len(2) this]
  show thesis using that [OF mem(1) m(1) mem(2) rec b(1)] m(2) b(2,5) b(1) by simp
qed

text \<open>Ranges of different roots never share a byte.\<close>

lemma user_ranges_disjoint:
  assumes ok: "us_ok us" and m: "m \<in> set (user_ranges us root)" "m' \<in> set (user_ranges us root')" "m \<noteq> m'"
  shows "{um_kernel_start m..<um_kernel_start m + um_length m} \<inter> {um_kernel_start m'..<um_kernel_start m' + um_length m'} = {}"
proof -
  have "Some m \<in> set (us_mappings us)" "Some m' \<in> set (us_mappings us)" using m by (auto simp: user_ranges_def)
  then have ne: "um_kernel_start m \<noteq> um_kernel_start m'"
    using us_okD(3) [OF ok] m(3) unique_keys_values_eq [of um_kernel_start "us_mappings us" m m'] by (auto simp: user_records_def)
  obtain r r' where "heap_block (us_kernel us) (um_kernel_start m) = Some r" "ar_size r = um_length m"
    "heap_block (us_kernel us) (um_kernel_start m') = Some r'" "ar_size r' = um_length m'"
    using user_ranges_record [OF ok m(1)] user_ranges_record [OF ok m(2)] by (auto simp: user_record_def)
  then show ?thesis using heap_blocks_disjoint [OF us_okD(4) [OF ok] _ _ ne] by metis
qed

lemma copy_to_user_eq:
  "copy_to_user us root ptr xs = (us', ok) \<Longrightarrow>
     us' = us \<and> \<not> ok \<or>
     (\<exists>a. active_translated_slice us root ptr (length xs) True = Some a \<and> ok \<and>
        us' = us\<lparr>us_kernel := (us_kernel us)\<lparr>km_bytes := \<lambda>b. if a \<le> b \<and> b < a + length xs then xs ! (b - a) else km_bytes (us_kernel us) b\<rparr>\<rparr>)"
  by (auto simp: copy_to_user_def split: option.splits)

lemma active_slice_bytes [simp]:
  "active_translated_slice (us\<lparr>us_kernel := km\<rparr>) = active_translated_slice us"
  by (simp add: active_translated_slice_def fun_eq_iff cong: option.case_cong)

lemma copy_to_user_ok:
  assumes "us_ok us" "copy_to_user us root ptr xs = (us', res)"
  shows "us_ok us'"
  using copy_to_user_eq [OF assms(2)] assms(1) by (auto simp: us_ok_def us_roots_def)

text \<open>A write changes what a range reads only if the two overlap.\<close>

lemma copy_from_user_frame:
  assumes ok: "us_ok us" and w: "copy_to_user us root ptr xs = (us', res)" "length xs < 2 ^ 64" and n: "n < 2 ^ 64"
    and sep: "\<And>a b. 0 < n \<Longrightarrow> xs \<noteq> [] \<Longrightarrow> active_translated_slice us root ptr (length xs) True = Some a \<Longrightarrow> active_translated_slice us root' q n False = Some b \<Longrightarrow>
      {a..<a + length xs} \<inter> {b..<b + n} = {}"
  shows "copy_from_user us' root' q n = copy_from_user us root' q n"
proof (cases "active_translated_slice us root' q n False")
  case (Some b)
  have "km_bytes (us_kernel us') (b + i) = km_bytes (us_kernel us) (b + i)" if "i < n" for i
  proof (rule disjE [OF copy_to_user_eq [OF w(1)]])
    assume "\<exists>a. active_translated_slice us root ptr (length xs) True = Some a \<and> res \<and>
        us' = us\<lparr>us_kernel := (us_kernel us)\<lparr>km_bytes := \<lambda>b. if a \<le> b \<and> b < a + length xs then xs ! (b - a) else km_bytes (us_kernel us) b\<rparr>\<rparr>"
    then obtain a where a: "active_translated_slice us root ptr (length xs) True = Some a"
      "us' = us\<lparr>us_kernel := (us_kernel us)\<lparr>km_bytes := \<lambda>b. if a \<le> b \<and> b < a + length xs then xs ! (b - a) else km_bytes (us_kernel us) b\<rparr>\<rparr>" by blast
    have "b + i \<in> {b..<b + n}" using that by simp
    then have "\<not> (a \<le> b + i \<and> b + i < a + length xs)" using sep [OF _ _ a(1) Some] that by fastforce
    then show ?thesis by (auto simp: a(2))
  qed simp
  moreover have "active_translated_slice us' root' q n False = Some b" using copy_to_user_eq [OF w(1)] Some by auto
  ultimately show ?thesis using Some by (simp add: copy_from_user_def)
qed (use copy_to_user_eq [OF w(1)] in \<open>auto simp: copy_from_user_def\<close>)

text \<open>
  Reads and writes go to the first record that covers the range and, for a write, is writable. A write
  is out of sight when the first record that covers its range is read-only.
\<close>

definition read_only_first :: "UserMemory \<Rightarrow> u64 \<Rightarrow> u64 \<Rightarrow> nat \<Rightarrow> bool" where
  "read_only_first us root ptr len \<longleftrightarrow>
     (case find (\<lambda>m. um_contains m root ptr len False) (user_ranges us root) of
        None \<Rightarrow> False
      | Some m \<Rightarrow> \<not> prot_write (um_protection m))"

lemma find_stronger:
  assumes "find Q xs = Some x" and "P x" and "\<And>y. P y \<Longrightarrow> Q y"
  shows "find P xs = Some x"
  using assms by (induction xs) (auto split: if_splits)

lemma um_contains_write: "um_contains m root ptr len True \<longleftrightarrow> um_contains m root ptr len False \<and> prot_write (um_protection m)"
  by (auto simp: um_contains_def split: if_splits)

lemma user_slice_range:
  assumes "us_ok us" "0 < len" "len < 2 ^ 64" "active_translated_slice us root ptr len w = Some a"
  obtains m where "m \<in> set (user_ranges us root)" "find (\<lambda>m. um_contains m root ptr len w) (user_ranges us root) = Some m"
    "um_contains m root ptr len w" "{a..<a + len} \<subseteq> {um_kernel_start m..<um_kernel_start m + um_length m}"
proof (rule user_slice [OF assms])
  fix m
  assume m: "m \<in> set (user_ranges us root)" "find (\<lambda>m. um_contains m root ptr len w) (user_ranges us root) = Some m"
    "um_contains m root ptr len w" "a = um_kernel_start m + (unat ptr - unat (um_user_start m))" "a + len \<le> um_kernel_start m + um_length m"
  show thesis by (rule that [OF m(1-3)]) (use m(4,5) in auto)
qed

lemma read_back:
  assumes ok: "us_ok us" and len: "length xs < 2 ^ 64" and w: "copy_to_user us root ptr xs = (us', True)"
  shows "copy_from_user us' root ptr (length xs) =
    (if read_only_first us root ptr (length xs) then copy_from_user us root ptr (length xs) else Some xs)"
proof (cases "xs = []")
  case False
  let ?find = "\<lambda>w. find (\<lambda>m. um_contains m root ptr (length xs) w) (user_ranges us root)"
  have pos: "0 < length xs" using False by simp
  obtain a where a: "active_translated_slice us root ptr (length xs) True = Some a"
    "us' = us\<lparr>us_kernel := (us_kernel us)\<lparr>km_bytes := \<lambda>b. if a \<le> b \<and> b < a + length xs then xs ! (b - a) else km_bytes (us_kernel us) b\<rparr>\<rparr>"
    using copy_to_user_eq [OF w] by auto
  obtain m where m: "m \<in> set (user_ranges us root)" "?find True = Some m" "um_contains m root ptr (length xs) True"
    "{a..<a + length xs} \<subseteq> {um_kernel_start m..<um_kernel_start m + um_length m}"
    by (rule user_slice_range [OF ok pos len a(1)])
  obtain m' where m': "?find False = Some m'"
    using m(1,3) by (cases "?find False") (auto simp: um_contains_write find_None_iff)
  show ?thesis
  proof (cases "prot_write (um_protection m')")
    case True
    have "um_contains m' root ptr (length xs) True" using m' True by (auto simp: um_contains_write find_Some_iff)
    then have "?find True = Some m'" by (intro find_stronger [OF m']) (auto simp: um_contains_write)
    then have "active_translated_slice us root ptr (length xs) False = Some a" using m' a(1) by (simp add: active_slice_find [OF pos])
    then show ?thesis using m' True unfolding a(2) by (auto simp: copy_from_user_def read_only_first_def intro!: nth_equalityI)
  next
    case False
    then have ne: "m \<noteq> m'" using m(3) by (auto simp: um_contains_write)
    have "{a..<a + length xs} \<inter> {b..<b + length xs} = {}" if b: "active_translated_slice us root ptr (length xs) False = Some b" for b
    proof -
      obtain m2 where m2: "m2 \<in> set (user_ranges us root)" "?find False = Some m2"
        "{b..<b + length xs} \<subseteq> {um_kernel_start m2..<um_kernel_start m2 + um_length m2}"
        by (rule user_slice_range [OF ok pos len b])
      have "m2 = m'" using m2(2) m' by simp
      then have "{um_kernel_start m..<um_kernel_start m + um_length m} \<inter> {um_kernel_start m2..<um_kernel_start m2 + um_length m2} = {}"
        using user_ranges_disjoint [OF ok m(1) m2(1)] ne by simp
      then show ?thesis using m(4) m2(3) by blast
    qed
    then have "copy_from_user us' root ptr (length xs) = copy_from_user us root ptr (length xs)"
      by (intro copy_from_user_frame [OF ok w len len]) (simp add: a(1))
    then show ?thesis using m' False by (simp add: read_only_first_def)
  qed
qed (simp add: copy_from_user_def active_translated_slice_def)

lemma disjoint_ranges_bytes:
  assumes ok: "us_ok us" and len: "0 < len" "len < 2 ^ 64" "0 < n" "n < 2 ^ 64"
    and sl: "active_translated_slice us root ptr len w = Some a" "active_translated_slice us root' q n w' = Some b"
    and apart: "root = root' \<Longrightarrow> unat ptr + len \<le> unat q \<or> unat q + n \<le> unat ptr"
  shows "{a..<a + len} \<inter> {b..<b + n} = {}"
proof -
  obtain m where m: "m \<in> set (user_ranges us root)" "unat (um_user_start m) \<le> unat ptr"
    "a = um_kernel_start m + (unat ptr - unat (um_user_start m))" "a + len \<le> um_kernel_start m + um_length m" "um_root m = root"
    using user_slice [OF ok len(1,2) sl(1)] user_ranges_record [OF ok] by metis
  obtain m' where m': "m' \<in> set (user_ranges us root')" "unat (um_user_start m') \<le> unat q"
    "b = um_kernel_start m' + (unat q - unat (um_user_start m'))" "b + n \<le> um_kernel_start m' + um_length m'" "um_root m' = root'"
    using user_slice [OF ok len(3,4) sl(2)] user_ranges_record [OF ok] by metis
  show ?thesis
  proof (cases "m = m'")
    case True
    then have "unat ptr + len \<le> unat q \<or> unat q + n \<le> unat ptr" using apart m(5) m'(5) by simp
    then have "a + len \<le> b \<or> b + n \<le> a" using m(2,3) m'(2,3) unfolding True by linarith
    then show ?thesis by (auto simp: disjoint_iff)
  next
    case False
    from user_ranges_disjoint [OF ok m(1) m'(1) this] show ?thesis using m(3,4) m'(3,4) by (fastforce simp: disjoint_iff)
  qed
qed

section \<open>Cloning\<close>

text \<open>Two records are copies when they cover the same user range with the same protection and the same bytes.\<close>

definition copied :: "(nat \<Rightarrow> u8) \<Rightarrow> (nat \<Rightarrow> u8) \<Rightarrow> UserMappingRecord \<Rightarrow> UserMappingRecord \<Rightarrow> bool" where
  "copied f f' m m' \<longleftrightarrow>
     um_user_start m' = um_user_start m \<and> um_length m' = um_length m \<and> um_protection m' = um_protection m \<and>
     (\<forall>i < um_length m. f' (um_kernel_start m' + i) = f (um_kernel_start m + i))"

lemma copied_find:
  assumes "list_all2 (copied f f') ms ms'" "\<forall>m \<in> set ms. um_root m = root" "\<forall>m \<in> set ms'. um_root m = root'"
  shows "rel_option (copied f f') (find (\<lambda>m. um_contains m root ptr len w) ms) (find (\<lambda>m. um_contains m root' ptr len w) ms')"
  using assms
proof (induction rule: list_all2_induct)
  case (Cons m ms m' ms')
  then have "um_contains m' root' ptr len w = um_contains m root ptr len w" by (simp add: um_contains_def copied_def split: option.split)
  then show ?case using Cons by simp
qed simp

lemma record_nonzero:
  assumes ok: "us_ok us" and m: "user_record (heap_block (us_kernel us)) R m"
  shows "um_kernel_start m \<noteq> 0"
proof -
  obtain n where n: "heap_backed (us_roots us) n (us_kernel us)" using us_okD(1) [OF ok] ..
  obtain r where "heap_block (us_kernel us) (um_kernel_start m) = Some r" using m by (auto simp: user_record_def)
  from heap_blockD(2) [OF us_okD(4) [OF ok] this] heap_base [OF n] show ?thesis by (simp add: heap_constants)
qed

lemma user_slice_iff:
  assumes ok: "us_ok us" and len: "0 < len" "len < 2 ^ 64"
  shows "active_translated_slice us root ptr len w =
    map_option (\<lambda>m. um_kernel_start m + (unat ptr - unat (um_user_start m))) (find (\<lambda>m. um_contains m root ptr len w) (user_ranges us root))"
proof (cases "find (\<lambda>m. um_contains m root ptr len w) (user_ranges us root)")
  case None
  then show ?thesis by (simp add: active_slice_find [OF len(1)])
next
  case (Some m)
  then have "m \<in> set (user_ranges us root)" "um_contains m root ptr len w" by (auto simp: find_Some_iff)
  moreover from user_ranges_record [OF ok this(1)] have r: "user_record (heap_block (us_kernel us)) (us_roots us) m" by blast
  ultimately show ?thesis
    using Some record_nonzero [OF ok r] um_contains_bounds(5) [OF _ len(2)] by (simp add: active_slice_find [OF len(1)] user_record_def)
qed

lemma copied_reads:
  assumes ok: "us_ok us" "us_ok us'" and n: "n < 2 ^ 64"
    and c: "list_all2 (copied (km_bytes (us_kernel us)) (km_bytes (us_kernel us'))) (user_ranges us root) (user_ranges us' root')"
  shows "copy_from_user us' root' q n = copy_from_user us root q n"
proof (cases "n = 0")
  case True
  then show ?thesis by (simp add: copy_from_user_def active_translated_slice_def)
next
  case False
  then have pos: "0 < n" by simp
  let ?find = "\<lambda>us root. find (\<lambda>m. um_contains m root q n False) (user_ranges us root)"
  have rel: "rel_option (copied (km_bytes (us_kernel us)) (km_bytes (us_kernel us'))) (?find us root) (?find us' root')"
    by (rule copied_find [OF c]) (simp_all add: user_ranges_def)
  show ?thesis
  proof (cases "?find us root")
    case None
    then show ?thesis using rel by (simp add: copy_from_user_def user_slice_iff [OF ok(1) pos n] user_slice_iff [OF ok(2) pos n])
  next
    case (Some m)
    then obtain m' where m': "?find us' root' = Some m'" "copied (km_bytes (us_kernel us)) (km_bytes (us_kernel us')) m m'"
      using rel by (auto simp: option_rel_Some1)
    let ?d = "unat q - unat (um_user_start m)"
    have mem: "m \<in> set (user_ranges us root)" "um_contains m root q n False" using Some by (auto simp: find_Some_iff)
    have "unat (um_user_start m) + um_length m \<le> 2 ^ 47" using user_ranges_record [OF ok(1) mem(1)] by (simp add: user_record_def)
    from um_contains_bounds(1,2) [OF mem(2) n this] have "?d + i < um_length m" if "i < n" for i using that by linarith
    then have "km_bytes (us_kernel us') (um_kernel_start m' + ?d + i) = km_bytes (us_kernel us) (um_kernel_start m + ?d + i)" if "i < n" for i
      using m'(2) that by (simp add: copied_def add.assoc)
    moreover have "um_user_start m' = um_user_start m" using m'(2) by (simp add: copied_def)
    ultimately show ?thesis
      using Some m'(1) by (simp add: copy_from_user_def user_slice_iff [OF ok(1) pos n] user_slice_iff [OF ok(2) pos n])
  qed
qed

text \<open>Entries placed in the first free slot stay in the order in which they are placed.\<close>

definition in_front :: "('a \<Rightarrow> bool) \<Rightarrow> 'a slots \<Rightarrow> bool" where
  "in_front P xs \<longleftrightarrow> (\<exists>pre post. xs = map Some pre @ post \<and> filter P (slot_values post) = [])"

lemma in_front_insert:
  assumes f: "in_front P xs" and i: "free_slot xs = Some i"
  shows "P a \<Longrightarrow> filter P (slot_values (xs[i := Some a])) = filter P (slot_values xs) @ [a]"
    "P a \<Longrightarrow> in_front P (xs[i := Some a])"
    "\<not> Q a \<Longrightarrow> filter Q (slot_values (xs[i := Some a])) = filter Q (slot_values xs)"
proof -
  obtain pre post where xs: "xs = map Some pre @ post" "filter P (slot_values post) = []" using f by (auto simp: in_front_def)
  note d = free_slot_SomeD [OF i]
  have "None \<notin> set (take i xs)" using d(3) by (fastforce simp: in_set_conv_nth)
  then obtain full where full: "take i xs = map Some full" by (metis ex_map_conv not_None_eq)
  have split: "xs = map Some full @ None # drop (Suc i) xs" using id_take_nth_drop [OF d(1)] d(2) full by simp
  have len: "length (map Some full) = i" using full d(1) by (metis length_take min.absorb2 less_imp_le)
  have upd: "xs[i := Some a] = map Some (full @ [a]) @ drop (Suc i) xs"
    using list_update_length [of "map Some full" None "drop (Suc i) xs" "Some a"] by (simp only: len split [symmetric]) simp
  have "length pre \<le> i" using d(2) xs(1) by (metis length_map not_le nth_append nth_map option.distinct(1))
  then have "drop (Suc i) xs = drop (Suc i - length pre) post" using xs(1) by simp
  then obtain front where "post = front @ drop (Suc i) xs" by (metis append_take_drop_id)
  then have none: "filter P (slot_values (drop (Suc i) xs)) = []" using xs(2) by (metis append_is_Nil_conv filter_append slot_values_simps(4))
  have vals: "slot_values (map Some ys @ zs) = ys @ slot_values zs" for ys :: "'a list" and zs by (induction ys) simp_all
  have old: "slot_values xs = full @ slot_values (drop (Suc i) xs)" by (subst split) (simp only: vals, simp)
  show "P a \<Longrightarrow> filter P (slot_values (xs[i := Some a])) = filter P (slot_values xs) @ [a]"
    "\<not> Q a \<Longrightarrow> filter Q (slot_values (xs[i := Some a])) = filter Q (slot_values xs)"
    unfolding upd vals old by (simp_all add: none)
  show "P a \<Longrightarrow> in_front P (xs[i := Some a])" unfolding in_front_def using upd none by blast
qed

lemma aligned_length: "n mod 4096 = 0 \<Longrightarrow> n \<le> 2 ^ 47 \<Longrightarrow> unat (align_up_u64 (word_of_nat n)) = n"
proof -
  assume n: "n mod 4096 = 0" "n \<le> 2 ^ 47"
  then obtain k where k: "n = 4096 * k" by fastforce
  have "unat (word_of_nat n :: u64) = n" using n(2) by (simp only: unat_of_nat) simp
  then show ?thesis using n(2) k by (simp add: unat_align_up)
qed

lemma record_bytes_apart:
  assumes ok: "us_ok us" and m: "Some m \<in> set (us_mappings us)" "Some m' \<in> set (us_mappings us)" "um_kernel_start m \<noteq> um_kernel_start m'"
    and i: "i < um_length m"
  shows "\<not> (um_kernel_start m' \<le> um_kernel_start m + i \<and> um_kernel_start m + i < um_kernel_start m' + um_length m')"
proof -
  have "m \<in> set (user_ranges us (um_root m))" "m' \<in> set (user_ranges us (um_root m'))" using m by (auto simp: user_ranges_def)
  moreover have "m \<noteq> m'" using m(3) by auto
  ultimately have "{um_kernel_start m..<um_kernel_start m + um_length m} \<inter> {um_kernel_start m'..<um_kernel_start m' + um_length m'} = {}"
    by (rule user_ranges_disjoint [OF ok])
  moreover have "um_kernel_start m + i \<in> {um_kernel_start m..<um_kernel_start m + um_length m}" using i by simp
  ultimately show ?thesis by (auto simp: disjoint_iff)
qed

text \<open>One mapping of the parent is mapped and copied.\<close>

definition cloned :: "u64 \<Rightarrow> UserMemory \<Rightarrow> UserMappingRecord list \<Rightarrow> UserMemory \<Rightarrow> bool" where
  "cloned child us ms us' \<longleftrightarrow>
     us_ok us' \<and> us_roots us' = us_roots us \<and> in_front (\<lambda>m. um_root m = child) (us_mappings us') \<and>
     (\<forall>r. r \<noteq> child \<longrightarrow> user_ranges us' r = user_ranges us r) \<and> set (us_mappings us) \<subseteq> insert None (set (us_mappings us')) \<and>
     (\<forall>m i. Some m \<in> set (us_mappings us) \<longrightarrow> i < um_length m \<longrightarrow>
        km_bytes (us_kernel us') (um_kernel_start m + i) = km_bytes (us_kernel us) (um_kernel_start m + i)) \<and>
     (\<exists>new. user_ranges us' child = user_ranges us child @ new \<and> list_all2 (copied (km_bytes (us_kernel us)) (km_bytes (us_kernel us'))) ms new)"

lemma clone_one:
  assumes ok: "us_ok us" and child: "child \<in> us_roots us" and front: "in_front (\<lambda>m. um_root m = child) (us_mappings us)"
    and m: "Some m \<in> set (us_mappings us)"
    and call: "mmap_user_fixed us owner child (um_user_start m) (um_length m) (um_protection m) = (us1, Inr mr)"
  shows "cloned child us [m] (us1\<lparr>us_kernel := copy_bytes (us_kernel us1) (um_kernel_start m) (mr_ptr mr) (um_length m)\<rparr>)"
    (is "cloned _ _ _ ?us2")
  using ok child
proof (cases rule: mmap_user_fixed_cases [where owner = owner and va = "um_user_start m" and len = "um_length m" and prot = "um_protection m", case_names fail mapped])
  case (fail km)
  then show ?thesis using call by simp
next
  case (mapped km pg r idx m')
  have rec: "user_record (heap_block (us_kernel us)) (us_roots us) m" using us_okD(3) [OF ok] m by (simp add: user_records_def)
  then have len: "um_length m' = um_length m" unfolding mapped(11) by (intro aligned_length) (auto simp: user_record_def)
  have us1: "us1 = us\<lparr>us_kernel := km\<lparr>km_paging := pg\<rparr>, us_mappings := (us_mappings us)[idx := Some m']\<rparr>" and ptr: "mr_ptr mr = um_kernel_start m'"
    using call mapped(1) by auto
  have ok1: "us_ok us1" using mapped(2) by (simp add: us1)
  then have ok2: "us_ok ?us2" by (simp add: us_ok_def us_roots_def heap_backed_bytes)
  have mem: "Some x \<in> set (us_mappings us1) \<longleftrightarrow> x = m' \<or> Some x \<in> set (us_mappings us)" for x
    by (simp add: us1 Some_in_set_insert [OF mapped(3)])
  have fresh: "um_kernel_start x \<noteq> um_kernel_start m'" if "Some x \<in> set (us_mappings us)" for x
    using us_okD(3) [OF ok] that mapped(4) by (auto simp: user_records_def user_record_def)
  have old: "km_bytes (us_kernel ?us2) (um_kernel_start x + i) = km_bytes (us_kernel us) (um_kernel_start x + i)"
    if "Some x \<in> set (us_mappings us)" "i < um_length x" for x i
    using record_bytes_apart [OF ok1, of x m' i] mem that fresh [OF that(1)] mapped(6) len by (auto simp: copy_bytes_def ptr us1)
  have "copied (km_bytes (us_kernel us)) (km_bytes (us_kernel ?us2)) m m'"
    using mapped(6,10,12) len by (simp add: copied_def copy_bytes_def ptr us1)
  moreover note ins = in_front_insert [OF front mapped(3), where a = m']
  have "user_ranges ?us2 child = user_ranges us child @ [m']" using ins(1) mapped(9) by (simp add: user_ranges_def us1)
  moreover have "user_ranges ?us2 r = user_ranges us r" if "r \<noteq> child" for r
    using ins(3) [where Q = "\<lambda>x. um_root x = r"] mapped(9) that by (simp add: user_ranges_def us1)
  moreover have "set (us_mappings us) \<subseteq> insert None (set (us_mappings ?us2))" using mem by (auto simp: us1) (metis not_None_eq)
  moreover have "in_front (\<lambda>m. um_root m = child) (us_mappings ?us2)" using ins(2) mapped(9) by (simp add: us1)
  moreover have "us_roots ?us2 = us_roots us" by (simp add: us1 us_roots_def)
  ultimately show ?thesis unfolding cloned_def using ok2 old by auto
qed

lemma copied_trans:
  assumes "list_all2 (copied f f1) ms ms'" and "\<And>m i. m \<in> set ms' \<Longrightarrow> i < um_length m \<Longrightarrow> f' (um_kernel_start m + i) = f1 (um_kernel_start m + i)"
  shows "list_all2 (copied f f') ms ms'"
  using assms(1) by (rule list.rel_mono_strong) (auto simp: copied_def assms(2))

lemma copied_source:
  assumes "list_all2 (copied f f1) ms ms'" and "\<And>m i. m \<in> set ms \<Longrightarrow> i < um_length m \<Longrightarrow> f (um_kernel_start m + i) = f' (um_kernel_start m + i)"
  shows "list_all2 (copied f' f1) ms ms'"
  using assms(1) by (rule list.rel_mono_strong) (auto simp: copied_def assms(2))

lemma cloned_trans:
  assumes 1: "cloned child us xs us1" and 2: "cloned child us1 ys us2" and ys: "\<And>m. m \<in> set ys \<Longrightarrow> Some m \<in> set (us_mappings us)"
  shows "cloned child us (xs @ ys) us2"
proof -
  let ?b = "\<lambda>us. km_bytes (us_kernel us)"
  obtain new1 where n1: "user_ranges us1 child = user_ranges us child @ new1" "list_all2 (copied (?b us) (?b us1)) xs new1"
    using 1 by (auto simp: cloned_def)
  obtain new2 where n2: "user_ranges us2 child = user_ranges us1 child @ new2" "list_all2 (copied (?b us1) (?b us2)) ys new2"
    using 2 by (auto simp: cloned_def)
  have keep: "Some m \<in> set (us_mappings us1)" if "Some m \<in> set (us_mappings us)" for m using 1 that by (auto simp: cloned_def)
  have b1: "?b us1 (um_kernel_start m + i) = ?b us (um_kernel_start m + i)" if "Some m \<in> set (us_mappings us)" "i < um_length m" for m i
    using 1 that by (simp add: cloned_def)
  have b2: "?b us2 (um_kernel_start m + i) = ?b us1 (um_kernel_start m + i)" if "Some m \<in> set (us_mappings us1)" "i < um_length m" for m i
    using 2 that by (simp add: cloned_def)
  have "Some m \<in> set (us_mappings us1)" if "m \<in> set new1" for m
  proof -
    have "m \<in> set (user_ranges us1 child)" using that n1(1) by simp
    then show ?thesis by (simp add: user_ranges_def)
  qed
  then have "list_all2 (copied (?b us) (?b us2)) xs new1" using copied_trans [OF n1(2)] b2 by blast
  moreover have "list_all2 (copied (?b us) (?b us2)) ys new2" using copied_source [OF n2(2)] b1 ys by blast
  ultimately have "list_all2 (copied (?b us) (?b us2)) (xs @ ys) (new1 @ new2)" by (rule list_all2_appendI)
  moreover have "user_ranges us2 child = user_ranges us child @ (new1 @ new2)" using n1(1) n2(1) by simp
  moreover have "set (us_mappings us) \<subseteq> insert None (set (us_mappings us2))" using 1 2 by (auto simp: cloned_def)
  ultimately show ?thesis unfolding cloned_def using 1 2 b1 b2 keep by (auto simp: cloned_def)
qed

lemma clone_mappings_cloned:
  assumes "us_ok us" "child \<in> us_roots us" "in_front (\<lambda>m. um_root m = child) (us_mappings us)"
    and "\<And>m. Some m \<in> set slots \<Longrightarrow> Some m \<in> set (us_mappings us)"
    and "clone_mappings owner parent child us slots = (us', ok_unit)"
  shows "cloned child us (filter (\<lambda>m. um_root m = parent) (slot_values slots)) us'"
  using assms
proof (induction slots arbitrary: us)
  case Nil
  then show ?case by (auto simp: cloned_def)
next
  case (Cons slot slots)
  show ?case
  proof (cases "\<exists>m. slot = Some m \<and> um_root m = parent")
    case False
    then show ?thesis using Cons by (cases slot) auto
  next
    case True
    then obtain m where m: "slot = Some m" "um_root m = parent" by blast
    obtain us1 mr where call: "mmap_user_fixed us owner child (um_user_start m) (um_length m) (um_protection m) = (us1, Inr mr)"
      and rest: "clone_mappings owner parent child (us1\<lparr>us_kernel := copy_bytes (us_kernel us1) (um_kernel_start m) (mr_ptr mr) (um_length m)\<rparr>) slots = (us', ok_unit)"
      using Cons.prems(5) m by (auto simp: and_then_eq_Inr)
    define us2 where "us2 = us1\<lparr>us_kernel := copy_bytes (us_kernel us1) (um_kernel_start m) (mr_ptr mr) (um_length m)\<rparr>"
    have one: "cloned child us [m] us2"
      unfolding us2_def using Cons.prems m by (intro clone_one [OF _ _ _ _ call]) auto
    have "cloned child us2 (filter (\<lambda>m. um_root m = parent) (slot_values slots)) us'"
    proof (rule Cons.IH)
      show "us_ok us2" "child \<in> us_roots us2" "in_front (\<lambda>m. um_root m = child) (us_mappings us2)"
        using one Cons.prems(2) by (auto simp: cloned_def)
      show "Some x \<in> set (us_mappings us2)" if "Some x \<in> set slots" for x using one Cons.prems(4) [of x] that by (auto simp: cloned_def)
    qed (use rest us2_def in simp)
    from cloned_trans [OF one this] Cons.prems(4) m show ?thesis by simp
  qed
qed

lemma mmap_user_fixed_ok:
  assumes ok: "us_ok us" and root: "root \<in> us_roots us"
  shows "us_ok (fst (mmap_user_fixed us owner root va len prot))"
    "us_roots (fst (mmap_user_fixed us owner root va len prot)) = us_roots us"
  by (cases rule: mmap_user_fixed_cases [OF ok root, of owner va len prot]; simp add: us_roots_def)+

lemma clone_mappings_ok:
  assumes "us_ok us" "child \<in> us_roots us" "clone_mappings owner parent child us slots = (us', res)"
  shows "us_ok us' \<and> us_roots us' = us_roots us"
  using assms
proof (induction slots arbitrary: us)
  case (Cons slot slots)
  show ?case
  proof (cases "\<exists>m. slot = Some m \<and> um_root m = parent")
    case False
    then show ?thesis using Cons by (cases slot) auto
  next
    case True
    then obtain m where m: "slot = Some m" "um_root m = parent" by blast
    let ?call = "mmap_user_fixed us owner child (um_user_start m) (um_length m) (um_protection m)"
    obtain us1 r1 where call: "?call = (us1, r1)" by force
    have ok1: "us_ok us1" "us_roots us1 = us_roots us" 
      using mmap_user_fixed_ok [OF Cons.prems(1,2), of owner "um_user_start m" "um_length m" "um_protection m"] call by simp_all
    then have set: "us_ok (us1\<lparr>us_kernel := copy_bytes (us_kernel us1) a b c\<rparr>)" "us_roots (us1\<lparr>us_kernel := copy_bytes (us_kernel us1) a b c\<rparr>) = us_roots us" for a b c
      by (simp_all add: us_ok_def us_roots_def heap_backed_bytes)
    show ?thesis
    proof (cases r1)
      case (Inl e)
      then show ?thesis using Cons.prems(3) m ok1 call by simp
    next
      case (Inr mr)
      then have "clone_mappings owner parent child (us1\<lparr>us_kernel := copy_bytes (us_kernel us1) (um_kernel_start m) (mr_ptr mr) (um_length m)\<rparr>) slots = (us', res)"
        using Cons.prems(3) m call by simp
      from Cons.IH [OF set(1) _ this] set(2) Cons.prems(2) show ?thesis by simp
    qed
  qed
qed simp

lemma clone_ok:
  assumes ok: "us_ok us" and call: "clone_user_address_space us owner parent = (us', res)"
  shows "us_ok us'"
proof (cases "us_create_user_address_space us owner")
  case (Pair us1 r1)
  note c = us_create_ok [OF ok Pair]
  show ?thesis
  proof (cases "parent = 0 \<or> (\<exists>e. r1 = Inl e)")
    case True
    then show ?thesis using call Pair c(1) by (auto simp: clone_user_address_space_def and_then_def split: if_splits)
  next
    case False
    then obtain child where r: "r1 = Inr child" "parent \<noteq> 0" by (cases r1) auto
    obtain us2 r2 where m: "clone_mappings owner parent child us1 (us_mappings us1) = (us2, r2)" by force
    have "us' = us2" using call Pair r m by (cases r2) (auto simp: clone_user_address_space_def and_then_def)
    then show ?thesis using clone_mappings_ok [OF c(1) _ m] c(5) [OF r(1)] by simp
  qed
qed

section \<open>Heap use and process exit beside user memory\<close>

text \<open>
  The heap calls that leave the memory behind user mappings alone: all but an unmapping of such memory by
  its kernel address. Releasing all blocks of a process is part of its exit and no call of its own.
\<close>

fun beside_user :: "UserMemory \<Rightarrow> HeapEvent \<Rightarrow> bool" where
  "beside_user us (EvMunmap owner ptr len) = (\<forall>m \<in> set (slot_values (us_mappings us)). um_kernel_start m \<noteq> ptr)"
| "beside_user us (EvReleaseProcess owner) = False"
| "beside_user us _ = True"

lemma placed_keeps:
  "mm_ok (km_manager km) \<Longrightarrow> placed km x al km' \<Longrightarrow> heap_block km p = Some r \<Longrightarrow> heap_block km' p = Some r"
  using placed_blocks [of km x al km'] by auto

lemma free_keeps_mapping:
  assumes "mm_ok (km_manager km)" "heap_block km p = Some r" "ar_kind r = AkMapping"
  shows "heap_block (fst (km_free_for km owner ptr)) p = Some r"
proof -
  obtain mm freed where m: "mm_release (km_manager km) owner ptr (Some AkHeap) None = (mm, freed)" by force
  from release_blocks(2,3) [OF assms(1) m refl] assms(2,3) show ?thesis
    by (auto simp: km_free_for_def free_for_def m may_release_def)
qed

lemma munmap_keeps:
  assumes "mm_ok (km_manager km)" "heap_block km p = Some r" "ptr \<noteq> p"
  shows "heap_block (fst (km_munmap_ptr_for km owner ptr len)) p = Some r"
proof -
  obtain mm freed where m: "mm_release (km_manager km) owner ptr (Some AkMapping) (Some len) = (mm, freed)" by force
  from release_blocks(3) [OF assms(1) m refl] assms(2,3) show ?thesis
    by (auto simp: km_munmap_ptr_for_def munmap_ptr_for_def m)
qed

lemma beside_user_keeps_mapping:
  assumes ok: "mm_ok (km_manager km)" and ev: "beside_user us ev" and m: "Some m \<in> set (us_mappings us)"
    and p: "p = um_kernel_start m" and b: "heap_block km p = Some r" "ar_kind r = AkMapping"
  shows "heap_block (heap_exec km ev) p = Some r"
proof (cases ev)
  case (EvMalloc owner len)
  then show ?thesis
    using b by (cases rule: malloc_for_cases [OF ok, of owner len]) (auto simp: same_blocks dest: placed_keeps [OF ok])
next
  case (EvMallocAligned owner len align)
  then show ?thesis
    using b by (cases rule: malloc_aligned_for_cases [OF ok, of owner len align]) (auto simp: same_blocks dest: placed_keeps [OF ok])
next
  case (EvFree owner ptr)
  then show ?thesis using free_keeps_mapping [OF ok b] by simp
next
  case (EvMmap owner len prot)
  then show ?thesis
    using b by (cases rule: mmap_for_cases [OF ok, of owner len prot]) (auto simp: same_blocks dest: placed_keeps [OF ok])
next
  case (EvMunmap owner ptr len)
  moreover from this have "ptr \<noteq> p" using ev m p by auto
  ultimately show ?thesis using munmap_keeps [OF ok b(1)] by simp
next
  case (EvRealloc owner ptr new)
  show ?thesis
  proof (cases "new = 0 \<or> ptr = None")
    case True
    then show ?thesis
      using b EvRealloc free_keeps_mapping [OF ok b]
      by (cases rule: malloc_for_cases [OF ok, of owner new]) (auto simp: realloc_for_def same_blocks split: option.splits dest: placed_keeps [OF ok])
  next
    case False
    then obtain q where q: "ptr = Some q" "new \<noteq> 0" by auto
    show ?thesis
      using b EvRealloc q placed_blocks(1) [OF ok]
      by (cases rule: realloc_for_cases [OF ok q(2), of owner q]) (auto simp: same_blocks)
  qed
qed (use ev in simp_all)

text \<open>What the release of a space leaves behind.\<close>

lemma us_destroy_effect:
  assumes ok: "us_ok us" and us': "us' = us_destroy_user_address_space us root"
  shows "Some m \<in> set (us_mappings us') \<Longrightarrow> Some m \<in> set (us_mappings us)"
    "sp_root sp \<noteq> root \<Longrightarrow> Some sp \<in> set (us_spaces us') \<longleftrightarrow> Some sp \<in> set (us_spaces us)"
    "Some sp \<in> set (us_spaces us) \<Longrightarrow> sp_root sp = root \<Longrightarrow> sp_references sp \<le> 1 \<Longrightarrow> root \<noteq> 0 \<Longrightarrow> Some m \<in> set (us_mappings us') \<Longrightarrow> um_root m \<noteq> root"
proof -
  have held: "held_records (us_roots us) us" using ok by (simp add: us_ok_iff)
  note uq = us_okD(2) [OF ok]
  have "(Some m \<in> set (us_mappings us') \<longrightarrow> Some m \<in> set (us_mappings us)) \<and>
     (sp_root sp \<noteq> root \<longrightarrow> (Some sp \<in> set (us_spaces us') \<longleftrightarrow> Some sp \<in> set (us_spaces us))) \<and>
     (Some sp \<in> set (us_spaces us) \<longrightarrow> sp_root sp = root \<longrightarrow> sp_references sp \<le> 1 \<longrightarrow> root \<noteq> 0 \<longrightarrow> Some m \<in> set (us_mappings us') \<longrightarrow> um_root m \<noteq> root)"
  proof (cases "root = 0 \<or> find_slot (\<lambda>sp. sp_root sp = root) (us_spaces us) = None")
    case True
    then have "us' = (if root = 0 then us else release_mappings us root)" by (auto simp: us' us_destroy_user_address_space_def)
    then show ?thesis using release_mappings_held(2,3) [OF held, of root] True by (auto simp: find_slot_None_iff)
  next
    case False
    then obtain i where f: "find_slot (\<lambda>sp. sp_root sp = root) (us_spaces us) = Some i" and "root \<noteq> 0" by auto
    from f obtain sp0 where sp0: "i < length (us_spaces us)" "us_spaces us ! i = Some sp0" "sp_root sp0 = root" by (rule find_slot_SomeE)
    have mem: "Some sp0 \<in> set (us_spaces us)" using sp0(1,2) by (metis nth_mem)
    note rep = Some_in_replaced [OF uq sp0(1,2)]
    note call = us_destroy_user_address_space_def [of us root, unfolded f if_not_P [OF \<open>root \<noteq> 0\<close>] option.case sp0(2)]
    show ?thesis
    proof (cases "sp_references sp0 > 1")
      case True
      have "sp = sp0" if "Some sp \<in> set (us_spaces us)" "sp_root sp = root"
        using unique_keys_values_eq [OF uq that(1) mem] that(2) sp0(3) by simp
      then show ?thesis unfolding us' call if_P [OF True] using rep sp0(3) True by auto
    next
      case False
      let ?us = "us\<lparr>us_spaces := (us_spaces us)[i := None]\<rparr>"
      have "held_records (us_roots us) ?us" using held by (simp add: held_records_def)
      from release_mappings_held(2,3) [OF this, of root] show ?thesis
        unfolding us' call if_not_P [OF False] Let_def using rep sp0(3) by auto
    qed
  qed
  then show "Some m \<in> set (us_mappings us') \<Longrightarrow> Some m \<in> set (us_mappings us)"
    "sp_root sp \<noteq> root \<Longrightarrow> Some sp \<in> set (us_spaces us') \<longleftrightarrow> Some sp \<in> set (us_spaces us)"
    "Some sp \<in> set (us_spaces us) \<Longrightarrow> sp_root sp = root \<Longrightarrow> sp_references sp \<le> 1 \<Longrightarrow> root \<noteq> 0 \<Longrightarrow> Some m \<in> set (us_mappings us') \<Longrightarrow> um_root m \<noteq> root"
    by blast+
qed

text \<open>A process may exit when it shares no address space and maps only into its own.\<close>

definition may_exit :: "UserMemory \<Rightarrow> ProcessId \<Rightarrow> bool" where
  "may_exit us owner \<longleftrightarrow>
     (\<forall>sp \<in> set (slot_values (us_spaces us)). sp_owner sp = owner \<longrightarrow> sp_references sp \<le> 1) \<and>
     (\<forall>m \<in> set (slot_values (us_mappings us)). um_owner m = owner \<longrightarrow>
        (\<exists>sp \<in> set (slot_values (us_spaces us)). sp_root sp = um_root m \<and> sp_owner sp = owner))"

lemma us_destroys:
  assumes "us_ok us" "\<And>root. root \<in> set roots \<Longrightarrow> root \<noteq> 0 \<and> (\<forall>sp. Some sp \<in> set (us_spaces us) \<longrightarrow> sp_root sp = root \<longrightarrow> sp_references sp \<le> 1)"
    and "distinct roots" "set roots \<subseteq> us_roots us"
  shows "us_ok (foldl us_destroy_user_address_space us roots)"
    "Some m \<in> set (us_mappings (foldl us_destroy_user_address_space us roots)) \<Longrightarrow> Some m \<in> set (us_mappings us) \<and> um_root m \<notin> set roots"
proof -
  have "us_ok (foldl us_destroy_user_address_space us roots) \<and>
    (Some m \<in> set (us_mappings (foldl us_destroy_user_address_space us roots)) \<longrightarrow> Some m \<in> set (us_mappings us) \<and> um_root m \<notin> set roots)"
    using assms
  proof (induction roots arbitrary: us)
    case (Cons root roots)
    define us1 where "us1 = us_destroy_user_address_space us root"
    note eff = us_destroy_effect [OF Cons.prems(1) us1_def]
    have "set roots \<subseteq> us_roots us1"
      using Cons.prems(3,4) eff(2) by (fastforce simp: us_roots_iff)
    moreover have "r \<noteq> 0 \<and> (\<forall>sp. Some sp \<in> set (us_spaces us1) \<longrightarrow> sp_root sp = r \<longrightarrow> sp_references sp \<le> 1)" if "r \<in> set roots" for r
    proof -
      have "r \<noteq> root" using that Cons.prems(3) by auto
      then show ?thesis using that Cons.prems(2) [of r] eff(2) by auto
    qed
    ultimately have ih: "us_ok (foldl us_destroy_user_address_space us1 roots) \<and>
      (Some m \<in> set (us_mappings (foldl us_destroy_user_address_space us1 roots)) \<longrightarrow> Some m \<in> set (us_mappings us1) \<and> um_root m \<notin> set roots)"
      using Cons.IH [of us1] us_destroy_ok [OF Cons.prems(1), of root] Cons.prems(3) us1_def by simp
    obtain sp where "Some sp \<in> set (us_spaces us)" "sp_root sp = root" using Cons.prems(4) by (auto simp: us_roots_iff)
    then show ?case using ih eff(1,3) Cons.prems(2) [of root] by (auto simp: us1_def)
  qed simp
  then show "us_ok (foldl us_destroy_user_address_space us roots)"
    "Some m \<in> set (us_mappings (foldl us_destroy_user_address_space us roots)) \<Longrightarrow> Some m \<in> set (us_mappings us) \<and> um_root m \<notin> set roots" by blast+
qed

lemma exit_blocks:
  assumes ok: "mm_ok (km_manager km)" and b: "heap_block km p = Some r" "ar_owner r \<noteq> owner"
  shows "heap_block (km_release_process km owner) p = Some r"
proof -
  note sp = mm_release_process_spec(2,4) [OF ok, of owner]
  show ?thesis using b slot_lookup_clear [OF heap_unique [OF ok]] by (simp add: km_release_process_def heap_block_def sp)
qed

lemma us_release_process_ok:
  assumes ok: "us_ok us" and ex: "may_exit us owner"
  shows "us_ok (us_release_process us owner)"
proof -
  have nz: "0 \<notin> us_roots us" using vm_okD(2) [OF us_okD(5) [OF ok]] by (auto simp: setup_ok_def)
  define roots where "roots = map sp_root (filter (\<lambda>sp. sp_owner sp = owner) (slot_values (us_spaces us)))"
  define us1 where "us1 = foldl us_destroy_user_address_space us roots"
  have dist: "distinct roots"
    using us_okD(2) [OF ok] unfolding roots_def unique_keys_code by (rule distinct_map_filter)
  have sub: "set roots \<subseteq> us_roots us" by (auto simp: roots_def us_roots_iff)
  have one: "sp_references sp \<le> 1" if r: "root \<in> set roots" "Some sp \<in> set (us_spaces us)" "sp_root sp = root" for root sp
  proof -
    obtain sp' where "Some sp' \<in> set (us_spaces us)" "sp_owner sp' = owner" "sp_root sp' = root" using r(1) by (auto simp: roots_def)
    moreover from this have "sp = sp'" using unique_keys_values_eq [OF us_okD(2) [OF ok] r(2)] r(3) by simp
    ultimately show ?thesis using ex by (simp add: may_exit_def)
  qed
  note des = us_destroys [OF ok _ dist sub, folded us1_def]
  have ok1: "us_ok us1" using one nz sub by (intro des) auto
  have gone: "um_owner m \<noteq> owner" if m: "Some m \<in> set (us_mappings us1)" for m
  proof
    assume "um_owner m = owner"
    moreover have "Some m \<in> set (us_mappings us)" "um_root m \<notin> set roots" using des(2) [OF _ m] one nz sub by auto
    ultimately obtain sp where "Some sp \<in> set (us_spaces us)" "sp_root sp = um_root m" "sp_owner sp = owner"
      using ex by (auto simp: may_exit_def Ball_def Bex_def)
    then have "um_root m \<in> sp_root ` set (filter (\<lambda>sp. sp_owner sp = owner) (slot_values (us_spaces us)))" by (intro image_eqI [of _ _ sp]) simp_all
    then show False using \<open>um_root m \<notin> set roots\<close> by (simp add: roots_def)
  qed
  obtain n where n: "heap_backed (us_roots us1) n (us_kernel us1)" using us_okD(1) [OF ok1] ..
  obtain n' where "heap_backed (us_roots us1) n' (km_release_process (us_kernel us1) owner)"
    using heap_exec_backed [OF n, of "EvReleaseProcess owner"] by auto
  moreover have "user_record (heap_block (km_release_process (us_kernel us1) owner)) (us_roots us1) m" if m: "Some m \<in> set (us_mappings us1)" for m
    using us_okD(3) [OF ok1] m gone [OF m] exit_blocks [OF us_okD(4) [OF ok1]] by (auto simp: user_records_def user_record_def)
  ultimately have "us_ok (us1\<lparr>us_kernel := km_release_process (us_kernel us1) owner\<rparr>)"
    using us_okD(2,3) [OF ok1] by (auto simp: us_ok_def us_roots_def user_records_def)
  then show ?thesis by (simp add: us_release_process_def roots_def us1_def Let_def)
qed

section \<open>Runs\<close>

text \<open>
  The calls of the kernel into the module. Each is executed as the code does it, whatever the state; the
  bare release of the blocks of a process (\<open>EvReleaseProcess\<close>) is the last part of \<open>UeExit\<close>.
\<close>

datatype UserEvent =
    UeCreate ProcessId
  | UeShare u64
  | UeClone ProcessId u64
  | UeDestroy u64
  | UeMmap ProcessId u64 u64 nat MemoryProtection
  | UeWrite u64 u64 "u8 list"
  | UeHeap HeapEvent
  | UeExit ProcessId

primrec user_exec :: "UserMemory \<Rightarrow> UserEvent \<Rightarrow> UserMemory" where
  "user_exec us (UeCreate owner) = fst (us_create_user_address_space us owner)"
| "user_exec us (UeShare root) = fst (share_user_address_space us root)"
| "user_exec us (UeClone owner root) = fst (clone_user_address_space us owner root)"
| "user_exec us (UeDestroy root) = us_destroy_user_address_space us root"
| "user_exec us (UeMmap owner root va len prot) = fst (mmap_user_fixed us owner root va len prot)"
| "user_exec us (UeWrite root ptr xs) = fst (copy_to_user us root ptr xs)"
| "user_exec us (UeHeap ev) = us\<lparr>us_kernel := heap_exec (us_kernel us) ev\<rparr>"
| "user_exec us (UeExit owner) = us_release_process us owner"

text \<open>
  What the module relies on and does not check. A range is mapped only into the root of a live address
  space. The memory behind a user mapping is not unmapped by its kernel address. A process exits only
  when it shares no address space and maps only into its own: otherwise \<open>release_process\<close> frees memory
  that is still mapped, and what follows fails.
\<close>

fun user_allowed :: "UserMemory \<Rightarrow> UserEvent \<Rightarrow> bool" where
  "user_allowed us (UeMmap owner root va len prot) = (root \<in> us_roots us)"
| "user_allowed us (UeHeap ev) = beside_user us ev"
| "user_allowed us (UeExit owner) = may_exit us owner"
| "user_allowed us _ = True"

text \<open>The state of the module after boot: no address space and no mapping.\<close>

definition us_boot :: "KernelMemory \<Rightarrow> nat \<Rightarrow> nat \<Rightarrow> UserMemory" where
  "us_boot km spaces mappings = \<lparr>us_kernel = km, us_spaces = replicate spaces None, us_mappings = replicate mappings None\<rparr>"

text \<open>The states that allowed calls, in any order and failing ones included, reach from boot.\<close>

inductive user_reachable :: "UserMemory \<Rightarrow> bool" where
  booted: "heap_backed {} n km \<Longrightarrow> user_reachable (us_boot km spaces mappings)"
| called: "user_reachable us \<Longrightarrow> user_allowed us ev \<Longrightarrow> user_reachable (user_exec us ev)"

lemma heap_event_ok:
  assumes ok: "us_ok us" and ev: "beside_user us ev"
  shows "us_ok (us\<lparr>us_kernel := heap_exec (us_kernel us) ev\<rparr>)"
proof -
  obtain n where n: "heap_backed (us_roots us) n (us_kernel us)" using us_okD(1) [OF ok] ..
  obtain n' where "heap_backed (us_roots us) n' (heap_exec (us_kernel us) ev)" using heap_exec_backed [OF n] by blast
  moreover have "user_record (heap_block (heap_exec (us_kernel us) ev)) (us_roots us) m" if "Some m \<in> set (us_mappings us)" for m
    using us_okD(3) [OF ok] that beside_user_keeps_mapping [OF us_okD(4) [OF ok] ev that refl] by (auto simp: user_records_def user_record_def)
  ultimately show ?thesis using us_okD(2,3) [OF ok] by (auto simp: us_ok_def us_roots_def user_records_def)
qed

lemma user_exec_ok: "us_ok us \<Longrightarrow> user_allowed us ev \<Longrightarrow> us_ok (user_exec us ev)"
proof (cases ev)
  case (UeCreate owner)
  moreover assume "us_ok us"
  ultimately show ?thesis by (cases "us_create_user_address_space us owner") (simp add: us_create_ok(1))
next
  case (UeShare root)
  moreover assume "us_ok us"
  ultimately show ?thesis by (cases "share_user_address_space us root") (simp add: us_share_ok(1))
next
  case (UeClone owner root)
  moreover assume "us_ok us"
  ultimately show ?thesis by (cases "clone_user_address_space us owner root") (simp add: clone_ok)
next
  case (UeWrite root ptr xs)
  moreover assume "us_ok us"
  ultimately show ?thesis by (cases "copy_to_user us root ptr xs") (simp add: copy_to_user_ok)
qed (simp_all add: us_destroy_ok mmap_user_fixed_ok heap_event_ok us_release_process_ok)

lemma us_boot_ok: "heap_backed {} n km \<Longrightarrow> us_ok (us_boot km spaces mappings)"
  by (auto simp: us_boot_def us_ok_def us_roots_def user_records_def)

lemma user_reachable_ok: "user_reachable us \<Longrightarrow> us_ok us"
  by (induction rule: user_reachable.induct) (simp_all add: us_boot_ok user_exec_ok)

end
