(* ===== verification/User_Example.thy ===== *)
theory User_Example
  imports User_Spaces
begin

text \<open>
  An example run of user memory on a machine with sixteen frames: a process gets an address space, maps a
  page, the kernel writes to it, and a second process clones the space. Every step is computed from the
  definitions, page tables included.
\<close>

unbundle bit_operations_syntax

section \<open>Frames and tables\<close>

fun user_pool :: "nat \<Rightarrow> PhysicalFrameAllocator" where
  "user_pool 0 = (pfa_new 2)\<lparr>pfa_metadata := Some (FrameReserved # FrameReserved # replicate 14 FrameFree),
     pfa_frame_count := 16, pfa_initialized := True\<rparr>"
| "user_pool (Suc n) = fst (allocate_frame (user_pool n))"

declare user_pool.simps [simp del]

lemma first_free_used: "first_free (replicate n FrameAllocated @ FrameFree # ss) = Some n"
  by (induction n) simp_all

lemma user_pool_state:
  "n \<le> 14 \<Longrightarrow> pfa_metadata (user_pool n) = Some (FrameReserved # FrameReserved # replicate n FrameAllocated @ replicate (14 - n) FrameFree) \<and>
     pfa_frame_count (user_pool n) = 16 \<and> pfa_initialized (user_pool n)"
proof (induction n)
  case (Suc n)
  then obtain k where k: "14 - n = Suc k" "14 - Suc n = k" by (cases "14 - n") auto
  have "(replicate n FrameAllocated @ FrameFree # ss)[n := FrameAllocated] = replicate (Suc n) FrameAllocated @ ss" for ss
    by (induction n) simp_all
  then show ?case
    using Suc k by (simp add: user_pool.simps allocate_frame_def first_free_used refresh_stats_def Let_def)
qed (simp add: user_pool.simps)

lemma user_pool_allocate:
  assumes "n < 14" "word_of_nat (n + 2) * 0x1000 = a" "k = Suc n"
  shows "allocate_frame (user_pool n) = (user_pool k, Inr \<lparr>pf_start = a\<rparr>)"
proof -
  obtain j where j: "14 - n = Suc j" using assms(1) by (cases "14 - n") auto
  have "unat (word_of_nat (n + 2) :: u64) = n + 2" using assms(1) by (simp only: unat_of_nat) simp
  then have "saturating_mul (word_of_nat (n + 2)) PAGE_SIZE = a" using assms(1,2) by (simp add: saturating_mul_def PAGE_SIZE_def)
  then have "snd (allocate_frame (user_pool n)) = Inr \<lparr>pf_start = a\<rparr>"
    using user_pool_state [of n] assms(1) j by (simp add: allocate_frame_def first_free_used)
  moreover have "fst (allocate_frame (user_pool n)) = user_pool k" by (simp add: assms(3) user_pool.simps)
  ultimately show ?thesis by (metis prod.collapse)
qed

definition user_pg :: "table_mem \<Rightarrow> nat \<Rightarrow> Paging" where
  "user_pg m n = demo_paging\<lparr>pg_mem := m, pg_frames := user_pool n\<rparr>"

lemma user_pg_simps [simp]:
  "pg_mem (user_pg m n) = m" "pg_frames (user_pg m n) = user_pool n" "pg_active_pml4 (user_pg m n) = 0x101000"
  "pg_kernel_pml4 (user_pg m n) = 0x1000" "pg_frame_ready (user_pg m n)" "pg_translator (user_pg m n) = pg_translator demo_paging"
  "(user_pg m n)\<lparr>pg_mem := m'\<rparr> = user_pg m' n" "(user_pg m n)\<lparr>pg_frames := user_pool k\<rparr> = user_pg m k"
  by (simp_all add: user_pg_def demo_paging_def)

lemma user_pg_table:
  "table_for_physical (user_pg m n) = table_for_physical demo_paging" "virtual_for_physical (pg_translator demo_paging) = table_for_physical demo_paging"
  by (simp_all add: table_for_physical_def fun_eq_iff)

lemma user_pg_ok: "vm_ok (user_pg (\<lambda>_ _. 0) 0) {}"
proof -
  have "user_pg (\<lambda>_ _. 0) 0 = demo_paging\<lparr>pg_frames := user_pool 0\<rparr>" by (simp add: user_pg_def demo_paging_def)
  then show ?thesis by (simp add: demo_vm_ok_with user_pool.simps pfa_ok_def frame_db_def pfa_new_def)
qed
lemma user_pool_allocates:
  "allocate_frame (user_pool 0) = (user_pool 1, Inr \<lparr>pf_start = 0x2000\<rparr>)"
  "allocate_frame (user_pool 1) = (user_pool 2, Inr \<lparr>pf_start = 0x3000\<rparr>)"
  "allocate_frame (user_pool 2) = (user_pool 3, Inr \<lparr>pf_start = 0x4000\<rparr>)"
  "allocate_frame (user_pool 3) = (user_pool 4, Inr \<lparr>pf_start = 0x5000\<rparr>)"
  "allocate_frame (user_pool 4) = (user_pool 5, Inr \<lparr>pf_start = 0x6000\<rparr>)"
  "allocate_frame (user_pool 5) = (user_pool 6, Inr \<lparr>pf_start = 0x7000\<rparr>)"
  "allocate_frame (user_pool 6) = (user_pool 7, Inr \<lparr>pf_start = 0x8000\<rparr>)"
  "allocate_frame (user_pool 7) = (user_pool 8, Inr \<lparr>pf_start = 0x9000\<rparr>)"
  "allocate_frame (user_pool 8) = (user_pool 9, Inr \<lparr>pf_start = 0xa000\<rparr>)"
  "allocate_frame (user_pool 9) = (user_pool 10, Inr \<lparr>pf_start = 0xb000\<rparr>)"
  "allocate_frame (user_pool 10) = (user_pool 11, Inr \<lparr>pf_start = 0xc000\<rparr>)"
  "allocate_frame (user_pool 11) = (user_pool 12, Inr \<lparr>pf_start = 0xd000\<rparr>)"
  "allocate_frame (user_pool 12) = (user_pool 13, Inr \<lparr>pf_start = 0xe000\<rparr>)"
  by (rule user_pool_allocate; simp)+

lemma kernel_next_new:
  assumes "m t i AND PRESENT = 0" "allocate_frame (user_pool n) = (user_pool k, Inr \<lparr>pf_start = a\<rparr>)"
    and "(a AND ADDRESS_MASK) OR kernel_table_flags = e" "e AND ADDRESS_MASK = a" "table_for_physical demo_paging a = T" "T \<noteq> t"
  shows "next_table (user_pg m n) (pg_translator demo_paging) t i = (user_pg (m(T := \<lambda>_. 0, t := (m t)(i := e))) k, Inr T)"
  using assms by (simp add: next_table_def read_entry_def allocate_page_table_def allocate_physical_frame_def write_entry_def fill_zero_def user_pg_table)

lemma kernel_next_old:
  assumes "m t i = e" "e AND PRESENT \<noteq> 0" "e AND ADDRESS_MASK = a" "table_for_physical demo_paging a = T"
  shows "next_table (user_pg m n) (pg_translator demo_paging) t i = (user_pg m n, Inr T)"
  using assms by (simp add: next_table_def read_entry_def user_pg_table)

lemma user_next_new:
  assumes "m t i AND PRESENT = 0" "allocate_frame (user_pool n) = (user_pool k, Inr \<lparr>pf_start = a\<rparr>)"
    and "(a AND ADDRESS_MASK) OR PRESENT OR WRITABLE OR USER_ACCESSIBLE = e" "e AND ADDRESS_MASK = a" "table_for_physical demo_paging a = T" "T \<noteq> t"
  shows "user_next_table (user_pg m n) t i = (user_pg (m(T := \<lambda>_. 0, t := (m t)(i := e))) k, Inr T)"
  using assms by (simp add: user_next_table_def read_entry_def allocate_physical_frame_def write_entry_def fill_zero_def user_pg_table)

lemma heap_index:
  "pg_index 0xffff900000000000 39 = 288" "pg_index 0xffff900000000000 30 = 0" "pg_index 0xffff900000000000 21 = 0" "pg_index 0xffff900000000000 12 = 0"
  "pg_index 0xffff900000001000 39 = 288" "pg_index 0xffff900000001000 30 = 0" "pg_index 0xffff900000001000 21 = 0" "pg_index 0xffff900000001000 12 = 1"
  by (code_simp+)

lemmas entry_eval = page_flag_defs ADDRESS_MASK_def kernel_table_flags_def demo_table

text \<open>The tables after the first heap page is committed, and after it is mapped for the user.\<close>

definition heap_tables :: table_mem where
  "heap_tables = (\<lambda>_ _. 0)(0x101000 := (\<lambda>_. 0)(288 := 0x4003), 0x104000 := (\<lambda>_. 0)(0 := 0x5003), 0x105000 := (\<lambda>_. 0)(0 := 0x6003),
     0x106000 := (\<lambda>_. 0)(0 := 0x8000000000003103))"

lemma heap_map_page:
  "map_page (user_pg (\<lambda>_ _. 0) 2) 0xffff900000000000 0x3000 (page_flags_from_protection read_write) = (user_pg heap_tables 5, ok_unit)"
proof -
  define m1 :: table_mem where "m1 = (\<lambda>_ _. 0)(0x104000 := \<lambda>_. 0, 0x101000 := (\<lambda>_. 0)(288 := 0x4003))"
  define m2 where "m2 = m1(0x105000 := \<lambda>_. 0, 0x104000 := (m1 0x104000)(0 := 0x5003))"
  define m3 where "m3 = m2(0x106000 := \<lambda>_. 0, 0x105000 := (m2 0x105000)(0 := 0x6003))"
  have 1: "next_table (user_pg (\<lambda>_ _. 0) 2) (pg_translator demo_paging) 0x101000 288 = (user_pg m1 3, Inr 0x104000)"
    unfolding m1_def by (rule kernel_next_new [OF _ user_pool_allocates(3)]) (simp_all add: entry_eval)
  have 2: "next_table (user_pg m1 3) (pg_translator demo_paging) 0x104000 0 = (user_pg m2 4, Inr 0x105000)"
    unfolding m2_def by (rule kernel_next_new [OF _ user_pool_allocates(4)]) (simp_all add: entry_eval m1_def)
  have 3: "next_table (user_pg m2 4) (pg_translator demo_paging) 0x105000 0 = (user_pg m3 5, Inr 0x106000)"
    unfolding m3_def by (rule kernel_next_new [OF _ user_pool_allocates(5)]) (simp_all add: entry_eval m2_def)
  have "(0x3000 AND ADDRESS_MASK) OR ensure_present (page_flags_from_protection read_write) = 0x8000000000003103"
    by (simp add: entry_eval ensure_present_def page_flags_from_protection_def read_write_def protection_new_def)
  moreover have "m3(0x106000 := (m3 0x106000)(0 := 0x8000000000003103)) = heap_tables"
    unfolding heap_tables_def m3_def m2_def m1_def by (intro ext) simp
  ultimately show ?thesis
    using page_flags_supported
    by (simp add: map_page_def validate_page_alignment_def PAGE_SIZE_def map_page_inner_def heap_index 1 2 3 write_entry_def)
qed

definition user_tables :: table_mem where
  "user_tables = heap_tables(0x102000 := (\<lambda>_. 0)(0 := 0x7007), 0x107000 := (\<lambda>_. 0)(0 := 0x8007), 0x108000 := (\<lambda>_. 0)(2 := 0x9007),
     0x109000 := (\<lambda>_. 0)(0 := 0x8000000000003007))"

lemma user_map_new:
  assumes m: "m t 0 = 0" and t: "table_for_physical demo_paging root = t" "root \<noteq> 0"
    and al: "allocate_frame (user_pool n) = (user_pool k1, Inr \<lparr>pf_start = a1\<rparr>)" "allocate_frame (user_pool k1) = (user_pool k2, Inr \<lparr>pf_start = a2\<rparr>)"
      "allocate_frame (user_pool k2) = (user_pool k3, Inr \<lparr>pf_start = a3\<rparr>)"
    and e: "\<And>a. a \<in> {a1, a2, a3} \<Longrightarrow> a AND ADDRESS_MASK = a" "pa AND ADDRESS_MASK = pa"
    and T: "table_for_physical demo_paging a1 = t1" "table_for_physical demo_paging a2 = t2" "table_for_physical demo_paging a3 = t3"
    and d: "distinct [t, t1, t2, t3]"
    and m': "m' = m(t := (m t)(0 := a1 OR 7), t1 := (\<lambda>_. 0)(0 := a2 OR 7), t2 := (\<lambda>_. 0)(2 := a3 OR 7), t3 := (\<lambda>_. 0)(0 := pa OR 0x8000000000000007))"
  shows "map_user_page (user_pg m n) root 0x400000 pa read_write = (user_pg m' k3, ok_unit)"
proof -
  have seven: "7 AND ADDRESS_MASK = 0" by (simp add: ADDRESS_MASK_def)
  have entry: "(a AND ADDRESS_MASK) OR PRESENT OR WRITABLE OR USER_ACCESSIBLE = a OR 7" "(a OR 7) AND ADDRESS_MASK = a" if "a \<in> {a1, a2, a3}" for a
    using e(1) [OF that] by (simp add: page_flag_defs or.assoc) (simp only: bit.conj_disj_distrib2 e(1) [OF that] seven or.right_neutral)
  define m1 where "m1 = m(t1 := \<lambda>_. 0, t := (m t)(0 := a1 OR 7))"
  define m2 where "m2 = m1(t2 := \<lambda>_. 0, t1 := (m1 t1)(0 := a2 OR 7))"
  define m3 where "m3 = m2(t3 := \<lambda>_. 0, t2 := (m2 t2)(2 := a3 OR 7))"
  have 1: "user_next_table (user_pg m n) t 0 = (user_pg m1 k1, Inr t1)"
    unfolding m1_def by (rule user_next_new [OF _ al(1)]) (use d in \<open>auto simp: entry T m\<close>)
  have 2: "user_next_table (user_pg m1 k1) t1 0 = (user_pg m2 k2, Inr t2)"
    unfolding m2_def by (rule user_next_new [OF _ al(2)]) (use d in \<open>auto simp: entry T m1_def\<close>)
  have 3: "user_next_table (user_pg m2 k2) t2 2 = (user_pg m3 k3, Inr t3)"
    unfolding m3_def by (rule user_next_new [OF _ al(3)]) (use d in \<open>auto simp: entry T m2_def\<close>)
  have f: "user_flags_from_protection read_write = 0x8000000000000007"
    by (simp add: page_flag_defs user_flags_from_protection_def read_write_def protection_new_def)
  have "m3(t3 := (m3 t3)(0 := pa OR 0x8000000000000007)) = m'"
    unfolding m' m3_def m2_def m1_def using d m by (intro ext) auto
  then show ?thesis
    using t e(2) f by (simp add: map_user_page_def PAGE_SIZE_def demo_index user_pg_table 1 2 3 write_entry_def Let_def)
qed

lemma heap_map_user_page: "map_user_page (user_pg heap_tables 5) 0x2000 0x400000 0x3000 read_write = (user_pg user_tables 8, ok_unit)"
  by (rule user_map_new [OF _ _ _ user_pool_allocates(6,7,8)]) (auto simp: heap_tables_def user_tables_def demo_table ADDRESS_MASK_def)

lemma heap_physical: "kernel_physical (user_pg heap_tables 5) 0xffff900000000000 = 0x3000"
proof -
  have "leaf_table (user_pg heap_tables 5) 0x101000 0xffff900000000000 = Some 0x106000"
    by (simp add: leaf_table_def read_entry_def heap_index user_pg_table demo_table heap_tables_def entry_eval)
  then have "translate_virt (user_pg heap_tables 5) 0xffff900000000000 = Some 0x3000"
    by (simp add: translate_virt_def read_entry_def heap_index heap_tables_def entry_eval PAGE_SIZE_def)
  then show ?thesis by (simp add: kernel_physical_def translate_kernel_address_def)
qed

declare commit_loop.simps [simp del]

lemma heap_commit: "commit_range (user_pg (\<lambda>_ _. 0) 1) 0xffff900000000000 0 0x1000 read_write = (user_pg heap_tables 5, Inr 1)"
proof -
  have "commit_loop 0xffff900000000000 0 0x1000 (page_flags_from_protection read_write) (user_pg heap_tables 5) 0x1000 1 = (user_pg heap_tables 5, Inr 1)"
    by (subst commit_loop.simps) simp
  moreover have "allocate_physical_frame (user_pg (\<lambda>_ _. 0) 1) = (user_pg (\<lambda>_ _. 0) 2, Inr 0x3000)"
    by (simp only: allocate_physical_frame_def user_pg_simps user_pool_allocates) simp
  moreover have "saturating_add 0 PAGE_SIZE = (0x1000 :: u64)" "saturating_add 0 1 = (1 :: u64)" by code_simp+
  ultimately show ?thesis
    by (simp add: commit_range_def PAGE_SIZE_def) (subst commit_loop.simps, simp add: checked_add64_def heap_map_page PAGE_SIZE_def)
qed

definition demo_backing :: "u64 \<Rightarrow> BackingStore" where
  "demo_backing pages = BsVirtual (unat KERNEL_HEAP_BASE) (unat KERNEL_HEAP_RESERVED_BYTES) (unat (pages * 0x1000)) (unat pages)"

definition demo_kernel :: "Paging \<Rightarrow> u64 \<Rightarrow> MemoryManager \<Rightarrow> (nat \<Rightarrow> u8) \<Rightarrow> KernelMemory" where
  "demo_kernel pg pages mm f = \<lparr>km_paging = pg,
     km_layout = Some \<lparr>hl_base = KERNEL_HEAP_BASE, hl_reserved_bytes = KERNEL_HEAP_RESERVED_BYTES, hl_committed_bytes = pages * 0x1000, hl_frame_count = pages\<rparr>,
     km_manager = mm\<lparr>mm_backing := demo_backing pages\<rparr>, km_bytes = f\<rparr>"

lemma demo_kernel_simps [simp]:
  "km_paging (demo_kernel pg pages mm f) = pg" "km_bytes (demo_kernel pg pages mm f) = f" "km_manager (demo_kernel pg pages mm f) = mm\<lparr>mm_backing := demo_backing pages\<rparr>"
  "(demo_kernel pg pages mm f)\<lparr>km_paging := pg'\<rparr> = demo_kernel pg' pages mm f" "(demo_kernel pg pages mm f)\<lparr>km_bytes := f'\<rparr> = demo_kernel pg pages mm f'"
  "(demo_kernel pg pages mm f)\<lparr>km_manager := mm'\<lparr>mm_backing := demo_backing pages\<rparr>\<rparr> = demo_kernel pg pages mm' f"
  by (simp_all add: demo_kernel_def)

lemma demo_ensure:
  assumes c: "commit_range (user_pg m n) 0xffff900000000000 (p * 0x1000) (q * 0x1000) read_write = (user_pg m' n', Inr 1)" and n: "n \<le> 14"
    and pq: "p = 0 \<and> q = 1 \<or> p = 1 \<and> q = 2"
  shows "ensure_backing (demo_kernel (user_pg m n) p mm f) (unat (p * 0x1000)) 4096 read_write = (demo_kernel (user_pg m' n') q mm f, ok_unit)"
proof -
  have al: "align_up 4096 4096 = Some 4096" "align_up 8192 4096 = Some 8192" "checked_add 0 4096 = Some 4096" "checked_add 4096 4096 = Some 8192"
    "heap_align_up 0 = Some 0" "heap_align_up 0x1000 = Some 0x1000" "heap_align_up 0x2000 = Some 0x2000" "saturating_add 0 1 = (1 :: u64)" "saturating_add 1 1 = (2 :: u64)"
    by code_simp+
  have "physical_allocator_initialized (user_pg m n)" "frame_backed_mapping_enabled (user_pg m n)"
    using user_pool_state [OF n] by (simp_all add: physical_allocator_initialized_def frame_backed_mapping_enabled_def)
  then show ?thesis
    using pq c by (elim disjE conjE; simp add: ensure_backing_def demo_kernel_def demo_backing_def heap_constants grow_committed_def al Let_def)
qed

definition clone_tables :: table_mem where
  "clone_tables = user_tables(0x10a000 := (\<lambda>_. 0)(288 := 0x4003))"

lemma create_tables:
  assumes al: "allocate_frame (user_pool n) = (user_pool k, Inr \<lparr>pf_start = a\<rparr>)" and t: "table_for_physical demo_paging a = t" "t \<noteq> 0x101000"
  shows "create_user_address_space (user_pg m n) = (user_pg (m(t := \<lambda>i. if 256 \<le> i \<and> i < ENTRY_COUNT then m 0x101000 i else 0)) k, Inr a)"
proof -
  have "allocate_physical_frame (user_pg m n) = (user_pg m k, Inr a)" by (simp add: allocate_physical_frame_def al)
  then show ?thesis
    using copy_entries [of t "user_pg (m(t := \<lambda>_. 0)) k" "[256..<ENTRY_COUNT]"] t
    by (simp add: create_user_address_space_def fill_zero_def user_pg_table Let_def cong: if_cong)
qed

lemma create_first: "create_user_address_space (user_pg (\<lambda>_ _. 0) 0) = (user_pg (\<lambda>_ _. 0) 1, Inr 0x2000)"
proof -
  have "(\<lambda>_ _. 0)(t := \<lambda>i. if 256 \<le> i \<and> i < ENTRY_COUNT then 0 else 0) = ((\<lambda>_ _. 0) :: table_mem)" for t by (intro ext) simp
  then show ?thesis using create_tables [OF user_pool_allocates(1) refl, of "\<lambda>_ _. 0"] by (simp add: demo_table)
qed

lemma create_second: "create_user_address_space (user_pg user_tables 8) = (user_pg clone_tables 9, Inr 0xa000)"
proof -
  have "user_tables 0x101000 = (\<lambda>_. 0)(288 := 0x4003)" by (simp add: user_tables_def heap_tables_def)
  then have "(\<lambda>i. if 256 \<le> i \<and> i < ENTRY_COUNT then user_tables 0x101000 i else 0) = (\<lambda>_. 0)(288 := 0x4003)" by (intro ext) (simp add: ENTRY_COUNT_def)
  then show ?thesis using create_tables [OF user_pool_allocates(9) refl, of user_tables] by (simp add: demo_table clone_tables_def)
qed

definition two_tables :: table_mem where
  "two_tables = clone_tables(0x106000 := (\<lambda>_. 0)(0 := 0x8000000000003103, 1 := 0x800000000000b103))"

lemma clone_lookups:
  "clone_tables 0x101000 288 = 0x4003" "clone_tables 0x104000 0 = 0x5003" "clone_tables 0x105000 0 = 0x6003" "clone_tables 0x106000 = (\<lambda>_. 0)(0 := 0x8000000000003103)"
  by (simp_all add: clone_tables_def user_tables_def heap_tables_def)

lemma clone_map_page:
  "map_page (user_pg clone_tables 10) 0xffff900000001000 0xb000 (page_flags_from_protection read_write) = (user_pg two_tables 10, ok_unit)"
proof -
  have "next_table (user_pg clone_tables 10) (pg_translator demo_paging) 0x101000 288 = (user_pg clone_tables 10, Inr 0x104000)"
    "next_table (user_pg clone_tables 10) (pg_translator demo_paging) 0x104000 0 = (user_pg clone_tables 10, Inr 0x105000)"
    "next_table (user_pg clone_tables 10) (pg_translator demo_paging) 0x105000 0 = (user_pg clone_tables 10, Inr 0x106000)"
    using kernel_next_old [of clone_tables "0x101000" 288 "0x4003" "0x4000" "0x104000" 10] kernel_next_old [of clone_tables "0x104000" 0 "0x5003" "0x5000" "0x105000" 10]
      kernel_next_old [of clone_tables "0x105000" 0 "0x6003" "0x6000" "0x106000" 10] by (simp_all add: clone_lookups entry_eval)
  moreover have "(0xb000 AND ADDRESS_MASK) OR ensure_present (page_flags_from_protection read_write) = 0x800000000000b103"
    by (simp add: entry_eval ensure_present_def page_flags_from_protection_def read_write_def protection_new_def)
  ultimately show ?thesis
    using page_flags_supported
    by (simp add: map_page_def validate_page_alignment_def PAGE_SIZE_def map_page_inner_def heap_index write_entry_def clone_lookups two_tables_def)
qed

lemma clone_commit: "commit_range (user_pg clone_tables 9) 0xffff900000000000 0x1000 0x2000 read_write = (user_pg two_tables 10, Inr 1)"
proof -
  have "commit_loop 0xffff900000000000 0x1000 0x2000 (page_flags_from_protection read_write) (user_pg two_tables 10) 0x2000 1 = (user_pg two_tables 10, Inr 1)"
    by (subst commit_loop.simps) simp
  moreover have "allocate_physical_frame (user_pg clone_tables 9) = (user_pg clone_tables 10, Inr 0xb000)"
    by (simp only: allocate_physical_frame_def user_pg_simps user_pool_allocates) simp
  moreover have "saturating_add 0x1000 PAGE_SIZE = (0x2000 :: u64)" "saturating_add 0 1 = (1 :: u64)" by code_simp+
  ultimately show ?thesis
    by (simp add: commit_range_def PAGE_SIZE_def) (subst commit_loop.simps, simp add: checked_add64_def clone_map_page PAGE_SIZE_def)
qed

abbreviation demo_block :: "ProcessId \<Rightarrow> nat \<Rightarrow> AllocationRecord" where
  "demo_block owner offset \<equiv> \<lparr>ar_owner = owner, ar_offset = offset, ar_size = 4096, ar_kind = AkMapping, ar_protection = read_write\<rparr>"

definition demo_manager :: "nat \<Rightarrow> AllocationRecord slots \<Rightarrow> MemoryManager" where
  "demo_manager n slots = (mm_new 0 0 3)\<lparr>mm_bump_offset := n, mm_allocations := slots, mm_allocated_bytes := n, mm_peak_bytes := n\<rparr>"

lemma demo_reserve:
  "reserve ((demo_manager 0 [None, None, None])\<lparr>mm_backing := demo_backing 0\<rparr>) 4096 4096 =
    ((demo_manager 0 [None, None, None])\<lparr>mm_bump_offset := 4096, mm_backing := demo_backing 0\<rparr>, Inr 0)"
  "reserve ((demo_manager 4096 [Some (demo_block 7 0), None, None])\<lparr>mm_backing := demo_backing 1\<rparr>) 4096 4096 =
    ((demo_manager 4096 [Some (demo_block 7 0), None, None])\<lparr>mm_bump_offset := 8192, mm_backing := demo_backing 1\<rparr>, Inr 4096)"
  by code_simp+

abbreviation demo_region :: "ProcessId \<Rightarrow> nat \<Rightarrow> MappedRegion" where
  "demo_region owner ptr \<equiv>
     \<lparr>mr_owner = owner, mr_ptr = ptr, mr_length = 4096, mr_requested = 4096, mr_protection = read_write, mr_kind = AkMapping\<rparr>"

lemma demo_mmap:
  assumes r: "reserve ((demo_manager n slots)\<lparr>mm_backing := demo_backing p\<rparr>) 4096 4096 =
      ((demo_manager n slots)\<lparr>mm_bump_offset := n + 4096, mm_backing := demo_backing p\<rparr>, Inr n)"
    and b: "ensure_backing (demo_kernel pg p ((demo_manager n slots)\<lparr>mm_bump_offset := n + 4096\<rparr>) f) n 4096 read_write =
      (demo_kernel pg' q ((demo_manager n slots)\<lparr>mm_bump_offset := n + 4096\<rparr>) f, ok_unit)"
    and s: "free_slot slots = Some i" and n: "n \<le> 4096"
  shows "mmap_for (demo_kernel pg p (demo_manager n slots) f) owner 4096 read_write =
    (demo_kernel pg' q (demo_manager (n + 4096) (slots[i := Some (demo_block owner n)])) f, Inr (demo_region owner (0xffff900000000000 + n)))"
proof -
  have al: "align_up 4096 4096 = Some 4096" by code_simp
  have set: "(demo_kernel pg p mm f)\<lparr>km_manager := mm'\<lparr>mm_bump_offset := k, mm_backing := demo_backing p\<rparr>\<rparr> = demo_kernel pg p (mm'\<lparr>mm_bump_offset := k\<rparr>) f" for mm mm' k
    by (simp add: demo_kernel_def)
  show ?thesis
    using n by (simp add: mmap_for_def al place_allocation_def r set b record_allocation_def s update_stats_on_alloc_def Let_def ptr_for_offset_def)
      (simp add: demo_manager_def demo_kernel_def demo_backing_def base_address_def heap_constants s)
qed

definition demo_users :: UserMemory where
  "demo_users = us_boot (demo_kernel (user_pg (\<lambda>_ _. 0) 0) 0 (demo_manager 0 [None, None, None]) (\<lambda>_. 0)) 2 2"

lemma demo_users_backed: "heap_backed {} 0 (demo_kernel (user_pg (\<lambda>_ _. 0) 0) 0 (demo_manager 0 [None, None, None]) (\<lambda>_. 0))"
proof -
  have e: "page_entry (user_pg (\<lambda>_ _. 0) 0) t va = 0" for t va by (simp add: page_entry_def leaf_entry_def va_path_def)
  have new: "demo_manager 0 [None, None, None] = mm_new 0 0 3" by (simp add: demo_manager_def mm_new_def numeral_3_eq_3)
  then have "mm_ok ((demo_manager 0 [None, None, None])\<lparr>mm_backing := demo_backing 0\<rparr>)"
    by (simp add: demo_backing_def mm_ok_def mm_new_def free_table_def live_bytes_def free_bytes_def mm_capacity_def base_address_def heap_constants)
  then show ?thesis
    using user_pg_ok by (simp add: heap_backed_def backed_def absent_def e) (simp add: demo_kernel_def new demo_backing_def mm_new_def live_bytes_def)
qed

abbreviation demo_record :: "ProcessId \<Rightarrow> u64 \<Rightarrow> nat \<Rightarrow> UserMappingRecord" where
  "demo_record owner root ptr \<equiv>
     \<lparr>um_owner = owner, um_root = root, um_user_start = 0x400000, um_kernel_start = ptr, um_length = 4096, um_protection = read_write\<rparr>"

lemma demo_mmap_user:
  assumes k: "mmap_for km owner 4096 read_write = (demo_kernel (user_pg m n) q mm f, Inr (demo_region owner ptr))"
    and pa: "kernel_physical (user_pg m n) (word_of_nat ptr) = pa" and u: "map_user_page (user_pg m n) root 0x400000 pa read_write = (user_pg m' n', ok_unit)"
    and s: "root \<noteq> 0" "free_slot maps = Some i"
  shows "mmap_user_fixed \<lparr>us_kernel = km, us_spaces = sp, us_mappings = maps\<rparr> owner root 0x400000 4096 read_write =
    (\<lparr>us_kernel = demo_kernel (user_pg m' n') q mm f, us_spaces = sp, us_mappings = maps[i := Some (demo_record owner root ptr)]\<rparr>, Inr (demo_region owner ptr))"
proof -
  have al: "unat (align_up_u64 0x1000) = 4096" "checked_add64 0x400000 0x1000 = Some 0x401000" by code_simp+
  have "map_user_loop root 0x400000 ptr 4096 read_write (user_pg m' n') 4096 = (user_pg m' n', ok_unit)"
    by (subst map_user_loop.simps) simp
  then have "map_user_loop root 0x400000 ptr 4096 read_write (user_pg m n) 0 = (user_pg m' n', ok_unit)"
    using pa u by (subst map_user_loop.simps) simp
  then show ?thesis using s by (simp add: mmap_user_fixed_def PAGE_SIZE_def al k)
qed

abbreviation demo_owner :: "ProcessId \<Rightarrow> u64 \<Rightarrow> AddressSpace" where
  "demo_owner owner root \<equiv> \<lparr>sp_owner = owner, sp_root = root, sp_references = 1\<rparr>"

definition demo_mapped :: "(nat \<Rightarrow> u8) \<Rightarrow> UserMemory" where
  "demo_mapped f = \<lparr>us_kernel = demo_kernel (user_pg user_tables 8) 1 (demo_manager 4096 [Some (demo_block 7 0), None, None]) f,
     us_spaces = [Some (demo_owner 7 0x2000), None], us_mappings = [Some (demo_record 7 0x2000 0xffff900000000000), None]\<rparr>"

lemma demo_create_step: "user_exec demo_users (UeCreate 7) =
  \<lparr>us_kernel = demo_kernel (user_pg (\<lambda>_ _. 0) 1) 0 (demo_manager 0 [None, None, None]) (\<lambda>_. 0), us_spaces = [Some (demo_owner 7 0x2000), None], us_mappings = [None, None]\<rparr>"
  by (simp add: us_create_user_address_space_def demo_users_def us_boot_def create_first numeral_2_eq_2)

lemma demo_map_call: "mmap_user_fixed (user_exec demo_users (UeCreate 7)) 7 0x2000 0x400000 4096 read_write = (demo_mapped (\<lambda>_. 0), Inr (demo_region 7 0xffff900000000000))"
proof -
  have "ensure_backing (demo_kernel (user_pg (\<lambda>_ _. 0) 1) 0 ((demo_manager 0 [None, None, None])\<lparr>mm_bump_offset := 4096\<rparr>) (\<lambda>_. 0)) 0 4096 read_write =
    (demo_kernel (user_pg heap_tables 5) 1 ((demo_manager 0 [None, None, None])\<lparr>mm_bump_offset := 4096\<rparr>) (\<lambda>_. 0), ok_unit)"
    using demo_ensure [of "\<lambda>_ _. 0" 1 0 1] heap_commit by simp
  from demo_mmap [where n = 0 and slots = "[None, None, None]", simplified, OF demo_reserve(1) this] 
  have "mmap_for (demo_kernel (user_pg (\<lambda>_ _. 0) 1) 0 (demo_manager 0 [None, None, None]) (\<lambda>_. 0)) 7 4096 read_write =
    (demo_kernel (user_pg heap_tables 5) 1 (demo_manager 4096 [Some (demo_block 7 0), None, None]) (\<lambda>_. 0), Inr (demo_region 7 0xffff900000000000))" by simp
  from demo_mmap_user [OF this _ heap_map_user_page, of "[None, None]" 0 "[Some (demo_owner 7 0x2000), None]"] 
  show ?thesis unfolding demo_create_step demo_mapped_def using heap_physical by simp
qed

definition child_tables :: table_mem where
  "child_tables = two_tables(0x10a000 := (\<lambda>_. 0)(0 := 0xc007, 288 := 0x4003), 0x10c000 := (\<lambda>_. 0)(0 := 0xd007), 0x10d000 := (\<lambda>_. 0)(2 := 0xe007),
     0x10e000 := (\<lambda>_. 0)(0 := 0x800000000000b007))"

lemma clone_map_user_page: "map_user_page (user_pg two_tables 10) 0xa000 0x400000 0xb000 read_write = (user_pg child_tables 13, ok_unit)"
  by (rule user_map_new [OF _ _ _ user_pool_allocates(11,12,13)])
    (auto simp: two_tables_def clone_tables_def child_tables_def demo_table ADDRESS_MASK_def fun_upd_twist)

lemma clone_physical: "kernel_physical (user_pg two_tables 10) 0xffff900000001000 = 0xb000"
proof -
  have "leaf_table (user_pg two_tables 10) 0x101000 0xffff900000001000 = Some 0x106000"
    by (simp add: leaf_table_def read_entry_def heap_index user_pg_table two_tables_def clone_lookups entry_eval)
  then have "translate_virt (user_pg two_tables 10) 0xffff900000001000 = Some 0xb000"
    by (simp add: translate_virt_def read_entry_def heap_index two_tables_def entry_eval PAGE_SIZE_def)
  then show ?thesis by (simp add: kernel_physical_def translate_kernel_address_def)
qed

definition demo_cloned :: "(nat \<Rightarrow> u8) \<Rightarrow> UserMemory" where
  "demo_cloned f = \<lparr>us_kernel = copy_bytes (demo_kernel (user_pg child_tables 13) 2 (demo_manager 8192 [Some (demo_block 7 0), Some (demo_block 9 4096), None]) f)
       0xffff900000000000 0xffff900000001000 4096,
     us_spaces = [Some (demo_owner 7 0x2000), Some (demo_owner 9 0xa000)],
     us_mappings = [Some (demo_record 7 0x2000 0xffff900000000000), Some (demo_record 9 0xa000 0xffff900000001000)]\<rparr>"

lemma demo_clone_call: "clone_user_address_space (demo_mapped f) 9 0x2000 = (demo_cloned f, Inr 0xa000)"
proof -
  have cr: "us_create_user_address_space (demo_mapped f) 9 =
    (\<lparr>us_kernel = demo_kernel (user_pg clone_tables 9) 1 (demo_manager 4096 [Some (demo_block 7 0), None, None]) f,
      us_spaces = [Some (demo_owner 7 0x2000), Some (demo_owner 9 0xa000)], us_mappings = [Some (demo_record 7 0x2000 0xffff900000000000), None]\<rparr>, Inr 0xa000)"
    by (simp add: us_create_user_address_space_def demo_mapped_def create_second)
  have "ensure_backing (demo_kernel (user_pg clone_tables 9) 1 ((demo_manager 4096 [Some (demo_block 7 0), None, None])\<lparr>mm_bump_offset := 8192\<rparr>) f) 4096 4096 read_write =
    (demo_kernel (user_pg two_tables 10) 2 ((demo_manager 4096 [Some (demo_block 7 0), None, None])\<lparr>mm_bump_offset := 8192\<rparr>) f, ok_unit)"
    using demo_ensure [of clone_tables 9 1 2] clone_commit by simp
  from demo_mmap [where n = 4096 and slots = "[Some (demo_block 7 0), None, None]", simplified, OF demo_reserve(2) this]
  have "mmap_for (demo_kernel (user_pg clone_tables 9) 1 (demo_manager 4096 [Some (demo_block 7 0), None, None]) f) 9 4096 read_write =
    (demo_kernel (user_pg two_tables 10) 2 (demo_manager 8192 [Some (demo_block 7 0), Some (demo_block 9 4096), None]) f, Inr (demo_region 9 0xffff900000001000))" by simp
  from demo_mmap_user [OF this _ clone_map_user_page, of "[Some (demo_record 7 0x2000 0xffff900000000000), None]" 1] clone_physical
  show ?thesis by (simp add: clone_user_address_space_def cr demo_cloned_def)
qed

lemma demo_slice:
  "n \<le> 4096 \<Longrightarrow> 0 < n \<Longrightarrow> active_translated_slice (demo_mapped f) 0x2000 0x400000 n w = Some 0xffff900000000000"
  "n \<le> 4096 \<Longrightarrow> 0 < n \<Longrightarrow> active_translated_slice (demo_cloned f) 0x2000 0x400000 n w = Some 0xffff900000000000"
  "n \<le> 4096 \<Longrightarrow> 0 < n \<Longrightarrow> active_translated_slice (demo_cloned f) 0xa000 0x400000 n w = Some 0xffff900000001000"
proof -
  assume n: "n \<le> 4096" "0 < n"
  have "um_contains (demo_record owner root ptr) root 0x400000 n w" for owner root ptr
  proof -
    have u: "unat (word_of_nat n :: u64) = n" using n(1) by (simp only: unat_of_nat) simp
    then have "checked_add64 0x400000 (word_of_nat n) = Some (0x400000 + word_of_nat n)"
      using n(1) by (simp add: checked_add64_Some unat_word_ariths)
    moreover have "saturating_add 0x400000 0x1000 = (0x401000 :: u64)" by code_simp
    moreover have "0x400000 + word_of_nat n \<le> (0x401000 :: u64)" using u n(1) by (simp add: word_le_nat_alt unat_word_ariths)
    ultimately show ?thesis by (simp add: um_contains_def read_write_def protection_new_def)
  qed
  moreover have "\<not> um_contains (demo_record owner root ptr) root' 0x400000 n w" if "root \<noteq> root'" for owner root ptr root'
    using that by (simp add: um_contains_def)
  moreover have "saturating_sub 0x400000 0x400000 = (0 :: u64)" by code_simp
  ultimately show "active_translated_slice (demo_mapped f) 0x2000 0x400000 n w = Some 0xffff900000000000"
    "active_translated_slice (demo_cloned f) 0x2000 0x400000 n w = Some 0xffff900000000000"
    "active_translated_slice (demo_cloned f) 0xa000 0x400000 n w = Some 0xffff900000001000"
    using n(2) by (simp_all add: active_translated_slice_def demo_mapped_def demo_cloned_def)
qed

definition demo_bytes :: "nat \<Rightarrow> u8" where
  "demo_bytes = (\<lambda>a. if 0xffff900000000000 \<le> a \<and> a < 0xffff900000000003 then [1, 2, 3] ! (a - 0xffff900000000000) else 0)"

lemma demo_write: "copy_to_user (demo_mapped (\<lambda>_. 0)) 0x2000 0x400000 [1, 2, 3] = (demo_mapped demo_bytes, True)"
proof -
  have "(\<lambda>a. if 0xffff900000000000 \<le> a \<and> a < 0xffff900000000003 then [1, 2, 3] ! (a - 0xffff900000000000)
      else km_bytes (us_kernel (demo_mapped (\<lambda>_. 0))) a) = demo_bytes"
    by (simp add: demo_bytes_def demo_mapped_def cong: if_cong)
  then show ?thesis by (simp add: copy_to_user_def demo_slice) (simp add: demo_mapped_def)
qed

lemma demo_reachable:
  "user_reachable (user_exec demo_users (UeCreate 7))" "user_reachable (demo_mapped (\<lambda>_. 0))"
  "user_reachable (demo_mapped demo_bytes)" "user_reachable (demo_cloned demo_bytes)"
proof -
  have "user_reachable demo_users" unfolding demo_users_def by (rule booted [OF demo_users_backed])
  then show 0: "user_reachable (user_exec demo_users (UeCreate 7))" by (rule called) simp
  have root: "0x2000 \<in> us_roots (user_exec demo_users (UeCreate 7))" by (simp only: demo_create_step) (simp add: us_roots_def)
  have "user_reachable (user_exec (user_exec demo_users (UeCreate 7)) (UeMmap 7 0x2000 0x400000 4096 read_write))"
    using 0 by (rule called) (simp only: user_allowed.simps root)
  then show 1: "user_reachable (demo_mapped (\<lambda>_. 0))" using demo_map_call by (simp only: user_exec.simps fst_conv)
  from called [OF 1, of "UeWrite 0x2000 0x400000 [1, 2, 3]"] show 2: "user_reachable (demo_mapped demo_bytes)" by (simp add: demo_write)
  from called [OF 2, of "UeClone 9 0x2000"] show "user_reachable (demo_cloned demo_bytes)" by (simp add: demo_clone_call)
qed

lemma demo_roots: "us_roots (demo_mapped f) = {0x2000}"
  by (auto simp: us_roots_def demo_mapped_def)

end
