(* ===== verification/User_Access.thy ===== *)
theory User_Access
  imports User_Example
begin

text \<open>
  What the kernel may rely on when it maps, clones, reads and writes user memory: the theorems about
  every state that the calls of the module reach from boot.
\<close>

unbundle bit_operations_syntax

section \<open>What the kernel may rely on\<close>

lemma user_windows:
  assumes h: "heap_backed R n km" and r: "heap_block km ptr = Some r" "ar_size r = len" and p: "ptr mod 4096 = 0"
    and N: "len = 4096 * N" and va: "unat va + len \<le> 2 ^ 47" "va AND (PAGE_SIZE - 1) = 0"
  shows "window va N" "window (word_of_nat ptr) N"
proof -
  note d = heap_backedD [OF h]
  have small: "N \<le> 2 ^ 35" using N va(1) by simp
  show "window va N" using va N small by (simp add: window_def aligned_iff)
  have "mm_capacity (km_manager km) = unat KERNEL_HEAP_RESERVED_BYTES" by (rule heap_backed_layout [OF h]) (simp add: mm_capacity_def)
  then have lim: "ptr + len < 2 ^ 64" using heap_blockD(3) [OF d(2) r(1)] heap_base [OF h] r(2) by (simp add: heap_constants)
  then have "unat (word_of_nat ptr :: u64) = ptr" by (simp only: unat_of_nat) simp
  then show "window (word_of_nat ptr) N" using p lim N small by (simp add: window_def)
qed

lemma rounded_length: "unat (align_up_u64 l) \<le> 2 ^ 47 \<Longrightarrow> unat l \<le> unat (align_up_u64 l)"
proof -
  assume a: "unat (align_up_u64 l) \<le> 2 ^ 47"
  have "unat l + 4095 \<le> 2 ^ 64 - 1"
  proof (rule ccontr)
    assume "\<not> unat l + 4095 \<le> 2 ^ 64 - 1"
    then have "unat (align_up_u64 l) = (2 ^ 64 - 1) div 4096 * 4096" unfolding unat_align_up by (simp add: min_def)
    then show False using a by simp
  qed
  then have "unat (align_up_u64 l) = (unat l + 4095) div 4096 * 4096" unfolding unat_align_up by simp
  then show ?thesis by linarith
qed

lemma heap_byte_mapped:
  assumes h: "heap_backed R n km" and b: "heap_block km p = Some r" "a \<in> {p..<p + ar_size r}"
  obtains k where "k \<in> data_frames (km_paging km) R" "translate_virt (km_paging km) (word_of_nat a) = Some (frame_addr k + (word_of_nat a AND (PAGE_SIZE - 1)))"
proof -
  note d = heap_backedD [OF h] and w = heap_window [OF heap_backedD(3) [OF h]]
  obtain fr where fr: "\<And>i. i < n \<Longrightarrow> holds (km_paging km) KERNEL_HEAP_BASE i (fr i) \<and> fr i \<in> data_frames (km_paging km) R"
    using d(5) by (auto simp: backed_def)
  obtain s where s: "word_of_nat a = KERNEL_HEAP_BASE + s" "unat s < 4096 * n" by (rule block_offset [OF h b])
  have i: "unat s div 4096 < n" using s(2) by (simp add: div_less_iff_less_mult mult.commute)
  have k: "fr (unat s div 4096) < 2 ^ 40" using fr [OF i] data_frame_bound [OF d(1)] by blast
  from held_byte [OF w s(2) _ k d(1)] fr [OF i] window_byte(2) [OF w s(2)]
  show thesis unfolding s(1) by (intro that [of "fr (unat s div 4096)"]) (auto simp: s(1))
qed

text \<open>
  (C14) After any allowed run from boot (\<open>user_reachable\<close>), a successful \<open>mmap_user_fixed\<close> into a live address space maps the whole
  range: every user address of it translates to the physical byte behind the same offset of the returned
  kernel memory, for reading always and for writing exactly when the protection allows it. The
  length is the requested one rounded up to whole pages.
\<close>

theorem mmap_user_fixed_maps:
  assumes reach: "user_reachable us" and root: "root \<in> us_roots us" and len: "len < 2 ^ 64"
    and call: "mmap_user_fixed us owner root va len prot = (us', Inr mr)" and off: "off < mr_length mr"
  shows "len \<le> mr_length mr \<and> mr_length mr mod 4096 = 0 \<and>
    translate_virt (us_paging us') (word_of_nat (mr_ptr mr + off)) \<noteq> None \<and>
    translate_user_page (us_paging us') root (va + word_of_nat off) write =
      (if write \<and> \<not> prot_write prot then None else translate_virt (us_paging us') (word_of_nat (mr_ptr mr + off)))"
proof -
  have ok: "us_ok us" using reach by (rule user_reachable_ok)
  show ?thesis
    using ok root
  proof (cases rule: mmap_user_fixed_cases [where owner = owner and va = va and len = len and prot = prot, case_names fail mapped])
    case (fail km)
    then show ?thesis using call by simp
  next
    case (mapped km1 pg r idx m)
    have mr: "mr_ptr mr = um_kernel_start m" "mr_length mr = um_length m" and us': "us_paging us' = pg" using call mapped(1) by auto
    obtain n1 where n1: "heap_backed (us_roots us) n1 km1" using mapped(13) ..
    have rec: "unat va + um_length m \<le> 2 ^ 47" "va AND (PAGE_SIZE - 1) = 0" "um_length m mod 4096 = 0" "um_kernel_start m mod 4096 = 0"
      "\<exists>r. heap_block km1 (um_kernel_start m) = Some r \<and> ar_size r = um_length m" using mapped(7,10) by (auto simp: user_record_def)
    obtain N where N: "um_length m = 4096 * N" using rec(3) by fastforce
    obtain r where r: "heap_block km1 (um_kernel_start m) = Some r" "ar_size r = um_length m" using rec(5) by blast
    have ob: "off < 4096 * N" "unat (word_of_nat off :: u64) = off"
      using off mr(2) N rec(1) by simp (simp only: unat_of_nat, use off mr(2) rec(1) in simp)
    note wk = user_windows [OF n1 r rec(4) N rec(1,2)]
    have "um_kernel_start m + off \<in> {um_kernel_start m..<um_kernel_start m + ar_size r}" using off mr(2) r(2) by simp
    then have here: "translate_virt (km_paging km1) (word_of_nat (um_kernel_start m) + word_of_nat off) \<noteq> None"
      using heap_byte_mapped [OF n1 r(1)] by (metis of_nat_add option.distinct(1))
    note vm = heap_backedD(1) [OF n1]
    have um: "user_mapped (us_roots us) (km_paging km1) root va (um_kernel_start m) prot 0 N pg"
      using map_user_loop_mapped [OF vm root wk(1) _ le0, of "um_kernel_start m" prot pg] mapped(14) rec(1) N by simp
    have "unat (word_of_nat off :: u64) < 4096 * N" using ob by simp
    from user_mapped_byte [OF um vm root wk(1) _ wk(2) this here, of "write"] rec(1) N
    have "translate_user_page pg root (va + word_of_nat off) write =
      (if write \<and> \<not> prot_write prot then None else translate_virt pg (word_of_nat (um_kernel_start m) + word_of_nat off))" by simp
    moreover have "translate_virt pg = translate_virt (km_paging km1)" using um by (simp add: user_mapped_def)
    moreover have "len \<le> um_length m" using rounded_length [of "word_of_nat len"] len mapped(11) rec(1) by (simp add: unat_of_nat)
    ultimately show ?thesis using here rec(3) unfolding us' mr by simp
  qed
qed

lemma mmap_user_fixed_maps_witness:
  "translate_user_page (user_pg user_tables 8) 0x2000 (0x400000 + word_of_nat 5) True = translate_virt (user_pg user_tables 8) (word_of_nat (0xffff900000000000 + 5)) \<and>
   translate_virt (user_pg user_tables 8) (word_of_nat (0xffff900000000000 + 5)) \<noteq> None"
proof -
  have root: "0x2000 \<in> us_roots (user_exec demo_users (UeCreate 7))" by (simp only: demo_create_step) (simp add: us_roots_def)
  show ?thesis
    using mmap_user_fixed_maps [OF demo_reachable(1) root _ demo_map_call, of 5 True]
    by (simp add: demo_mapped_def read_write_def protection_new_def)
qed

text \<open>
  (C13) A copy to user memory is read back unchanged, unless it went behind a read-only range. After any
  allowed run from boot (\<open>user_reachable\<close>), when \<open>copy_to_user\<close> reports success, \<open>copy_from_user\<close> at the
  same address returns exactly the bytes that were written; only when the first record of the root that
  covers the range is read-only, so that the write went to a later record of an overlapping range, it
  returns what it returned before. Every range of that root that does not meet the written one still
  reads what it read before. Lengths are machine words.
\<close>

theorem user_copy_roundtrip:
  assumes reach: "user_reachable us" and len: "length xs < 2 ^ 64" "len < 2 ^ 64"
    and call: "copy_to_user us root ptr xs = (us', True)"
    and apart: "unat ptr + length xs \<le> unat q \<or> unat q + len \<le> unat ptr"
  shows "copy_from_user us' root ptr (length xs) =
      (if read_only_first us root ptr (length xs) then copy_from_user us root ptr (length xs) else Some xs) \<and>
    copy_from_user us' root q len = copy_from_user us root q len"
proof -
  have ok: "us_ok us" using reach by (rule user_reachable_ok)
  have "copy_from_user us' root q len = copy_from_user us root q len"
    using disjoint_ranges_bytes [OF ok _ len(1) _ len(2)] apart by (intro copy_from_user_frame [OF ok call len]) auto
  then show ?thesis using read_back [OF ok len(1) call] by blast
qed

lemma user_copy_roundtrip_witness:
  "copy_from_user (demo_mapped demo_bytes) 0x2000 0x400000 3 = Some [1, 2, 3] \<and>
   copy_from_user (demo_mapped demo_bytes) 0x2000 0x400003 5 = copy_from_user (demo_mapped (\<lambda>_. 0)) 0x2000 0x400003 5"
proof -
  have "\<not> read_only_first (demo_mapped (\<lambda>_. 0)) 0x2000 0x400000 3"
    by (simp add: read_only_first_def user_ranges_def demo_mapped_def read_write_def protection_new_def)
  then show ?thesis using user_copy_roundtrip [OF demo_reachable(2) _ _ demo_write, of 5 "0x400003"] by (simp add: numeral_3_eq_3)
qed

text \<open>
  (C7) Address spaces are isolated. After any allowed run from boot (\<open>user_reachable\<close>) that creates,
  shares, clones and destroys address spaces, maps ranges, writes to them, uses the heap and ends
  processes, a copy to user memory of one root, successful or not, never changes what a copy from the
  user memory of another root returns. Allowed runs map only into live roots, do not unmap the memory
  behind a user mapping by its kernel address, and end a process only when it shares no address space
  and maps only into its own. Without the last condition the statement is false, because
  \<open>release_process\<close> then frees blocks that are still mapped.
\<close>

theorem user_copy_isolated:
  assumes reach: "user_reachable us" and roots: "root \<noteq> root'" and len: "length xs < 2 ^ 64" "len < 2 ^ 64"
    and call: "copy_to_user us root ptr xs = (us', res)"
  shows "copy_from_user us' root' q len = copy_from_user us root' q len"
proof -
  have ok: "us_ok us" using reach by (rule user_reachable_ok)
  show ?thesis
    using disjoint_ranges_bytes [OF ok _ len(1) _ len(2)] roots by (intro copy_from_user_frame [OF ok call len]) auto
qed

lemma user_copy_isolated_witness:
  "snd (copy_to_user (demo_cloned demo_bytes) 0x2000 0x400000 [9]) \<and>
   copy_from_user (fst (copy_to_user (demo_cloned demo_bytes) 0x2000 0x400000 [9])) 0xa000 0x400000 3 = Some [1, 2, 3]"
proof -
  have "copy_from_user (demo_cloned demo_bytes) 0xa000 0x400000 3 = Some [1, 2, 3]"
    by (simp add: copy_from_user_def demo_slice) (simp add: demo_cloned_def demo_bytes_def copy_bytes_def upt_rec)
  then show ?thesis
    using user_copy_isolated [OF demo_reachable(4) _ _ _ prod.collapse [symmetric], of "0x2000" "0xa000" "[9]" 3 "0x400000" "0x400000"]
    by (simp add: copy_to_user_def demo_slice)
qed

text \<open>
  (C8) A clone is a copy. After any allowed run from boot (\<open>user_reachable\<close>), when \<open>clone_user_address_space\<close> succeeds for a parent
  root, the new root is none of the live ones, every range of the child reads exactly what the
  same range of the parent read before, and every other root, the parent included, reads what it read before.
\<close>

theorem clone_copies_contents:
  assumes reach: "user_reachable us" and parent: "parent \<noteq> 0" and call: "clone_user_address_space us owner parent = (us', Inr child)"
    and len: "len < 2 ^ 64" and other: "root \<in> us_roots us"
  shows "child \<notin> us_roots us \<and> us_roots us' = insert child (us_roots us) \<and>
    copy_from_user us' child q len = copy_from_user us parent q len \<and> copy_from_user us' root q len = copy_from_user us root q len"
proof -
  have ok: "us_ok us" using reach by (rule user_reachable_ok)
  obtain us1 where c: "us_create_user_address_space us owner = (us1, Inr child)"
    and m: "clone_mappings owner parent child us1 (us_mappings us1) = (us', ok_unit)"
    using call parent by (auto simp: clone_user_address_space_def and_then_eq_Inr)
  note cr = us_create_ok [OF ok c] and roots = us_create_ok(5) [OF ok c refl]
  let ?b = "\<lambda>us. km_bytes (us_kernel us)"
  have none: "user_ranges us1 child = []"
    using us_okD(3) [OF ok] roots by (auto simp: user_ranges_def cr(2) filter_empty_conv user_records_def user_record_def)
  then have "in_front (\<lambda>m. um_root m = child) (us_mappings us1)"
    unfolding in_front_def user_ranges_def by (intro exI [of _ "[]"] exI [of _ "us_mappings us1"]) simp
  then have cl: "cloned child us1 (filter (\<lambda>m. um_root m = parent) (slot_values (us_mappings us1))) us'"
    using roots by (intro clone_mappings_cloned [OF cr(1) _ _ _ m]) auto
  then have ok': "us_ok us'" and r': "us_roots us' = insert child (us_roots us)" using roots by (auto simp: cloned_def)
  have "list_all2 (copied (?b us) (?b us')) (user_ranges us parent) (user_ranges us' child)"
    using cl none by (auto simp: cloned_def user_ranges_def cr(2,3))
  from copied_reads [OF ok ok' len this] have new: "copy_from_user us' child q len = copy_from_user us parent q len" .
  have "user_ranges us' root = user_ranges us root" using cl other roots by (auto simp: cloned_def user_ranges_def cr(2))
  moreover have "copied (?b us) (?b us') m m" if "m \<in> set (user_ranges us root)" for m
    using cl that by (auto simp: copied_def cloned_def user_ranges_def cr(2,3))
  ultimately have "list_all2 (copied (?b us) (?b us')) (user_ranges us root) (user_ranges us' root)" by (simp add: list_all2_same)
  from copied_reads [OF ok ok' len this] new show ?thesis using roots r' by blast
qed

lemma clone_copies_contents_witness:
  "copy_from_user (demo_cloned demo_bytes) 0xa000 0x400000 3 = copy_from_user (demo_mapped demo_bytes) 0x2000 0x400000 3 \<and>
   copy_from_user (demo_cloned demo_bytes) 0x2000 0x400000 3 = copy_from_user (demo_mapped demo_bytes) 0x2000 0x400000 3 \<and>
   copy_from_user (demo_mapped demo_bytes) 0x2000 0x400000 3 = Some [1, 2, 3]"
proof -
  have "copy_from_user (demo_mapped demo_bytes) 0x2000 0x400000 3 = Some [1, 2, 3]"
    by (simp add: copy_from_user_def demo_slice) (simp add: demo_mapped_def demo_bytes_def upt_rec)
  then show ?thesis
    using clone_copies_contents [OF demo_reachable(3) _ demo_clone_call, of 3 "0x2000" "0x400000"] by (simp add: demo_roots)
qed

end
