(* ===== verification/Spec2Isabelle.thy ===== *)
theory Spec2Isabelle
  imports Security_Policy Message_Queue Mirage_Cap Futex Timer Boot_Memory Mtss_Scheduling Core_Mtss User_Access
begin

text \<open>
  \<^bold>\<open>Mirage: a verification library.\<close>

  Mirage is a capability-based microkernel in Rust. This library models the parts of it that decide
  who may do what, who runs and who owns memory, as functions of Isabelle/HOL that follow the
  source statement by statement, and proves what clients rely on.

  \<^bold>\<open>How the code is translated.\<close> A struct is a record, an enum a datatype, and a method
  \<open>fn f(&mut self, x) -> Result<T, E>\<close> a function from the state and \<open>x\<close> to the new state and a value
  of \<open>E + T\<close> (\<open>op_result\<close> of \<open>Prelude\<close>); the \<open>?\<close> operator is \<open>and_then\<close>, which keeps the state
  changes made before the error. An array \<open>[Option<T>; N]\<close> is a list of options (\<open>slots\<close> of
  \<open>Slot_Table\<close>) whose length is \<open>N\<close>, a parameter of the constructor; loops over such arrays are
  the searches of that theory or recursive functions over the indices. Integers of fixed width are
  words; \<open>saturating_add\<close> and its relatives are defined in \<open>Prelude\<close>. Indices and \<open>usize\<close> counters
  are natural numbers where the code keeps them below an array length. Methods that only read a
  field are record selectors. Locks are not modelled: each method runs under one lock, so a run of
  the system is a sequence of method calls, and the properties about runs quantify over all
  sequences, failing calls included.

  \<^bold>\<open>Parts and theories.\<close>

  \<^item> Security broker, \<open>src/src/subkernel/mod.rs\<close>. \<open>Security_Labels\<close>: labels, classes, rights,
    credentials. \<open>Security_Kernel\<close>: the task and capability tables and every method of
    \<open>SecurityKernel\<close>. \<open>Security_Policy\<close>: the invariant over all reachable states; capability
    transfers create no authority; chains of spawns do not escalate; revoked tasks are isolated; the
    exact decisions for IPC; exact effects of transfer, derivation and revocation. \<open>register_task\<close> and \<open>revoke_task\<close> interpret the table interface \<open>keyed_table\<close>.
  \<^item> Message queues, \<open>src/src/kernel/ipc.rs\<close>. \<open>Ring_Queue\<close> has the index arithmetic of ring buffers
    and the interfaces \<open>bounded_queue\<close> and \<open>rollback_queue\<close>; \<open>Message_Queue\<close> interprets both and
    refines a bounded list, where a run continues from the queue that each call leaves, refused or not.
  \<^item> Capability sets of driver services, \<open>src/crates/mirage-cap/src/lib.rs\<close>: \<open>Mirage_Cap\<close>.
  \<^item> Futex table, \<open>src/src/kernel/futex.rs\<close>: \<open>Futex\<close>, one waiter per thread, exact wake-ups.
  \<^item> Timers and sleeps, \<open>src/src/kernel/timer.rs\<close> and the loops of \<open>src/src/kernel/mod.rs\<close> that
    drain them: \<open>Timer\<close>. The id search of \<open>allocate_timer_id\<close> may run forever in principle; it is a
    \<open>partial_function\<close>, and \<open>tm_run_returns\<close> and \<open>create_timer_fresh\<close> prove that it returns. The
    drain loops have fuel; one call more than there are slots is enough.
  \<^item> Physical memory, \<open>src/src/kernel/memory/frame_allocator.rs\<close> with the boot information of
    \<open>src/src/arch/x86_64/boot.rs\<close> and the address translator of \<open>paging.rs\<close>. \<open>Frame_Allocator\<close>:
    every method, frames have one owner, exact errors of \<open>free_frame\<close>. \<open>Boot_Memory\<close>: after a
    successful boot every frame handed out lies in usable memory outside all boot-owned ranges.
  \<^item> Page tables, \<open>src/src/arch/x86_64/paging.rs\<close>. \<open>Paging\<close>: every function, over an explicit store
    of table entries. \<open>Page_Walk\<close>: tables as paths that form a forest. \<open>Address_Spaces\<close>: the
    invariant \<open>vm_ok\<close> over the live user roots, kept by every operation; the two functions that build
    missing tables share the locale \<open>table_step\<close>. \<open>Virtual_Memory\<close>: each operation refines an update
    of an abstract view with one translation for each address space. \<open>Memory_Types\<close> has the
    protections that these theories, the broker and the heap share.
  \<^item> Kernel heap, \<open>MemoryManager\<close> of \<open>src/src/kernel/memory.rs\<close> and
    \<open>src/src/kernel/memory/heap.rs\<close>. \<open>Heap_Regions\<close> and \<open>Heap_Safety\<close>: the free list and the bump
    pointer, and that blocks stay disjoint. \<open>Kernel_Heap\<close>: allocation, reallocation, mapping and the
    commitment of heap pages. \<open>Heap_Allocation\<close>: what callers get from each call. \<open>Heap_Backing\<close>:
    committing pages is all or nothing. \<open>Mapped_Heap\<close>: every live block lies on frames of its own.
  \<^item> User memory, the address space and mapping tables of \<open>src/src/kernel/memory.rs\<close>.
    \<open>User_Memory\<close>: creating, sharing, cloning and destroying address spaces, fixed mappings, process
    exit, and the copies between kernel and user memory. \<open>User_Spaces\<close>: the invariant \<open>us_ok\<close>, which
    says that behind every mapping record there is a heap block of its own, and that every call keeps it.
    \<open>User_Example\<close>: a run computed from the definitions. \<open>User_Access\<close>: address spaces are
    isolated, a clone reads as its parent, written bytes are read back, and a mapping covers its range.
  \<^item> MTSS scheduler, \<open>src/crates/mirage-mtss/src\<close>. \<open>Mtss_Types\<close>: life cycles, statistics, events,
    process records and scheduler modules (\<open>lib.rs\<close>, \<open>scheduler_modules.rs\<close>). \<open>Run_Queue\<close>: the run
    queue (\<open>run_queue.rs\<close>), which interprets \<open>bounded_queue\<close> as long as nothing is removed from its
    middle. \<open>Mtss\<close>: every method of the scheduler (\<open>mtss.rs\<close>). \<open>Mtss_Invariant\<close>: all of them keep
    the tables consistent. \<open>Mtss_Scheduling\<close>: picking a thread cannot fail, terminated tasks never
    run, blocked threads wait, yields are round robin, preemptive ticks give each thread its time
    slice in turn, the event ring loses only old events.
  \<^item> MTSS task core, \<open>src/crates/mirage-mtss/src/task_core.rs\<close>: \<open>Core_Mtss\<close>, unique thread ids, at
    most one running thread, exact scheduling decisions and spawn conditions, round robin under timer ticks. Its
    invariant needs fewer than \<open>2\<^sup>6\<^sup>4 - 1\<close> operations, because thread ids saturate there.

  \<^bold>\<open>How the parts fit.\<close> The kernel asks the broker before it delivers a message, maps memory or
  starts a program; delivered messages wait in the message queue of the receiver; threads that wait
  are parked in the futex table or among the sleeps and come back through the drain loops; the
  scheduler decides who runs; frames back every mapping. \<open>Boot_Memory\<close> composes the boot sequence
  with all later allocations. \<open>Mapped_Heap\<close> composes the frame allocator, the page tables and the
  heap, and \<open>User_Access\<close> adds the user tables on top: its theorems speak about runs of all four.

  \<^bold>\<open>Assumptions of the memory theorems.\<close> They start from any state that satisfies the invariant, such as
  the boot state with an empty heap. The theorems of \<open>User_Access\<close> speak about \<open>user_reachable\<close>
  states: \<open>user_exec\<close> runs every call as the code does, and \<open>user_allowed\<close> says which calls a run may
  contain. A range is mapped only into a live root; the memory behind a user mapping is not unmapped by its
  kernel address; a process exits only when it shares no address space and maps only into its own
  (\<open>may_exit\<close>), because otherwise the code frees memory that is still mapped.
  Lengths are below \<open>2\<^sup>6\<^sup>4\<close>, as the type \<open>usize\<close> says. The loops over pages terminate because
  their offsets grow by a page; no fuel is needed.

  \<^bold>\<open>Behaviour worth knowing.\<close> Some theorems state what the code does where it may not be what it
  means to do: \<open>revocation_not_transitive\<close> in \<open>Security_Policy\<close>,
  \<open>enqueue_after_remove_loses_record\<close> in \<open>Run_Queue\<close>, \<open>requeue_full_loses_current\<close> and
  \<open>enqueue_current_breaks_tick\<close> in \<open>Mtss_Scheduling\<close>, \<open>schedule_full_loses_current\<close>,
  \<open>failed_spawn_keeps_slots\<close> and \<open>retried_init_repeats_task_id\<close> in \<open>Core_Mtss\<close>.

  \<^bold>\<open>Not modelled.\<close> Code whose effect is decided by hardware (drivers, interrupt and descriptor
  tables, consoles, the translation cache of the processor), host-side build tools and generated tables; the system-call layer of
  \<open>src/src/kernel/mod.rs\<close> that connects the parts, beyond the drain loops; the ELF loader, the file
  systems and block layer, the boot phases, the supervisor and the user-space service manager.
\<close>

end
